(* ===== verification/Prelude.thy ===== *)
theory Prelude
  imports Complex_Main
begin

text \<open>
  Shared vocabulary of the development.

  \<^item> Python errors as values (\<open>py_error\<close>) and the sum-typed result \<open>py_error + 'a\<close>.
  \<^item> Python numbers: list indexing with negative indices, rounding half to even, naive UTC
    datetimes and timedeltas as exact integer microseconds with their documented ranges.
  \<^item> A database table as the list of its rows in primary-key (insertion) order, with lookup,
    upsert and delete by a key function; the contract of a keyed store is the locale
    \<open>keyed_store\<close>, and \<open>keyed_store_rows\<close> discharges it once for every table.
  \<^item> Python's \<open>OrderedDict\<close> as an association list in its iteration order.
\<close>

section \<open>Errors as values\<close>

datatype py_error =
    OverflowError
  | ValueError
  | IndexError
  | KeyError
  | DatabaseBusyError
  | CommandValidationError
  | FileNotFoundError
  | HandlerError string

type_synonym 'a result = "py_error + 'a"

definition result_bind :: "'a result \<Rightarrow> ('a \<Rightarrow> 'b result) \<Rightarrow> 'b result" where
  "result_bind r f = (case r of Inl e \<Rightarrow> Inl e | Inr a \<Rightarrow> f a)"

lemma result_bind_simps [simp]:
  "result_bind (Inl e) f = Inl e"
  "result_bind (Inr a) f = f a"
  by (simp_all add: result_bind_def)

lemma result_bind_eq_Inr:
  "result_bind r f = Inr b \<longleftrightarrow> (\<exists>a. r = Inr a \<and> f a = Inr b)"
  by (cases r) simp_all

section \<open>Python numbers\<close>

definition py_index :: "'a list \<Rightarrow> int \<Rightarrow> 'a result" where
  "py_index xs k =
     (if 0 \<le> k \<and> nat k < length xs then Inr (xs ! nat k)
      else if k < 0 \<and> nat (- k) \<le> length xs then Inr (xs ! (length xs - nat (- k)))
      else Inl IndexError)"

lemma py_index_in_range: "0 \<le> k \<Longrightarrow> k < int (length xs) \<Longrightarrow> py_index xs k = Inr (xs ! nat k)"
  by (simp add: py_index_def nat_less_iff)

text \<open>\<open>round(x)\<close>: to the nearest integer, ties to the even one.\<close>

definition py_round :: "real \<Rightarrow> int" where
  "py_round x =
     (let f = \<lfloor>x\<rfloor>; d = x - of_int f
      in if d < 1 / 2 then f
         else if 1 / 2 < d then f + 1
         else if even f then f else f + 1)"

lemma py_round_of_int [simp]: "py_round (of_int i) = i"
  by (simp add: py_round_def)

lemma py_round_mono: "of_int i \<le> x \<Longrightarrow> i \<le> py_round x"
proof -
  assume "of_int i \<le> x"
  then have "i \<le> \<lfloor>x\<rfloor>" by (simp add: le_floor_iff)
  then show ?thesis by (simp add: py_round_def Let_def)
qed

lemma py_round_near: "\<bar>of_int (py_round x) - x\<bar> \<le> 1 / 2"
proof -
  have "of_int \<lfloor>x\<rfloor> \<le> x" and "x < of_int \<lfloor>x\<rfloor> + 1"
    by linarith+
  then show ?thesis by (auto simp: py_round_def Let_def abs_le_iff)
qed

section \<open>Datetimes\<close>

text \<open>
  A naive UTC \<open>datetime\<close> is the integer number of microseconds since 0001-01-01, a
  \<open>timedelta\<close> an integer number of microseconds: Python's own representation is exact to the
  microsecond. Both have a documented range, and leaving it raises \<open>OverflowError\<close>.
\<close>

type_synonym datetime = int
type_synonym timedelta = int

definition us_per_second :: int where
  "us_per_second = 1000000"

definition datetime_max :: datetime where
  "datetime_max = 315537897599999999"

definition timedelta_max :: timedelta where
  "timedelta_max = 86399999999999999999"

definition timedelta_min :: timedelta where
  "timedelta_min = - 86399999913600000000"

definition seconds :: "int \<Rightarrow> timedelta" where
  "seconds s = s * us_per_second"

text \<open>\<open>timedelta(seconds=x)\<close> for a finite float \<open>x\<close>.\<close>

definition timedelta_seconds :: "real \<Rightarrow> timedelta result" where
  "timedelta_seconds x =
     (let us = py_round (x * of_int us_per_second)
      in if timedelta_min \<le> us \<and> us \<le> timedelta_max then Inr us else Inl OverflowError)"

definition datetime_add :: "datetime \<Rightarrow> timedelta \<Rightarrow> datetime result" where
  "datetime_add t d =
     (if 0 \<le> t + d \<and> t + d \<le> datetime_max then Inr (t + d) else Inl OverflowError)"

definition valid_datetime :: "datetime \<Rightarrow> bool" where
  "valid_datetime t \<longleftrightarrow> 0 \<le> t \<and> t \<le> datetime_max"

definition total_seconds :: "timedelta \<Rightarrow> real" where
  "total_seconds d = of_int d / of_int us_per_second"

lemma timedelta_seconds_of_int:
  "timedelta_min \<le> seconds s \<Longrightarrow> seconds s \<le> timedelta_max \<Longrightarrow>
   timedelta_seconds (of_int s) = Inr (seconds s)"
proof -
  have "(of_int s :: real) * of_int us_per_second = of_int (seconds s)"
    by (simp add: seconds_def)
  then have "py_round (of_int s * of_int us_per_second) = seconds s"
    by (simp only: py_round_of_int)
  then show "timedelta_min \<le> seconds s \<Longrightarrow> seconds s \<le> timedelta_max \<Longrightarrow> ?thesis"
    by (simp add: timedelta_seconds_def)
qed

lemma timedelta_seconds_ge:
  assumes "timedelta_seconds x = Inr d" and "of_int s \<le> x"
  shows "seconds s \<le> d"
proof -
  from assms(1) have d: "d = py_round (x * of_int us_per_second)"
    by (auto simp: timedelta_seconds_def Let_def split: if_splits)
  have "of_int (seconds s) \<le> x * of_int us_per_second"
    using assms(2) by (simp add: seconds_def us_per_second_def)
  then show ?thesis unfolding d by (rule py_round_mono)
qed

text \<open>The proleptic Gregorian year of a datetime, computed from its day number.\<close>

definition us_per_day :: int where
  "us_per_day = 86400 * us_per_second"

definition year_of :: "datetime \<Rightarrow> int" where
  "year_of t =
     (let day = t div us_per_day;
          n400 = day div 146097; r400 = day mod 146097;
          n100 = r400 div 36524; r100 = r400 mod 36524;
          n4 = r100 div 1461; r4 = r100 mod 1461;
          n1 = r4 div 365;
          y = 400 * n400 + 100 * n100 + 4 * n4 + n1
      in if n1 = 4 \<or> n100 = 4 then y else y + 1)"

section \<open>Tables\<close>

definition row_get :: "('r \<Rightarrow> 'k) \<Rightarrow> 'k \<Rightarrow> 'r list \<Rightarrow> 'r option" where
  "row_get key k t = find (\<lambda>r. key r = k) t"

fun row_put :: "('r \<Rightarrow> 'k) \<Rightarrow> 'r \<Rightarrow> 'r list \<Rightarrow> 'r list" where
  "row_put key r [] = [r]"
| "row_put key r (x # xs) = (if key x = key r then r # xs else x # row_put key r xs)"

definition row_del :: "('r \<Rightarrow> 'k) \<Rightarrow> 'k \<Rightarrow> 'r list \<Rightarrow> 'r list" where
  "row_del key k t = filter (\<lambda>r. key r \<noteq> k) t"

definition unique_key :: "('r \<Rightarrow> 'k) \<Rightarrow> 'r list \<Rightarrow> bool" where
  "unique_key key t \<longleftrightarrow> distinct (map key t)"

lemma row_get_Nil [simp]: "row_get key k [] = None"
  by (simp add: row_get_def)

lemma row_get_Cons [simp]:
  "row_get key k (x # xs) = (if key x = k then Some x else row_get key k xs)"
  by (simp add: row_get_def)

lemma row_get_None: "row_get key k t = None \<longleftrightarrow> k \<notin> key ` set t"
  by (induction t) auto

lemma row_get_SomeD: "row_get key k t = Some r \<Longrightarrow> r \<in> set t \<and> key r = k"
  by (induction t) (auto split: if_splits)

lemma row_get_unique: "unique_key key t \<Longrightarrow> r \<in> set t \<Longrightarrow> row_get key (key r) t = Some r"
  by (induction t) (auto simp: unique_key_def)

lemma unique_key_eq:
  "unique_key key t \<Longrightarrow> x \<in> set t \<Longrightarrow> y \<in> set t \<Longrightarrow> key x = key y \<Longrightarrow> x = y"
  by (auto simp: unique_key_def distinct_map dest: inj_onD)

lemma row_get_put: "row_get key k (row_put key r t) = (if key r = k then Some r else row_get key k t)"
  by (induction t) auto

lemma row_get_del: "row_get key k' (row_del key k t) = (if k' = k then None else row_get key k' t)"
  by (induction t) (auto simp: row_del_def)

lemma set_row_put_subset: "set (row_put key r t) \<subseteq> insert r (set t)"
  by (induction t) auto

lemma set_row_put:
  "unique_key key t \<Longrightarrow> set (row_put key r t) = insert r {x \<in> set t. key x \<noteq> key r}"
  by (induction t) (auto simp: unique_key_def rev_image_eqI)

lemma keys_row_put: "key ` set (row_put key r t) = insert (key r) (key ` set t)"
  by (induction t) auto

lemma unique_row_put: "unique_key key t \<Longrightarrow> unique_key key (row_put key r t)"
  using keys_row_put [of key r]
  by (induction t) (auto simp: unique_key_def)

lemma unique_row_del: "unique_key key t \<Longrightarrow> unique_key key (row_del key k t)"
  by (simp add: unique_key_def row_del_def distinct_map_filter)

lemma set_row_del [simp]: "set (row_del key k t) = {x \<in> set t. key x \<noteq> k}"
  by (auto simp: row_del_def)

lemma row_get_map:
  "(\<And>r. key (f r) = key r) \<Longrightarrow> row_get key k (map f t) = map_option f (row_get key k t)"
  by (induction t) auto

lemma unique_key_map: "(\<And>r. key (f r) = key r) \<Longrightarrow> unique_key key (map f t) = unique_key key t"
  by (simp add: unique_key_def comp_def)

lemma row_put_split:
  "key y \<notin> key ` set xs \<Longrightarrow> key r = key y \<Longrightarrow> row_put key r (xs @ y # ys) = xs @ r # ys"
  by (induction xs) auto

text \<open>Rewriting the selected rows one by one is rewriting them in place.\<close>

lemma fold_row_put_filter:
  assumes "unique_key key t" and f: "\<And>r. key (f r) = key r"
  shows "fold (\<lambda>r. row_put key (f r)) (filter P t) t = map (\<lambda>r. if P r then f r else r) t"
proof -
  let ?g = "\<lambda>r. if P r then f r else r"
  have "unique_key key (xs @ ys) \<Longrightarrow>
      fold (\<lambda>r. row_put key (f r)) (filter P ys) (map ?g xs @ ys) = map ?g (xs @ ys)" for xs ys
  proof (induction ys arbitrary: xs)
    case (Cons y ys)
    have "key y \<notin> key ` set (map ?g xs)"
      using Cons.prems f by (auto simp: unique_key_def)
    then have "row_put key (f y) (map ?g xs @ y # ys) = map ?g xs @ f y # ys"
      by (simp add: row_put_split f)
    with Cons.IH [of "xs @ [y]"] Cons.prems show ?case by (cases "P y") simp_all
  qed simp
  from this [of "[]" t] assms(1) show ?thesis by simp
qed

text \<open>
  The contract every component relies on when it reads and writes rows by key through a
  session: what a lookup returns after an upsert or a delete, and the primary key's
  uniqueness.
\<close>

locale keyed_store =
  fixes key :: "'r \<Rightarrow> 'k"
    and get :: "'k \<Rightarrow> 't \<Rightarrow> 'r option"
    and put :: "'r \<Rightarrow> 't \<Rightarrow> 't"
    and del :: "'k \<Rightarrow> 't \<Rightarrow> 't"
    and inv :: "'t \<Rightarrow> bool"
  assumes get_key: "get k t = Some r \<Longrightarrow> key r = k"
    and get_put: "get k (put r t) = (if key r = k then Some r else get k t)"
    and get_del: "get k' (del k t) = (if k' = k then None else get k' t)"
    and inv_put: "inv t \<Longrightarrow> inv (put r t)"
    and inv_del: "inv t \<Longrightarrow> inv (del k t)"
begin

lemma get_put_same: "get (key r) (put r t) = Some r"
  by (simp add: get_put)

lemma get_put_other: "key r \<noteq> k \<Longrightarrow> get k (put r t) = get k t"
  by (simp add: get_put)

lemma get_del_same: "get k (del k t) = None"
  by (simp add: get_del)

lemma get_del_other: "k' \<noteq> k \<Longrightarrow> get k' (del k t) = get k' t"
  by (simp add: get_del)

lemma put_del_get: "get k' (put r (del (key r) t)) = get k' (put r t)"
  by (simp add: get_put get_del)

lemma inv_fold_put: "inv t \<Longrightarrow> inv (fold put rs t)"
  by (induction rs arbitrary: t) (simp_all add: inv_put)

lemma get_fold_put_other:
  "k \<notin> key ` set rs \<Longrightarrow> get k (fold put rs t) = get k t"
  by (induction rs arbitrary: t) (auto simp: get_put)

end

lemma keyed_store_rows:
  "keyed_store key (row_get key) (row_put key) (row_del key) (unique_key key)"
  by unfold_locales
    (auto simp: row_get_put row_get_del unique_row_put unique_row_del dest: row_get_SomeD)

section \<open>Ordered dictionaries\<close>

type_synonym ('k, 'v) odict = "('k \<times> 'v) list"

text \<open>\<open>d[k] = v\<close>: an existing key keeps its place, a new one goes to the end.\<close>

fun od_set :: "'k \<Rightarrow> 'v \<Rightarrow> ('k, 'v) odict \<Rightarrow> ('k, 'v) odict" where
  "od_set k v [] = [(k, v)]"
| "od_set k v ((k', v') # d) = (if k' = k then (k, v) # d else (k', v') # od_set k v d)"

definition od_pop :: "'k \<Rightarrow> ('k, 'v) odict \<Rightarrow> ('k, 'v) odict" where
  "od_pop k d = filter (\<lambda>p. fst p \<noteq> k) d"

definition od_move_to_end :: "'k \<Rightarrow> ('k, 'v) odict \<Rightarrow> ('k, 'v) odict" where
  "od_move_to_end k d =
     (case map_of d k of None \<Rightarrow> d | Some v \<Rightarrow> od_pop k d @ [(k, v)])"

lemma map_of_od_set: "map_of (od_set k v d) = (map_of d)(k \<mapsto> v)"
  by (induction d) auto

lemma map_of_od_pop: "map_of (od_pop k d) = (map_of d)(k := None)"
  by (induction d) (auto simp: od_pop_def)

lemma map_of_od_move_to_end: "map_of (od_move_to_end k d) = map_of d"
  by (auto simp: od_move_to_end_def map_of_od_pop map_add_def fun_eq_iff split: option.splits)

lemma keys_od_set: "fst ` set (od_set k v d) = insert k (fst ` set d)"
  using dom_map_of_conv_image_fst [of "od_set k v d"]
  by (simp add: map_of_od_set dom_map_of_conv_image_fst)

lemma distinct_od_set: "distinct (map fst d) \<Longrightarrow> distinct (map fst (od_set k v d))"
proof (induction d)
  case (Cons p d)
  then show ?case using keys_od_set [of k v d] by (cases p) (auto simp: image_iff)
qed simp

lemma distinct_od_pop: "distinct (map fst d) \<Longrightarrow> distinct (map fst (od_pop k d))"
  by (simp add: od_pop_def distinct_map_filter)

lemma distinct_od_move_to_end:
  "distinct (map fst d) \<Longrightarrow> distinct (map fst (od_move_to_end k d))"
  by (auto simp: od_move_to_end_def od_pop_def distinct_map_filter split: option.splits)

lemma set_od_pop: "set (od_pop k d) = {p \<in> set d. fst p \<noteq> k}"
  by (auto simp: od_pop_def)

lemma length_od_pop_le: "length (od_pop k d) \<le> length d"
  by (simp add: od_pop_def)

lemma length_od_set:
  "length (od_set k v d) = (if map_of d k = None then Suc (length d) else length d)"
  by (induction d) auto

lemmas od_lookup = map_of_od_set map_of_od_pop map_of_od_move_to_end
lemmas od_distinct = distinct_od_set distinct_od_pop distinct_od_move_to_end

section \<open>Strings of the source's character set\<close>

definition str_join :: "string \<Rightarrow> string list \<Rightarrow> string" where
  "str_join sep xs = (case xs of [] \<Rightarrow> [] | y # ys \<Rightarrow> y @ concat (map (\<lambda>z. sep @ z) ys))"

text \<open>Strings in their code-point order, as Python compares them.\<close>

fun str_less :: "string \<Rightarrow> string \<Rightarrow> bool" where
  "str_less xs [] = False"
| "str_less [] (y # ys) = True"
| "str_less (x # xs) (y # ys) =
     ((of_char x :: nat) < of_char y \<or> x = y \<and> str_less xs ys)"


text \<open>\<open>str(n)\<close> of a non-negative integer.\<close>

definition digit_char :: "nat \<Rightarrow> char" where
  "digit_char d = char_of (48 + d)"

fun show_nat :: "nat \<Rightarrow> string" where
  "show_nat n = (if n < 10 then [digit_char n] else show_nat (n div 10) @ [digit_char (n mod 10)])"

declare show_nat.simps [simp del]

definition show_int :: "int \<Rightarrow> string" where
  "show_int i = (if i < 0 then CHR ''-'' # show_nat (nat (- i)) else show_nat (nat i))"

lemma of_char_digit_nat [simp]: "d < 10 \<Longrightarrow> of_char (digit_char d) = (48 + d :: nat)"
  by (simp add: digit_char_def of_char_of)

lemma of_char_digit [simp]: "d < 10 \<Longrightarrow> of_char (digit_char d) = (of_nat (48 + d) :: int)"
  using of_nat_of_char [of "digit_char d", where ?'a = int] by simp

lemma show_nat_nonempty [simp]: "show_nat n \<noteq> []"
  by (subst show_nat.simps) simp

lemma set_show_nat: "c \<in> set (show_nat n) \<Longrightarrow> \<exists>d < 10. c = digit_char d"
proof (induction n rule: show_nat.induct)
  case (1 n)
  then have "c \<in> set (if n < 10 then [digit_char n]
      else show_nat (n div 10) @ [digit_char (n mod 10)])"
    by (simp flip: show_nat.simps)
  with "1.IH" show ?case by (auto split: if_splits intro: exI [of _ "n mod 10"])
qed

definition digits_value :: "string \<Rightarrow> int" where
  "digits_value s = foldl (\<lambda>n c. 10 * n + (of_char c - 48)) 0 s"

lemma digits_value_snoc: "digits_value (s @ [c]) = 10 * digits_value s + (of_char c - 48)"
  by (simp add: digits_value_def)

lemma digits_value_show_nat [simp]: "digits_value (show_nat n) = int n"
proof (induction n rule: show_nat.induct)
  case (1 n)
  show ?case
  proof (cases "n < 10")
    case True
    then show ?thesis by (subst show_nat.simps) (simp add: digits_value_def)
  next
    case False
    then have "digits_value (show_nat n) = 10 * int (n div 10) + int (n mod 10)"
      using "1" by (subst show_nat.simps) (simp add: digits_value_snoc)
    also have "\<dots> = int (10 * (n div 10) + n mod 10)" by (simp only: of_nat_add of_nat_mult of_nat_numeral)
    finally show ?thesis by (simp only: mult_div_mod_eq)
  qed
qed

end
