(* ===== verification/Backoff.thy ===== *)
theory Backoff
  imports Prelude
begin

text \<open>
  The escalating failure back-off shared by every remote provider
  (\<open>providers/backoff.py\<close>) and the header parser that feeds it
  (\<open>http/headers.py\<close>).

  The table \<open>provider_backoff\<close> is the list of its rows, keyed by
  \<open>(provider_type, provider_id)\<close>. \<open>record_failure\<close> is one write transaction: an error
  value stands for the exception, and the table of the caller is then unchanged (rollback).
  Floats are modelled as reals. Header text is modelled on the Latin-1 code points.
\<close>

section \<open>The Retry-After header\<close>

definition latin1_isspace :: "char \<Rightarrow> bool" where
  "latin1_isspace c \<longleftrightarrow>
     (of_char c :: nat) \<in> {9, 10, 11, 12, 13, 28, 29, 30, 31, 32, 133, 160}"

text \<open>\<open>str.isdigit\<close> also accepts the superscript digits, which are not decimal digits.\<close>

definition latin1_isdecimal :: "char \<Rightarrow> bool" where
  "latin1_isdecimal c \<longleftrightarrow> 48 \<le> (of_char c :: nat) \<and> (of_char c :: nat) \<le> 57"

definition latin1_isdigit :: "char \<Rightarrow> bool" where
  "latin1_isdigit c \<longleftrightarrow> latin1_isdecimal c \<or> (of_char c :: nat) \<in> {178, 179, 185}"

definition py_strip :: "string \<Rightarrow> string" where
  "py_strip s = rev (dropWhile latin1_isspace (rev (dropWhile latin1_isspace s)))"

text \<open>\<open>float(raw)\<close> on a string that \<open>isdigit\<close> accepts.\<close>

definition float_of_digits :: "string \<Rightarrow> real result" where
  "float_of_digits s =
     (if list_all latin1_isdecimal s then Inr (of_int (digits_value s)) else Inl ValueError)"

definition parse_retry_after :: "(string \<rightharpoonup> string) \<Rightarrow> real option result" where
  "parse_retry_after headers =
     (case headers ''retry-after'' of
        None \<Rightarrow> Inr None
      | Some raw0 \<Rightarrow>
          (let raw = py_strip raw0
           in if raw \<noteq> [] \<and> list_all latin1_isdigit raw
              then result_bind (float_of_digits raw) (\<lambda>x. Inr (Some x))
              else Inr None))"

lemma py_strip_around:
  assumes "\<forall>c \<in> set a. latin1_isspace c" and "\<forall>c \<in> set b. latin1_isspace c"
    and "s \<noteq> []" and "\<forall>c \<in> set s. \<not> latin1_isspace c"
  shows "py_strip (a @ s @ b) = s"
proof -
  have keep: "dropWhile latin1_isspace (t @ u) = t @ u"
    if "t \<noteq> []" "\<forall>c \<in> set t. \<not> latin1_isspace c" for t u
    using that by (cases t) auto
  have "dropWhile latin1_isspace (a @ s @ b) = s @ b"
    using assms by (simp add: dropWhile_append2 keep)
  moreover have "dropWhile latin1_isspace (rev b @ rev s) = rev s"
    using assms keep [of "rev s" "[]"] dropWhile_append2 [of "rev b" latin1_isspace "rev s"]
    by simp
  ultimately show ?thesis by (simp add: py_strip_def)
qed

section \<open>Rows, status and the ladder\<close>

record backoff_row =
  provider_type :: string
  provider_id :: int
  level :: int
  failure_count :: int
  next_allowed_at :: "datetime option"
  last_reason :: "string option"
  last_failure_at :: "datetime option"
  updated_at :: datetime

record backoff_status =
  st_provider_type :: string
  st_provider_id :: int
  active :: bool
  st_level :: int
  st_failure_count :: int
  st_next_allowed_at :: "datetime option"
  st_last_reason :: "string option"
  remaining_seconds :: real
  st_last_failure_at :: "datetime option"

definition backoff_key :: "backoff_row \<Rightarrow> string \<times> int" where
  "backoff_key r = (provider_type r, provider_id r)"

definition LADDER :: "timedelta list" where
  "LADDER = map seconds [0, 60, 300, 900, 1800, 3600, 10800, 21600, 43200, 86400]"

definition MAX_LEVEL :: int where
  "MAX_LEVEL = int (length LADDER) - 1"

definition FAST_FORWARD_MIN_LEVEL :: int where
  "FAST_FORWARD_MIN_LEVEL = 5"

definition healthy :: "backoff_status \<Rightarrow> bool" where
  "healthy st \<longleftrightarrow> st_level st = 0 \<and> \<not> active st"

definition to_status ::
  "datetime \<Rightarrow> string \<Rightarrow> int \<Rightarrow> backoff_row option \<Rightarrow> backoff_status" where
  "to_status now ptype pid row_opt =
     (case row_opt of
        None \<Rightarrow>
          \<lparr>st_provider_type = ptype, st_provider_id = pid, active = False, st_level = 0,
           st_failure_count = 0, st_next_allowed_at = None, st_last_reason = None,
           remaining_seconds = 0, st_last_failure_at = None\<rparr>
      | Some row \<Rightarrow>
          (let (act, remaining) =
             (case next_allowed_at row of
                Some n \<Rightarrow> if now < n then (True, total_seconds (n - now)) else (False, 0)
              | None \<Rightarrow> (False, 0))
           in \<lparr>st_provider_type = provider_type row, st_provider_id = provider_id row,
               active = act, st_level = level row, st_failure_count = failure_count row,
               st_next_allowed_at = next_allowed_at row, st_last_reason = last_reason row,
               remaining_seconds = remaining, st_last_failure_at = last_failure_at row\<rparr>))"

section \<open>Operations\<close>

definition provider_status ::
  "datetime \<Rightarrow> string \<Rightarrow> int \<Rightarrow> backoff_row list \<Rightarrow> backoff_status" where
  "provider_status now ptype pid tbl = to_status now ptype pid (row_get backoff_key (ptype, pid) tbl)"

definition is_backing_off :: "datetime \<Rightarrow> string \<Rightarrow> int \<Rightarrow> backoff_row list \<Rightarrow> bool" where
  "is_backing_off now ptype pid tbl = active (provider_status now ptype pid tbl)"

definition record_success :: "string \<Rightarrow> int \<Rightarrow> backoff_row list \<Rightarrow> backoff_row list" where
  "record_success ptype pid tbl =
     (case row_get backoff_key (ptype, pid) tbl of
        None \<Rightarrow> tbl
      | Some row \<Rightarrow> row_del backoff_key (ptype, pid) tbl)"

definition fresh_row :: "datetime \<Rightarrow> string \<Rightarrow> int \<Rightarrow> backoff_row" where
  "fresh_row now ptype pid =
     \<lparr>provider_type = ptype, provider_id = pid, level = 0, failure_count = 0,
      next_allowed_at = None, last_reason = None, last_failure_at = None,
      updated_at = now\<rparr>"

definition next_level :: "int \<Rightarrow> real option \<Rightarrow> bool \<Rightarrow> int" where
  "next_level lvl retry_after fast_forward =
     min (if fast_forward \<or> retry_after \<noteq> None
          then max (lvl + 1) FAST_FORWARD_MIN_LEVEL else lvl + 1) MAX_LEVEL"

definition cooldown :: "int \<Rightarrow> real option \<Rightarrow> timedelta result" where
  "cooldown new_level retry_after =
     result_bind (py_index LADDER new_level) (\<lambda>rung.
       case retry_after of
         None \<Rightarrow> Inr rung
       | Some r \<Rightarrow>
           if 0 < r then result_bind (timedelta_seconds r) (\<lambda>d. Inr (max rung d))
           else Inr rung)"

definition record_failure ::
  "datetime \<Rightarrow> string \<Rightarrow> int \<Rightarrow> string \<Rightarrow> real option \<Rightarrow> bool \<Rightarrow> backoff_row list \<Rightarrow>
   (backoff_row list \<times> backoff_status) result" where
  "record_failure now ptype pid reason retry_after fast_forward tbl =
     (let row = (case row_get backoff_key (ptype, pid) tbl of
                   None \<Rightarrow> fresh_row now ptype pid
                 | Some r \<Rightarrow> r);
          new_level = next_level (level row) retry_after fast_forward
      in result_bind (cooldown new_level retry_after) (\<lambda>delay.
         result_bind (datetime_add now delay) (\<lambda>until.
           let row' = row\<lparr>level := new_level, failure_count := failure_count row + 1,
                          next_allowed_at := Some until, last_reason := Some reason,
                          last_failure_at := Some now, updated_at := now\<rparr>
           in Inr (row_put backoff_key row' tbl, to_status now ptype pid (Some row')))))"

definition provider_health ::
  "datetime \<Rightarrow> string option \<Rightarrow> backoff_row list \<Rightarrow> backoff_status list" where
  "provider_health now ptype tbl =
     map (\<lambda>r. to_status now (provider_type r) (provider_id r) (Some r))
       (filter (\<lambda>r. case ptype of None \<Rightarrow> True | Some p \<Rightarrow> provider_type r = p) tbl)"

text \<open>\<open>TransientBackoff\<close>: connectivity tests persist nothing.\<close>

definition transient_record_success :: "string \<Rightarrow> int \<Rightarrow> backoff_row list \<Rightarrow> backoff_row list" where
  "transient_record_success ptype pid tbl = tbl"

definition transient_record_failure ::
  "string \<Rightarrow> int \<Rightarrow> string \<Rightarrow> real option \<Rightarrow> bool \<Rightarrow> backoff_row list \<Rightarrow>
   backoff_row list \<times> backoff_status option" where
  "transient_record_failure ptype pid reason retry_after fast_forward tbl = (tbl, None)"

interpretation backoff_store: keyed_store backoff_key "row_get backoff_key"
  "row_put backoff_key" "row_del backoff_key" "unique_key backoff_key"
  by (rule keyed_store_rows)

section \<open>The ladder\<close>

lemma MAX_LEVEL_eq [simp]: "MAX_LEVEL = 9"
  by (simp add: MAX_LEVEL_def LADDER_def)

lemma length_LADDER [simp]: "length LADDER = 10"
  by (simp add: LADDER_def)

lemma LADDER_le_day: "i < 10 \<Longrightarrow> 0 \<le> LADDER ! i \<and> LADDER ! i \<le> seconds 86400"
proof -
  have "\<forall>d \<in> set LADDER. 0 \<le> d \<and> d \<le> seconds 86400"
    by (simp add: LADDER_def seconds_def us_per_second_def)
  then show "i < 10 \<Longrightarrow> ?thesis" by simp
qed

lemma next_level_bounds:
  "0 \<le> l \<Longrightarrow> 1 \<le> next_level l ra ff \<and> next_level l ra ff \<le> 9"
  by (auto simp: next_level_def FAST_FORWARD_MIN_LEVEL_def)

lemma cooldown_ladder:
  assumes "0 \<le> n" and "n \<le> 9"
  shows "cooldown n None = Inr (LADDER ! nat n)"
  using assms by (simp add: cooldown_def py_index_in_range)

lemma cooldown_Inr:
  assumes "0 \<le> n" and "n \<le> 9" and "cooldown n ra = Inr d"
  shows "LADDER ! nat n \<le> d"
    and "ra = Some r \<Longrightarrow> 0 < r \<Longrightarrow> \<exists>td. timedelta_seconds r = Inr td \<and> d = max (LADDER ! nat n) td"
  using assms
  by (auto simp: cooldown_def py_index_in_range result_bind_eq_Inr split: option.splits if_splits)

lemma record_failure_Inr:
  assumes "record_failure now pt pid why ra ff tbl = Inr (tbl', st)"
  obtains row n d where
    "row = (case row_get backoff_key (pt, pid) tbl of None \<Rightarrow> fresh_row now pt pid | Some r \<Rightarrow> r)"
    and "n = next_level (level row) ra ff"
    and "cooldown n ra = Inr d" and "0 \<le> now + d" and "now + d \<le> datetime_max"
    and "tbl' = row_put backoff_key (row\<lparr>level := n, failure_count := failure_count row + 1,
           next_allowed_at := Some (now + d), last_reason := Some why,
           last_failure_at := Some now, updated_at := now\<rparr>) tbl"
    and "backoff_key row = (pt, pid)"
    and "st = to_status now pt pid (row_get backoff_key (pt, pid) tbl')"
proof -
  define row where "row =
    (case row_get backoff_key (pt, pid) tbl of None \<Rightarrow> fresh_row now pt pid | Some r \<Rightarrow> r)"
  have key: "backoff_key row = (pt, pid)"
    by (auto simp: row_def fresh_row_def backoff_key_def dest: row_get_SomeD split: option.splits)
  then have key': "backoff_key (row\<lparr>level := a, failure_count := b, next_allowed_at := c,
      last_reason := e, last_failure_at := f, updated_at := g\<rparr>) = (pt, pid)" for a b c e f g
    by (simp add: backoff_key_def)
  from assms obtain d where "cooldown (next_level (level row) ra ff) ra = Inr d"
    and "0 \<le> now + d" and "now + d \<le> datetime_max"
    and "tbl' = row_put backoff_key (row\<lparr>level := next_level (level row) ra ff,
           failure_count := failure_count row + 1, next_allowed_at := Some (now + d),
           last_reason := Some why, last_failure_at := Some now, updated_at := now\<rparr>) tbl"
    and "st = to_status now pt pid (row_get backoff_key (pt, pid) tbl')"
    by (auto simp: record_failure_def result_bind_eq_Inr Let_def datetime_add_def key'
        row_get_put simp flip: row_def split: if_splits)
  then show thesis by (intro that [OF row_def refl _ _ _ _ key])
qed

section \<open>Every run of failures and successes\<close>

datatype backoff_event =
    Failed datetime string int string "real option" bool
  | Succeeded string int

fun backoff_step :: "backoff_event \<Rightarrow> backoff_row list \<Rightarrow> backoff_row list" where
  "backoff_step (Failed now pt pid why ra ff) tbl =
     (case record_failure now pt pid why ra ff tbl of Inl e \<Rightarrow> tbl | Inr (tbl', st) \<Rightarrow> tbl')"
| "backoff_step (Succeeded pt pid) tbl = record_success pt pid tbl"

definition backoff_wf :: "backoff_row list \<Rightarrow> bool" where
  "backoff_wf tbl \<longleftrightarrow> unique_key backoff_key tbl \<and>
     (\<forall>r \<in> set tbl. 1 \<le> level r \<and> level r \<le> MAX_LEVEL \<and> 1 \<le> failure_count r \<and>
        next_allowed_at r \<noteq> None \<and> last_failure_at r = Some (updated_at r))"

lemma backoff_wf_get:
  "backoff_wf tbl \<Longrightarrow> row_get backoff_key k tbl = Some r \<Longrightarrow>
   1 \<le> level r \<and> level r \<le> 9 \<and> 1 \<le> failure_count r \<and> next_allowed_at r \<noteq> None"
  by (auto simp: backoff_wf_def dest: row_get_SomeD)

lemma backoff_wf_level:
  assumes "backoff_wf tbl"
    and "row = (case row_get backoff_key k tbl of None \<Rightarrow> fresh_row now pt pid | Some r \<Rightarrow> r)"
  shows "0 \<le> level row \<and> 0 \<le> failure_count row"
  using assms(2) backoff_wf_get [OF assms(1)]
  by (fastforce simp: fresh_row_def split: option.splits)

lemma backoff_wf_put:
  assumes "backoff_wf tbl" and "1 \<le> level r" and "level r \<le> 9" and "1 \<le> failure_count r"
    and "next_allowed_at r \<noteq> None" and "last_failure_at r = Some (updated_at r)"
  shows "backoff_wf (row_put backoff_key r tbl)"
  using assms set_row_put_subset [of backoff_key r tbl]
  by (auto simp: backoff_wf_def unique_row_put)

lemma record_failure_wf:
  assumes "backoff_wf tbl" and "record_failure now pt pid why ra ff tbl = Inr (tbl', st)"
  shows "backoff_wf tbl'"
  using assms(2)
proof (rule record_failure_Inr)
  fix row :: backoff_row and n d
  assume row: "row = (case row_get backoff_key (pt, pid) tbl of
      None \<Rightarrow> fresh_row now pt pid | Some r \<Rightarrow> r)"
    and n: "n = next_level (level row) ra ff"
    and tbl': "tbl' = row_put backoff_key (row\<lparr>level := n, failure_count := failure_count row + 1,
           next_allowed_at := Some (now + d), last_reason := Some why,
           last_failure_at := Some now, updated_at := now\<rparr>) tbl"
  from backoff_wf_level [OF assms(1) row] have "0 \<le> level row" "0 \<le> failure_count row" by auto
  then show "backoff_wf tbl'"
    unfolding tbl' n using next_level_bounds [of "level row" ra ff]
    by (intro backoff_wf_put [OF assms(1)]) auto
qed

lemma record_success_wf: "backoff_wf tbl \<Longrightarrow> backoff_wf (record_success pt pid tbl)"
  by (auto simp: record_success_def backoff_wf_def unique_row_del split: option.splits)

lemma backoff_step_wf: "backoff_wf tbl \<Longrightarrow> backoff_wf (backoff_step e tbl)"
  by (cases e) (auto simp: record_success_wf split: sum.splits dest: record_failure_wf)

lemma backoff_run_wf_from: "backoff_wf tbl \<Longrightarrow> backoff_wf (fold backoff_step es tbl)"
  by (induction es arbitrary: tbl) (simp_all add: backoff_step_wf)

text \<open>The abstract ladder: what a failure and a success promise for one provider.\<close>

text \<open>One rung up a ladder of rungs 0 to 9; a fast failure lands on rung 5 at least.\<close>

definition climb :: "bool \<Rightarrow> int \<Rightarrow> int" where
  "climb fast l = (if 9 \<le> l then 9 else if fast \<and> l < 4 then 5 else l + 1)"

lemma next_level_climb: "next_level l ra ff = climb (ff \<or> ra \<noteq> None) l"
  by (auto simp: next_level_def climb_def FAST_FORWARD_MIN_LEVEL_def)

fun rung_after :: "string \<times> int \<Rightarrow> backoff_event \<Rightarrow> int \<Rightarrow> int" where
  "rung_after k (Failed now pt pid why ra ff) l =
     (if (pt, pid) = k then climb (ff \<or> ra \<noteq> None) l else l)"
| "rung_after k (Succeeded pt pid) l = (if (pt, pid) = k then 0 else l)"

definition tracked_level :: "string \<times> int \<Rightarrow> backoff_row list \<Rightarrow> int" where
  "tracked_level k tbl = (case row_get backoff_key k tbl of None \<Rightarrow> 0 | Some r \<Rightarrow> level r)"

text \<open>The dates of an event stay inside what a \<open>datetime\<close> can hold.\<close>

fun representable :: "backoff_event \<Rightarrow> bool" where
  "representable (Failed now pt pid why ra ff) \<longleftrightarrow>
     0 \<le> now \<and> now + seconds 86400 \<le> datetime_max \<and>
     (case ra of None \<Rightarrow> True
      | Some r \<Rightarrow> of_int now + r * of_int us_per_second + 1 \<le> (of_int datetime_max :: real))"
| "representable (Succeeded pt pid) \<longleftrightarrow> True"

lemma cooldown_representable:
  assumes "0 \<le> n" and "n \<le> 9" and "representable (Failed now pt pid why ra ff)"
  obtains d where "cooldown n ra = Inr d" and "0 \<le> d" and "now + d \<le> datetime_max"
proof -
  have rung: "0 \<le> LADDER ! nat n \<and> now + LADDER ! nat n \<le> datetime_max"
    using LADDER_le_day [of "nat n"] assms by (simp add: nat_less_iff)
  have "\<exists>d. cooldown n ra = Inr d \<and> 0 \<le> d \<and> now + d \<le> datetime_max"
  proof (cases "\<exists>r. ra = Some r \<and> 0 < r")
    case False
    then have "cooldown n ra = Inr (LADDER ! nat n)"
      using assms(1,2) by (auto simp: cooldown_def py_index_in_range split: option.splits)
    with rung show ?thesis by simp
  next
    case True
    then obtain r where r: "ra = Some r" "0 < r" by blast
    let ?us = "py_round (r * of_int us_per_second)"
    have near: "\<bar>of_int ?us - r * of_int us_per_second\<bar> \<le> 1 / 2" by (rule py_round_near)
    have le: "0 \<le> ?us"
      using r by (intro py_round_mono) (simp add: us_per_second_def)
    have "of_int (now + ?us) \<le> (of_int datetime_max :: real)"
    proof -
      from near have "of_int ?us \<le> r * of_int us_per_second + 1 / 2" by linarith
      moreover from assms(3) r(1) have
        "of_int now + r * of_int us_per_second + 1 \<le> (of_int datetime_max :: real)" by simp
      ultimately show ?thesis by (simp only: of_int_add)
    qed
    then have up: "now + ?us \<le> datetime_max" by linarith
    with assms(3) have "?us \<le> timedelta_max"
      by (simp add: datetime_max_def timedelta_max_def)
    with le have "timedelta_seconds r = Inr ?us"
      by (simp add: timedelta_seconds_def timedelta_min_def)
    with r assms(1,2) have "cooldown n ra = Inr (max (LADDER ! nat n) ?us)"
      by (simp add: cooldown_def py_index_in_range)
    with rung up show ?thesis by auto
  qed
  then show thesis using that by blast
qed

lemma record_failure_representable:
  assumes "backoff_wf tbl" and "representable (Failed now pt pid why ra ff)"
  shows "\<exists>tbl' st. record_failure now pt pid why ra ff tbl = Inr (tbl', st)"
proof -
  define row where row: "row = (case row_get backoff_key (pt, pid) tbl of
      None \<Rightarrow> fresh_row now pt pid | Some r \<Rightarrow> r)"
  have "0 \<le> level row" using backoff_wf_level [OF assms(1) row] by simp
  then have "0 \<le> next_level (level row) ra ff \<and> next_level (level row) ra ff \<le> 9"
    using next_level_bounds [of "level row" ra ff] by simp
  then obtain d where "cooldown (next_level (level row) ra ff) ra = Inr d" "0 \<le> d"
    "now + d \<le> datetime_max"
    using cooldown_representable [OF _ _ assms(2)] by metis
  then show ?thesis using assms(2)
    by (simp add: record_failure_def Let_def datetime_add_def flip: row)
qed

lemma tracked_level_failure:
  assumes "record_failure now pt pid why ra ff tbl = Inr (tbl', st)"
  shows "tracked_level k tbl' =
    (if (pt, pid) = k then next_level (tracked_level k tbl) ra ff else tracked_level k tbl)"
  using assms
proof (rule record_failure_Inr)
  fix row :: backoff_row and n d
  assume row: "row = (case row_get backoff_key (pt, pid) tbl of
      None \<Rightarrow> fresh_row now pt pid | Some r \<Rightarrow> r)"
    and n: "n = next_level (level row) ra ff"
    and key: "backoff_key row = (pt, pid)"
    and tbl': "tbl' = row_put backoff_key (row\<lparr>level := n, failure_count := failure_count row + 1,
           next_allowed_at := Some (now + d), last_reason := Some why,
           last_failure_at := Some now, updated_at := now\<rparr>) tbl"
  have "level row = tracked_level (pt, pid) tbl"
    by (simp add: row tracked_level_def fresh_row_def split: option.splits)
  with key n show ?thesis
    by (auto simp: tbl' tracked_level_def backoff_store.get_put backoff_key_def)
qed

lemma tracked_level_success:
  "tracked_level k (record_success pt pid tbl) = (if (pt, pid) = k then 0 else tracked_level k tbl)"
  by (auto simp: tracked_level_def record_success_def backoff_store.get_del split: option.splits)

lemma tracked_level_step:
  assumes "backoff_wf tbl" and "representable e"
  shows "tracked_level k (backoff_step e tbl) = rung_after k e (tracked_level k tbl)"
proof (cases e)
  case (Failed now pt pid why ra ff)
  with record_failure_representable [OF assms(1), of now pt pid why ra ff] assms(2)
  obtain tbl' st where "record_failure now pt pid why ra ff tbl = Inr (tbl', st)" by auto
  then show ?thesis by (simp add: Failed tracked_level_failure next_level_climb)
qed (simp add: tracked_level_success)

lemma tracked_level_run:
  assumes "backoff_wf tbl" and "\<forall>e \<in> set es. representable e"
  shows "tracked_level k (fold backoff_step es tbl) = fold (rung_after k) es (tracked_level k tbl)"
  using assms
  by (induction es arbitrary: tbl) (simp_all add: tracked_level_step backoff_step_wf)

section \<open>Properties\<close>

text \<open>Whatever sequence of failures (with any Retry-After) and successes the providers
  report, the table keeps one row per provider, every row is on a rung between 1 and 9 of the
  ladder, has at least one failure counted and a deadline, and a provider is healthy exactly
  when it has no row.\<close>

theorem backoff_table_invariant:
  "backoff_wf (fold backoff_step es []) \<and>
   (healthy (provider_status now pt pid (fold backoff_step es [])) \<longleftrightarrow>
      row_get backoff_key (pt, pid) (fold backoff_step es []) = None)"
proof -
  have wf: "backoff_wf (fold backoff_step es [])"
    by (rule backoff_run_wf_from) (simp add: backoff_wf_def unique_key_def)
  then show ?thesis
    using backoff_wf_get [OF wf, of "(pt, pid)"]
    by (auto simp: healthy_def provider_status_def to_status_def Let_def split: option.splits)
qed

text \<open>C27: The persisted table refines the abstract ladder: for every provider, the rung after a
  run of events is the one obtained by stepping that provider's own failures up the ladder
  (fast-forwarding to rung 5, saturating at 9) and resetting on its own successes; the events
  of other providers never matter. The times of the events are \<open>representable\<close>: a day after each
  failure, and the end of the pause its server asked for, are dates a \<open>datetime\<close> can hold. A
  longer Retry-After makes the code raise, as \<open>huge_retry_after_raises\<close> shows.\<close>

theorem backoff_refines_ladder:
  assumes "\<forall>e \<in> set es. representable e"
  shows "tracked_level k (fold backoff_step es []) = fold (rung_after k) es 0"
  using tracked_level_run [of "[]" es k] assms
  by (simp add: backoff_wf_def unique_key_def tracked_level_def)

theorem backoff_refines_ladder_witness:
  "tracked_level (''ddl'', 1)
     (fold backoff_step
        [Failed 0 ''ddl'' 1 ''x'' None False, Failed 5 ''indexer'' 1 ''y'' (Some 90) False,
         Failed 9 ''ddl'' 1 ''z'' None False] []) = 2"
  by (subst backoff_refines_ladder)
    (simp_all add: datetime_max_def seconds_def us_per_second_def climb_def)

text \<open>After a recorded failure the provider is skipped exactly until one fixed instant, which
  is at least the ladder's cool-down away and never earlier than the server's Retry-After;
  no other provider's row changes.\<close>

theorem failure_cooldown_window:
  assumes "backoff_wf tbl" and "record_failure now pt pid why ra ff tbl = Inr (tbl', st)"
  shows "\<exists>until.
    (\<forall>t. is_backing_off t pt pid tbl' \<longleftrightarrow> t < until) \<and>
    now + LADDER ! nat (tracked_level (pt, pid) tbl') \<le> until \<and>
    (\<forall>s. 0 < s \<and> ra = Some (of_int s) \<longrightarrow> now + seconds s \<le> until) \<and>
    (\<forall>k. k \<noteq> (pt, pid) \<longrightarrow> row_get backoff_key k tbl' = row_get backoff_key k tbl)"
  using assms(2)
proof (rule record_failure_Inr)
  fix row :: backoff_row and n d
  let ?r = "row\<lparr>level := n, failure_count := failure_count row + 1,
           next_allowed_at := Some (now + d), last_reason := Some why,
           last_failure_at := Some now, updated_at := now\<rparr>"
  assume row: "row = (case row_get backoff_key (pt, pid) tbl of
      None \<Rightarrow> fresh_row now pt pid | Some r \<Rightarrow> r)"
    and n: "n = next_level (level row) ra ff" and d: "cooldown n ra = Inr d"
    and key: "backoff_key row = (pt, pid)" and tbl': "tbl' = row_put backoff_key ?r tbl"
  have "0 \<le> level row" using backoff_wf_level [OF assms(1) row] by simp
  then have n9: "0 \<le> n" "n \<le> 9" using next_level_bounds [of "level row" ra ff] by (auto simp: n)
  have get: "row_get backoff_key k tbl' =
      (if k = (pt, pid) then Some ?r else row_get backoff_key k tbl)" for k
    using key by (auto simp: tbl' backoff_store.get_put backoff_key_def)
  have "is_backing_off t pt pid tbl' \<longleftrightarrow> t < now + d" for t
    by (simp add: is_backing_off_def provider_status_def get to_status_def)
  moreover have "now + seconds s \<le> now + d" if "0 < s" "ra = Some (of_int s)" for s
    using cooldown_Inr(2) [OF n9 d that(2)] that(1) timedelta_seconds_ge [of "of_int s" _ s]
    by fastforce
  moreover have "now + LADDER ! nat (tracked_level (pt, pid) tbl') \<le> now + d"
    using cooldown_Inr(1) [OF n9 d] by (simp add: tracked_level_def get)
  ultimately show ?thesis using get by (intro exI [of _ "now + d"]) auto
qed

theorem failure_cooldown_window_witness:
  "\<exists>until. (\<forall>t. is_backing_off t ''ddl'' 1
       (fst (projr (record_failure 0 ''ddl'' 1 ''x'' (Some 7200) False []))) \<longleftrightarrow> t < until) \<and>
     seconds 7200 \<le> until"
proof -
  have wf: "backoff_wf []" by (simp add: backoff_wf_def unique_key_def)
  obtain tbl' st where r: "record_failure 0 ''ddl'' 1 ''x'' (Some 7200) False [] = Inr (tbl', st)"
    using record_failure_representable [OF wf, of 0 "''ddl''" 1 "''x''" "Some 7200" False]
    by (auto simp: datetime_max_def seconds_def us_per_second_def)
  from failure_cooldown_window [OF wf r] obtain until where
    u: "\<forall>t. is_backing_off t ''ddl'' 1 tbl' \<longleftrightarrow> t < until"
    and s: "\<forall>s. 0 < s \<and> (Some 7200 :: real option) = Some (of_int s) \<longrightarrow> 0 + seconds s \<le> until"
    by blast
  from s [THEN spec, of 7200] have "seconds 7200 \<le> until" by simp
  with u show ?thesis unfolding r by auto
qed

text \<open>A numeric Retry-After beyond what a datetime can hold (316 billion seconds, which the
  header parser lets through) makes recording the failure raise, so nothing is persisted: the
  provider that asked for the longest pause gets no back-off at all.\<close>

theorem huge_retry_after_raises:
  assumes "backoff_wf tbl" and "0 \<le> now"
    and "parse_retry_after headers = Inr (Some r)" and "315537897600 \<le> r"
  shows "record_failure now pt pid why (Some r) ff tbl = Inl OverflowError \<and>
    backoff_step (Failed now pt pid why (Some r) ff) tbl = tbl"
proof -
  define row where row: "row = (case row_get backoff_key (pt, pid) tbl of
      None \<Rightarrow> fresh_row now pt pid | Some r \<Rightarrow> r)"
  define n where "n = next_level (level row) (Some r) ff"
  have "0 \<le> level row" using backoff_wf_level [OF assms(1) row] by simp
  then have n: "0 \<le> n" "n \<le> 9"
    using next_level_bounds [of "level row" "Some r" ff] by (auto simp: n_def)
  have "result_bind (cooldown n (Some r)) (\<lambda>delay. result_bind (datetime_add now delay) f)
      = Inl OverflowError" for f :: "datetime \<Rightarrow> (backoff_row list \<times> backoff_status) result"
  proof (cases "timedelta_seconds r")
    case (Inl e)
    then show ?thesis using n assms(4)
      by (auto simp: cooldown_def py_index_in_range timedelta_seconds_def Let_def split: if_splits)
  next
    case (Inr d)
    then have "seconds 315537897600 \<le> d"
      by (rule timedelta_seconds_ge) (use assms(4) in simp)
    then have "datetime_max < now + max (LADDER ! nat n) d"
      using assms(2) by (simp add: seconds_def us_per_second_def datetime_max_def)
    then have "datetime_add now (max (LADDER ! nat n) d) = Inl OverflowError"
      by (simp add: datetime_add_def)
    then show ?thesis using n Inr assms(4)
      by (simp add: cooldown_def py_index_in_range)
  qed
  then show ?thesis by (simp add: record_failure_def Let_def flip: row n_def)
qed

lemma huge_header:
  "parse_retry_after [''retry-after'' \<mapsto> ''999999999999''] = Inr (Some 999999999999)"
  by (simp add: parse_retry_after_def py_strip_def latin1_isspace_def latin1_isdigit_def
      latin1_isdecimal_def float_of_digits_def digits_value_def)

theorem huge_retry_after_raises_witness:
  "record_failure 0 ''indexer'' 7 ''429'' (Some 999999999999) True [] = Inl OverflowError"
proof -
  have wf: "backoff_wf []" by (simp add: backoff_wf_def unique_key_def)
  show ?thesis using huge_retry_after_raises [OF wf order_refl huge_header] by simp
qed

text \<open>Every non-negative integer a server sends as Retry-After, with any surrounding
  whitespace, is read back as exactly that number of seconds.\<close>

theorem retry_after_roundtrip:
  assumes "list_all latin1_isspace a" and "list_all latin1_isspace b"
  shows "parse_retry_after [''retry-after'' \<mapsto> a @ show_nat n @ b] = Inr (Some (of_nat n))"
proof -
  have dec: "latin1_isdecimal c \<and> \<not> latin1_isspace c" if "c \<in> set (show_nat n)" for c
    using set_show_nat [OF that] by (auto simp: latin1_isdecimal_def latin1_isspace_def)
  have "py_strip (a @ show_nat n @ b) = show_nat n"
    using assms dec by (intro py_strip_around) (auto simp: list_all_iff)
  moreover have "list_all latin1_isdecimal (show_nat n)" "list_all latin1_isdigit (show_nat n)"
    using dec by (auto simp: list_all_iff latin1_isdigit_def)
  ultimately show ?thesis
    by (simp add: parse_retry_after_def float_of_digits_def)
qed

theorem retry_after_roundtrip_witness:
  "parse_retry_after [''retry-after'' \<mapsto> '' '' @ show_nat 120 @ []] = Inr (Some 120)"
  using retry_after_roundtrip [of "'' ''" "[]" 120] by (simp add: latin1_isspace_def)

text \<open>The header parser raises ValueError on a server-chosen value: digits in the sense of
  \<open>isdigit\<close> of which one is a superscript digit pass its guard and fail in \<open>float\<close>.\<close>

theorem superscript_header_raises:
  assumes "headers ''retry-after'' = Some raw" and "py_strip raw \<noteq> []"
    and "list_all latin1_isdigit (py_strip raw)"
    and "list_ex (\<lambda>c. \<not> latin1_isdecimal c) (py_strip raw)"
  shows "parse_retry_after headers = Inl ValueError"
  using assms
  by (auto simp: parse_retry_after_def Let_def float_of_digits_def list_all_iff list_ex_iff)

theorem superscript_header_raises_witness:
  "parse_retry_after [''retry-after'' \<mapsto> [CHR ''1'', CHR 0xB2]] = Inl ValueError"
proof -
  have s: "py_strip [CHR ''1'', CHR 0xB2] = [CHR ''1'', CHR 0xB2]"
    by (simp add: py_strip_def latin1_isspace_def)
  show ?thesis
    by (rule superscript_header_raises [where raw = "[CHR ''1'', CHR 0xB2]"])
      (simp_all add: s latin1_isdigit_def latin1_isdecimal_def)
qed

end
