(* ===== verification/Command_Queue.thy ===== *)
theory Command_Queue
  imports Prelude "HOL-Library.Product_Lexorder" "HOL-Library.Multiset"
begin

text \<open>
  The persisted command queue and its worker pools (\<open>commands/service.py\<close>,
  \<open>commands/registry.py\<close>).

  The service's state is its two tables (rows in id order), the in-memory set of active
  exclusivity groups, the stopping flag and the log of published status events. One
  \<open>write_session\<close> is one atomic step; the argument \<open>commit_ok\<close> says whether its commit
  succeeds, and a failed commit is \<open>DatabaseBusyError\<close> with the tables rolled back.
  Payload validation (pydantic), the digest and the handlers' results are parameters.
  The worker tasks are the list of records they are executing.
\<close>

section \<open>Rows and registry\<close>

datatype command_status = Queued | Started | Completed | Failed_cmd | Cancelled

record command_row =
  c_id :: int
  c_name :: string
  c_status :: command_status
  c_priority :: int
  c_workload_class :: string
  c_exclusivity_group :: "string option"
  c_payload :: string
  c_payload_hash :: string
  c_triggered_by :: string
  c_queued_at :: datetime
  c_started_at :: "datetime option"
  c_finished_at :: "datetime option"
  c_result :: "string option"
  c_error :: "string option"

datatype job_outcome = Job_completed | Job_failed | Job_interrupted

record job_row =
  j_command_id :: int
  j_name :: string
  j_triggered_by :: string
  j_started_at :: "datetime option"
  j_finished_at :: "datetime option"
  j_outcome :: job_outcome
  j_error :: "string option"

record service =
  commands :: "command_row list"
  job_history :: "job_row list"
  active_groups :: "string set"
  stopping :: bool
  published :: "(int \<times> string \<times> command_status) list"

text \<open>
  A registered command model: its class-level metadata and its payload validation, which
  yields the canonical JSON of the validated payload.
\<close>

record command_type =
  workload_class :: string
  default_priority :: int
  exclusivity_group :: "string option"
  validate :: "string \<Rightarrow> string option"

type_synonym registry = "string \<rightharpoonup> command_type"

record command =
  cmd_name :: string
  cmd_type :: command_type
  cmd_payload_json :: string

definition parse_command :: "registry \<Rightarrow> string \<Rightarrow> string \<Rightarrow> command result" where
  "parse_command reg name payload =
     (case reg name of
        None \<Rightarrow> Inl CommandValidationError
      | Some ty \<Rightarrow>
          (case validate ty payload of
             None \<Rightarrow> Inl CommandValidationError
           | Some body \<Rightarrow> Inr \<lparr>cmd_name = name, cmd_type = ty, cmd_payload_json = body\<rparr>))"

definition payload_hash :: "(string \<Rightarrow> string) \<Rightarrow> command \<Rightarrow> string" where
  "payload_hash digest command = digest (cmd_payload_json command)"

section \<open>Enqueue\<close>

definition live_row :: "command_row \<Rightarrow> bool" where
  "live_row r \<longleftrightarrow> c_status r = Queued \<or> c_status r = Started"

definition find_live :: "string \<Rightarrow> string \<Rightarrow> command_row list \<Rightarrow> command_row option" where
  "find_live name h rows =
     find (\<lambda>r. c_name r = name \<and> c_payload_hash r = h \<and> live_row r) rows"

definition next_id :: "command_row list \<Rightarrow> int" where
  "next_id rows = 1 + foldr max (map c_id rows) 0"

definition new_command_row ::
  "datetime \<Rightarrow> command \<Rightarrow> string \<Rightarrow> int option \<Rightarrow> string \<Rightarrow> int \<Rightarrow> command_row" where
  "new_command_row now command h prio trigger i =
     \<lparr>c_id = i, c_name = cmd_name command, c_status = Queued,
      c_priority = (case prio of Some p \<Rightarrow> p | None \<Rightarrow> default_priority (cmd_type command)),
      c_workload_class = workload_class (cmd_type command),
      c_exclusivity_group = exclusivity_group (cmd_type command),
      c_payload = cmd_payload_json command, c_payload_hash = h, c_triggered_by = trigger,
      c_queued_at = now, c_started_at = None, c_finished_at = None, c_result = None,
      c_error = None\<rparr>"

definition enqueue ::
  "registry \<Rightarrow> (string \<Rightarrow> string) \<Rightarrow> bool \<Rightarrow> datetime \<Rightarrow> string \<Rightarrow> string \<Rightarrow> int option \<Rightarrow> string \<Rightarrow>
   service \<Rightarrow> (service \<times> command_row) result" where
  "enqueue reg digest commit_ok now name payload prio trigger st =
     result_bind (parse_command reg name payload) (\<lambda>command.
       let h = payload_hash digest command
       in if \<not> commit_ok then Inl DatabaseBusyError
          else case find_live name h (commands st) of
            Some existing \<Rightarrow> Inr (st, existing)
          | None \<Rightarrow>
              (let row = new_command_row now command h prio trigger (next_id (commands st))
               in Inr (st\<lparr>commands := commands st @ [row],
                          published := published st @ [(c_id row, name, Queued)]\<rparr>, row)))"

section \<open>Claim\<close>

text \<open>An empty group name is falsy in Python and counts as no group.\<close>

definition group_of :: "command_row \<Rightarrow> string option" where
  "group_of r = (case c_exclusivity_group r of
     None \<Rightarrow> None | Some g \<Rightarrow> if g = [] then None else Some g)"

definition blocked :: "string set \<Rightarrow> command_row \<Rightarrow> bool" where
  "blocked active r = (case group_of r of None \<Rightarrow> False | Some g \<Rightarrow> g \<in> active)"

definition CLAIM_LIMIT :: nat where "CLAIM_LIMIT = 50"

definition claim_order :: "command_row \<Rightarrow> int \<times> int" where
  "claim_order r = (- c_priority r, c_id r)"

definition candidates :: "string \<Rightarrow> command_row list \<Rightarrow> command_row list" where
  "candidates wclass rows =
     take CLAIM_LIMIT (sort_key claim_order
       (filter (\<lambda>r. c_status r = Queued \<and> c_workload_class r = wclass) rows))"

definition start_row :: "datetime \<Rightarrow> command_row \<Rightarrow> command_row" where
  "start_row now r = r\<lparr>c_status := Started, c_started_at := Some now\<rparr>"

definition claim ::
  "bool \<Rightarrow> datetime \<Rightarrow> string \<Rightarrow> service \<Rightarrow> service \<times> command_row option result" where
  "claim commit_ok now wclass st =
     (if stopping st then (st, Inr None)
      else
        case find (\<lambda>r. \<not> blocked (active_groups st) r) (candidates wclass (commands st)) of
          None \<Rightarrow> (st, if commit_ok then Inr None else Inl DatabaseBusyError)
        | Some row \<Rightarrow>
            (let added = group_of row;
                 reserved = st\<lparr>active_groups := active_groups st \<union> set_option added\<rparr>;
                 row' = start_row now row
             in if commit_ok
                then (reserved\<lparr>commands := row_put c_id row' (commands st),
                               published := published st @ [(c_id row', c_name row', Started)]\<rparr>,
                      Inr (Some row'))
                else (reserved\<lparr>active_groups := active_groups reserved - set_option added\<rparr>,
                      Inl DatabaseBusyError)))"

section \<open>Execute\<close>

datatype handler_outcome =
    Returned "string option"
  | Raised string
  | CancelledError

text \<open>
  What the \<open>try\<close> block of \<open>_execute\<close> yields: the stored payload is parsed again, the
  handler looked up and run; each failure is an exception with its text.
\<close>

definition handler_run ::
  "registry \<Rightarrow> (string \<rightharpoonup> command \<Rightarrow> handler_outcome) \<Rightarrow> (py_error \<Rightarrow> string) \<Rightarrow> command_row \<Rightarrow>
   handler_outcome" where
  "handler_run reg handlers text_of rec =
     (case parse_command reg (c_name rec) (c_payload rec) of
        Inl e \<Rightarrow> Raised (text_of e)
      | Inr command \<Rightarrow>
          (case handlers (c_name rec) of
             None \<Rightarrow> Raised (text_of KeyError)
           | Some handler \<Rightarrow> handler command))"

definition terminal ::
  "handler_outcome \<Rightarrow> (command_status \<times> job_outcome \<times> string option \<times> string option) option" where
  "terminal out =
     (case out of
        Returned res \<Rightarrow> Some (Completed, Job_completed, res, None)
      | Raised msg \<Rightarrow> Some (Failed_cmd, Job_failed, None, Some msg)
      | CancelledError \<Rightarrow> None)"

definition execute ::
  "bool \<Rightarrow> datetime \<Rightarrow> handler_outcome \<Rightarrow> command_row \<Rightarrow> service \<Rightarrow> service \<times> unit result" where
  "execute commit_ok finished out rec st =
     (case terminal out of
        None \<Rightarrow> (st, Inr ())
      | Some (status, job, res, err) \<Rightarrow>
          if \<not> commit_ok then (st, Inl DatabaseBusyError)
          else
            (let tbl = (case row_get c_id (c_id rec) (commands st) of
                          None \<Rightarrow> commands st
                        | Some row \<Rightarrow>
                            row_put c_id (row\<lparr>c_status := status, c_finished_at := Some finished,
                              c_result := res, c_error := err\<rparr>) (commands st));
                 hist = \<lparr>j_command_id = c_id rec, j_name = c_name rec,
                         j_triggered_by = c_triggered_by rec, j_started_at = c_started_at rec,
                         j_finished_at = Some finished, j_outcome = job, j_error = err\<rparr>
             in (st\<lparr>commands := tbl, job_history := job_history st @ [hist],
                    published := published st @ [(c_id rec, c_name rec, status)]\<rparr>, Inr ())))"

text \<open>The \<open>finally\<close> of the worker loop, on every way out of \<open>_execute\<close>.\<close>

definition release_group :: "command_row \<Rightarrow> service \<Rightarrow> service" where
  "release_group rec st = st\<lparr>active_groups := active_groups st - set_option (group_of rec)\<rparr>"

text \<open>
  The pause after \<open>n\<close> consecutive unexpected errors of a worker. The integer power is
  converted to a double, which raises from \<open>2 ** 1024\<close> on.
\<close>

definition worker_backoff :: "nat \<Rightarrow> real result" where
  "worker_backoff n = (if 1024 \<le> n - 1 then Inl OverflowError else Inr (min (1 * 2 ^ (n - 1)) 30))"

section \<open>Recovery, drain, housekeeping\<close>

definition interrupted_job :: "datetime \<Rightarrow> command_row \<Rightarrow> job_row" where
  "interrupted_job now r =
     \<lparr>j_command_id = c_id r, j_name = c_name r, j_triggered_by = c_triggered_by r,
      j_started_at = c_started_at r, j_finished_at = Some now, j_outcome = Job_interrupted,
      j_error = None\<rparr>"

definition requeue :: "command_row \<Rightarrow> command_row" where
  "requeue r = (if c_status r = Started then r\<lparr>c_status := Queued, c_started_at := None\<rparr> else r)"

definition recover_orphans :: "datetime \<Rightarrow> service \<Rightarrow> service \<times> nat" where
  "recover_orphans now st =
     (let rows = filter (\<lambda>r. c_status r = Started) (commands st)
      in (st\<lparr>commands := map requeue (commands st),
             job_history := job_history st @ map (interrupted_job now) rows\<rparr>, length rows))"

definition drain_begin :: "service \<Rightarrow> service" where
  "drain_begin st = st\<lparr>stopping := True\<rparr>"

definition prune_job_history :: "datetime \<Rightarrow> int \<Rightarrow> service \<Rightarrow> (service \<times> nat) result" where
  "prune_job_history now retention_days st =
     result_bind (datetime_add now (- seconds (86400 * retention_days))) (\<lambda>cutoff.
       let aged = (\<lambda>j. case j_finished_at j of None \<Rightarrow> False | Some f \<Rightarrow> f < cutoff)
       in Inr (st\<lparr>job_history := filter (\<lambda>j. \<not> aged j) (job_history st)\<rparr>,
               length (filter aged (job_history st))))"

text \<open>A new process on the same database: fresh in-memory state, then orphan recovery.\<close>

definition restart :: "datetime \<Rightarrow> service \<Rightarrow> service" where
  "restart now st = (fst (recover_orphans now (st\<lparr>active_groups := {}\<rparr>)))\<lparr>stopping := False\<rparr>"

interpretation command_store: keyed_store c_id "row_get c_id" "row_put c_id" "row_del c_id"
  "unique_key c_id"
  by (rule keyed_store_rows)

section \<open>The concurrent system\<close>

text \<open>
  The state is the service and the records its workers are executing. A step is one atomic
  write session of some worker or client, a shutdown signal or a process restart; every
  interleaving of the asyncio tasks is a sequence of these steps.
\<close>

type_synonym system = "service \<times> command_row list"

definition init_system :: system where
  "init_system =
     (\<lparr>commands = [], job_history = [], active_groups = {}, stopping = False, published = []\<rparr>, [])"

inductive sys_step :: "registry \<Rightarrow> (string \<Rightarrow> string) \<Rightarrow> system \<Rightarrow> system \<Rightarrow> bool"
  for reg digest where
  step_enqueue:
    "enqueue reg digest ok now name payload prio trigger st = Inr (st', rec) \<Longrightarrow>
     sys_step reg digest (st, run) (st', run)"
| step_claim:
    "claim ok now wclass st = (st', Inr (Some rec)) \<Longrightarrow>
     sys_step reg digest (st, run) (st', rec # run)"
| step_claim_none:
    "claim ok now wclass st = (st', r) \<Longrightarrow> (\<forall>rec. r \<noteq> Inr (Some rec)) \<Longrightarrow>
     sys_step reg digest (st, run) (st', run)"
| step_finish:
    "rec \<in> set run \<Longrightarrow>
     sys_step reg digest (st, run)
       (release_group rec (fst (execute ok now out rec st)), remove1 rec run)"
| step_drain: "sys_step reg digest (st, run) (drain_begin st, run)"
| step_prune:
    "prune_job_history now days st = Inr (st', n) \<Longrightarrow> sys_step reg digest (st, run) (st', run)"
| step_restart: "sys_step reg digest (st, run) (restart now st, [])"

inductive reachable :: "registry \<Rightarrow> (string \<Rightarrow> string) \<Rightarrow> system \<Rightarrow> bool" for reg digest where
  reach_init: "reachable reg digest init_system"
| reach_step: "reachable reg digest s \<Longrightarrow> sys_step reg digest s s' \<Longrightarrow> reachable reg digest s'"

section \<open>Enqueue and claim, branch by branch\<close>

lemma next_id_fresh: "r \<in> set rows \<Longrightarrow> c_id r < next_id rows"
proof -
  have "r \<in> set rows \<Longrightarrow> c_id r \<le> foldr max (map c_id rows) 0"
    by (induction rows) auto
  then show "r \<in> set rows \<Longrightarrow> ?thesis" by (simp add: next_id_def)
qed

lemma find_SomeD: "find P xs = Some x \<Longrightarrow> x \<in> set xs \<and> P x"
  by (auto simp: find_Some_iff in_set_conv_nth)

lemma find_live_SomeD:
  "find_live name h rows = Some r \<Longrightarrow>
   r \<in> set rows \<and> c_name r = name \<and> c_payload_hash r = h \<and> live_row r"
  unfolding find_live_def by (drule find_SomeD) simp

lemma find_live_NoneD:
  "find_live name h rows = None \<Longrightarrow> r \<in> set rows \<Longrightarrow> live_row r \<Longrightarrow> c_name r = name \<Longrightarrow>
   c_payload_hash r \<noteq> h"
  by (auto simp: find_live_def find_None_iff)

lemma enqueue_cases:
  assumes "enqueue reg digest ok now name payload prio trigger st = Inr (st', rec)"
  obtains (existing) "st' = st" and "rec \<in> set (commands st)" and "live_row rec" and "c_name rec = name"
  | (fresh) command where "parse_command reg name payload = Inr command"
      and "find_live name (payload_hash digest command) (commands st) = None"
      and "rec = new_command_row now command (payload_hash digest command) prio trigger
             (next_id (commands st))"
      and "st' = st\<lparr>commands := commands st @ [rec],
             published := published st @ [(c_id rec, name, Queued)]\<rparr>"
  using assms
  by (auto simp: enqueue_def result_bind_eq_Inr Let_def split: if_splits option.splits
      dest: find_live_SomeD)

lemma parse_command_name: "parse_command reg name payload = Inr command \<Longrightarrow> cmd_name command = name"
  by (auto simp: parse_command_def split: option.splits)

lemma set_candidates:
  "r \<in> set (candidates wclass rows) \<Longrightarrow>
   r \<in> set rows \<and> c_status r = Queued \<and> c_workload_class r = wclass"
  by (auto simp: candidates_def dest!: in_set_takeD)

lemma claim_SomeD:
  assumes "claim ok now wclass st = (st', Inr (Some rec))"
  obtains row where "row \<in> set (commands st)" and "c_status row = Queued"
    and "c_workload_class row = wclass" and "\<not> blocked (active_groups st) row"
    and "rec = start_row now row" and "\<not> stopping st"
    and "st' = st\<lparr>commands := row_put c_id rec (commands st),
           active_groups := active_groups st \<union> set_option (group_of rec),
           published := published st @ [(c_id rec, c_name rec, Started)]\<rparr>"
  using assms
  by (auto simp: claim_def Let_def start_row_def group_of_def split: if_splits option.splits
      dest!: find_SomeD set_candidates)

lemma claim_not_Some:
  assumes "claim ok now wclass st = (st', r)" and "\<forall>rec. r \<noteq> Inr (Some rec)"
  shows "st' = st"
proof -
  have "active_groups st \<union> set_option (group_of row) - set_option (group_of row) = active_groups st"
    if "\<not> blocked (active_groups st) row" for row
    using that by (auto simp: blocked_def split: option.splits)
  then show ?thesis using assms
    by (auto simp: claim_def Let_def split: if_splits option.splits dest!: find_SomeD)
qed

section \<open>The invariant\<close>

definition same_body :: "command_row \<Rightarrow> command_row \<Rightarrow> bool" where
  "same_body r1 r2 \<longleftrightarrow> c_name r1 = c_name r2 \<and> c_payload_hash r1 = c_payload_hash r2"

definition deduplicated :: "command_row list \<Rightarrow> bool" where
  "deduplicated rows \<longleftrightarrow>
     (\<forall>r1 \<in> set rows. \<forall>r2 \<in> set rows. live_row r1 \<and> live_row r2 \<and> same_body r1 r2 \<longrightarrow> r1 = r2)"

definition exclusive :: "command_row list \<Rightarrow> bool" where
  "exclusive run \<longleftrightarrow>
     (\<forall>r1 \<in> set run. \<forall>r2 \<in> set run. group_of r1 \<noteq> None \<and> group_of r1 = group_of r2 \<longrightarrow> r1 = r2)"

definition groups_of :: "command_row list \<Rightarrow> string set" where
  "groups_of run = {g. \<exists>r \<in> set run. group_of r = Some g}"

definition cq_inv :: "system \<Rightarrow> bool" where
  "cq_inv s \<longleftrightarrow> (case s of (st, run) \<Rightarrow>
     unique_key c_id (commands st) \<and> deduplicated (commands st) \<and>
     distinct (map c_id run) \<and> (\<forall>r \<in> set run. r \<in> set (commands st) \<and> c_status r = Started) \<and>
     active_groups st = groups_of run \<and> exclusive run)"

lemma exclusiveD:
  "exclusive run \<Longrightarrow> r1 \<in> set run \<Longrightarrow> r2 \<in> set run \<Longrightarrow> group_of r1 = Some g \<Longrightarrow>
   group_of r2 = Some g \<Longrightarrow> r1 = r2"
  unfolding exclusive_def by (metis option.distinct(1))

lemma cq_invI:
  assumes "unique_key c_id (commands st)" and "deduplicated (commands st)"
    and "distinct (map c_id run)"
    and "\<And>r. r \<in> set run \<Longrightarrow> r \<in> set (commands st) \<and> c_status r = Started"
    and "active_groups st = groups_of run" and "exclusive run"
  shows "cq_inv (st, run)"
  using assms by (simp add: cq_inv_def)

lemma cq_invD:
  assumes "cq_inv (st, run)"
  shows "unique_key c_id (commands st)" and "deduplicated (commands st)"
    and "distinct (map c_id run)"
    and "r \<in> set run \<Longrightarrow> r \<in> set (commands st)" and "r \<in> set run \<Longrightarrow> c_status r = Started"
    and "active_groups st = groups_of run" and "exclusive run"
  using assms by (auto simp: cq_inv_def)

lemma deduplicated_update:
  assumes "unique_key c_id rows" and "deduplicated rows" and "row \<in> set rows"
    and "c_id row' = c_id row" and "same_body row' row" and "live_row row' \<Longrightarrow> live_row row"
  shows "deduplicated (row_put c_id row' rows)"
  unfolding deduplicated_def
proof (intro ballI impI)
  fix r1 r2
  assume r: "r1 \<in> set (row_put c_id row' rows)" "r2 \<in> set (row_put c_id row' rows)"
    and live: "live_row r1 \<and> live_row r2 \<and> same_body r1 r2"
  have old: "r \<in> set rows \<and> c_id r \<noteq> c_id row" if "r \<in> set (row_put c_id row' rows)" "r \<noteq> row'" for r
    using that assms(4) by (simp add: set_row_put [OF assms(1)])
  show "r1 = r2"
  proof (cases "r1 = row' \<or> r2 = row'")
    case True
    then show ?thesis
      using old r live assms(2,3,5,6) unfolding deduplicated_def same_body_def by metis
  next
    case False
    then show ?thesis using old r live assms(2) unfolding deduplicated_def by blast
  qed
qed

lemma enqueue_inv:
  assumes inv: "cq_inv (st, run)"
    and "enqueue reg digest ok now name payload prio trigger st = Inr (st', rec)"
  shows "cq_inv (st', run)"
  using assms(2)
proof (cases rule: enqueue_cases)
  case existing
  with inv show ?thesis by simp
next
  case (fresh command)
  note I = cq_invD [OF inv]
  let ?h = "payload_hash digest command"
  have rec: "c_name rec = name" "c_payload_hash rec = ?h" "c_id rec = next_id (commands st)"
    using parse_command_name [OF fresh(1)] by (simp_all add: fresh(3) new_command_row_def)
  have "c_id rec \<notin> c_id ` set (commands st)" using next_id_fresh rec(3) by fastforce
  then have "unique_key c_id (commands st')"
    using I(1) by (simp add: unique_key_def fresh(4))
  moreover have "\<not> same_body r rec \<and> \<not> same_body rec r"
    if "r \<in> set (commands st)" "live_row r" for r
    using find_live_NoneD [OF fresh(2) that] rec by (auto simp: same_body_def)
  then have "deduplicated (commands st')"
    using I(2) by (auto simp: deduplicated_def fresh(4))
  ultimately show ?thesis
    using I(3-7) by (intro cq_invI) (auto simp: fresh(4))
qed

lemma claim_inv:
  assumes inv: "cq_inv (st, run)" and "claim ok now wclass st = (st', Inr (Some rec))"
  shows "cq_inv (st', rec # run)"
  using assms(2)
proof (rule claim_SomeD)
  fix row
  assume row: "row \<in> set (commands st)" "c_status row = Queued" "\<not> blocked (active_groups st) row"
    and rec: "rec = start_row now row"
    and st': "st' = st\<lparr>commands := row_put c_id rec (commands st),
           active_groups := active_groups st \<union> set_option (group_of rec),
           published := published st @ [(c_id rec, c_name rec, Started)]\<rparr>"
  note I = cq_invD [OF inv]
  have r: "c_id rec = c_id row" "same_body rec row" "group_of rec = group_of row"
    by (simp_all add: rec start_row_def same_body_def group_of_def)
  have notin: "c_id r \<noteq> c_id rec" if "r \<in> set run" for r
    using unique_key_eq [OF I(1) I(4) [OF that] row(1)] I(5) [OF that] row(2) r(1) by auto
  have free: "group_of rec = Some g \<Longrightarrow> g \<notin> groups_of run" for g
    using row(3) I(6) r(3) by (simp add: blocked_def)
  show ?thesis
  proof (rule cq_invI)
    show "unique_key c_id (commands st')" using I(1) by (simp add: st' unique_row_put)
    show "deduplicated (commands st')"
      unfolding st' using row(2) r
      by (simp add: deduplicated_update [OF I(1,2) row(1)] live_row_def)
    show "distinct (map c_id (rec # run))" 
      using I(3) notin by (metis distinct.simps(2) imageE list.set_map list.simps(9))
    show "q \<in> set (commands st') \<and> c_status q = Started" if "q \<in> set (rec # run)" for q
      using that I(4,5) notin by (auto simp: st' set_row_put [OF I(1)] rec start_row_def)
    show "active_groups st' = groups_of (rec # run)"
      using I(6) by (auto simp: st' groups_of_def)
    show "exclusive (rec # run)"
      using I(7) free by (force simp: exclusive_def groups_of_def)
  qed
qed

lemma release_inv:
  assumes inv: "cq_inv (st, run)" and rec: "rec \<in> set run"
  shows "groups_of run - set_option (group_of rec) = groups_of (remove1 rec run)"
    and "distinct (map c_id (remove1 rec run))" and "exclusive (remove1 rec run)"
    and "q \<in> set (remove1 rec run) \<Longrightarrow> q \<in> set run \<and> q \<noteq> rec \<and> c_id q \<noteq> c_id rec"
proof -
  note I = cq_invD [OF inv]
  have dist: "distinct run" using I(3) by (simp add: distinct_map)
  then have set1: "set (remove1 rec run) = set run - {rec}" by simp
  show "groups_of run - set_option (group_of rec) = groups_of (remove1 rec run)"
  proof (rule set_eqI)
    fix g
    show "g \<in> groups_of run - set_option (group_of rec) \<longleftrightarrow> g \<in> groups_of (remove1 rec run)"
    proof (cases "group_of rec = Some g")
      case True
      then have "group_of r \<noteq> Some g" if "r \<in> set run - {rec}" for r
        using that exclusiveD [OF I(7) _ rec] by blast
      with True show ?thesis by (auto simp: groups_of_def set1)
    next
      case False
      then have "g \<notin> set_option (group_of rec)" by (cases "group_of rec") auto
      with False show ?thesis by (auto simp: groups_of_def set1)
    qed
  qed
  show "distinct (map c_id (remove1 rec run))"
    using I(3) by (auto simp: distinct_map distinct_remove1 intro: inj_on_diff)
  show "exclusive (remove1 rec run)" using I(7) by (auto simp: exclusive_def set1 dist)
  show "q \<in> set (remove1 rec run) \<Longrightarrow> q \<in> set run \<and> q \<noteq> rec \<and> c_id q \<noteq> c_id rec"
  proof -
    assume "q \<in> set (remove1 rec run)"
    then have q: "q \<in> set run" "q \<noteq> rec" by (auto simp: set1)
    with I(3) rec show ?thesis by (auto simp: distinct_map dest: inj_onD)
  qed
qed

lemma execute_effect:
  obtains "fst (execute ok now out rec st) = st"
  | status res err where "live_row rec \<Longrightarrow> status = Completed \<or> status = Failed_cmd"
      and "status = Completed \<or> status = Failed_cmd"
      and "commands (fst (execute ok now out rec st)) =
        (case row_get c_id (c_id rec) (commands st) of None \<Rightarrow> commands st
         | Some row \<Rightarrow> row_put c_id (row\<lparr>c_status := status, c_finished_at := Some now,
             c_result := res, c_error := err\<rparr>) (commands st))"
      and "active_groups (fst (execute ok now out rec st)) = active_groups st"
  by (cases out; cases ok) (auto simp: execute_def terminal_def)

lemma finish_inv:
  assumes inv: "cq_inv (st, run)" and rec: "rec \<in> set run"
  shows "cq_inv (release_group rec (fst (execute ok now out rec st)), remove1 rec run)"
proof -
  note I = cq_invD [OF inv]
  note R = release_inv [OF inv rec]
  let ?st = "fst (execute ok now out rec st)"
  show ?thesis
  proof (rule execute_effect [of ok now out rec st])
    assume eq: "?st = st"
    show ?thesis unfolding eq
    proof (rule cq_invI)
      show "unique_key c_id (commands (release_group rec st))" using I(1) by (simp add: release_group_def)
      show "deduplicated (commands (release_group rec st))" using I(2) by (simp add: release_group_def)
      show "q \<in> set (commands (release_group rec st)) \<and> c_status q = Started"
        if "q \<in> set (remove1 rec run)" for q
        using R(4) [OF that] I(4,5) [of q] by (simp add: release_group_def)
      show "active_groups (release_group rec st) = groups_of (remove1 rec run)"
        using R(1) I(6) by (simp add: release_group_def)
    qed (rule R)+
  next
    fix status res err
    assume status: "status = Completed \<or> status = Failed_cmd"
      and cmds: "commands ?st = (case row_get c_id (c_id rec) (commands st) of None \<Rightarrow> commands st
         | Some row \<Rightarrow> row_put c_id (row\<lparr>c_status := status, c_finished_at := Some now,
             c_result := res, c_error := err\<rparr>) (commands st))"
      and act: "active_groups ?st = active_groups st"
    let ?r = "rec\<lparr>c_status := status, c_finished_at := Some now, c_result := res, c_error := err\<rparr>"
    have cmds': "commands ?st = row_put c_id ?r (commands st)"
      using row_get_unique [OF I(1) I(4) [OF rec]] cmds by simp
    show ?thesis
    proof (rule cq_invI)
      show "unique_key c_id (commands (release_group rec ?st))"
        using I(1) by (simp add: release_group_def cmds' unique_row_put)
      show "deduplicated (commands (release_group rec ?st))"
      proof -
        have "deduplicated (row_put c_id ?r (commands st))"
          by (rule deduplicated_update [OF I(1,2) I(4) [OF rec]])
            (use status in \<open>auto simp: same_body_def live_row_def\<close>)
        then show ?thesis by (simp add: release_group_def cmds')
      qed
      show "q \<in> set (commands (release_group rec ?st)) \<and> c_status q = Started"
        if "q \<in> set (remove1 rec run)" for q
        using R(4) [OF that] I(4,5) [of q]
        by (simp add: release_group_def cmds' set_row_put [OF I(1)])
      show "active_groups (release_group rec ?st) = groups_of (remove1 rec run)"
        using R(1) I(6) by (simp add: release_group_def act)
    qed (rule R)+
  qed
qed

lemma requeue_frame [simp]:
  "c_id (requeue r) = c_id r" "live_row (requeue r) = live_row r"
  "same_body (requeue r) q = same_body r q" "same_body q (requeue r) = same_body q r"
  "c_status (requeue r) \<noteq> Started"
  by (simp_all add: requeue_def live_row_def same_body_def)

lemma restart_inv: "cq_inv (st, run) \<Longrightarrow> cq_inv (restart now st, [])"
proof (rule cq_invI)
  assume inv: "cq_inv (st, run)"
  note I = cq_invD [OF inv]
  have cmds: "commands (restart now st) = map requeue (commands st)"
    by (simp add: restart_def recover_orphans_def Let_def)
  show "unique_key c_id (commands (restart now st))"
    using I(1) by (simp add: cmds unique_key_def comp_def)
  show "deduplicated (commands (restart now st))"
    using I(2) by (simp add: cmds deduplicated_def) blast
  show "active_groups (restart now st) = groups_of []"
    by (simp add: restart_def recover_orphans_def Let_def groups_of_def)
qed (simp_all add: exclusive_def)

lemma sys_step_inv: "sys_step reg digest s s' \<Longrightarrow> cq_inv s \<Longrightarrow> cq_inv s'"
proof (induction rule: sys_step.induct)
  case (step_enqueue ok now name payload prio trigger st st' rec run)
  then show ?case by (blast intro: enqueue_inv)
next
  case (step_claim ok now wclass st st' rec run)
  then show ?case by (blast intro: claim_inv)
next
  case (step_claim_none ok now wclass st st' r run)
  then show ?case by (auto dest: claim_not_Some)
next
  case (step_finish rec run st ok now out)
  then show ?case by (intro finish_inv)
next
  case (step_drain st run)
  then show ?case by (simp add: cq_inv_def drain_begin_def)
next
  case (step_prune now days st st' n run)
  then show ?case by (auto simp: cq_inv_def prune_job_history_def result_bind_eq_Inr Let_def)
next
  case (step_restart st run now)
  then show ?case by (rule restart_inv)
qed

lemma reachable_inv: "reachable reg digest s \<Longrightarrow> cq_inv s"
proof (induction rule: reachable.induct)
  case reach_init
  then show ?case
    by (simp add: init_system_def cq_inv_def unique_key_def deduplicated_def groups_of_def
        exclusive_def)
qed (rule sys_step_inv)

section \<open>The order of claims\<close>

lemma index_after_smaller:
  fixes f :: "'a \<Rightarrow> 'b::linorder"
  assumes "sorted (map f xs)" and "i < length xs"
  shows "length (filter (\<lambda>y. f y < f (xs ! i)) xs) \<le> i"
proof -
  have "{j. j < length xs \<and> f (xs ! j) < f (xs ! i)} \<subseteq> {..<i}"
  proof safe
    fix j
    assume j: "j < length xs" "f (xs ! j) < f (xs ! i)"
    then show "j < i"
      using sorted_nth_mono [OF assms(1), of i j] by (cases "i \<le> j") auto
  qed
  then have "card {j. j < length xs \<and> f (xs ! j) < f (xs ! i)} \<le> card {..<i}"
    by (intro card_mono) auto
  then show ?thesis by (simp add: length_filter_conv_card)
qed

lemma length_filter_mono:
  "(\<And>x. x \<in> set xs \<Longrightarrow> P x \<Longrightarrow> Q x) \<Longrightarrow> length (filter P xs) \<le> length (filter Q xs)"
  by (induction xs) (auto intro: le_SucI)

lemma take_sorted_smaller:
  fixes f :: "'a \<Rightarrow> 'b::linorder"
  assumes "x \<in> set (take n (sort_key f xs))"
  shows "length (filter (\<lambda>y. f y < f x) xs) < n"
proof -
  let ?s = "sort_key f xs"
  obtain i where i: "i < length ?s" "i < n" "x = ?s ! i"
    using assms by (auto simp: in_set_conv_nth)
  have "length (filter (\<lambda>y. f y < f x) xs) = length (filter (\<lambda>y. f y < f x) ?s)"
    by (metis mset_filter mset_sort size_mset)
  also have "\<dots> \<le> i" unfolding i(3) by (rule index_after_smaller) (use i in simp_all)
  finally show ?thesis using i(2) by simp
qed

lemma find_sorted_first:
  fixes f :: "'a \<Rightarrow> 'b::linorder"
  assumes "find P xs = Some x" and "sorted (map f xs)" and "y \<in> set xs" and "f y < f x"
  shows "\<not> P y"
  using assms
  by (induction xs) (auto split: if_splits)

lemma sorted_take_key: "sorted (map f (take n (sort_key f xs)))"
  by (simp add: sorted_wrt_take flip: take_map)

lemma claim_order_smaller_in_take:
  assumes "x \<in> set (take n (sort_key claim_order xs))" and "y \<in> set xs"
    and "claim_order y < claim_order x"
  shows "y \<in> set (take n (sort_key claim_order xs))"
proof -
  let ?s = "sort_key claim_order xs"
  obtain i where i: "i < length ?s" "i < n" "x = ?s ! i"
    using assms(1) by (auto simp: in_set_conv_nth)
  obtain j where j: "j < length ?s" "y = ?s ! j"
    using assms(2) by (metis in_set_conv_nth set_sort)
  have "sorted (map claim_order ?s)" by simp
  then have "j < i" using sorted_nth_mono [of "map claim_order ?s" i j] assms(3) i j
    by (cases "i \<le> j") auto
  with i j show ?thesis by (auto simp: in_set_conv_nth intro!: exI [of _ j])
qed

lemma queued_count:
  "length (filter (\<lambda>r. c_status r = Queued \<and> c_workload_class r = wclass) rows) \<le> CLAIM_LIMIT \<Longrightarrow>
   set (candidates wclass rows) = {r \<in> set rows. c_status r = Queued \<and> c_workload_class r = wclass}"
  by (auto simp: candidates_def)

section \<open>Orphaned rows\<close>

text \<open>A started row that no worker is executing.\<close>

definition orphaned :: "command_row \<Rightarrow> system \<Rightarrow> bool" where
  "orphaned rec s \<longleftrightarrow> (case s of (st, run) \<Rightarrow>
     rec \<in> set (commands st) \<and> c_status rec = Started \<and> c_id rec \<notin> c_id ` set run)"

lemma orphaned_other_put:
  "unique_key c_id rows \<Longrightarrow> rec \<in> set rows \<Longrightarrow> c_id row \<noteq> c_id rec \<Longrightarrow>
   rec \<in> set (row_put c_id row rows)"
  by (simp add: set_row_put)

lemma orphaned_step:
  assumes "sys_step reg digest s s'" and "cq_inv s" and "orphaned rec s"
  shows "orphaned rec s' \<or> (\<exists>now. s' = (restart now (fst s), []))"
  using assms
proof (induction rule: sys_step.induct)
  case (step_enqueue ok now name payload prio trigger st st' q run)
  from step_enqueue(1) show ?case
    by (cases rule: enqueue_cases) (use step_enqueue(3) in \<open>auto simp: orphaned_def\<close>)
next
  case (step_claim ok now wclass st st' q run)
  note I = cq_invD [OF step_claim(2)]
  from step_claim(3) have o: "rec \<in> set (commands st)" "c_status rec = Started"
    "c_id rec \<notin> c_id ` set run" by (auto simp: orphaned_def)
  from step_claim(1) show ?case
  proof (rule claim_SomeD)
    fix row
    assume row: "row \<in> set (commands st)" "c_status row = Queued" "q = start_row now row"
      and st': "st' = st\<lparr>commands := row_put c_id q (commands st),
           active_groups := active_groups st \<union> set_option (group_of q),
           published := published st @ [(c_id q, c_name q, Started)]\<rparr>"
    have "c_id q \<noteq> c_id rec"
      using unique_key_eq [OF I(1) row(1) o(1)] row(2,3) o(2) by (auto simp: start_row_def)
    with o I(1) show ?thesis by (auto simp: orphaned_def st' orphaned_other_put)
  qed
next
  case (step_claim_none ok now wclass st st' r run)
  then show ?case by (auto dest: claim_not_Some)
next
  case (step_finish q run st ok now out)
  note I = cq_invD [OF step_finish(2)]
  from step_finish(3) have o: "rec \<in> set (commands st)" "c_status rec = Started"
    "c_id rec \<notin> c_id ` set run" by (auto simp: orphaned_def)
  then have ne: "c_id q \<noteq> c_id rec" using imageI [OF step_finish(1), of c_id] by auto
  have "rec \<in> set (commands (fst (execute ok now out q st)))"
    by (rule execute_effect [of ok now out q st])
      (use o(1) ne I(1) in \<open>auto split: option.splits intro!: orphaned_other_put dest: row_get_SomeD\<close>)
  with o show ?case
    using set_remove1_subset [of q run] by (auto simp: orphaned_def release_group_def)
next
  case (step_drain st run)
  then show ?case by (simp add: orphaned_def drain_begin_def)
next
  case (step_prune now days st st' n run)
  then show ?case by (auto simp: orphaned_def prune_job_history_def result_bind_eq_Inr Let_def)
next
  case (step_restart st run now)
  then show ?case by auto
qed

section \<open>A small run, for the witnesses\<close>

definition demo_registry :: registry where
  "demo_registry = [''housekeeping'' \<mapsto>
     \<lparr>workload_class = ''default'', default_priority = 0,
      exclusivity_group = Some ''housekeeping'', validate = Some\<rparr>]"

definition demo_row :: command_row where
  "demo_row =
     \<lparr>c_id = 1, c_name = ''housekeeping'', c_status = Queued, c_priority = 0,
      c_workload_class = ''default'', c_exclusivity_group = Some ''housekeeping'',
      c_payload = ''{}'', c_payload_hash = ''{}'', c_triggered_by = ''manual'',
      c_queued_at = 5, c_started_at = None, c_finished_at = None, c_result = None,
      c_error = None\<rparr>"

definition demo_queued :: service where
  "demo_queued = \<lparr>commands = [demo_row], job_history = [], active_groups = {},
     stopping = False, published = [(1, ''housekeeping'', Queued)]\<rparr>"

definition demo_running :: service where
  "demo_running = \<lparr>commands = [start_row 6 demo_row], job_history = [],
     active_groups = {''housekeeping''}, stopping = False,
     published = [(1, ''housekeeping'', Queued), (1, ''housekeeping'', Started)]\<rparr>"

lemma demo_enqueue:
  "enqueue demo_registry id True 5 ''housekeeping'' ''{}'' None ''manual'' (fst init_system) =
   Inr (demo_queued, demo_row)"
  by (simp add: enqueue_def parse_command_def demo_registry_def payload_hash_def find_live_def
      init_system_def new_command_row_def next_id_def demo_queued_def demo_row_def Let_def)

lemma demo_claim:
  "claim True 6 ''default'' demo_queued = (demo_running, Inr (Some (start_row 6 demo_row)))"
  by (simp add: claim_def demo_queued_def demo_running_def candidates_def demo_row_def
      CLAIM_LIMIT_def blocked_def group_of_def start_row_def Let_def)

lemma demo_reachable_queued: "reachable demo_registry id (demo_queued, [])"
proof -
  have "init_system = (fst init_system, [])" by (simp add: init_system_def)
  then show ?thesis
    using reach_step [OF reach_init] sys_step.step_enqueue [OF demo_enqueue, of "[]"] by metis
qed

lemma demo_reachable_running: "reachable demo_registry id (demo_running, [start_row 6 demo_row])"
  by (rule reach_step [OF demo_reachable_queued sys_step.step_claim [OF demo_claim]])

section \<open>Properties\<close>

text \<open>C19: In every reachable state of the concurrent system (any interleaving of enqueues, claims,
  completions, failed commits, cancellations, drains and restarts) no command is executed by two
  workers at once and at most one command of each exclusivity group is executing; the
  in-memory group set is exactly the groups of the executing commands.\<close>

theorem workers_mutually_exclusive:
  assumes "reachable reg digest (st, run)"
  shows "distinct (map c_id run) \<and>
    (\<forall>r1 \<in> set run. \<forall>r2 \<in> set run. group_of r1 \<noteq> None \<and> group_of r1 = group_of r2 \<longrightarrow> r1 = r2) \<and>
    active_groups st = {g. \<exists>r \<in> set run. group_of r = Some g} \<and>
    (\<forall>r \<in> set run. r \<in> set (commands st) \<and> c_status r = Started)"
  using reachable_inv [OF assms]
  unfolding cq_inv_def exclusive_def groups_of_def split_conv by blast

theorem workers_mutually_exclusive_witness:
  "active_groups demo_running = {g. group_of (start_row 6 demo_row) = Some g}"
  using workers_mutually_exclusive [OF demo_reachable_running] by simp

text \<open>De-duplication: in every reachable state at most one queued or started command has a given
  name and payload hash, and enqueueing an equal command returns that row and changes
  nothing.\<close>

theorem enqueue_deduplicates:
  assumes "reachable reg digest (st, run)" and "r \<in> set (commands st)" and "live_row r"
    and "parse_command reg (c_name r) payload = Inr command"
    and "payload_hash digest command = c_payload_hash r"
  shows "enqueue reg digest True now (c_name r) payload prio trigger st = Inr (st, r) \<and>
    (\<forall>q \<in> set (commands st). live_row q \<and> same_body q r \<longrightarrow> q = r)"
proof -
  have dd: "deduplicated (commands st)" using cq_invD(2) [OF reachable_inv [OF assms(1)]] .
  then have uniq: "\<forall>q \<in> set (commands st). live_row q \<and> same_body q r \<longrightarrow> q = r"
    using assms(2,3) unfolding deduplicated_def by blast
  have "find_live (c_name r) (c_payload_hash r) (commands st) \<noteq> None"
    using assms(2,3) by (auto simp: find_live_def find_None_iff)
  then obtain q where q: "find_live (c_name r) (c_payload_hash r) (commands st) = Some q" by blast
  then have "q = r" using uniq find_live_SomeD [OF q] by (auto simp: same_body_def)
  with q uniq show ?thesis by (simp add: enqueue_def assms(4,5))
qed

theorem enqueue_deduplicates_witness:
  "enqueue demo_registry id True 9 ''housekeeping'' ''{}'' (Some 7) ''scheduled'' demo_running =
   Inr (demo_running, start_row 6 demo_row)"
  using enqueue_deduplicates [OF demo_reachable_running, of "start_row 6 demo_row" "''{}''"
      "\<lparr>cmd_name = ''housekeeping'', cmd_type = the (demo_registry ''housekeeping''),
        cmd_payload_json = ''{}''\<rparr>" 9 "Some 7" "''scheduled''"]
  by (simp add: demo_running_def start_row_def demo_row_def live_row_def parse_command_def
      demo_registry_def payload_hash_def)

text \<open>A claim picks by priority and then by age: the claimed row was queued in the worker's
  class with a free group, and every queued row of the class that comes before it (higher
  priority, or equal priority and smaller id) is blocked by an active group.\<close>

theorem claim_takes_first_eligible:
  assumes "claim True now wclass st = (st', Inr (Some rec))"
  shows "\<exists>row \<in> set (commands st). rec = start_row now row \<and> c_status row = Queued \<and>
    c_workload_class row = wclass \<and> \<not> blocked (active_groups st) row \<and>
    (\<forall>r \<in> set (commands st). c_status r = Queued \<and> c_workload_class r = wclass \<and>
       (c_priority row < c_priority r \<or> c_priority row = c_priority r \<and> c_id r < c_id row) \<longrightarrow>
       blocked (active_groups st) r)"
proof -
  let ?f = "\<lambda>r. c_status r = Queued \<and> c_workload_class r = wclass"
  obtain row where find: "find (\<lambda>r. \<not> blocked (active_groups st) r)
      (candidates wclass (commands st)) = Some row" and rec: "rec = start_row now row"
    using assms by (auto simp: claim_def Let_def split: if_splits option.splits)
  note row = find_SomeD [OF find]
  have "blocked (active_groups st) r"
    if r: "r \<in> set (commands st)" "?f r" and less: "claim_order r < claim_order row" for r
  proof -
    have "r \<in> set (candidates wclass (commands st))"
      using claim_order_smaller_in_take [OF _ _ less] row r by (simp add: candidates_def)
    then show ?thesis
      using find_sorted_first [OF find _ _ less] sorted_take_key by (fastforce simp: candidates_def)
  qed
  then show ?thesis using row rec set_candidates [of row wclass "commands st"]
    by (intro bexI [of _ row]) (auto simp: claim_order_def less_prod_simp)
qed

theorem claim_takes_first_eligible_witness:
  "\<exists>row \<in> set (commands demo_queued). start_row 6 demo_row = start_row 6 row \<and> c_status row = Queued"
  using claim_takes_first_eligible [OF demo_claim] by blast

text \<open>C30: Progress: a worker that is not stopping and whose commit succeeds claims a command whenever
  its class has an unblocked queued row and at most 50 queued rows.\<close>

theorem claim_progress:
  assumes "\<not> stopping st" and "row \<in> set (commands st)" and "c_status row = Queued"
    and "c_workload_class row = wclass" and "\<not> blocked (active_groups st) row"
    and "length (filter (\<lambda>r. c_status r = Queued \<and> c_workload_class r = wclass) (commands st))
      \<le> CLAIM_LIMIT"
  shows "\<exists>st' rec. claim True now wclass st = (st', Inr (Some rec))"
proof -
  have "row \<in> set (candidates wclass (commands st))"
    using queued_count [OF assms(6)] assms(2-4) by simp
  then have "find (\<lambda>r. \<not> blocked (active_groups st) r) (candidates wclass (commands st)) \<noteq> None"
    using assms(5) by (auto simp: find_None_iff)
  then show ?thesis using assms(1) by (auto simp: claim_def Let_def)
qed

theorem claim_progress_witness:
  "\<exists>st' rec. claim True 6 ''default'' demo_queued = (st', Inr (Some rec))"
  by (rule claim_progress [where row = demo_row])
    (simp_all add: demo_queued_def demo_row_def blocked_def CLAIM_LIMIT_def group_of_def)

text \<open>Head-of-line starvation past the limit: when 50 queued rows of a class are blocked by
  active groups and come first in the claim order, a worker of the class claims nothing, although
  unblocked rows are queued behind them.\<close>

theorem claim_starved_beyond_limit:
  assumes "CLAIM_LIMIT \<le> length (filter (\<lambda>r. c_status r = Queued \<and> c_workload_class r = wclass \<and>
      blocked (active_groups st) r) (commands st))"
    and "\<And>b r. b \<in> set (commands st) \<Longrightarrow> r \<in> set (commands st) \<Longrightarrow>
      c_status b = Queued \<Longrightarrow> c_workload_class b = wclass \<Longrightarrow> blocked (active_groups st) b \<Longrightarrow>
      c_status r = Queued \<Longrightarrow> c_workload_class r = wclass \<Longrightarrow> \<not> blocked (active_groups st) r \<Longrightarrow>
      claim_order b < claim_order r"
  shows "claim True now wclass st = (st, Inr None)"
proof -
  let ?q = "filter (\<lambda>r. c_status r = Queued \<and> c_workload_class r = wclass) (commands st)"
  have "blocked (active_groups st) r" if r: "r \<in> set (candidates wclass (commands st))" for r
  proof (rule ccontr)
    assume free: "\<not> blocked (active_groups st) r"
    note rq = set_candidates [OF r]
    have "length (filter (blocked (active_groups st)) ?q)
        \<le> length (filter (\<lambda>y. claim_order y < claim_order r) ?q)"
      using assms(2) rq free
      by (intro length_filter_mono) auto
    moreover have "length (filter (\<lambda>y. claim_order y < claim_order r) ?q) < CLAIM_LIMIT"
      using r unfolding candidates_def by (rule take_sorted_smaller)
    ultimately show False using assms(1) by (simp add: conj_ac)
  qed
  then have "find (\<lambda>r. \<not> blocked (active_groups st) r) (candidates wclass (commands st)) = None"
    by (auto simp: find_None_iff)
  then show ?thesis by (simp add: claim_def)
qed

definition crowd :: "int \<Rightarrow> command_row" where
  "crowd i = demo_row\<lparr>c_id := i, c_payload_hash := show_int i\<rparr>"

definition crowded :: service where
  "crowded = demo_running\<lparr>commands := map crowd [1..50] @
     [demo_row\<lparr>c_id := 51, c_name := ''noop'', c_exclusivity_group := None\<rparr>]\<rparr>"

theorem claim_starved_beyond_limit_witness:
  "claim True 7 ''default'' crowded = (crowded, Inr None) \<and>
   \<not> blocked (active_groups crowded) (last (commands crowded))"
proof -
  have b: "blocked (active_groups crowded) (crowd i)" for i
    by (simp add: crowded_def crowd_def demo_row_def demo_running_def blocked_def group_of_def)
  have free: "\<not> blocked (active_groups crowded)
      (demo_row\<lparr>c_id := 51, c_name := ''noop'', c_exclusivity_group := None\<rparr>)"
    by (simp add: blocked_def group_of_def)
  have f: "c_status (crowd i) = Queued" "c_workload_class (crowd i) = ''default''"
    "c_priority (crowd i) = 0" "c_id (crowd i) = i" for i
    by (simp_all add: crowd_def demo_row_def)
  have "claim True 7 ''default'' crowded = (crowded, Inr None)"
    by (rule claim_starved_beyond_limit)
      (use b free in \<open>auto simp: crowded_def CLAIM_LIMIT_def f filter_map comp_def
        demo_row_def claim_order_def\<close>)
  then show ?thesis using free by (simp add: crowded_def)
qed

text \<open>Nothing is lost in a crash: after a restart no command is started, every row is still
  there with its identity, the started ones are queued again and each of them (and nothing
  else) has gained one interrupted history row; recovering twice is recovering once.\<close>

theorem restart_requeues_everything:
  "filter (\<lambda>r. c_status r = Started) (commands (restart now st)) = [] \<and>
   map c_id (commands (restart now st)) = map c_id (commands st) \<and>
   filter live_row (commands (restart now st)) = map requeue (filter live_row (commands st)) \<and>
   job_history (restart now st) =
     job_history st @ map (interrupted_job now) (filter (\<lambda>r. c_status r = Started) (commands st)) \<and>
   snd (recover_orphans later (fst (recover_orphans now st))) = 0"
  by (simp add: restart_def recover_orphans_def Let_def filter_map comp_def filter_empty_conv)

text \<open>A terminal write that fails leaves its command started with no worker, and it stays so
  under every further step except a process restart: equal commands are meanwhile swallowed by
  de-duplication, which returns the dead row.\<close>

theorem failed_terminal_write_orphans:
  assumes "reachable reg digest (st, run)" and "rec \<in> set run" and "terminal out \<noteq> None"
  shows "orphaned rec
      (release_group rec (fst (execute False now out rec st)), remove1 rec run) \<and>
    (\<forall>s s'. reachable reg digest s \<and> orphaned rec s \<and> sys_step reg digest s s' \<longrightarrow>
       orphaned rec s' \<or> (\<exists>t. s' = (restart t (fst s), [])))"
proof -
  have inv: "cq_inv (st, run)" using assms(1) by (rule reachable_inv)
  have "fst (execute False now out rec st) = st" by (auto simp: execute_def split: option.splits)
  moreover have "c_id rec \<notin> c_id ` set (remove1 rec run)"
  proof
    assume "c_id rec \<in> c_id ` set (remove1 rec run)"
    then obtain q where q: "q \<in> set (remove1 rec run)" and eq: "c_id rec = c_id q" ..
    from release_inv(4) [OF inv assms(2) q] eq show False by simp
  qed
  ultimately have "orphaned rec
      (release_group rec (fst (execute False now out rec st)), remove1 rec run)"
    using cq_invD(4,5) [OF inv assms(2)] by (simp add: orphaned_def release_group_def)
  moreover have "orphaned rec s' \<or> (\<exists>t. s' = (restart t (fst s), []))"
    if "reachable reg digest s \<and> orphaned rec s \<and> sys_step reg digest s s'" for s s'
    using that orphaned_step [OF _ reachable_inv] by blast
  ultimately show ?thesis by blast
qed

theorem failed_terminal_write_orphans_witness:
  "orphaned (start_row 6 demo_row)
     (release_group (start_row 6 demo_row)
        (fst (execute False 8 (Returned None) (start_row 6 demo_row) demo_running)), [])"
  using failed_terminal_write_orphans [OF demo_reachable_running, of "start_row 6 demo_row"
      "Returned None" 8]
  by (simp add: terminal_def)

text \<open>The worker's self-healing pause never exceeds 30 seconds, but computing it raises after
  1025 consecutive errors, outside the guarded part of the loop, so the worker dies.\<close>

theorem worker_backoff_bounds:
  "worker_backoff n = Inl OverflowError \<and> 1025 \<le> n \<or>
   n \<le> 1024 \<and> (\<exists>p. worker_backoff n = Inr p \<and> 1 \<le> p \<and> p \<le> 30)"
  by (auto simp: worker_backoff_def)

end
