(* ===== verification/Scheduler.thy ===== *)
theory Scheduler
  imports Command_Queue
begin

text \<open>
  The interval scheduler (\<open>commands/scheduler.py\<close>).

  The scheduler holds its in-code definitions (a dict, in registration order) and its table of
  \<open>last_run\<close> stamps. It is given a command service and only ever calls its \<open>enqueue\<close>: that
  call is the argument \<open>submit\<close> here, with the contract the scheduler relies on stated as the
  locale \<open>command_backbone\<close> and discharged for the queue of \<open>Command_Queue\<close>. Which write
  sessions of a tick commit, and the clock the service reads, are the tick's environment.
\<close>

section \<open>State\<close>

record task_def =
  t_name :: string
  t_command :: string
  t_payload :: string
  t_interval :: int
  t_min_interval :: int

record task_row =
  st_name :: string
  st_interval :: int
  st_last_run :: "datetime option"

record scheduler =
  defs :: "(string, task_def) odict"
  tasks :: "task_row list"
  tick_seconds :: int

type_synonym ('s, 'r) submit =
  "bool \<Rightarrow> datetime \<Rightarrow> string \<Rightarrow> string \<Rightarrow> string \<Rightarrow> 's \<Rightarrow> ('s \<times> 'r) result"

record tick_env =
  enqueue_ok :: "string \<Rightarrow> bool"
  stamp_ok :: "string \<Rightarrow> bool"
  clock :: "string \<Rightarrow> datetime"

section \<open>Operations\<close>

definition MAX_TICK_SECONDS :: int where "MAX_TICK_SECONDS = 60"

definition new_scheduler :: "int \<Rightarrow> task_row list \<Rightarrow> scheduler" where
  "new_scheduler ticks tbl =
     \<lparr>defs = [], tasks = tbl, tick_seconds = max 1 (min ticks MAX_TICK_SECONDS)\<rparr>"

definition clamped_interval :: "int \<Rightarrow> int \<Rightarrow> int" where
  "clamped_interval i lo = (if i < lo then lo else i)"

text \<open>The definition is stored before the write session, so it stays when the write fails.\<close>

definition register_task ::
  "bool \<Rightarrow> string \<Rightarrow> string \<Rightarrow> string \<Rightarrow> int \<Rightarrow> int \<Rightarrow> datetime option \<Rightarrow> scheduler \<Rightarrow>
   scheduler \<times> task_def result" where
  "register_task commit_ok name cmd payload i lo initial sch =
     (let eff = clamped_interval i lo;
          d = \<lparr>t_name = name, t_command = cmd, t_payload = payload, t_interval = eff,
               t_min_interval = lo\<rparr>;
          sch' = sch\<lparr>defs := od_set name d (defs sch)\<rparr>;
          row = (case row_get st_name name (tasks sch) of
                   None \<Rightarrow> \<lparr>st_name = name, st_interval = eff, st_last_run = initial\<rparr>
                 | Some r \<Rightarrow> r\<lparr>st_interval := eff\<rparr>)
      in if commit_ok then (sch'\<lparr>tasks := row_put st_name row (tasks sch)\<rparr>, Inr d)
         else (sch', Inl DatabaseBusyError))"

definition task_definition :: "string \<Rightarrow> scheduler \<Rightarrow> task_def result" where
  "task_definition name sch =
     (case map_of (defs sch) name of None \<Rightarrow> Inl KeyError | Some d \<Rightarrow> Inr d)"

definition next_run :: "task_def \<Rightarrow> datetime \<Rightarrow> datetime result" where
  "next_run d prev =
     result_bind (timedelta_seconds (of_int (t_interval d))) (\<lambda>step. datetime_add prev step)"

definition last_run_of :: "task_def \<Rightarrow> task_row list \<Rightarrow> datetime option" where
  "last_run_of d tbl =
     (case row_get st_name (t_name d) tbl of None \<Rightarrow> None | Some r \<Rightarrow> st_last_run r)"

definition task_due :: "task_def \<Rightarrow> task_row list \<Rightarrow> datetime \<Rightarrow> bool result" where
  "task_due d tbl now =
     (case last_run_of d tbl of
        None \<Rightarrow> Inr True
      | Some prev \<Rightarrow> result_bind (next_run d prev) (\<lambda>nxt. Inr (nxt \<le> now)))"

definition set_last_run :: "bool \<Rightarrow> string \<Rightarrow> datetime \<Rightarrow> task_row list \<Rightarrow> task_row list result" where
  "set_last_run commit_ok name when tbl =
     (if \<not> commit_ok then Inl DatabaseBusyError
      else case row_get st_name name tbl of
        None \<Rightarrow> Inr tbl
      | Some r \<Rightarrow> Inr (row_put st_name (r\<lparr>st_last_run := Some when\<rparr>) tbl))"

text \<open>An exception leaves the loop with what the earlier tasks of the tick already wrote.\<close>

fun tick_loop ::
  "('s, 'r) submit \<Rightarrow> tick_env \<Rightarrow> datetime \<Rightarrow> task_def list \<Rightarrow> task_row list \<Rightarrow> 's \<Rightarrow> 'r list \<Rightarrow>
   (task_row list \<times> 's) \<times> 'r list result" where
  "tick_loop submit env now [] tbl s recs = ((tbl, s), Inr recs)"
| "tick_loop submit env now (d # ds) tbl s recs =
     (case task_due d tbl now of
        Inl e \<Rightarrow> ((tbl, s), Inl e)
      | Inr due \<Rightarrow>
          if \<not> due then tick_loop submit env now ds tbl s recs
          else
            (case submit (enqueue_ok env (t_name d)) (clock env (t_name d)) (t_command d)
                    (t_payload d) ''scheduled'' s of
               Inl e \<Rightarrow> ((tbl, s), Inl e)
             | Inr (s', rec) \<Rightarrow>
                 (case set_last_run (stamp_ok env (t_name d)) (t_name d) now tbl of
                    Inl e \<Rightarrow> ((tbl, s'), Inl e)
                  | Inr tbl' \<Rightarrow> tick_loop submit env now ds tbl' s' (recs @ [rec]))))"

definition tick ::
  "('s, 'r) submit \<Rightarrow> tick_env \<Rightarrow> datetime \<Rightarrow> scheduler \<Rightarrow> 's \<Rightarrow> (scheduler \<times> 's) \<times> 'r list result" where
  "tick submit env now sch s =
     (case tick_loop submit env now (map snd (defs sch)) (tasks sch) s [] of
        ((tbl, s'), res) \<Rightarrow> ((sch\<lparr>tasks := tbl\<rparr>, s'), res))"

definition force_run ::
  "('s, 'r) submit \<Rightarrow> tick_env \<Rightarrow> datetime \<Rightarrow> string \<Rightarrow> scheduler \<Rightarrow> 's \<Rightarrow>
   (scheduler \<times> 's) \<times> 'r result" where
  "force_run submit env now name sch s =
     (case task_definition name sch of
        Inl e \<Rightarrow> ((sch, s), Inl e)
      | Inr d \<Rightarrow>
          (case submit (enqueue_ok env name) (clock env name) (t_command d) (t_payload d) ''manual'' s of
             Inl e \<Rightarrow> ((sch, s), Inl e)
           | Inr (s', rec) \<Rightarrow>
               (case set_last_run (stamp_ok env name) name now (tasks sch) of
                  Inl e \<Rightarrow> ((sch, s'), Inl e)
                | Inr tbl \<Rightarrow> ((sch\<lparr>tasks := tbl\<rparr>, s'), Inr rec))))"

definition status_entry ::
  "task_def \<Rightarrow> task_row list \<Rightarrow> (string \<times> int \<times> datetime option \<times> datetime option) result" where
  "status_entry d tbl =
     (case last_run_of d tbl of
        None \<Rightarrow> Inr (t_name d, t_interval d, None, None)
      | Some prev \<Rightarrow> result_bind (next_run d prev) (\<lambda>nxt. Inr (t_name d, t_interval d, Some prev, Some nxt)))"

fun status_list ::
  "task_def list \<Rightarrow> task_row list \<Rightarrow> (string \<times> int \<times> datetime option \<times> datetime option) list result" where
  "status_list [] tbl = Inr []"
| "status_list (d # ds) tbl =
     result_bind (status_entry d tbl) (\<lambda>e. result_bind (status_list ds tbl) (\<lambda>es. Inr (e # es)))"

definition scheduler_status ::
  "scheduler \<Rightarrow> (string \<times> int \<times> datetime option \<times> datetime option) list result" where
  "scheduler_status sch = status_list (map snd (defs sch)) (tasks sch)"

interpretation task_store: keyed_store st_name "row_get st_name" "row_put st_name" "row_del st_name"
  "unique_key st_name"
  by (rule keyed_store_rows)

section \<open>Basic facts\<close>

lemma last_run_of_row_get:
  "row_get st_name (t_name d) tbl = row_get st_name (t_name d) tbl' \<Longrightarrow>
   last_run_of d tbl = last_run_of d tbl'"
  by (simp add: last_run_of_def)

lemma task_due_row_get:
  "row_get st_name (t_name d) tbl = row_get st_name (t_name d) tbl' \<Longrightarrow>
   task_due d tbl now = task_due d tbl' now"
  by (simp add: task_due_def last_run_of_def)

lemma set_last_run_Inr:
  "set_last_run ok name when tbl = Inr tbl' \<Longrightarrow>
   tbl' = (case row_get st_name name tbl of None \<Rightarrow> tbl
           | Some r \<Rightarrow> row_put st_name (r\<lparr>st_last_run := Some when\<rparr>) tbl)"
  by (simp add: set_last_run_def split: if_splits option.splits)

lemma set_last_run_lookup:
  assumes "set_last_run ok name when tbl = Inr tbl'"
  shows "row_get st_name k tbl' =
    (if k = name then map_option (\<lambda>r. r\<lparr>st_last_run := Some when\<rparr>) (row_get st_name name tbl)
     else row_get st_name k tbl)"
proof (cases "row_get st_name name tbl")
  case (Some r)
  have "st_name r = name" using row_get_SomeD [OF Some] by simp
  with Some show ?thesis by (simp add: set_last_run_Inr [OF assms] row_get_put)
qed (simp add: set_last_run_Inr [OF assms])

lemma timedelta_seconds_int: "timedelta_seconds (of_int i) = Inr dt \<Longrightarrow> dt = seconds i"
proof -
  have "py_round (of_int i * of_int us_per_second) = seconds i"
    using py_round_of_int [of "i * us_per_second"] by (simp add: seconds_def)
  then show "timedelta_seconds (of_int i) = Inr dt \<Longrightarrow> ?thesis"
    by (simp add: timedelta_seconds_def Let_def split: if_splits)
qed

lemma datetime_add_Inr: "datetime_add t d = Inr u \<Longrightarrow> u = t + d"
  by (simp add: datetime_add_def split: if_splits)

lemma next_run_Inr: "next_run d prev = Inr nxt \<Longrightarrow> nxt = prev + seconds (t_interval d)"
  unfolding next_run_def result_bind_eq_Inr
  using timedelta_seconds_int datetime_add_Inr by blast

lemma task_due_Inr:
  "task_due d tbl now = Inr b \<Longrightarrow>
   b \<longleftrightarrow> (case last_run_of d tbl of None \<Rightarrow> True | Some prev \<Rightarrow> prev + seconds (t_interval d) \<le> now)"
  by (auto simp: task_due_def result_bind_eq_Inr dest: next_run_Inr split: option.splits)

definition stamp :: "datetime \<Rightarrow> task_row \<Rightarrow> task_row" where
  "stamp now r = r\<lparr>st_last_run := Some now\<rparr>"

section \<open>The table after a tick\<close>

lemma tick_loop_table:
  assumes "tick_loop submit env now ds tbl s recs = ((tbl', s'), Inr out)"
    and "distinct (map t_name ds)"
  shows "row_get st_name k tbl' =
    (if k \<in> t_name ` {d \<in> set ds. task_due d tbl now = Inr True}
     then map_option (stamp now) (row_get st_name k tbl) else row_get st_name k tbl)"
  using assms
proof (induction ds arbitrary: tbl s recs)
  case (Cons d ds)
  obtain due where due: "task_due d tbl now = Inr due"
    using Cons.prems(1) by (auto split: sum.splits)
  show ?case
  proof (cases due)
    case False
    then have "{x \<in> set (d # ds). task_due x tbl now = Inr True}
        = {x \<in> set ds. task_due x tbl now = Inr True}" using due by auto
    then show ?thesis using Cons due False by simp
  next
    case True
    then obtain s1 r tbl1 where set: "set_last_run (stamp_ok env (t_name d)) (t_name d) now tbl = Inr tbl1"
      and rest: "tick_loop submit env now ds tbl1 s1 (recs @ [r]) = ((tbl', s'), Inr out)"
      using Cons.prems(1) due by (auto split: sum.splits)
    note look = set_last_run_lookup [OF set]
    have ne: "t_name x \<noteq> t_name d" if "x \<in> set ds" for x
      using that Cons.prems(2) by (metis distinct.simps(2) image_eqI list.set_map list.simps(9))
    have "task_due x tbl1 now = task_due x tbl now" if "x \<in> set ds" for x
      using ne [OF that] by (intro task_due_row_get) (simp add: look)
    then have eq: "{x \<in> set ds. task_due x tbl1 now = Inr True}
        = {x \<in> set ds. task_due x tbl now = Inr True}" by auto
    have split: "{x \<in> set (d # ds). task_due x tbl now = Inr True}
        = insert d {x \<in> set ds. task_due x tbl now = Inr True}" using due True by auto
    have notin: "t_name d \<notin> t_name ` {x \<in> set ds. task_due x tbl now = Inr True}"
      using Cons.prems(2) by auto
    show ?thesis
      using Cons.IH [OF rest] Cons.prems(2) notin unfolding split eq look
      by (auto simp: stamp_def [abs_def])
  qed
qed simp

section \<open>The contract of the command service\<close>

text \<open>
  What the scheduler relies on: an accepted submission is pending afterwards, nothing pending
  is lost by another submission, and submitting the same body again while it is pending
  changes nothing and returns the same record.
\<close>

definition holds_for :: "('s, 'r) submit \<Rightarrow> ('s \<Rightarrow> 'r list) \<Rightarrow> 's \<Rightarrow> task_def \<Rightarrow> 'r \<Rightarrow> bool" where
  "holds_for submit pending s d r \<longleftrightarrow>
     r \<in> set (pending s) \<and> (\<forall>t trig. submit True t (t_command d) (t_payload d) trig s = Inr (s, r))"

locale command_backbone =
  fixes submit :: "('s, 'r) submit"
    and pending :: "'s \<Rightarrow> 'r list"
  assumes submit_pending: "submit ok t n p trig s = Inr (s', r) \<Longrightarrow> r \<in> set (pending s')"
    and submit_keeps: "submit ok t n p trig s = Inr (s', r) \<Longrightarrow> set (pending s) \<subseteq> set (pending s')"
    and submit_again: "submit ok t n p trig s = Inr (s', r) \<Longrightarrow> submit True t' n p trig' s' = Inr (s', r)"
    and submit_stable: "submit True t n p trig s = Inr (s, r) \<Longrightarrow>
      submit ok t' n' p' trig' s = Inr (s', r') \<Longrightarrow> submit True t n p trig s' = Inr (s', r)"
begin

lemma holds_for_submitted:
  "submit ok t (t_command d) (t_payload d) trig s = Inr (s', r) \<Longrightarrow> holds_for submit pending s' d r"
  by (simp add: holds_for_def submit_pending submit_again)

lemma holds_for_kept:
  assumes "holds_for submit pending s d r" and "submit ok t n p trig s = Inr (s', r')"
  shows "holds_for submit pending s' d r"
  unfolding holds_for_def
proof (intro conjI allI)
  show "r \<in> set (pending s')"
    using assms(1) submit_keeps [OF assms(2)] by (auto simp: holds_for_def)
  show "submit True t (t_command d) (t_payload d) trig s' = Inr (s', r)" for t trig
    using assms(1) submit_stable [OF _ assms(2)] by (simp add: holds_for_def)
qed

lemma tick_loop_keeps:
  assumes "tick_loop submit env now ds tbl s recs = ((tbl', s'), res)"
    and "holds_for submit pending s d r"
  shows "holds_for submit pending s' d r"
  using assms
proof (induction ds arbitrary: tbl s recs)
  case (Cons x ds)
  show ?case
  proof (cases "task_due x tbl now")
    case (Inr due)
    show ?thesis
    proof (cases due)
      case False
      then show ?thesis using Cons Inr by simp
    next
      case True
      let ?sub = "submit (enqueue_ok env (t_name x)) (clock env (t_name x)) (t_command x)
        (t_payload x) ''scheduled'' s"
      show ?thesis
      proof (cases ?sub)
        case sub: (Inr p)
        obtain s1 q where p: "p = (s1, q)" by (cases p)
        have kept: "holds_for submit pending s1 d r"
          using holds_for_kept [OF Cons.prems(2)] sub p by blast
        show ?thesis
          using Cons.prems(1) Cons.IH [OF _ kept] kept Inr True sub p
          by (simp split: sum.splits)
      qed (use Cons.prems Inr True in simp)
    qed
  qed (use Cons.prems in simp)
qed simp

lemma tick_loop_submits:
  assumes "tick_loop submit env now ds tbl s recs = ((tbl', s'), Inr out)"
    and "distinct (map t_name ds)"
  shows "\<exists>fired. out = recs @ fired \<and>
    list_all2 (holds_for submit pending s') (filter (\<lambda>d. task_due d tbl now = Inr True) ds) fired"
  using assms
proof (induction ds arbitrary: tbl s recs)
  case (Cons d ds)
  obtain due where due: "task_due d tbl now = Inr due"
    using Cons.prems(1) by (auto split: sum.splits)
  show ?case
  proof (cases due)
    case False
    then show ?thesis using Cons due by simp
  next
    case True
    then obtain s1 r tbl1 where sub: "submit (enqueue_ok env (t_name d)) (clock env (t_name d))
          (t_command d) (t_payload d) ''scheduled'' s = Inr (s1, r)"
      and set: "set_last_run (stamp_ok env (t_name d)) (t_name d) now tbl = Inr tbl1"
      and rest: "tick_loop submit env now ds tbl1 s1 (recs @ [r]) = ((tbl', s'), Inr out)"
      using Cons.prems(1) due by (auto split: sum.splits)
    have ne: "t_name x \<noteq> t_name d" if "x \<in> set ds" for x
      using that Cons.prems(2) by (metis distinct.simps(2) image_eqI list.set_map list.simps(9))
    have "task_due x tbl1 now = task_due x tbl now" if "x \<in> set ds" for x
      using ne [OF that] by (intro task_due_row_get) (simp add: set_last_run_lookup [OF set])
    then have eq: "filter (\<lambda>x. task_due x tbl1 now = Inr True) ds
        = filter (\<lambda>x. task_due x tbl now = Inr True) ds" by (simp cong: filter_cong)
    have "holds_for submit pending s' d r" using tick_loop_keeps [OF rest holds_for_submitted [OF sub]] .
    moreover obtain fired where "out = (recs @ [r]) @ fired"
      "list_all2 (holds_for submit pending s') (filter (\<lambda>d. task_due d tbl now = Inr True) ds) fired"
      using Cons.IH [OF rest] Cons.prems(2) unfolding eq by auto
    ultimately show ?thesis using due True by (intro exI [of _ "r # fired"]) simp
  qed
qed simp

end

lemma find_live_append:
  "find_live n h xs = Some r \<Longrightarrow> find_live n h (xs @ ys) = Some r"
  by (induction xs) (auto simp: find_live_def)

lemma find_live_fresh:
  "find_live n h xs = None \<Longrightarrow> live_row r \<Longrightarrow> c_name r = n \<Longrightarrow> c_payload_hash r = h \<Longrightarrow>
   find_live n h (xs @ [r]) = Some r"
  by (induction xs) (auto simp: find_live_def split: if_splits)

definition pending_commands :: "service \<Rightarrow> command_row list" where
  "pending_commands st = filter live_row (commands st)"

lemma new_row_live: "live_row (new_command_row now command h prio trigger i)"
  by (simp add: new_command_row_def live_row_def)

lemma enqueue_InrE:
  assumes "enqueue reg digest ok now n p prio trig st = Inr (st', r)"
  obtains command where "parse_command reg n p = Inr command"
    and "find_live n (payload_hash digest command) (commands st') = Some r"
    and "\<exists>ys. commands st' = commands st @ ys" and "live_row r" and "r \<in> set (commands st')"
    and "find_live n (payload_hash digest command) (commands st) = Some r \<Longrightarrow> st' = st"
proof -
  obtain command where parse: "parse_command reg n p = Inr command"
    using assms by (auto simp: enqueue_def result_bind_eq_Inr)
  let ?h = "payload_hash digest command"
  show ?thesis
  proof (cases "find_live n ?h (commands st)")
    case None
    then have st': "r = new_command_row now command ?h prio trig (next_id (commands st))"
      "commands st' = commands st @ [r]"
      using assms parse by (auto simp: enqueue_def Let_def split: if_splits)
    have "c_name r = n" "c_payload_hash r = ?h"
      using parse_command_name [OF parse] by (simp_all add: st'(1) new_command_row_def)
    then show ?thesis using that [OF parse] None st' new_row_live find_live_fresh by auto
  next
    case (Some q)
    then have "st' = st" "r = q"
      using assms parse by (auto simp: enqueue_def Let_def split: if_splits)
    then show ?thesis using that [OF parse] Some find_live_SomeD [OF Some] by auto
  qed
qed

lemma enqueue_again:
  assumes "parse_command reg n p = Inr command"
    and "find_live n (payload_hash digest command) (commands st) = Some r"
  shows "enqueue reg digest True now n p prio trig st = Inr (st, r)"
  using assms by (simp add: enqueue_def Let_def)

definition scheduled_enqueue ::
  "registry \<Rightarrow> (string \<Rightarrow> string) \<Rightarrow> (service, command_row) submit" where
  "scheduled_enqueue reg digest ok now n p trig st = enqueue reg digest ok now n p None trig st"

interpretation queue_backbone: command_backbone "scheduled_enqueue reg digest" pending_commands
  for reg digest
proof
  fix ok t n p trig s s' r
  assume sub: "scheduled_enqueue reg digest ok t n p trig s = Inr (s', r)"
  note E = enqueue_InrE [OF sub [unfolded scheduled_enqueue_def]]
  show "r \<in> set (pending_commands s')" by (rule E) (simp add: pending_commands_def)
  show "set (pending_commands s) \<subseteq> set (pending_commands s')"
    by (rule E) (auto simp: pending_commands_def)
  show "scheduled_enqueue reg digest True t' n p trig' s' = Inr (s', r)" for t' trig'
    by (rule E) (simp add: scheduled_enqueue_def enqueue_again)
next
  fix ok t n p trig s r t' n' p' trig' s' r'
  assume old: "scheduled_enqueue reg digest True t n p trig s = Inr (s, r)"
    and new: "scheduled_enqueue reg digest ok t' n' p' trig' s = Inr (s', r')"
  obtain command where c: "parse_command reg n p = Inr command"
      "find_live n (payload_hash digest command) (commands s) = Some r"
    by (rule enqueue_InrE [OF old [unfolded scheduled_enqueue_def]])
  obtain ys where "commands s' = commands s @ ys"
    by (rule enqueue_InrE [OF new [unfolded scheduled_enqueue_def]]) blast
  then show "scheduled_enqueue reg digest True t n p trig s' = Inr (s', r)"
    using c by (simp add: scheduled_enqueue_def enqueue_again find_live_append)
qed

section \<open>The timetable\<close>

definition scheduler_ok :: "scheduler \<Rightarrow> bool" where
  "scheduler_ok sch \<longleftrightarrow> distinct (map fst (defs sch)) \<and>
     list_all (\<lambda>(k, d). t_name d = k \<and> row_get st_name k (tasks sch) \<noteq> None) (defs sch)"

text \<open>The reference: the ticks at which a task with a given interval and last run fires.\<close>

fun firing :: "timedelta \<Rightarrow> datetime option \<Rightarrow> datetime list \<Rightarrow> datetime list" where
  "firing i prev [] = []"
| "firing i prev (now # ts) =
     (if (case prev of None \<Rightarrow> True | Some p \<Rightarrow> p + i \<le> now) then now # firing i (Some now) ts
      else firing i prev ts)"

text \<open>The same tick by tick.\<close>

fun timetable :: "timedelta \<Rightarrow> datetime option \<Rightarrow> datetime list \<Rightarrow> bool list" where
  "timetable i prev [] = []"
| "timetable i prev (now # ts) =
     (let f = (case prev of None \<Rightarrow> True | Some p \<Rightarrow> p + i \<le> now)
      in f # timetable i (if f then Some now else prev) ts)"

lemma firing_timetable: "firing i prev ts = map fst (filter snd (zip ts (timetable i prev ts)))"
  by (induction i prev ts rule: firing.induct) (auto simp: Let_def split: option.splits)

text \<open>
  A run of ticks, as long as every one succeeds: what each tick leaves in the queue and the records it
  returns. The command service is in an arbitrary state at each tick.
\<close>

fun tick_run ::
  "('s, 'r) submit \<Rightarrow> (tick_env \<times> datetime \<times> 's) list \<Rightarrow> scheduler \<Rightarrow> ('s \<times> 'r list) list option" where
  "tick_run submit [] sch = Some []"
| "tick_run submit ((env, now, s) # es) sch =
     (case tick submit env now sch s of
        ((sch', s'), Inl e) \<Rightarrow> None
      | ((sch', s'), Inr recs) \<Rightarrow> map_option (\<lambda>out. (s', recs) # out) (tick_run submit es sch'))"

definition tick_clock :: "(tick_env \<times> datetime \<times> 's) list \<Rightarrow> datetime list" where
  "tick_clock es = map (\<lambda>e. fst (snd e)) es"

lemma scheduler_ok_distinct:
  assumes "scheduler_ok sch"
  shows "distinct (map t_name (map snd (defs sch)))"
proof -
  have "map t_name (map snd (defs sch)) = map fst (defs sch)"
    using assms by (auto simp: scheduler_ok_def list_all_iff)
  then show ?thesis using assms by (simp only: scheduler_ok_def)
qed

lemma scheduler_ok_row:
  "scheduler_ok sch \<Longrightarrow> d \<in> snd ` set (defs sch) \<Longrightarrow> row_get st_name (t_name d) (tasks sch) \<noteq> None"
  by (auto simp: scheduler_ok_def list_all_iff)

lemma new_scheduler_ok: "scheduler_ok (new_scheduler n tbl)"
  by (simp add: scheduler_ok_def new_scheduler_def)

lemma set_od_set: "(k', v') \<in> set (od_set k v d) \<Longrightarrow> k' = k \<and> v' = v \<or> (k', v') \<in> set d"
  by (induction d) (auto split: if_splits)

lemma register_task_ok:
  assumes "register_task True name cmd payload i lo initial sch = (sch', Inr d)"
    and "scheduler_ok sch"
  shows "scheduler_ok sch'"
proof -
  let ?row = "case row_get st_name name (tasks sch) of
      None \<Rightarrow> \<lparr>st_name = name, st_interval = clamped_interval i lo, st_last_run = initial\<rparr>
    | Some r \<Rightarrow> r\<lparr>st_interval := clamped_interval i lo\<rparr>"
  have row: "st_name ?row = name" by (auto split: option.split dest: row_get_SomeD)
  have d: "t_name d = name" and
    sch': "defs sch' = od_set name d (defs sch)" "tasks sch' = row_put st_name ?row (tasks sch)"
    using assms(1) by (auto simp: register_task_def Let_def)
  have "t_name x = k \<and> row_get st_name k (tasks sch') \<noteq> None" if "(k, x) \<in> set (defs sch')" for k x
    using set_od_set [OF that [unfolded sch']] assms(2) d row
    by (auto simp: scheduler_ok_def list_all_iff sch' row_get_put)
  moreover have "distinct (map fst (defs sch'))"
    using assms(2) by (simp add: sch' distinct_od_set scheduler_ok_def)
  ultimately show ?thesis by (auto simp: scheduler_ok_def list_all_iff)
qed

lemma tick_Inr:
  assumes "tick submit env now sch s = ((sch', s'), Inr recs)"
  shows "\<exists>tbl. sch' = sch\<lparr>tasks := tbl\<rparr> \<and>
    tick_loop submit env now (map snd (defs sch)) (tasks sch) s [] = ((tbl, s'), Inr recs)"
  using assms by (auto simp: tick_def split: prod.splits)

lemma tick_loop_due:
  assumes "tick_loop submit env now ds tbl s recs = ((tbl', s'), Inr out)"
    and "distinct (map t_name ds)" and "d \<in> set ds"
  shows "\<exists>b. task_due d tbl now = Inr b"
  using assms
proof (induction ds arbitrary: tbl s recs)
  case (Cons x ds)
  obtain due where due: "task_due x tbl now = Inr due"
    using Cons.prems(1) by (auto split: sum.splits)
  show ?case
  proof (cases "d = x \<or> \<not> due")
    case True
    then show ?thesis using Cons due by auto
  next
    case False
    then obtain s1 r tbl1 where set: "set_last_run (stamp_ok env (t_name x)) (t_name x) now tbl = Inr tbl1"
      and rest: "tick_loop submit env now ds tbl1 s1 (recs @ [r]) = ((tbl', s'), Inr out)"
      using Cons.prems(1) due by (auto split: sum.splits)
    have d: "d \<in> set ds" "t_name d \<noteq> t_name x"
      using Cons.prems(2,3) False by (auto simp: image_iff)
    then have "task_due d tbl1 now = task_due d tbl now"
      by (intro task_due_row_get) (simp add: set_last_run_lookup [OF set])
    then show ?thesis using Cons.IH [OF rest _ d(1)] Cons.prems(2) by simp
  qed
qed simp

lemma tick_effect:
  assumes "tick submit env now sch s = ((sch', s'), Inr recs)" and ok: "scheduler_ok sch"
    and d: "d \<in> snd ` set (defs sch)"
  shows "last_run_of d (tasks sch') =
      (if task_due d (tasks sch) now = Inr True then Some now else last_run_of d (tasks sch))"
    and "\<exists>b. task_due d (tasks sch) now = Inr b"
proof -
  obtain tbl where sch': "sch' = sch\<lparr>tasks := tbl\<rparr>"
    and loop: "tick_loop submit env now (map snd (defs sch)) (tasks sch) s [] = ((tbl, s'), Inr recs)"
    using tick_Inr [OF assms(1)] by blast
  have dist: "distinct (map t_name (map snd (defs sch)))"
    by (rule scheduler_ok_distinct [OF ok])
  then have inj: "x = d" if "x \<in> snd ` set (defs sch)" "t_name x = t_name d" for x
    using that d by (auto simp: distinct_map inj_on_def)
  have mem: "t_name d \<in> t_name ` {x \<in> set (map snd (defs sch)). task_due x (tasks sch) now = Inr True}
      \<longleftrightarrow> task_due d (tasks sch) now = Inr True" (is "_ \<in> t_name ` ?D \<longleftrightarrow> ?due")
  proof
    assume "t_name d \<in> t_name ` ?D"
    then obtain x where x: "x \<in> ?D" and eq: "t_name d = t_name x" by blast
    from x have "x \<in> snd ` set (defs sch)" by simp
    then have "x = d" by (rule inj) (rule eq [symmetric])
    with x show ?due by simp
  next
    assume ?due
    then show "t_name d \<in> t_name ` ?D" using d by auto
  qed
  obtain r where r: "row_get st_name (t_name d) (tasks sch) = Some r"
    using scheduler_ok_row [OF ok d] by blast
  show "last_run_of d (tasks sch') =
      (if task_due d (tasks sch) now = Inr True then Some now else last_run_of d (tasks sch))"
    using tick_loop_table [OF loop dist, of "t_name d"] unfolding mem
    by (simp add: last_run_of_def sch' r stamp_def)
  show "\<exists>b. task_due d (tasks sch) now = Inr b"
    using tick_loop_due [OF loop dist] d by simp
qed

lemma tick_keeps_ok:
  assumes "tick submit env now sch s = ((sch', s'), Inr recs)" and ok: "scheduler_ok sch"
  shows "scheduler_ok sch'" and "defs sch' = defs sch"
proof -
  obtain tbl where sch': "sch' = sch\<lparr>tasks := tbl\<rparr>"
    and loop: "tick_loop submit env now (map snd (defs sch)) (tasks sch) s [] = ((tbl, s'), Inr recs)"
    using tick_Inr [OF assms(1)] by blast
  have dist: "distinct (map t_name (map snd (defs sch)))"
    by (rule scheduler_ok_distinct [OF ok])
  show "defs sch' = defs sch" by (simp add: sch')
  have "row_get st_name k tbl \<noteq> None" if "row_get st_name k (tasks sch) \<noteq> None" for k
    using that by (simp add: tick_loop_table [OF loop dist])
  then show "scheduler_ok sch'"
    using ok by (auto simp: scheduler_ok_def sch' list_all_iff)
qed

lemma firing_spaced:
  assumes "0 \<le> i"
  shows "sorted_wrt (\<lambda>a b. a + i \<le> b) (firing i prev ts) \<and>
    (\<forall>p. prev = Some p \<longrightarrow> (\<forall>t \<in> set (firing i prev ts). p + i \<le> t))"
proof (induction ts arbitrary: prev)
  case (Cons now ts)
  have fired: "\<forall>t \<in> set (firing i (Some now) ts). now + i \<le> t"
    "sorted_wrt (\<lambda>a b. a + i \<le> b) (firing i (Some now) ts)"
    using Cons.IH [of "Some now"] by simp_all
  show ?case
  proof (cases prev)
    case None
    then show ?thesis using fired by simp
  next
    case (Some p)
    show ?thesis
    proof (cases "p + i \<le> now")
      case True
      then have "p + i \<le> t" if "t \<in> set (firing i (Some now) ts)" for t
        using fired(1) that assms by force
      then show ?thesis using Some True fired by simp
    next
      case False
      then show ?thesis using Some Cons.IH [of prev] by simp
    qed
  qed
qed simp

lemma firing_dense:
  "t \<in> set ts \<Longrightarrow> sorted ts \<Longrightarrow> (\<forall>p. prev = Some p \<longrightarrow> (\<forall>u \<in> set ts. p \<le> u)) \<Longrightarrow> 0 < i \<Longrightarrow>
   \<exists>f \<in> set (firing i prev ts) \<union> set_option prev. f \<le> t \<and> t < f + i"
proof (induction ts arbitrary: prev)
  case (Cons now ts)
  show ?case
  proof (cases "case prev of None \<Rightarrow> True | Some p \<Rightarrow> p + i \<le> now")
    case True
    show ?thesis
    proof (cases "t = now")
      case False
      then have "\<exists>f \<in> set (firing i (Some now) ts) \<union> set_option (Some now). f \<le> t \<and> t < f + i"
        using Cons.prems by (intro Cons.IH) auto
      then show ?thesis using True by auto
    qed (use True Cons.prems in auto)
  next
    case False
    then obtain p where p: "prev = Some p" "now < p + i" by (auto split: option.splits)
    show ?thesis
    proof (cases "t = now")
      case True
      then show ?thesis using p Cons.prems by auto
    next
      case False
      then have "\<exists>f \<in> set (firing i prev ts) \<union> set_option prev. f \<le> t \<and> t < f + i"
        using Cons.prems by (intro Cons.IH) auto
      then show ?thesis using p by auto
    qed
  qed
qed simp

lemma tick_loop_error:
  assumes "tick_loop submit env now ds tbl s recs = ((tbl', s'), Inl e)"
    and "distinct (map t_name ds)"
  shows "\<exists>earlier d later. ds = earlier @ d # later \<and>
    (\<forall>x \<in> set (d # later). row_get st_name (t_name x) tbl' = row_get st_name (t_name x) tbl)"
  using assms
proof (induction ds arbitrary: tbl s recs)
  case (Cons x ds)
  show ?case
  proof (cases "tbl' = tbl")
    case True
    then show ?thesis by (intro exI [of _ "[]"]) simp
  next
    case False
    then obtain tbl1 s1 recs1 where
      rest: "tick_loop submit env now ds tbl1 s1 recs1 = ((tbl', s'), Inl e)"
      and look: "tbl1 = tbl \<or> set_last_run (stamp_ok env (t_name x)) (t_name x) now tbl = Inr tbl1"
      using Cons.prems(1) by (auto split: sum.splits if_splits)
    obtain earlier d later where ds: "ds = earlier @ d # later"
      and same: "\<forall>y \<in> set (d # later). row_get st_name (t_name y) tbl' = row_get st_name (t_name y) tbl1"
      using Cons.IH [OF rest] Cons.prems(2) by auto
    have "row_get st_name (t_name y) tbl1 = row_get st_name (t_name y) tbl" if "y \<in> set (d # later)" for y
    proof (cases "tbl1 = tbl")
      case False
      with look have set: "set_last_run (stamp_ok env (t_name x)) (t_name x) now tbl = Inr tbl1" by simp
      have "t_name y \<in> t_name ` set ds" using that ds by auto
      then have "t_name y \<noteq> t_name x" using Cons.prems(2) by auto
      then show ?thesis by (simp add: set_last_run_lookup [OF set])
    qed simp
    then show ?thesis using same ds by (intro exI [of _ "x # earlier"]) auto
  qed
qed simp

section \<open>A small schedule, for the witnesses\<close>

definition demo_task :: task_def where
  "demo_task = \<lparr>t_name = ''housekeeping'', t_command = ''housekeeping'', t_payload = ''{}'',
     t_interval = 60, t_min_interval = 60\<rparr>"

definition demo_scheduler :: scheduler where
  "demo_scheduler = fst (register_task True ''housekeeping'' ''housekeeping'' ''{}'' 10 60 None
     (new_scheduler 100 []))"

definition all_commit :: tick_env where
  "all_commit = \<lparr>enqueue_ok = \<lambda>_. True, stamp_ok = \<lambda>_. True, clock = \<lambda>_. 5\<rparr>"

lemma demo_scheduler_eq:
  "demo_scheduler =
    \<lparr>defs = [(''housekeeping'', demo_task)],
     tasks = [\<lparr>st_name = ''housekeeping'', st_interval = 60, st_last_run = None\<rparr>],
     tick_seconds = 60\<rparr>"
  by (simp add: demo_scheduler_def register_task_def new_scheduler_def Let_def demo_task_def
      clamped_interval_def MAX_TICK_SECONDS_def)

lemma demo_scheduler_ok: "scheduler_ok demo_scheduler"
  by (simp add: scheduler_ok_def demo_scheduler_eq demo_task_def)

definition demo_ticked :: scheduler where
  "demo_ticked = demo_scheduler\<lparr>tasks :=
     [\<lparr>st_name = ''housekeeping'', st_interval = 60, st_last_run = Some 7\<rparr>]\<rparr>"

lemma demo_submit:
  "scheduled_enqueue demo_registry id True 5 ''housekeeping'' ''{}'' ''scheduled'' (fst init_system) =
   Inr (demo_queued\<lparr>commands := [demo_row\<lparr>c_triggered_by := ''scheduled''\<rparr>]\<rparr>,
        demo_row\<lparr>c_triggered_by := ''scheduled''\<rparr>)"
  by (simp add: scheduled_enqueue_def enqueue_def parse_command_def demo_registry_def
      payload_hash_def find_live_def init_system_def new_command_row_def next_id_def
      demo_queued_def demo_row_def Let_def)

lemma demo_tick:
  "tick (scheduled_enqueue demo_registry id) all_commit 7 demo_scheduler (fst init_system) =
   ((demo_ticked, demo_queued\<lparr>commands := [demo_row\<lparr>c_triggered_by := ''scheduled''\<rparr>]\<rparr>),
    Inr [demo_row\<lparr>c_triggered_by := ''scheduled''\<rparr>])"
  by (simp add: tick_def demo_scheduler_eq task_due_def last_run_of_def demo_task_def
      all_commit_def set_last_run_def demo_ticked_def demo_submit)

section \<open>Properties\<close>

text \<open>A tick that succeeds submits exactly the due tasks, in registration order: each returned
  record is pending in the queue (submitting the task's body again would return it and change
  nothing), and every due task's last run becomes now while the others keep theirs.\<close>

theorem due_tasks_enqueued:
  assumes "tick (scheduled_enqueue reg digest) env now sch st = ((sch', st'), Inr recs)"
    and "scheduler_ok sch"
  shows "list_all2 (holds_for (scheduled_enqueue reg digest) pending_commands st')
      (filter (\<lambda>d. task_due d (tasks sch) now = Inr True) (map snd (defs sch))) recs \<and>
    defs sch' = defs sch \<and>
    (\<forall>d \<in> snd ` set (defs sch). last_run_of d (tasks sch') =
       (if task_due d (tasks sch) now = Inr True then Some now else last_run_of d (tasks sch)))"
proof -
  obtain tbl where "tick_loop (scheduled_enqueue reg digest) env now (map snd (defs sch))
      (tasks sch) st [] = ((tbl, st'), Inr recs)"
    using tick_Inr [OF assms(1)] by blast
  from queue_backbone.tick_loop_submits [OF this scheduler_ok_distinct [OF assms(2)]]
  show ?thesis using tick_keeps_ok(2) [OF assms] tick_effect(1) [OF assms] by simp
qed

theorem due_tasks_enqueued_witness:
  "holds_for (scheduled_enqueue demo_registry id) pending_commands
     (demo_queued\<lparr>commands := [demo_row\<lparr>c_triggered_by := ''scheduled''\<rparr>]\<rparr>) demo_task
     (demo_row\<lparr>c_triggered_by := ''scheduled''\<rparr>) \<and>
   last_run_of demo_task (tasks demo_ticked) = Some 7"
  using due_tasks_enqueued [OF demo_tick demo_scheduler_ok]
  by (simp add: demo_scheduler_eq task_due_def last_run_of_def demo_task_def)

text \<open>The entries a task has in the timetable of a run, tick by tick.\<close>

definition planned :: "task_def \<Rightarrow> scheduler \<Rightarrow> datetime list \<Rightarrow> bool list" where
  "planned d sch ts = timetable (seconds (t_interval d)) (last_run_of d (tasks sch)) ts"

lemma planned_Cons:
  assumes "tick submit env now sch s = ((sch', s'), Inr recs)" and "scheduler_ok sch" and "d \<in> snd ` set (defs sch)"
  shows "planned d sch (now # ts) = (task_due d (tasks sch) now = Inr True) # planned d sch' ts"
proof -
  obtain b where b: "task_due d (tasks sch) now = Inr b" using tick_effect(2) [OF assms] by blast
  show ?thesis
    using task_due_Inr [OF b] b tick_effect(1) [OF assms] by (simp add: planned_def Let_def)
qed

lemma tick_run_planned:
  assumes "tick_run (scheduled_enqueue reg digest) es sch = Some out" and "scheduler_ok sch"
  shows "length out = length es \<and>
    (\<forall>k < length es. list_all2 (holds_for (scheduled_enqueue reg digest) pending_commands (fst (out ! k)))
       (filter (\<lambda>d. planned d sch (tick_clock es) ! k) (map snd (defs sch))) (snd (out ! k)))"
  using assms
proof (induction es arbitrary: sch out)
  case (Cons e es)
  let ?holds = "\<lambda>s. holds_for (scheduled_enqueue reg digest) pending_commands s"
  obtain env now s where e: "e = (env, now, s)" by (cases e)
  obtain sch' s' recs out' where tk: "tick (scheduled_enqueue reg digest) env now sch s = ((sch', s'), Inr recs)"
    and rest: "tick_run (scheduled_enqueue reg digest) es sch' = Some out'" and out: "out = (s', recs) # out'"
    using Cons.prems(1) e by (auto split: prod.splits sum.splits)
  note keep = tick_keeps_ok [OF tk Cons.prems(2)]
  note IH = Cons.IH [OF rest keep(1)]
  have plan: "planned d sch (tick_clock (e # es)) = (task_due d (tasks sch) now = Inr True) # planned d sch' (tick_clock es)"
    if "d \<in> set (map snd (defs sch))" for d
    using planned_Cons [OF tk Cons.prems(2)] that by (simp add: tick_clock_def e)
  have "list_all2 (?holds (fst (out ! k)))
       (filter (\<lambda>d. planned d sch (tick_clock (e # es)) ! k) (map snd (defs sch))) (snd (out ! k))"
    if "k < length (e # es)" for k
  proof (cases k)
    case 0
    have "filter (\<lambda>d. planned d sch (tick_clock (e # es)) ! 0) (map snd (defs sch)) =
        filter (\<lambda>d. task_due d (tasks sch) now = Inr True) (map snd (defs sch))"
      using plan by (intro filter_cong) simp_all
    then show ?thesis using due_tasks_enqueued [OF tk Cons.prems(2)] by (simp add: 0 out)
  next
    case (Suc j)
    have "filter (\<lambda>d. planned d sch (tick_clock (e # es)) ! Suc j) (map snd (defs sch)) =
        filter (\<lambda>d. planned d sch' (tick_clock es) ! j) (map snd (defs sch))"
      using plan by (intro filter_cong) simp_all
    then show ?thesis using IH that by (simp add: Suc out keep(2))
  qed
  then show ?case using IH by (simp add: out)
qed simp



text \<open>An exception in a tick (a busy database, an invalid payload, an interval out of range)
  comes from one task; every task registered after it and that task itself keep their last
  run, so they are still due at the next tick.\<close>

theorem error_stops_tick:
  assumes "tick submit env now sch s = ((sch', s'), Inl e)" and "scheduler_ok sch"
  shows "\<exists>earlier d later. map snd (defs sch) = earlier @ d # later \<and>
    list_all (\<lambda>x. last_run_of x (tasks sch') = last_run_of x (tasks sch) \<and>
      task_due x (tasks sch') now = task_due x (tasks sch) now) (d # later)"
proof -
  obtain tbl where sch': "sch' = sch\<lparr>tasks := tbl\<rparr>"
    and loop: "tick_loop submit env now (map snd (defs sch)) (tasks sch) s [] = ((tbl, s'), Inl e)"
    using assms(1) by (auto simp: tick_def split: prod.splits)
  obtain earlier d later where split: "map snd (defs sch) = earlier @ d # later"
    and same: "\<forall>x \<in> set (d # later). row_get st_name (t_name x) tbl = row_get st_name (t_name x) (tasks sch)"
    using tick_loop_error [OF loop scheduler_ok_distinct [OF assms(2)]] by blast
  have "last_run_of x tbl = last_run_of x (tasks sch) \<and> task_due x tbl now = task_due x (tasks sch) now"
    if "x \<in> set (d # later)" for x
    using same that last_run_of_row_get task_due_row_get by blast
  then show ?thesis using split by (intro exI conjI) (auto simp: sch' list_all_iff)
qed

theorem error_stops_tick_witness:
  "\<exists>earlier d later. [demo_task] = earlier @ d # later \<and> task_due d (tasks demo_scheduler) 7 = Inr True"
proof -
  have "tick (scheduled_enqueue (\<lambda>_. None) id) all_commit 7 demo_scheduler (fst init_system)
      = ((demo_scheduler, fst init_system), Inl CommandValidationError)"
    by (simp add: tick_def demo_scheduler_eq task_due_def last_run_of_def demo_task_def
        all_commit_def scheduled_enqueue_def enqueue_def parse_command_def)
  from error_stops_tick [OF this demo_scheduler_ok]
  show ?thesis by (auto simp: demo_scheduler_eq task_due_def last_run_of_def demo_task_def Cons_eq_append_conv)
qed

end
