(* ===== verification/Window.thy ===== *)
theory Window
  imports Prelude
begin

text \<open>
  The contract of a time-pruned deque. Three components keep timestamps oldest first and drop
  what has aged out before they look (\<open>RateLimiter._prune\<close> and \<open>SeenSourceSet._prune\<close> of
  \<open>auth/ratelimit.py\<close>, \<open>_RateGate._prune\<close> of \<open>metadata/ratelimit.py\<close>). Each pops from
  the front while the front is stale; on a deque in time order that keeps exactly the live
  entries, and everything a client relies on follows from this one law.
\<close>

locale sliding_window =
  fixes stamp :: "'a \<Rightarrow> real"
    and ttl :: real
    and prune :: "real \<Rightarrow> 'a list \<Rightarrow> 'a list"
  assumes prune_in_order:
    "sorted (map stamp xs) \<Longrightarrow> prune now xs = filter (\<lambda>x. now - ttl < stamp x) xs"
begin

lemma prune_order: "sorted (map stamp xs) \<Longrightarrow> sorted (map stamp (prune now xs))"
  by (simp add: prune_in_order sorted_filter)

lemma prune_later:
  "sorted (map stamp xs) \<Longrightarrow> now \<le> now' \<Longrightarrow> prune now' (prune now xs) = prune now' xs"
  by (auto simp: prune_in_order sorted_filter intro!: filter_cong)

lemma prune_snoc:
  "sorted (map stamp xs) \<Longrightarrow> \<forall>x \<in> set xs. stamp x \<le> stamp y \<Longrightarrow>
   prune now (xs @ [y]) = prune now xs @ (if now - ttl < stamp y then [y] else [])"
  by (simp add: prune_in_order sorted_append)

lemma prune_expired_all:
  "sorted (map stamp xs) \<Longrightarrow> \<forall>x \<in> set xs. stamp x \<le> now - ttl \<Longrightarrow> prune now xs = []"
  by (auto simp: prune_in_order filter_empty_conv)

lemma prune_live_all:
  "sorted (map stamp xs) \<Longrightarrow> \<forall>x \<in> set xs. now - ttl < stamp x \<Longrightarrow> prune now xs = xs"
  by (simp add: prune_in_order)

lemma length_prune_le: "sorted (map stamp xs) \<Longrightarrow> length (prune now xs) \<le> length xs"
  by (simp add: prune_in_order)

end

lemma dropWhile_eq_filter:
  assumes "sorted (map f xs)" and "\<And>x. P x \<longleftrightarrow> f x \<le> (c :: real)"
  shows "dropWhile P xs = filter (\<lambda>x. c < f x) xs"
  using assms(1)
proof (induction xs)
  case (Cons x xs)
  then show ?case
    by (cases "P x") (auto simp: assms(2) intro!: filter_True [symmetric])
qed simp

lemma le_last_in_order: "sorted xs \<Longrightarrow> x \<in> set xs \<Longrightarrow> x \<le> last xs"
  by (induction xs) auto

text \<open>
  \<open>while len(xs) > n: xs.popleft()\<close>, also \<open>popitem(last=False)\<close>.
\<close>

function pop_while_longer :: "nat \<Rightarrow> 'a list \<Rightarrow> 'a list" where
  "pop_while_longer n xs = (if n < length xs then pop_while_longer n (tl xs) else xs)"
  by pat_completeness auto
termination
  by (relation "measure (\<lambda>(n, xs). length xs)") auto

declare pop_while_longer.simps [simp del]

lemma pop_while_longer_eq: "pop_while_longer n xs = drop (length xs - n) xs"
proof (induction n xs rule: pop_while_longer.induct)
  case (1 n xs)
  show ?case
  proof (cases "n < length xs")
    case True
    then obtain y ys where xs: "xs = y # ys" by (cases xs) auto
    with True 1 have "pop_while_longer n xs = drop (length ys - n) ys"
      by (subst pop_while_longer.simps) simp
    moreover have "length xs - n = Suc (length ys - n)" using True xs by simp
    ultimately show ?thesis by (simp add: xs)
  next
    case False
    then show ?thesis by (subst pop_while_longer.simps) simp
  qed
qed

lemma length_pop_while_longer: "length (pop_while_longer n xs) = min n (length xs)"
  by (simp add: pop_while_longer_eq)

lemma pop_while_longer_short: "length xs \<le> n \<Longrightarrow> pop_while_longer n xs = xs"
  by (simp add: pop_while_longer_eq)

lemma set_pop_while_longer: "set (pop_while_longer n xs) \<subseteq> set xs"
  by (simp add: pop_while_longer_eq set_drop_subset)

end
