(* ===== verification/CV_Gate.thy ===== *)
theory CV_Gate
  imports Window
begin

text \<open>
  The process-global ComicVine rate gate (\<open>metadata/ratelimit.py\<close>).

  \<open>acquire\<close> is cut where it awaits: the check before the lock (\<open>acquire_fast\<close>), the check and
  the computed wait under the lock (\<open>acquire_locked\<close>), the admission after the sleep
  (\<open>acquire_admit\<close>). \<open>gate_step\<close> interleaves these pieces of any number of callers with the
  signals of responses in flight. Monotonic time is a real; a configured float that is not
  finite is \<open>None\<close>.
\<close>

section \<open>Configuration\<close>

definition MIN_INTERVAL_FLOOR :: real where "MIN_INTERVAL_FLOOR = 1 / 4"
definition MAX_BACKOFF_SECONDS :: real where "MAX_BACKOFF_SECONDS = 300"
definition BUDGET_WINDOW_SECONDS :: real where "BUDGET_WINDOW_SECONDS = 3600"
definition BUDGET_FLOOR :: int where "BUDGET_FLOOR = 10"
definition BUDGET_CEILING :: int where "BUDGET_CEILING = 200"
definition BUDGET_WARNING_FRACTION :: real where "BUDGET_WARNING_FRACTION = 8 / 10"
definition BATCH_SHARE_FLOOR :: real where "BATCH_SHARE_FLOOR = 30 / 100"
definition BATCH_SHARE_CEILING :: real where "BATCH_SHARE_CEILING = 95 / 100"

datatype lane = Batch | Interactive

definition normalize_lane :: "string option \<Rightarrow> lane" where
  "normalize_lane l = (if l = Some ''interactive'' then Interactive else Batch)"

definition effective_interval :: "real \<Rightarrow> real" where
  "effective_interval configured =
     (if configured < MIN_INTERVAL_FLOOR then MIN_INTERVAL_FLOOR else configured)"

definition effective_budget :: "int \<Rightarrow> int" where
  "effective_budget configured = min (max configured BUDGET_FLOOR) BUDGET_CEILING"

definition effective_batch_share :: "real \<Rightarrow> real option \<Rightarrow> real" where
  "effective_batch_share declared configured =
     (case configured of
        None \<Rightarrow> declared
      | Some x \<Rightarrow> min (max x BATCH_SHARE_FLOOR) BATCH_SHARE_CEILING)"

definition trunc_real :: "real \<Rightarrow> int" where
  "trunc_real x = (if 0 \<le> x then \<lfloor>x\<rfloor> else \<lceil>x\<rceil>)"

definition batch_ceiling :: "int \<Rightarrow> real option \<Rightarrow> int" where
  "batch_ceiling budget share =
     (case share of None \<Rightarrow> budget | Some s \<Rightarrow> trunc_real (of_int budget * s))"

section \<open>The gate\<close>

type_synonym lane_stamp = "real \<times> lane"

record gate =
  last_admitted :: "real option"
  cooldown_until :: real
  consecutive :: nat
  degraded :: bool
  auth_failed :: bool
  ledgers :: "(string, lane_stamp list) odict"
  known_budget :: "int option"
  known_share :: "real option"

definition new_gate :: gate where
  "new_gate = \<lparr>last_admitted = None, cooldown_until = 0, consecutive = 0, degraded = False,
     auth_failed = False, ledgers = [], known_budget = None, known_share = None\<rparr>"

definition gate_prune :: "real \<Rightarrow> lane_stamp list \<Rightarrow> lane_stamp list" where
  "gate_prune now ledger = dropWhile (\<lambda>s. fst s \<le> now - BUDGET_WINDOW_SECONDS) ledger"

definition ledger_of :: "string \<Rightarrow> gate \<Rightarrow> lane_stamp list" where
  "ledger_of bucket g = (case map_of (ledgers g) bucket of None \<Rightarrow> [] | Some l \<Rightarrow> l)"

text \<open>Both callers pass \<open>used = len(stamps)\<close> with \<open>limit \<le> used\<close>, so the index is in range.\<close>

definition resume_in :: "lane_stamp list \<Rightarrow> nat \<Rightarrow> int \<Rightarrow> real \<Rightarrow> real" where
  "resume_in stamps used limit now =
     (if limit \<le> 0 then BUDGET_WINDOW_SECONDS
      else max 0 (fst (stamps ! nat (int used - limit)) + BUDGET_WINDOW_SECONDS - now))"

record refusal =
  refused_bucket :: string
  retry_after_seconds :: real
  refused_lane :: "lane option"

definition batch_stamps :: "lane_stamp list \<Rightarrow> lane_stamp list" where
  "batch_stamps ledger = filter (\<lambda>s. snd s = Batch) ledger"

definition refuse_if_exhausted ::
  "string \<Rightarrow> int \<Rightarrow> real \<Rightarrow> lane \<Rightarrow> real option \<Rightarrow> gate \<Rightarrow> gate \<times> refusal option" where
  "refuse_if_exhausted bucket budget now who share g =
     (let ledger = gate_prune now (ledger_of bucket g);
          used = length ledger;
          blocked_total = budget \<le> int used;
          wait_total = (if blocked_total then resume_in ledger used budget now else 0);
          cap = batch_ceiling budget share;
          stamps = batch_stamps ledger;
          blocked_batch = (who = Batch \<and> share \<noteq> None \<and> cap \<le> int (length stamps));
          wait_batch = (if blocked_batch then resume_in stamps (length stamps) cap now else 0);
          g' = g\<lparr>ledgers := od_set bucket ledger (ledgers g)\<rparr>
      in (g', if blocked_total
              then Some \<lparr>refused_bucket = bucket, retry_after_seconds = max wait_total wait_batch,
                         refused_lane = None\<rparr>
              else if blocked_batch
              then Some \<lparr>refused_bucket = bucket, retry_after_seconds = max wait_total wait_batch,
                         refused_lane = Some Batch\<rparr>
              else None))"

record request =
  r_interval :: real
  r_bucket :: "string option"
  r_budget :: "int option"
  r_lane :: lane
  r_share :: "real option"

definition budget_check :: "real \<Rightarrow> request \<Rightarrow> gate \<Rightarrow> gate \<times> refusal option" where
  "budget_check now r g =
     (case (r_bucket r, r_budget r) of
        (Some b, Some n) \<Rightarrow> refuse_if_exhausted b n now (r_lane r) (r_share r) g
      | _ \<Rightarrow> (g, None))"

definition acquire_fast :: "real \<Rightarrow> request \<Rightarrow> gate \<Rightarrow> gate \<times> refusal option" where
  "acquire_fast now r g =
     budget_check now r
       (g\<lparr>known_budget := (case r_budget r of None \<Rightarrow> known_budget g | Some n \<Rightarrow> Some n),
          known_share := (case r_share r of None \<Rightarrow> known_share g | Some s \<Rightarrow> Some s)\<rparr>)"

definition admission_wait :: "real \<Rightarrow> real \<Rightarrow> gate \<Rightarrow> real" where
  "admission_wait now interval g =
     max (case last_admitted g of None \<Rightarrow> 0 | Some l \<Rightarrow> max 0 (interval - (now - l)))
         (cooldown_until g - now)"

definition acquire_locked :: "real \<Rightarrow> request \<Rightarrow> gate \<Rightarrow> gate \<times> (refusal + real)" where
  "acquire_locked now r g =
     (case budget_check now r g of
        (g', Some ref) \<Rightarrow> (g', Inl ref)
      | (g', None) \<Rightarrow> (g', Inr (admission_wait now (r_interval r) g')))"

definition acquire_admit :: "real \<Rightarrow> request \<Rightarrow> gate \<Rightarrow> gate" where
  "acquire_admit now r g =
     (let g1 = (if cooldown_until g \<le> now then g\<lparr>degraded := False, consecutive := 0\<rparr> else g);
          g2 = g1\<lparr>last_admitted := Some now\<rparr>
      in case r_bucket r of
           None \<Rightarrow> g2
         | Some b \<Rightarrow> g2\<lparr>ledgers := od_set b (ledger_of b g2 @ [(now, r_lane r)]) (ledgers g2)\<rparr>)"

text \<open>The integer power does not convert to a double from \<open>2 ** 1024\<close> on.\<close>

definition note_rate_limited :: "real \<Rightarrow> real option \<Rightarrow> gate \<Rightarrow> gate \<times> real result" where
  "note_rate_limited now retry g =
     (let n = Suc (consecutive g); g1 = g\<lparr>consecutive := n\<rparr>
      in if 1024 \<le> n then (g1, Inl OverflowError)
         else
           (let backoff = min (MIN_INTERVAL_FLOOR * 2 ^ n) MAX_BACKOFF_SECONDS;
                delay = max (case retry of None \<Rightarrow> 0 | Some r \<Rightarrow> r) backoff
            in (g1\<lparr>cooldown_until := max (cooldown_until g) (now + delay), degraded := True\<rparr>,
                Inr delay)))"

definition note_auth_failed :: "gate \<Rightarrow> gate" where
  "note_auth_failed g = g\<lparr>auth_failed := True\<rparr>"

definition note_auth_ok :: "gate \<Rightarrow> gate" where
  "note_auth_ok g = g\<lparr>auth_failed := False\<rparr>"

definition is_degraded :: "real \<Rightarrow> gate \<Rightarrow> gate \<times> bool" where
  "is_degraded now g =
     (if \<not> degraded g then (g, False)
      else if cooldown_until g \<le> now then (g\<lparr>degraded := False, consecutive := 0\<rparr>, False)
      else (g, True))"

definition cooldown_remaining :: "real \<Rightarrow> gate \<Rightarrow> real" where
  "cooldown_remaining now g = max 0 (cooldown_until g - now)"

section \<open>Health snapshot\<close>

record path_budget =
  pb_used :: nat
  pb_ceiling :: int
  pb_batch_used :: nat
  pb_batch_ceiling :: int
  pb_approaching :: bool
  pb_resumes_in :: real
  pb_batch_resumes_in :: real

definition bucket_health :: "real \<Rightarrow> int \<Rightarrow> real option \<Rightarrow> lane_stamp list \<Rightarrow> path_budget option" where
  "bucket_health now path_cap share ledger =
     (let used = length ledger; cap = batch_ceiling path_cap share;
          stamps = batch_stamps ledger;
          paused = (share \<noteq> None \<and> cap \<le> int (length stamps));
          approaching = (of_int path_cap * BUDGET_WARNING_FRACTION \<le> real used)
      in if used = 0 \<or> \<not> (approaching \<or> paused) then None
         else Some \<lparr>pb_used = used, pb_ceiling = path_cap, pb_batch_used = length stamps,
                    pb_batch_ceiling = cap, pb_approaching = approaching,
                    pb_resumes_in = (if path_cap \<le> int used then resume_in ledger used path_cap now else 0),
                    pb_batch_resumes_in =
                      (if paused then resume_in stamps (length stamps) cap now else 0)\<rparr>)"

definition budget_health :: "real \<Rightarrow> gate \<Rightarrow> gate \<times> (string \<times> path_budget) list \<times> bool" where
  "budget_health now g =
     (case known_budget g of
        None \<Rightarrow> (g, [], False)
      | Some path_cap \<Rightarrow>
          (let pruned = map (\<lambda>(b, l). (b, gate_prune now l)) (ledgers g)
           in (g\<lparr>ledgers := pruned\<rparr>,
               List.map_filter (\<lambda>(b, l). map_option (Pair b) (bucket_health now path_cap (known_share g) l)) pruned,
               list_ex (\<lambda>(b, l). l \<noteq> [] \<and> path_cap \<le> int (length l)) pruned)))"

interpretation gate_window: sliding_window fst BUDGET_WINDOW_SECONDS gate_prune
  by unfold_locales (auto simp: gate_prune_def intro!: dropWhile_eq_filter)

section \<open>Interleaved callers\<close>

text \<open>
  A caller of the process: its bucket and lane vary, its interval, budget and batch share are
  the effective settings (\<open>ComicVineClient._fetch\<close>, the covers cache).
\<close>

record cv_settings =
  min_interval_cfg :: real
  path_budget_cfg :: int
  batch_share_cfg :: "real option"

definition cv_request :: "cv_settings \<Rightarrow> string \<Rightarrow> lane \<Rightarrow> request" where
  "cv_request S bucket who =
     \<lparr>r_interval = effective_interval (min_interval_cfg S), r_bucket = Some bucket,
      r_budget = Some (effective_budget (path_budget_cfg S)), r_lane = who,
      r_share = Some (effective_batch_share (7 / 10) (batch_share_cfg S))\<rparr>"

text \<open>
  The lock's holder with the time its sleep ends, every admission so far (bucket, time, lane,
  oldest first) and the monotonic clock.
\<close>

record gate_system =
  the_gate :: gate
  holder :: "(request \<times> real) option"
  admissions :: "(string \<times> lane_stamp) list"
  mono :: real

definition init_gate_system :: gate_system where
  "init_gate_system = \<lparr>the_gate = new_gate, holder = None, admissions = [], mono = 0\<rparr>"

inductive gate_step :: "cv_settings \<Rightarrow> gate_system \<Rightarrow> gate_system \<Rightarrow> bool" for S where
  fast_check:
    "mono s \<le> t \<Longrightarrow> acquire_fast t (cv_request S b who) (the_gate s) = (g, outcome) \<Longrightarrow>
     gate_step S s (s\<lparr>the_gate := g, mono := t\<rparr>)"
| lock_refused:
    "mono s \<le> t \<Longrightarrow> holder s = None \<Longrightarrow>
     acquire_locked t (cv_request S b who) (the_gate s) = (g, Inl ref) \<Longrightarrow>
     gate_step S s (s\<lparr>the_gate := g, mono := t\<rparr>)"
| lock_sleep:
    "mono s \<le> t \<Longrightarrow> holder s = None \<Longrightarrow>
     acquire_locked t (cv_request S b who) (the_gate s) = (g, Inr wait) \<Longrightarrow> 0 < wait \<Longrightarrow>
     gate_step S s (s\<lparr>the_gate := g, holder := Some (cv_request S b who, t + wait), mono := t\<rparr>)"
| lock_through:
    "mono s \<le> t \<Longrightarrow> holder s = None \<Longrightarrow>
     acquire_locked t (cv_request S b who) (the_gate s) = (g, Inr wait) \<Longrightarrow> wait \<le> 0 \<Longrightarrow> t \<le> t' \<Longrightarrow>
     gate_step S s (s\<lparr>the_gate := acquire_admit t' (cv_request S b who) g, holder := None,
       admissions := admissions s @ [(b, t', who)], mono := t'\<rparr>)"
| admit:
    "mono s \<le> t \<Longrightarrow> holder s = Some (cv_request S b who, wake) \<Longrightarrow> wake \<le> t \<Longrightarrow>
     gate_step S s (s\<lparr>the_gate := acquire_admit t (cv_request S b who) (the_gate s), holder := None,
       admissions := admissions s @ [(b, t, who)], mono := t\<rparr>)"
| cancelled:
    "holder s = Some (r, wake) \<Longrightarrow> gate_step S s (s\<lparr>holder := None\<rparr>)"
| rate_limited:
    "mono s \<le> t \<Longrightarrow> note_rate_limited t retry (the_gate s) = (g, res) \<Longrightarrow>
     gate_step S s (s\<lparr>the_gate := g, mono := t\<rparr>)"
| auth_signal:
    "g = note_auth_failed (the_gate s) \<or> g = note_auth_ok (the_gate s) \<Longrightarrow>
     gate_step S s (s\<lparr>the_gate := g\<rparr>)"
| degraded_poll:
    "mono s \<le> t \<Longrightarrow> is_degraded t (the_gate s) = (g, flag) \<Longrightarrow>
     gate_step S s (s\<lparr>the_gate := g, mono := t\<rparr>)"
| health_poll:
    "mono s \<le> t \<Longrightarrow> budget_health t (the_gate s) = (g, payload) \<Longrightarrow>
     gate_step S s (s\<lparr>the_gate := g, mono := t\<rparr>)"

inductive gate_reachable :: "cv_settings \<Rightarrow> gate_system \<Rightarrow> bool" for S where
  gate_init: "gate_reachable S init_gate_system"
| gate_next: "gate_reachable S s \<Longrightarrow> gate_step S s s' \<Longrightarrow> gate_reachable S s'"

section \<open>Ledgers against the history\<close>

definition of_bucket :: "string \<Rightarrow> (string \<times> lane_stamp) list \<Rightarrow> lane_stamp list" where
  "of_bucket b h = map snd (filter (\<lambda>a. fst a = b) h)"

definition live_at :: "real \<Rightarrow> lane_stamp list \<Rightarrow> lane_stamp list" where
  "live_at now xs = filter (\<lambda>s. now - BUDGET_WINDOW_SECONDS < fst s) xs"

definition in_window :: "real \<Rightarrow> lane_stamp list \<Rightarrow> lane_stamp list" where
  "in_window t xs = filter (\<lambda>s. t - BUDGET_WINDOW_SECONDS < fst s \<and> fst s \<le> t) xs"

text \<open>The ledgers hold every live admission, in order, and nothing from the future.\<close>

definition tracked :: "gate \<Rightarrow> (string \<times> lane_stamp) list \<Rightarrow> real \<Rightarrow> bool" where
  "tracked g h now \<longleftrightarrow>
     (\<forall>b. sorted (map fst (ledger_of b g)) \<and> live_at now (ledger_of b g) = live_at now (of_bucket b h))"

lemma live_at_later: "now \<le> t \<Longrightarrow> live_at now xs = live_at now ys \<Longrightarrow> live_at t xs = live_at t ys"
proof -
  assume "now \<le> t" and eq: "live_at now xs = live_at now ys"
  then have "live_at t zs = live_at t (live_at now zs)" for zs
    by (auto simp: live_at_def intro!: filter_cong)
  with eq show "live_at t xs = live_at t ys" by metis
qed

lemma live_at_append [simp]: "live_at t (xs @ ys) = live_at t xs @ live_at t ys"
  by (simp add: live_at_def)

lemma gate_prune_live: "sorted (map fst l) \<Longrightarrow> gate_prune now l = live_at now l"
  by (simp add: gate_window.prune_in_order live_at_def)

lemma ledger_of_set: "ledger_of b (g\<lparr>ledgers := od_set b' l (ledgers g)\<rparr>) = (if b = b' then l else ledger_of b g)"
  by (simp add: ledger_of_def map_of_od_set)

lemma ledger_of_update [simp]:
  "ledger_of b (g\<lparr>last_admitted := x\<rparr>) = ledger_of b g"
  "ledger_of b (g\<lparr>cooldown_until := y\<rparr>) = ledger_of b g"
  "ledger_of b (g\<lparr>consecutive := n\<rparr>) = ledger_of b g"
  "ledger_of b (g\<lparr>degraded := f\<rparr>) = ledger_of b g"
  "ledger_of b (g\<lparr>auth_failed := f\<rparr>) = ledger_of b g"
  "ledger_of b (g\<lparr>known_budget := kb\<rparr>) = ledger_of b g"
  "ledger_of b (g\<lparr>known_share := ks\<rparr>) = ledger_of b g"
  by (simp_all add: ledger_of_def)

lemma tracked_later: "tracked g h now \<Longrightarrow> now \<le> t \<Longrightarrow> tracked g h t"
  unfolding tracked_def using live_at_later by blast

lemma tracked_prune:
  assumes "tracked g h now" and "now \<le> t"
  shows "tracked (g\<lparr>ledgers := od_set b (gate_prune t (ledger_of b g)) (ledgers g)\<rparr>) h t"
    and "gate_prune t (ledger_of b g) = live_at t (of_bucket b h)"
proof -
  note T = tracked_later [OF assms, unfolded tracked_def]
  show p: "gate_prune t (ledger_of b g) = live_at t (of_bucket b h)"
    using T by (simp add: gate_prune_live)
  have idem: "live_at t (live_at t xs) = live_at t xs" for xs by (simp add: live_at_def)
  have srt: "sorted (map fst (live_at t xs))" if "sorted (map fst xs)" for xs
    using that by (simp add: live_at_def sorted_filter)
  have "sorted (map fst (live_at t (ledger_of b g)))" using T by (intro srt) blast
  then have "sorted (map fst (live_at t (of_bucket b h)))" using T by metis
  then show "tracked (g\<lparr>ledgers := od_set b (gate_prune t (ledger_of b g)) (ledgers g)\<rparr>) h t"
    using T unfolding tracked_def p ledger_of_set by (simp add: idem)
qed

lemma refuse_effect:
  assumes "refuse_if_exhausted b n t who share g = (g', ref)" and "tracked g h now" and "now \<le> t"
  shows "tracked g' h t" and "last_admitted g' = last_admitted g" and "cooldown_until g' = cooldown_until g"
    and "ref = None \<Longrightarrow> int (length (live_at t (of_bucket b h))) < n \<and>
      (who = Batch \<and> share \<noteq> None \<longrightarrow>
       int (length (batch_stamps (live_at t (of_bucket b h)))) < batch_ceiling n share)"
proof -
  note P = tracked_prune [OF assms(2,3), of b]
  have g': "g' = g\<lparr>ledgers := od_set b (gate_prune t (ledger_of b g)) (ledgers g)\<rparr>"
    using assms(1) by (simp add: refuse_if_exhausted_def Let_def)
  show "tracked g' h t" using P(1) by (simp add: g')
  show "last_admitted g' = last_admitted g" "cooldown_until g' = cooldown_until g" by (simp_all add: g')
  show "ref = None \<Longrightarrow> int (length (live_at t (of_bucket b h))) < n \<and>
      (who = Batch \<and> share \<noteq> None \<longrightarrow>
       int (length (batch_stamps (live_at t (of_bucket b h)))) < batch_ceiling n share)"
    using assms(1) unfolding refuse_if_exhausted_def Let_def P(2) by (auto split: if_splits)
qed

section \<open>The invariant\<close>

definition path_cap_of :: "cv_settings \<Rightarrow> int" where
  "path_cap_of S = effective_budget (path_budget_cfg S)"

definition batch_cap_of :: "cv_settings \<Rightarrow> int" where
  "batch_cap_of S = batch_ceiling (path_cap_of S)
     (Some (effective_batch_share (7 / 10) (batch_share_cfg S)))"

definition spacing_of :: "cv_settings \<Rightarrow> real" where
  "spacing_of S = effective_interval (min_interval_cfg S)"

definition within_budget :: "cv_settings \<Rightarrow> lane_stamp list \<Rightarrow> bool" where
  "within_budget S xs \<longleftrightarrow> (\<forall>t. int (length (in_window t xs)) \<le> path_cap_of S \<and>
     int (length (batch_stamps (in_window t (filter (\<lambda>s. snd s = Batch) xs)))) \<le> batch_cap_of S)"

definition room_for :: "cv_settings \<Rightarrow> request \<Rightarrow> real \<Rightarrow> (string \<times> lane_stamp) list \<Rightarrow> bool" where
  "room_for S r now h \<longleftrightarrow> (case r_bucket r of None \<Rightarrow> True
     | Some b \<Rightarrow> int (length (live_at now (of_bucket b h))) < path_cap_of S \<and>
         (r_lane r = Batch \<longrightarrow>
          int (length (batch_stamps (live_at now (of_bucket b h)))) < batch_cap_of S))"

definition gate_inv :: "cv_settings \<Rightarrow> gate_system \<Rightarrow> bool" where
  "gate_inv S s \<longleftrightarrow>
     tracked (the_gate s) (admissions s) (mono s) \<and>
     list_all (\<lambda>a. fst (snd a) \<le> mono s) (admissions s) \<and>
     (\<forall>b. within_budget S (of_bucket b (admissions s))) \<and>
     sorted_wrt (\<lambda>a a'. fst (snd a) + spacing_of S \<le> fst (snd a')) (admissions s) \<and>
     (case last_admitted (the_gate s) of None \<Rightarrow> admissions s = []
      | Some l \<Rightarrow> list_all (\<lambda>a. fst (snd a) \<le> l) (admissions s)) \<and>
     (case holder s of None \<Rightarrow> True
      | Some (r, wake) \<Rightarrow> room_for S r (mono s) (admissions s) \<and>
          list_all (\<lambda>a. fst (snd a) + spacing_of S \<le> wake) (admissions s))"

lemma live_at_shrinks: "now \<le> t \<Longrightarrow> length (live_at t xs) \<le> length (live_at now xs)"
  by (induction xs) (auto simp: live_at_def)

lemma batch_live: "batch_stamps (live_at u xs) = live_at u (batch_stamps xs)"
  by (simp add: batch_stamps_def live_at_def conj_commute)

lemma room_later: "room_for S r now h \<Longrightarrow> now \<le> t \<Longrightarrow> room_for S r t h"
proof -
  assume room: "room_for S r now h" and "now \<le> t"
  have "length (live_at t xs) \<le> length (live_at now xs) \<and>
      length (batch_stamps (live_at t xs)) \<le> length (batch_stamps (live_at now xs))" for xs
    using live_at_shrinks [OF \<open>now \<le> t\<close>] by (simp add: batch_live)
  then have le: "int (length (live_at t xs)) \<le> int (length (live_at now xs))"
    "int (length (batch_stamps (live_at t xs))) \<le> int (length (batch_stamps (live_at now xs)))" for xs
    by simp_all
  show ?thesis using room le_less_trans [OF le(1)] le_less_trans [OF le(2)]
    by (simp add: room_for_def split: option.splits)
qed

lemma gate_inv_quiet:
  assumes "gate_inv S s" and "mono s \<le> t" and "tracked g (admissions s) t"
    and "last_admitted g = last_admitted (the_gate s)"
  shows "gate_inv S (s\<lparr>the_gate := g, mono := t\<rparr>)"
  using assms room_later [OF _ assms(2)]
  by (auto simp: gate_inv_def list_all_iff split: option.splits intro: order_trans)

lemma within_budget_snoc:
  assumes wb: "within_budget S xs" and all: "list_all (\<lambda>s. fst s \<le> now) xs"
    and room: "int (length (live_at now xs)) < path_cap_of S"
    and batch: "who = Batch \<Longrightarrow> int (length (batch_stamps (live_at now xs))) < batch_cap_of S"
  shows "within_budget S (xs @ [(now, who)])"
  unfolding within_budget_def
proof (intro allI conjI)
  fix t
  have sub: "in_window t xs = live_at t xs" if "now \<le> t"
    using that all by (auto simp: in_window_def live_at_def list_all_iff intro!: filter_cong)
  have bs: "batch_stamps (live_at u ys) = live_at u (filter (\<lambda>s. snd s = Batch) ys)" for u ys
    by (simp add: batch_stamps_def live_at_def conj_commute)
  have bb: "batch_stamps (in_window u (filter (\<lambda>s. snd s = Batch) ys)) = in_window u (filter (\<lambda>s. snd s = Batch) ys)" for u ys
    by (auto simp: batch_stamps_def in_window_def intro!: filter_cong)
  note W = wb [unfolded within_budget_def, rule_format, of t]
  show "int (length (in_window t (xs @ [(now, who)]))) \<le> path_cap_of S"
  proof (cases "now \<le> t")
    case True
    have "length (in_window t xs) \<le> length (live_at now xs)"
      using sub [OF True] live_at_shrinks [OF True] by simp
    then show ?thesis using room W by (auto simp: in_window_def)
  qed (use W in \<open>simp add: in_window_def\<close>)
  show "int (length (batch_stamps (in_window t (filter (\<lambda>s. snd s = Batch) (xs @ [(now, who)]))))) \<le> batch_cap_of S"
  proof (cases "now \<le> t \<and> who = Batch")
    case True
    have "in_window t (filter (\<lambda>s. snd s = Batch) xs) = live_at t (filter (\<lambda>s. snd s = Batch) xs)"
      using True all by (auto simp: in_window_def live_at_def list_all_iff intro!: filter_cong)
    then have "length (in_window t (filter (\<lambda>s. snd s = Batch) xs)) \<le> length (batch_stamps (live_at now xs))"
      using live_at_shrinks [of now t] True by (simp add: bs)
    then show ?thesis using batch True W unfolding bb by (auto simp: in_window_def)
  next
    case False
    then show ?thesis using W unfolding bb by (auto simp: in_window_def)
  qed
qed

lemma budget_check_effect:
  assumes "budget_check t (cv_request S b who) g = (g', ref)" and "tracked g h now" and "now \<le> t"
  shows "tracked g' h t" and "last_admitted g' = last_admitted g" and "cooldown_until g' = cooldown_until g"
    and "ref = None \<Longrightarrow> room_for S (cv_request S b who) t h"
proof -
  have eq: "refuse_if_exhausted b (path_cap_of S) t who
      (Some (effective_batch_share (7 / 10) (batch_share_cfg S))) g = (g', ref)"
    using assms(1) by (simp add: budget_check_def cv_request_def path_cap_of_def)
  note E = refuse_effect [OF eq assms(2,3)]
  show "tracked g' h t" "last_admitted g' = last_admitted g" "cooldown_until g' = cooldown_until g"
    using E(1-3) by blast+
  show "ref = None \<Longrightarrow> room_for S (cv_request S b who) t h"
    using E(4) by (simp add: room_for_def cv_request_def batch_cap_of_def)
qed

lemma acquire_fast_effect:
  assumes "acquire_fast t (cv_request S b who) g = (g', ref)" and "tracked g h now" and "now \<le> t"
  shows "tracked g' h t" and "last_admitted g' = last_admitted g"
proof -
  let ?g = "g\<lparr>known_budget := (case r_budget (cv_request S b who) of None \<Rightarrow> known_budget g | Some n \<Rightarrow> Some n),
    known_share := (case r_share (cv_request S b who) of None \<Rightarrow> known_share g | Some s \<Rightarrow> Some s)\<rparr>"
  have "tracked ?g h now" using assms(2) by (simp add: tracked_def)
  then show "tracked g' h t" "last_admitted g' = last_admitted g"
    using budget_check_effect [OF assms(1) [unfolded acquire_fast_def] _ assms(3)] by auto
qed

lemma acquire_locked_effect:
  assumes "acquire_locked t (cv_request S b who) g = (g', res)" and "tracked g h now" and "now \<le> t"
  shows "tracked g' h t" and "last_admitted g' = last_admitted g"
    and "res = Inr wait \<Longrightarrow> room_for S (cv_request S b who) t h \<and> 0 \<le> wait \<and>
      (case last_admitted g of None \<Rightarrow> True | Some l \<Rightarrow> l + spacing_of S \<le> t + wait) \<and>
      cooldown_until g \<le> t + wait"
proof -
  obtain ref where bc: "budget_check t (cv_request S b who) g = (g', ref)"
    and res: "res = (case ref of Some x \<Rightarrow> Inl x
      | None \<Rightarrow> Inr (admission_wait t (spacing_of S) g'))"
    using assms(1)
    by (auto simp: acquire_locked_def cv_request_def spacing_of_def split: prod.splits option.splits)
  note E = budget_check_effect [OF bc assms(2,3)]
  show "tracked g' h t" "last_admitted g' = last_admitted g" using E(1,2) by blast+
  show "res = Inr wait \<Longrightarrow> room_for S (cv_request S b who) t h \<and> 0 \<le> wait \<and>
      (case last_admitted g of None \<Rightarrow> True | Some l \<Rightarrow> l + spacing_of S \<le> t + wait) \<and>
      cooldown_until g \<le> t + wait"
    using E(2-4) res by (auto simp: admission_wait_def split: option.splits)
qed

lemma of_bucket_snoc: "of_bucket b (h @ [(b', x)]) = of_bucket b h @ (if b' = b then [x] else [])"
  by (simp add: of_bucket_def)

lemma of_bucket_le: "list_all (\<lambda>a. fst (snd a) \<le> t) h \<Longrightarrow> list_all (\<lambda>s. fst s \<le> t) (of_bucket b h)"
  by (auto simp: of_bucket_def list_all_iff)

lemma ledger_le:
  assumes "tracked g h now" and "now \<le> t" and "list_all (\<lambda>a. fst (snd a) \<le> t) h"
  shows "list_all (\<lambda>s. fst s \<le> t) (ledger_of b g)"
  unfolding list_all_iff
proof
  fix x
  assume x: "x \<in> set (ledger_of b g)"
  show "fst x \<le> t"
  proof (cases "now - BUDGET_WINDOW_SECONDS < fst x")
    case True
    with x have "x \<in> set (live_at now (ledger_of b g))" by (simp add: live_at_def)
    then have "x \<in> set (live_at now (of_bucket b h))" using assms(1) by (simp add: tracked_def)
    then show ?thesis using of_bucket_le [OF assms(3), of b] by (auto simp: live_at_def list_all_iff)
  qed (use assms(2) in \<open>simp add: BUDGET_WINDOW_SECONDS_def\<close>)
qed

lemma acquire_admit_effect:
  "ledger_of b' (acquire_admit t (cv_request S b who) g) =
    ledger_of b' g @ (if b' = b then [(t, who)] else [])"
  "last_admitted (acquire_admit t (cv_request S b who) g) = Some t"
  by (simp_all add: acquire_admit_def cv_request_def Let_def ledger_of_def map_of_od_set)

lemma tracked_admit:
  assumes "tracked g h now" and "now \<le> t" and "list_all (\<lambda>a. fst (snd a) \<le> t) h"
  shows "tracked (acquire_admit t (cv_request S b who) g) (h @ [(b, t, who)]) t"
  using tracked_later [OF assms(1,2)] ledger_le [OF assms]
  by (simp add: tracked_def acquire_admit_effect of_bucket_snoc sorted_append list_all_iff)

lemma budget_health_effect:
  assumes "budget_health t g = (g', payload)" and "tracked g h now" and "now \<le> t"
  shows "tracked g' h t" and "last_admitted g' = last_admitted g"
proof -
  have led: "ledger_of b g' = ledger_of b g \<or> ledger_of b g' = gate_prune t (ledger_of b g)" for b
  proof -
    have "map_of (map (\<lambda>(k, l). (k, gate_prune t l)) xs) b = map_option (gate_prune t) (map_of xs b)" for xs
      by (induction xs) auto
    then show ?thesis using assms(1)
      by (auto simp: budget_health_def Let_def ledger_of_def gate_prune_def split: option.splits)
  qed
  have "sorted (map fst (gate_prune t (ledger_of b g)))" for b
    using assms(2) gate_window.prune_order by (simp add: tracked_def)
  moreover have "live_at t (gate_prune t (ledger_of b g)) = live_at t (ledger_of b g)" for b
    using assms(2) by (simp add: tracked_def gate_prune_live) (simp add: live_at_def)
  moreover note tracked_later [OF assms(2,3)]
  ultimately show "tracked g' h t" unfolding tracked_def by (metis led)
  show "last_admitted g' = last_admitted g"
    using assms(1) by (auto simp: budget_health_def Let_def split: option.splits)
qed

lemma lock_enter_inv:
  assumes "mono s \<le> t" and "acquire_locked t (cv_request S b who) (the_gate s) = (g, Inr wait)"
    and "gate_inv S s"
  shows "gate_inv S (s\<lparr>the_gate := g, holder := Some (cv_request S b who, t + wait), mono := t\<rparr>)"
proof -
  have tr: "tracked (the_gate s) (admissions s) (mono s)" using assms(3) by (simp add: gate_inv_def)
  note E = acquire_locked_effect [OF assms(2) tr assms(1)]
  have inv: "gate_inv S (s\<lparr>the_gate := g, mono := t\<rparr>)"
    by (rule gate_inv_quiet [OF assms(3,1) E(1,2)])
  have "list_all (\<lambda>a. fst (snd a) + spacing_of S \<le> t + wait) (admissions s)"
    using E(3) assms(3)
    by (auto simp: gate_inv_def list_all_iff split: option.splits)
  then show ?thesis using E(3) inv by (auto simp: gate_inv_def split: option.splits)
qed

lemma admit_inv:
  assumes "mono s \<le> t" and "holder s = Some (cv_request S b who, wake)" and "wake \<le> t"
    and "gate_inv S s"
  shows "gate_inv S (s\<lparr>the_gate := acquire_admit t (cv_request S b who) (the_gate s), holder := None,
       admissions := admissions s @ [(b, t, who)], mono := t\<rparr>)"
proof -
  note I = assms(4) [unfolded gate_inv_def]
  have room: "room_for S (cv_request S b who) t (admissions s)"
    using I assms(1,2) room_later by (auto split: option.splits)
  have le: "list_all (\<lambda>a. fst (snd a) \<le> t) (admissions s)"
    using I assms(1) by (auto simp: list_all_iff intro: order_trans)
  have gap: "list_all (\<lambda>a. fst (snd a) + spacing_of S \<le> t) (admissions s)"
    using I assms(2,3) by (auto simp: list_all_iff intro: order_trans)
  have "within_budget S (of_bucket b' (admissions s @ [(b, t, who)]))" for b'
    using I room within_budget_snoc [OF _ of_bucket_le [OF le]]
    by (cases "b' = b") (auto simp: of_bucket_snoc room_for_def cv_request_def)
  then show ?thesis
    using I le gap tracked_admit [OF _ assms(1) le]
    by (auto simp: gate_inv_def acquire_admit_effect sorted_wrt_append list_all_iff)
qed

lemma gate_step_inv: "gate_step S s s' \<Longrightarrow> gate_inv S s \<Longrightarrow> gate_inv S s'"
proof (induction rule: gate_step.induct)
  case (fast_check s t b who g outcome)
  then have "tracked (the_gate s) (admissions s) (mono s)" by (simp add: gate_inv_def)
  from acquire_fast_effect [OF fast_check(2) this fast_check(1)]
  show ?case by (rule gate_inv_quiet [OF fast_check(3,1)])
next
  case (lock_refused s t b who g ref)
  then have "tracked (the_gate s) (admissions s) (mono s)" by (simp add: gate_inv_def)
  from acquire_locked_effect(1,2) [OF lock_refused(3) this lock_refused(1)]
  show ?case by (rule gate_inv_quiet [OF lock_refused(4,1)])
next
  case (lock_sleep s t b who g wait)
  then show ?case using lock_enter_inv by blast
next
  case (lock_through s t b who g wait t')
  let ?s = "s\<lparr>the_gate := g, holder := Some (cv_request S b who, t + wait), mono := t\<rparr>"
  have "gate_inv S ?s" using lock_enter_inv lock_through by blast
  from admit_inv [OF _ _ _ this, of t' b who "t + wait"] show ?case using lock_through by simp
next
  case (admit s t b who wake)
  then show ?case using admit_inv by blast
next
  case (cancelled s r wake)
  then show ?case by (simp add: gate_inv_def split: option.splits)
next
  case (rate_limited s t retry g res)
  then have "tracked g (admissions s) t" "last_admitted g = last_admitted (the_gate s)"
    using tracked_later [of "the_gate s" "admissions s" "mono s" t]
    by (auto simp: gate_inv_def note_rate_limited_def Let_def tracked_def split: if_splits)
  then show ?case by (rule gate_inv_quiet [OF rate_limited(3,1)])
next
  case (auth_signal g s)
  have "tracked g (admissions s) (mono s)" "last_admitted g = last_admitted (the_gate s)"
    using auth_signal by (auto simp: gate_inv_def tracked_def note_auth_failed_def note_auth_ok_def)
  from gate_inv_quiet [OF auth_signal(2) order_refl this] show ?case by simp
next
  case (degraded_poll s t g flag)
  then have "tracked g (admissions s) t" "last_admitted g = last_admitted (the_gate s)"
    using tracked_later [of "the_gate s" "admissions s" "mono s" t]
    by (auto simp: gate_inv_def is_degraded_def tracked_def split: if_splits)
  then show ?case by (rule gate_inv_quiet [OF degraded_poll(3,1)])
next
  case (health_poll s t g payload)
  then have "tracked (the_gate s) (admissions s) (mono s)" by (simp add: gate_inv_def)
  from budget_health_effect [OF health_poll(2) this health_poll(1)]
  show ?case by (rule gate_inv_quiet [OF health_poll(3,1)])
qed

lemma caps:
  "path_cap_of S \<le> 200" "10 \<le> path_cap_of S" "1 / 4 \<le> spacing_of S"
  by (simp_all add: path_cap_of_def effective_budget_def BUDGET_CEILING_def BUDGET_FLOOR_def
      spacing_of_def effective_interval_def MIN_INTERVAL_FLOOR_def)

lemma batch_cap:
  shows "3 \<le> batch_cap_of S" and "batch_cap_of S < path_cap_of S"
proof -
  let ?r = "effective_batch_share (7 / 10) (batch_share_cfg S)" and ?b = "real_of_int (path_cap_of S)"
  have r: "30 / 100 \<le> ?r" "?r \<le> 95 / 100"
    by (auto simp: effective_batch_share_def BATCH_SHARE_FLOOR_def BATCH_SHARE_CEILING_def
        split: option.split)
  have b: "10 \<le> ?b" using caps(2) [of S] by linarith
  have "10 * (30 / 100) \<le> ?b * ?r" using mult_mono [OF b r(1)] b by simp
  moreover have "?b * ?r \<le> ?b * (95 / 100)" using mult_left_mono [OF r(2), of ?b] b by simp
  ultimately have "3 \<le> ?b * ?r" "?b * ?r < ?b" using b by linarith+
  then show "3 \<le> batch_cap_of S" "batch_cap_of S < path_cap_of S"
    by (simp_all add: batch_cap_of_def batch_ceiling_def trunc_real_def le_floor_iff floor_less_iff)
qed

lemma gate_reachable_inv: "gate_reachable S s \<Longrightarrow> gate_inv S s"
proof (induction rule: gate_reachable.induct)
  case gate_init
  show ?case
    using caps(2) [of S] batch_cap(1) [of S]
    by (simp add: gate_inv_def init_gate_system_def new_gate_def tracked_def ledger_of_def
        of_bucket_def within_budget_def in_window_def batch_stamps_def)
next
  case (gate_next s s')
  then show ?case using gate_step_inv by blast
qed

section \<open>Resume times\<close>

lemma count_after:
  fixes xs :: "real list"
  assumes "sorted xs" and "0 < n" and "n \<le> length xs"
  shows "n \<le> length (filter (\<lambda>x. c < x) xs) \<longleftrightarrow> c < xs ! (length xs - n)"
proof -
  let ?k = "length xs - n"
  have k: "?k < length xs" using assms(2,3) by simp
  have split: "length (filter (\<lambda>x. c < x) xs) =
      length (filter (\<lambda>x. c < x) (take ?k xs)) + length (filter (\<lambda>x. c < x) (drop ?k xs))"
    using filter_append [of "\<lambda>x. c < x" "take ?k xs" "drop ?k xs"] by (simp flip: length_append)
  show ?thesis
  proof
    assume "c < xs ! ?k"
    have "c < x" if "x \<in> set (drop ?k xs)" for x
    proof -
      obtain i where i: "i < length (drop ?k xs)" and x: "drop ?k xs ! i = x"
        using \<open>x \<in> set (drop ?k xs)\<close> unfolding in_set_conv_nth by blast
      have "xs ! ?k \<le> xs ! (?k + i)"
        using i by (intro sorted_nth_mono [OF assms(1)]) simp_all
      also have "\<dots> = x" using x k by simp
      finally have "xs ! ?k \<le> x" .
      then show ?thesis using \<open>c < xs ! ?k\<close> by simp
    qed
    then have "filter (\<lambda>x. c < x) (drop ?k xs) = drop ?k xs" by (intro filter_True) blast
    then show "n \<le> length (filter (\<lambda>x. c < x) xs)" using split assms(3) by simp
  next
    assume le: "n \<le> length (filter (\<lambda>x. c < x) xs)"
    show "c < xs ! ?k"
    proof (rule ccontr)
      assume "\<not> c < xs ! ?k"
      have "\<not> c < x" if "x \<in> set (take (Suc ?k) xs)" for x
      proof -
        obtain i where i: "i < length (take (Suc ?k) xs)" and x: "take (Suc ?k) xs ! i = x"
          using \<open>x \<in> set (take (Suc ?k) xs)\<close> unfolding in_set_conv_nth by blast
        have "x = xs ! i" using x i by simp
        also have "\<dots> \<le> xs ! ?k"
          using i k by (intro sorted_nth_mono [OF assms(1)]) simp_all
        finally have "x \<le> xs ! ?k" .
        then show ?thesis using \<open>\<not> c < xs ! ?k\<close> by simp
      qed
      then have "filter (\<lambda>x. c < x) (take (Suc ?k) xs) = []" by (simp add: filter_empty_conv)
      then have "length (filter (\<lambda>x. c < x) xs) = length (filter (\<lambda>x. c < x) (drop (Suc ?k) xs))"
        using filter_append [of "\<lambda>x. c < x" "take (Suc ?k) xs" "drop (Suc ?k) xs"] by simp
      also have "\<dots> \<le> length xs - Suc ?k" by (metis length_drop length_filter_le)
      finally show False using le assms(2,3) by simp
    qed
  qed
qed

text \<open>One admission rule: blocked by \<open>limit\<close> live stamps, with the resume time it reports.\<close>

lemma resume_exact:
  assumes srt: "sorted (map fst xs)" and pos: "0 < limit" and blocked: "limit \<le> int (length xs)"
    and live: "list_all (\<lambda>s. now - BUDGET_WINDOW_SECONDS < fst s) xs"
  shows "now + resume_in xs (length xs) limit now \<le> t \<longleftrightarrow> int (length (live_at t xs)) < limit"
proof -
  let ?n = "nat limit" and ?k = "length xs - nat limit"
  have n: "0 < ?n" "?n \<le> length xs" using pos blocked by simp_all
  have idx: "nat (int (length xs) - limit) = ?k" using pos blocked by simp
  have k: "?k < length xs" using n by simp
  have "?n \<le> length (filter (\<lambda>x. t - BUDGET_WINDOW_SECONDS < x) (map fst xs)) \<longleftrightarrow>
      t - BUDGET_WINDOW_SECONDS < map fst xs ! (length (map fst xs) - ?n)"
    using count_after [OF srt n(1)] n(2) by simp
  then have cnt: "?n \<le> length (live_at t xs) \<longleftrightarrow> t - BUDGET_WINDOW_SECONDS < fst (xs ! ?k)"
    using k by (simp add: live_at_def filter_map comp_def)
  have "now - BUDGET_WINDOW_SECONDS < fst (xs ! ?k)" using live k by (simp add: list_all_length)
  then have "resume_in xs (length xs) limit now = fst (xs ! ?k) + BUDGET_WINDOW_SECONDS - now"
    using pos by (simp add: resume_in_def idx)
  then show ?thesis using cnt pos by auto
qed

lemma refusal_exact:
  assumes ref: "refuse_if_exhausted b n now who share g = (g', Some ref)"
    and srt: "sorted (map fst (ledger_of b g))" and pos: "0 < n"
    and cap: "share \<noteq> None \<Longrightarrow> 0 < batch_ceiling n share" and t: "now \<le> t"
  shows "snd (refuse_if_exhausted b n t who share g) = None \<longleftrightarrow> now + retry_after_seconds ref \<le> t"
proof -
  let ?L = "live_at now (ledger_of b g)" and ?c = "batch_ceiling n share"
  let ?bt = "n \<le> int (length ?L)" and ?lim = "who = Batch \<and> share \<noteq> None"
  let ?bb = "?lim \<and> ?c \<le> int (length (batch_stamps ?L))"
  have live: "list_all (\<lambda>s. now - BUDGET_WINDOW_SECONDS < fst s) ?L" by (simp add: live_at_def list_all_iff)
  then have blive: "list_all (\<lambda>s. now - BUDGET_WINDOW_SECONDS < fst s) (batch_stamps ?L)"
    by (simp add: batch_stamps_def list_all_iff)
  have srtL: "sorted (map fst ?L)" using srt by (simp add: live_at_def sorted_filter)
  then have srtB: "sorted (map fst (batch_stamps ?L))" by (simp add: batch_stamps_def sorted_filter)
  have later: "live_at t (ledger_of b g) = live_at t ?L" using t
    by (auto simp: live_at_def intro!: filter_cong)
  note batch = batch_live [of t ?L]
  have pr: "gate_prune u (ledger_of b g) = live_at u (ledger_of b g)" for u
    by (rule gate_prune_live [OF srt])
  have retry: "retry_after_seconds ref = max (if ?bt then resume_in ?L (length ?L) n now else 0)
      (if ?bb then resume_in (batch_stamps ?L) (length (batch_stamps ?L)) ?c now else 0)"
    and blk: "?bt \<or> ?bb"
    using ref by (auto simp: refuse_if_exhausted_def Let_def pr split: if_splits)
  have shrink: "length (live_at t xs) \<le> length xs" for xs by (simp add: live_at_def)
  have total: "now + (if ?bt then resume_in ?L (length ?L) n now else 0) \<le> t \<longleftrightarrow>
      int (length (live_at t ?L)) < n"
    using resume_exact [OF srtL pos _ live] t shrink [of ?L] by auto
  have bat: "now + (if ?bb then resume_in (batch_stamps ?L) (length (batch_stamps ?L)) ?c now else 0) \<le> t \<longleftrightarrow>
      \<not> (?lim \<and> ?c \<le> int (length (live_at t (batch_stamps ?L))))"
    using resume_exact [OF srtB _ _ blive, of ?c t] cap t shrink [of "batch_stamps ?L"] by auto
  have "snd (refuse_if_exhausted b n t who share g) = None \<longleftrightarrow>
      int (length (live_at t ?L)) < n \<and> \<not> (?lim \<and> ?c \<le> int (length (live_at t (batch_stamps ?L))))"
    by (auto simp: refuse_if_exhausted_def Let_def pr later batch)
  moreover have "now + max x y \<le> t \<longleftrightarrow> now + x \<le> t \<and> now + y \<le> t" for x y :: real
    by (auto simp: max_def)
  ultimately show ?thesis unfolding retry by (simp only: total bat)
qed

section \<open>A run with the default settings\<close>

definition default_cv :: cv_settings where
  "default_cv = \<lparr>min_interval_cfg = 2, path_budget_cfg = 150, batch_share_cfg = Some (7 / 10)\<rparr>"

lemma default_request:
  "cv_request default_cv b who =
    \<lparr>r_interval = 2, r_bucket = Some b, r_budget = Some 150, r_lane = who, r_share = Some (7 / 10)\<rparr>"
  by (simp add: cv_request_def default_cv_def effective_interval_def MIN_INTERVAL_FLOOR_def
      effective_budget_def BUDGET_FLOOR_def BUDGET_CEILING_def effective_batch_share_def
      BATCH_SHARE_FLOOR_def BATCH_SHARE_CEILING_def)

definition gate1 :: gate where
  "gate1 = new_gate\<lparr>last_admitted := Some 0, ledgers := [(''volume'', [(0, Interactive)])]\<rparr>"

lemma run_first:
  "acquire_locked 0 (cv_request default_cv ''volume'' Interactive) new_gate =
    (new_gate\<lparr>ledgers := [(''volume'', [])]\<rparr>, Inr 0)"
  "acquire_admit 0 (cv_request default_cv ''volume'' Interactive) (new_gate\<lparr>ledgers := [(''volume'', [])]\<rparr>) = gate1"
  by (simp_all add: default_request acquire_locked_def budget_check_def refuse_if_exhausted_def Let_def
      ledger_of_def new_gate_def gate_prune_def admission_wait_def acquire_admit_def gate1_def)

lemma run_second:
  "acquire_locked 0 (cv_request default_cv ''issue'' Batch) gate1 =
    (gate1\<lparr>ledgers := [(''volume'', [(0, Interactive)]), (''issue'', [])]\<rparr>, Inr 2)"
  by (simp add: default_request acquire_locked_def budget_check_def refuse_if_exhausted_def Let_def
      ledger_of_def gate_prune_def admission_wait_def gate1_def new_gate_def batch_stamps_def
      batch_ceiling_def trunc_real_def)

definition after_first :: gate_system where
  "after_first = \<lparr>the_gate = gate1, holder = None, admissions = [(''volume'', 0, Interactive)], mono = 0\<rparr>"

definition after_sleep :: gate_system where
  "after_sleep = \<lparr>the_gate = gate1\<lparr>ledgers := [(''volume'', [(0, Interactive)]), (''issue'', [])]\<rparr>,
     holder = Some (cv_request default_cv ''issue'' Batch, 2),
     admissions = [(''volume'', 0, Interactive)], mono = 0\<rparr>"

lemma reach_first: "gate_reachable default_cv after_first"
proof -
  have "gate_step default_cv init_gate_system
    (init_gate_system\<lparr>the_gate := acquire_admit 0 (cv_request default_cv ''volume'' Interactive)
        (new_gate\<lparr>ledgers := [(''volume'', [])]\<rparr>), holder := None,
      admissions := admissions init_gate_system @ [(''volume'', 0, Interactive)], mono := 0\<rparr>)"
    by (rule lock_through [where t = 0 and wait = 0])
      (simp_all add: init_gate_system_def run_first)
  then have "gate_step default_cv init_gate_system after_first"
    by (simp add: run_first init_gate_system_def after_first_def)
  then show ?thesis by (rule gate_next [OF gate_init])
qed

lemma reach_sleep: "gate_reachable default_cv after_sleep"
proof -
  have "gate_step default_cv after_first
    (after_first\<lparr>the_gate := gate1\<lparr>ledgers := [(''volume'', [(0, Interactive)]), (''issue'', [])]\<rparr>,
       holder := Some (cv_request default_cv ''issue'' Batch, 0 + 2), mono := 0\<rparr>)"
    by (rule lock_sleep) (simp_all add: after_first_def run_second)
  then have "gate_step default_cv after_first after_sleep"
    by (simp add: after_first_def after_sleep_def)
  then show ?thesis by (rule gate_next [OF reach_first])
qed

text \<open>The tightest settings: three batch admissions exhaust the batch share of a path.\<close>

definition tight_cv :: cv_settings where
  "tight_cv = \<lparr>min_interval_cfg = 1 / 4, path_budget_cfg = 10, batch_share_cfg = Some (3 / 10)\<rparr>"

definition gate_at :: "real option \<Rightarrow> lane_stamp list \<Rightarrow> gate" where
  "gate_at l xs = new_gate\<lparr>last_admitted := l, ledgers := [(''volume'', xs)]\<rparr>"

definition system_at :: "real \<Rightarrow> lane_stamp list \<Rightarrow> gate_system" where
  "system_at t xs = \<lparr>the_gate = gate_at (Some t) xs, holder = None,
     admissions = map (Pair ''volume'') xs, mono = t\<rparr>"

lemma tight_request:
  "cv_request tight_cv b who =
    \<lparr>r_interval = 1 / 4, r_bucket = Some b, r_budget = Some 10, r_lane = who, r_share = Some (3 / 10)\<rparr>"
  by (simp add: cv_request_def tight_cv_def effective_interval_def MIN_INTERVAL_FLOOR_def
      effective_budget_def BUDGET_FLOOR_def BUDGET_CEILING_def effective_batch_share_def
      BATCH_SHARE_FLOOR_def BATCH_SHARE_CEILING_def)

lemma tight_admits:
  assumes "length xs < 3" and "list_all (\<lambda>s. 0 \<le> fst s) xs" and "0 \<le> t" and "t < 3600"
    and "case l of None \<Rightarrow> True | Some u \<Rightarrow> u + 1 / 4 \<le> t"
  shows "acquire_locked t (cv_request tight_cv ''volume'' Batch) (gate_at l xs) = (gate_at l xs, Inr 0)"
proof -
  have "gate_prune t xs = xs"
    using assms(2,4) unfolding gate_prune_def
    by (cases xs) (auto simp: BUDGET_WINDOW_SECONDS_def)
  moreover have "length (batch_stamps xs) < 3"
    using assms(1) length_filter_le unfolding batch_stamps_def by (rule le_less_trans [rotated])
  ultimately show ?thesis using assms
    by (simp add: tight_request acquire_locked_def budget_check_def refuse_if_exhausted_def Let_def
        ledger_of_def gate_at_def new_gate_def batch_ceiling_def trunc_real_def admission_wait_def
        split: option.splits)
qed

lemma tight_admitted:
  "acquire_admit t (cv_request tight_cv ''volume'' Batch) (gate_at l xs) = gate_at (Some t) (xs @ [(t, Batch)])"
  if "0 \<le> t"
  using that by (simp add: acquire_admit_def tight_request gate_at_def new_gate_def Let_def ledger_of_def)

lemma tight_step:
  assumes "gate_reachable tight_cv (system_at u xs)" and "length xs < 3"
    and "list_all (\<lambda>s. 0 \<le> fst s) xs" and "0 \<le> u" and "u + 1 / 4 \<le> t" and "t < 3600"
  shows "gate_reachable tight_cv (system_at t (xs @ [(t, Batch)]))"
proof -
  have "gate_step tight_cv (system_at u xs) ((system_at u xs)\<lparr>the_gate :=
        acquire_admit t (cv_request tight_cv ''volume'' Batch) (gate_at (Some u) xs), holder := None,
      admissions := admissions (system_at u xs) @ [(''volume'', t, Batch)], mono := t\<rparr>)"
    by (rule lock_through [where t = t and wait = 0])
      (use assms tight_admits [of xs t "Some u"] in \<open>simp_all add: system_at_def\<close>)
  then have "gate_step tight_cv (system_at u xs) (system_at t (xs @ [(t, Batch)]))"
    using assms by (simp add: tight_admitted system_at_def)
  then show ?thesis by (rule gate_next [OF assms(1)])
qed

lemma tight_full: "gate_reachable tight_cv (system_at 2 [(0, Batch), (1, Batch), (2, Batch)])"
proof -
  have "acquire_locked 0 (cv_request tight_cv ''volume'' Batch) new_gate = (gate_at None [], Inr 0)"
    by (simp add: tight_request acquire_locked_def budget_check_def refuse_if_exhausted_def Let_def
        ledger_of_def gate_at_def new_gate_def batch_ceiling_def trunc_real_def admission_wait_def
        gate_prune_def batch_stamps_def)
  then have "gate_step tight_cv init_gate_system (init_gate_system\<lparr>the_gate :=
        acquire_admit 0 (cv_request tight_cv ''volume'' Batch) (gate_at None []), holder := None,
      admissions := admissions init_gate_system @ [(''volume'', 0, Batch)], mono := 0\<rparr>)"
    by (intro lock_through [where t = 0 and wait = 0]) (simp_all add: init_gate_system_def)
  then have "gate_step tight_cv init_gate_system (system_at 0 [(0, Batch)])"
    by (simp add: tight_admitted system_at_def init_gate_system_def)
  then have "gate_reachable tight_cv (system_at 0 [(0, Batch)])" by (rule gate_next [OF gate_init])
  from tight_step [OF this, of 1] have "gate_reachable tight_cv (system_at 1 [(0, Batch), (1, Batch)])"
    by simp
  from tight_step [OF this, of 2] show ?thesis by simp
qed

section \<open>Properties\<close>

text \<open>C11: The hourly budget holds over the whole history, not only in the pruned ledger: under every
  interleaving of callers, sleeps, cancellations and signals, no window of one hour holds
  more admissions on one resource path than the effective ceiling, at most 200, and no more
  batch admissions than the batch share, which is strictly below the ceiling and leaves an
  interactive reserve; and any two admissions of the process are at least the effective
  interval apart, at least a quarter of a second.\<close>

theorem hourly_budget_respected:
  assumes "gate_reachable S s"
  shows "int (length (in_window t (of_bucket b (admissions s)))) \<le> path_cap_of S \<and> path_cap_of S \<le> 200 \<and>
    int (length (batch_stamps (in_window t (of_bucket b (admissions s))))) \<le> batch_cap_of S \<and>
    3 \<le> batch_cap_of S \<and> batch_cap_of S < path_cap_of S \<and>
    sorted_wrt (\<lambda>a a'. fst (snd a) + spacing_of S \<le> fst (snd a')) (admissions s) \<and> 1 / 4 \<le> spacing_of S"
proof -
  have inv: "gate_inv S s" using assms by (rule gate_reachable_inv)
  have bs: "batch_stamps (in_window t xs) = batch_stamps (in_window t (filter (\<lambda>s. snd s = Batch) xs))" for xs
    by (auto simp: batch_stamps_def in_window_def intro!: filter_cong)
  have "int (length (batch_stamps (in_window t (of_bucket b (admissions s))))) \<le> batch_cap_of S"
    using inv by (subst bs) (simp add: gate_inv_def within_budget_def)
  then show ?thesis using inv caps batch_cap
    by (simp add: gate_inv_def within_budget_def)
qed

theorem hourly_budget_respected_witness:
  "int (length (in_window 10 (of_bucket ''volume'' (admissions after_sleep)))) \<le> path_cap_of default_cv \<and>
   length (in_window 10 (of_bucket ''volume'' (admissions after_sleep))) = 1"
  using hourly_budget_respected [OF reach_sleep, of 10 "''volume''"]
  by (simp add: after_sleep_def of_bucket_def in_window_def BUDGET_WINDOW_SECONDS_def)

text \<open>A budget refusal names its resume time exactly: if nothing more is admitted on the path,
  the same request is refused at every moment before \<open>now + retry_after\<close> and passes at every
  moment from then on.\<close>

theorem refusal_resume_time:
  assumes "gate_reachable S s" and "mono s \<le> now" and "now \<le> t"
    and "acquire_fast now (cv_request S b who) (the_gate s) = (g, Some ref)"
  shows "snd (acquire_fast t (cv_request S b who) (the_gate s)) = None \<longleftrightarrow>
    now + retry_after_seconds ref \<le> t"
proof -
  let ?r = "effective_batch_share (7 / 10) (batch_share_cfg S)" and ?req = "cv_request S b who"
  let ?g = "(the_gate s)\<lparr>known_budget := (case r_budget ?req of None \<Rightarrow> known_budget (the_gate s) | Some n \<Rightarrow> Some n),
    known_share := (case r_share ?req of None \<Rightarrow> known_share (the_gate s) | Some s \<Rightarrow> Some s)\<rparr>"
  have eq: "acquire_fast u ?req (the_gate s) = refuse_if_exhausted b (path_cap_of S) u who (Some ?r) ?g" for u
    unfolding acquire_fast_def by (simp add: budget_check_def cv_request_def path_cap_of_def)
  have ref: "refuse_if_exhausted b (path_cap_of S) now who (Some ?r) ?g = (g, Some ref)"
    using assms(4) unfolding eq .
  have srt: "sorted (map fst (ledger_of b ?g))"
    using gate_reachable_inv [OF assms(1)] by (simp add: gate_inv_def tracked_def)
  show ?thesis unfolding eq
  proof (rule refusal_exact [OF ref srt _ _ assms(3)])
    show "0 < path_cap_of S" using caps(2) [of S] by simp
    show "0 < batch_ceiling (path_cap_of S) (Some ?r)" using batch_cap(1) [of S] by (simp add: batch_cap_of_def)
  qed
qed

theorem refusal_resume_time_witness:
  "snd (acquire_fast 3599 (cv_request tight_cv ''volume'' Batch)
      (gate_at (Some 2) [(0, Batch), (1, Batch), (2, Batch)])) \<noteq> None \<and>
   snd (acquire_fast 3600 (cv_request tight_cv ''volume'' Batch)
      (gate_at (Some 2) [(0, Batch), (1, Batch), (2, Batch)])) = None"
proof -
  let ?s = "system_at 2 [(0, Batch), (1, Batch), (2, Batch)]"
  have gate: "the_gate ?s = gate_at (Some 2) [(0, Batch), (1, Batch), (2, Batch)]" "mono ?s = 2"
    by (simp_all add: system_at_def)
  obtain g ref where ref: "acquire_fast 3 (cv_request tight_cv ''volume'' Batch) (the_gate ?s) = (g, Some ref)"
    and "retry_after_seconds ref = 3597"
    by (simp add: gate acquire_fast_def tight_request budget_check_def refuse_if_exhausted_def Let_def
        ledger_of_def gate_at_def new_gate_def batch_ceiling_def trunc_real_def gate_prune_def
        batch_stamps_def BUDGET_WINDOW_SECONDS_def resume_in_def)
  then show ?thesis
    using refusal_resume_time [OF tight_full _ _ ref, of 3599] refusal_resume_time [OF tight_full _ _ ref, of 3600]
    by (simp add: gate)
qed

text \<open>The exponential back-off never escalates: an admission waits out the cool-down and resets
  the count, so a rate-limit signal without Retry-After that answers it always yields half a
  second, however many such signals came before.\<close>

theorem backoff_never_escalates:
  assumes "acquire_locked now r g = (g', Inr wait)" and "now + wait \<le> t"
  shows "snd (note_rate_limited later None (acquire_admit t r g')) = Inr (1 / 2)"
proof -
  have "cooldown_until g' \<le> t"
    using assms by (auto simp: acquire_locked_def admission_wait_def split: prod.splits option.splits)
  then show ?thesis
    by (simp add: acquire_admit_def note_rate_limited_def Let_def MIN_INTERVAL_FLOOR_def
        MAX_BACKOFF_SECONDS_def split: option.split)
qed

theorem backoff_never_escalates_witness:
  "snd (note_rate_limited 3 None (acquire_admit 2 (cv_request default_cv ''issue'' Batch)
     (gate1\<lparr>ledgers := [(''volume'', [(0, Interactive)]), (''issue'', [])]\<rparr>))) = Inr (1 / 2)"
  by (rule backoff_never_escalates [OF run_second]) simp

text \<open>A caller already sleeping out its spacing when a rate-limit signal arrives does not see
  the new cool-down: a reachable state admits a request while the cool-down still runs.\<close>

theorem sleeper_admitted_in_cooldown:
  "\<exists>s s'. gate_reachable default_cv s \<and> gate_step default_cv s s' \<and>
     length (admissions s') = Suc (length (admissions s)) \<and> mono s' < cooldown_until (the_gate s')"
proof -
  let ?g = "fst (note_rate_limited 1 (Some 60) (the_gate after_sleep))"
  let ?s = "after_sleep\<lparr>the_gate := ?g, mono := 1\<rparr>"
  have "gate_step default_cv after_sleep ?s"
    by (rule rate_limited [where retry = "Some 60"]) (simp_all add: after_sleep_def prod_eq_iff)
  then have reach: "gate_reachable default_cv ?s" by (rule gate_next [OF reach_sleep])
  have "gate_step default_cv ?s (?s\<lparr>the_gate := acquire_admit 2 (cv_request default_cv ''issue'' Batch) (the_gate ?s),
      holder := None, admissions := admissions ?s @ [(''issue'', 2, Batch)], mono := 2\<rparr>)"
    by (rule admit [where wake = 2]) (simp_all add: after_sleep_def)
  moreover have "2 < cooldown_until (acquire_admit 2 (cv_request default_cv ''issue'' Batch) ?g)"
    by (simp add: after_sleep_def gate1_def new_gate_def note_rate_limited_def Let_def acquire_admit_def
        default_request MIN_INTERVAL_FLOOR_def MAX_BACKOFF_SECONDS_def)
  ultimately show ?thesis using reach by (intro exI conjI) (assumption, assumption, simp_all)
qed

end
