(* ===== verification/Text.thy ===== *)
theory Text
  imports Prelude
begin

text \<open>
  Text operations the search and parser packages share: case folding, the regular-expression
  substitutions over runs of a character class, the series matching key
  (\<open>parser/normalize.py\<close>) and the whole-title normalisation and format token of
  \<open>search/titles.py\<close>.

  A character is a code point of Latin-1; \<open>casefold\<close> is Python's on that range, except for the
  micro sign, whose folding is a Greek letter outside it. The Unicode decomposition tables are
  the argument \<open>decompose\<close> of \<open>matching_key\<close>, used on non-ASCII titles only.
\<close>

section \<open>Characters\<close>

definition code :: "char \<Rightarrow> nat" where
  "code c = of_char c"

definition is_digit :: "char \<Rightarrow> bool" where
  "is_digit c \<longleftrightarrow> 48 \<le> code c \<and> code c \<le> 57"

definition is_lower :: "char \<Rightarrow> bool" where
  "is_lower c \<longleftrightarrow> 97 \<le> code c \<and> code c \<le> 122"

definition is_upper :: "char \<Rightarrow> bool" where
  "is_upper c \<longleftrightarrow> 65 \<le> code c \<and> code c \<le> 90"

definition is_alnum :: "char \<Rightarrow> bool" where
  "is_alnum c \<longleftrightarrow> is_digit c \<or> is_lower c \<or> is_upper c"

definition is_space :: "char \<Rightarrow> bool" where
  "is_space c \<longleftrightarrow> 9 \<le> code c \<and> code c \<le> 13 \<or> 28 \<le> code c \<and> code c \<le> 32 \<or>
     code c = 133 \<or> code c = 160"

definition is_ascii :: "string \<Rightarrow> bool" where
  "is_ascii s \<longleftrightarrow> list_all (\<lambda>c. code c < 128) s"

definition casefold_char :: "char \<Rightarrow> string" where
  "casefold_char c =
     (if is_upper c \<or> 192 \<le> code c \<and> code c \<le> 222 \<and> code c \<noteq> 215 then [char_of (code c + 32)]
      else if code c = 223 then ''ss'' else [c])"

definition casefold :: "string \<Rightarrow> string" where
  "casefold s = concat (map casefold_char s)"

section \<open>Runs\<close>

text \<open>\<open>re.sub("[class]+", " ", s)\<close>: every maximal run becomes one space.\<close>

function sub_runs :: "(char \<Rightarrow> bool) \<Rightarrow> string \<Rightarrow> string" where
  "sub_runs cls [] = []"
| "sub_runs cls (c # cs) =
     (if cls c then CHR '' '' # sub_runs cls (dropWhile cls cs) else c # sub_runs cls cs)"
  by pat_completeness auto
termination
  by (relation "measure (\<lambda>(_, s). length s)") (auto simp: le_imp_less_Suc length_dropWhile_le)

text \<open>The non-empty pieces of \<open>re.split("[class]+", s)\<close>.\<close>

function pieces :: "(char \<Rightarrow> bool) \<Rightarrow> string \<Rightarrow> string list" where
  "pieces cls [] = []"
| "pieces cls (c # cs) =
     (if cls c then pieces cls cs
      else (c # takeWhile (\<lambda>x. \<not> cls x) cs) # pieces cls (dropWhile (\<lambda>x. \<not> cls x) cs))"
  by pat_completeness auto
termination
  by (relation "measure (\<lambda>(_, s). length s)") (auto simp: le_imp_less_Suc length_dropWhile_le)

definition strip :: "string \<Rightarrow> string" where
  "strip s = rev (dropWhile is_space (rev (dropWhile is_space s)))"

text \<open>\<open>s.split(c)\<close> at every occurrence of the character \<open>c\<close>.\<close>

function split_on :: "char \<Rightarrow> string \<Rightarrow> string list" where
  "split_on c s =
     (let tok = takeWhile (\<lambda>x. x \<noteq> c) s
      in if length tok < length s then tok # split_on c (drop (Suc (length tok)) s) else [tok])"
  by pat_completeness auto
termination by (relation "measure (\<lambda>(_, s). length s)") auto

declare split_on.simps [simp del]

definition contains :: "string \<Rightarrow> string \<Rightarrow> bool" where
  "contains t s \<longleftrightarrow> list_ex (\<lambda>i. take (length t) (drop i s) = t) [0..<Suc (length s)]"

text \<open>
  \<open>int(s)\<close>: surrounding white space, a sign, digits with single underscores between them.
\<close>

fun digit_groups :: "string \<Rightarrow> bool" where
  "digit_groups [] = False"
| "digit_groups [c] = is_digit c"
| "digit_groups (c # d # cs) = (is_digit c \<and> (if d = CHR 0x5F then digit_groups cs else digit_groups (d # cs)))"

definition py_int :: "string \<Rightarrow> int option" where
  "py_int s =
     (let t = strip s;
          (neg, body) = (case t of [] \<Rightarrow> (False, [])
             | c # r \<Rightarrow> if c = CHR ''-'' then (True, r) else if c = CHR ''+'' then (False, r) else (False, t));
          digits = filter is_digit body;
          v = foldl (\<lambda>n c. 10 * n + (int (code c) - 48)) 0 digits
      in if digit_groups body then Some (if neg then - v else v) else None)"

text \<open>
  Numbers in a base, \<open>str.isdigit\<close> (which accepts the superscript digits too) and \<open>int\<close> of a text
  it accepts, with Python's limit of 4300 digits.
\<close>

definition digit_of :: "char \<Rightarrow> nat" where
  "digit_of c = (if is_digit c then code c - 48 else if is_lower c then code c - 87 else code c - 55)"

definition base_value :: "nat \<Rightarrow> string \<Rightarrow> nat" where
  "base_value base s = foldl (\<lambda>n c. base * n + digit_of c) 0 s"

definition isdigit_text :: "string \<Rightarrow> bool" where
  "isdigit_text s \<longleftrightarrow> s \<noteq> [] \<and> list_all (\<lambda>c. is_digit c \<or> code c \<in> {178, 179, 185}) s"

definition digit_int :: "string \<Rightarrow> nat result" where
  "digit_int s =
     (if list_all is_digit s \<and> length s \<le> 4300 then Inr (base_value 10 s) else Inl ValueError)"

text \<open>\<open>str.zfill\<close> of a text without a sign.\<close>

definition zfill :: "nat \<Rightarrow> string \<Rightarrow> string" where
  "zfill width s = replicate (width - length s) (CHR ''0'') @ s"

text \<open>The length of a text in UTF-8.\<close>

definition utf8_len :: "string \<Rightarrow> int" where
  "utf8_len s = (\<Sum>c\<leftarrow>s. if code c < 128 then 1 else 2)"

section \<open>Keys\<close>

definition is_punct :: "char \<Rightarrow> bool" where
  "is_punct c \<longleftrightarrow> code c \<in> {33, 34, 35, 38, 39, 40, 41, 42, 43, 44, 45, 46, 47, 58, 59, 63, 91, 92,
     93, 95, 123, 124, 125, 126}"

definition ARTICLES :: "string list" where
  "ARTICLES = [''the'', ''a'', ''an'', ''and'']"

definition matching_key :: "(string \<Rightarrow> string) \<Rightarrow> string \<Rightarrow> string" where
  "matching_key decompose title =
     (let folded = (if is_ascii title then casefold title else decompose title);
          ws = pieces is_space (sub_runs is_punct folded);
          kept = filter (\<lambda>w. w \<notin> set ARTICLES) ws
      in str_join '' '' (if kept = [] then ws else kept))"

definition normalized_title :: "string \<Rightarrow> string" where
  "normalized_title title =
     sub_runs is_space (strip (sub_runs (\<lambda>c. \<not> (is_digit c \<or> is_lower c)) (casefold title)))"

section \<open>Format token\<close>

definition KNOWN_FORMATS :: "string list" where
  "KNOWN_FORMATS = [''cbz'', ''cbr'', ''cb7'', ''pdf'', ''epub'']"

definition str_lower :: "string \<Rightarrow> string" where
  "str_lower s = map (\<lambda>c. if is_upper c \<or> 192 \<le> code c \<and> code c \<le> 222 \<and> code c \<noteq> 215
     then char_of (code c + 32) else c) s"

text \<open>\<open>str.upper\<close> on Latin-1, except for the three letters whose upper case lies outside it.\<close>

definition str_upper :: "string \<Rightarrow> string" where
  "str_upper s = map (\<lambda>c. if is_lower c \<or> 224 \<le> code c \<and> code c \<le> 254 \<and> code c \<noteq> 247
     then char_of (code c - 32) else c) s"

text \<open>
  The leftmost format token that neither follows nor precedes an ASCII letter or digit;
  \<open>before\<close> says whether the character to the left is one.
\<close>

fun find_format :: "bool \<Rightarrow> string \<Rightarrow> string option" where
  "find_format before [] = None"
| "find_format before (c # cs) =
     (let s = str_lower (c # cs);
          fits = (\<lambda>f. take (length f) s = f \<and>
            (case drop (length f) s of [] \<Rightarrow> True | x # _ \<Rightarrow> \<not> is_alnum x))
      in case (if before then None else find fits KNOWN_FORMATS) of
           Some f \<Rightarrow> Some f
         | None \<Rightarrow> find_format (is_alnum c) cs)"

section \<open>Facts\<close>

lemma code_char_of [simp]: "n < 256 \<Longrightarrow> code (char_of n) = n"
  by (simp add: code_def of_char_of)

lemma code_less: "code c < 256"
  by (simp add: code_def)

lemma dropWhile_hd: "dropWhile p s = c # cs \<Longrightarrow> \<not> p c"
  by (induction s) (auto split: if_splits)

lemma set_strip: "set (strip s) \<subseteq> set s"
  by (auto simp: strip_def dest!: set_dropWhileD)

lemma pieces_pieces:
  "w \<in> set (pieces cls s) \<Longrightarrow> w \<noteq> [] \<and> list_all (\<lambda>c. \<not> cls c) w \<and> set w \<subseteq> set s"
proof (induction cls s rule: pieces.induct)
  case (2 cls c cs)
  show ?case
  proof (cases "cls c")
    case False
    have t: "list_all (\<lambda>c. \<not> cls c) (takeWhile (\<lambda>x. \<not> cls x) cs)"
      by (auto simp: list_all_iff dest: set_takeWhileD)
    have d: "set (dropWhile (\<lambda>x. \<not> cls x) cs) \<subseteq> set cs"
      by (auto dest: set_dropWhileD)
    show ?thesis
      using 2 False t d by (auto dest: set_takeWhileD)
  qed (use 2 in auto)
qed simp

lemma pieces_append:
  "list_all (\<lambda>c. \<not> cls c) w \<Longrightarrow> w \<noteq> [] \<Longrightarrow> (s = [] \<or> cls (hd s)) \<Longrightarrow>
   pieces cls (w @ s) = w # pieces cls s"
proof (cases w)
  case (Cons c cs)
  assume "list_all (\<lambda>c. \<not> cls c) w" "s = [] \<or> cls (hd s)"
  then have "takeWhile (\<lambda>x. \<not> cls x) (cs @ s) = cs" "dropWhile (\<lambda>x. \<not> cls x) (cs @ s) = s"
    by (cases s; simp add: Cons list_all_iff takeWhile_append dropWhile_append)+
  then show ?thesis using \<open>list_all (\<lambda>c. \<not> cls c) w\<close> by (simp add: Cons)
qed simp

lemma pieces_sep:
  assumes "cls (CHR '' '')" and "list_all (\<lambda>w. w \<noteq> [] \<and> list_all (\<lambda>c. \<not> cls c) w) ws"
  shows "pieces cls (concat (map ((#) (CHR '' '')) ws)) = ws"
  using assms(2)
proof (induction ws)
  case (Cons w ws)
  have "pieces cls (w @ concat (map ((#) (CHR '' '')) ws))
      = w # pieces cls (concat (map ((#) (CHR '' '')) ws))"
    using Cons.prems assms(1) by (intro pieces_append) (cases ws; simp)+
  then show ?case using Cons assms(1) by simp
qed simp

lemma pieces_join:
  assumes "cls (CHR '' '')" and "list_all (\<lambda>w. w \<noteq> [] \<and> list_all (\<lambda>c. \<not> cls c) w) ws"
  shows "pieces cls (str_join '' '' ws) = ws"
proof (cases ws)
  case (Cons w vs)
  have "pieces cls (w @ concat (map ((#) (CHR '' '')) vs))
      = w # pieces cls (concat (map ((#) (CHR '' '')) vs))"
    using assms Cons by (intro pieces_append) (cases vs; simp)+
  also have "pieces cls (concat (map ((#) (CHR '' '')) vs)) = vs"
    using assms Cons by (intro pieces_sep) simp_all
  moreover have "(@) '' '' = (#) (CHR '' '')" by (rule ext) simp
  ultimately show ?thesis by (simp add: str_join_def Cons)
qed (simp add: str_join_def)

lemma sub_runs_id: "list_all (\<lambda>c. \<not> cls c) s \<Longrightarrow> sub_runs cls s = s"
  by (induction s) simp_all

lemma set_sub_runs: "c \<in> set (sub_runs cls s) \<Longrightarrow> c = CHR '' '' \<or> c \<in> set s \<and> \<not> cls c"
  by (induction cls s rule: sub_runs.induct) (auto split: if_splits dest: set_dropWhileD)

lemma set_str_join: "set (str_join sep ws) \<subseteq> set sep \<union> (\<Union>w \<in> set ws. set w)"
  by (cases ws) (auto simp: str_join_def)

lemma casefold_id: "list_all (\<lambda>c. code c < 128 \<and> \<not> is_upper c) s \<Longrightarrow> casefold s = s"
  by (induction s) (auto simp: casefold_def casefold_char_def)

lemma casefold_ascii: "is_ascii s \<Longrightarrow> list_all (\<lambda>c. code c < 128 \<and> \<not> is_upper c) (casefold s)"
proof (induction s)
  case (Cons c s)
  have "list_all (\<lambda>c. code c < 128 \<and> \<not> is_upper c) (casefold_char c)"
    using Cons.prems by (auto simp: casefold_char_def is_ascii_def is_upper_def)
  then show ?case using Cons by (simp add: casefold_def is_ascii_def)
qed (simp add: casefold_def)

lemma normalized_title_non_ascii:
  assumes "list_all (\<lambda>c. 128 \<le> code c \<and> code c \<noteq> 223) t"
  shows "normalized_title t = []"
proof -
  let ?cls = "\<lambda>c. \<not> (is_digit c \<or> is_lower c)"
  have "list_all ?cls (casefold_char c)" if "128 \<le> code c" "code c \<noteq> 223" for c
  proof -
    have "\<not> is_upper c" using that by (simp add: is_upper_def)
    then show ?thesis using that code_less [of c]
      by (auto simp: casefold_char_def is_digit_def is_lower_def)
  qed
  then have "list_all ?cls (casefold t)"
    using assms by (induction t) (auto simp: casefold_def)
  moreover have "strip (sub_runs ?cls s) = []" if "list_all ?cls s" for s
  proof (cases s)
    case (Cons c cs)
    then have d: "dropWhile ?cls cs = []" using that by (simp add: list_all_iff dropWhile_eq_Nil_conv)
    have "?cls c" using that Cons by simp
    then have "sub_runs ?cls s = [CHR '' '']"
      unfolding Cons sub_runs.simps d by simp
    then show ?thesis by (simp add: strip_def is_space_def code_def)
  qed (simp add: strip_def)
  ultimately show ?thesis by (simp add: normalized_title_def)
qed

text \<open>The matching key is a normal form on ASCII titles: it has no upper-case letter and no
  punctuation, and normalising it again changes nothing, so keys computed from a title, from
  a stored key or from an alias agree.\<close>

theorem matching_key_normal_form:
  assumes "is_ascii title"
  shows "matching_key decompose (matching_key decompose' title) = matching_key decompose' title \<and>
    list_all (\<lambda>c. code c < 128 \<and> \<not> is_upper c \<and> \<not> is_punct c) (matching_key decompose' title)"
proof -
  let ?ok = "\<lambda>c. code c < 128 \<and> \<not> is_upper c \<and> \<not> is_punct c"
  define ws where "ws = pieces is_space (sub_runs is_punct (casefold title))"
  define kept where "kept = filter (\<lambda>w. w \<notin> set ARTICLES) ws"
  define out where "out = (if kept = [] then ws else kept)"
  have key: "matching_key decompose' title = str_join '' '' out"
    using assms by (simp add: matching_key_def Let_def out_def kept_def ws_def)
  have space: "is_space (CHR '' '')" "?ok (CHR '' '')"
    by (simp_all add: is_space_def is_upper_def is_punct_def code_def)
  have "list_all ?ok (sub_runs is_punct (casefold title))"
    using casefold_ascii [OF assms] space(2) by (auto simp: list_all_iff dest!: set_sub_runs)
  then have ws: "w \<noteq> [] \<and> list_all (\<lambda>c. \<not> is_space c) w \<and> list_all ?ok w" if "w \<in> set ws" for w
    using pieces_pieces [OF that [unfolded ws_def]] by (auto simp: list_all_iff)
  have out: "set out \<subseteq> set ws" by (auto simp: out_def kept_def)
  then have words: "list_all (\<lambda>w. w \<noteq> [] \<and> list_all (\<lambda>c. \<not> is_space c) w) out"
    using ws by (auto simp: list_all_iff)
  have ok: "list_all ?ok (str_join '' '' out)"
    using set_str_join [of "'' ''" out] ws out space(2) by (fastforce simp: list_all_iff)
  then have asc: "is_ascii (str_join '' '' out)"
    and fold: "casefold (str_join '' '' out) = str_join '' '' out"
    and punct: "sub_runs is_punct (str_join '' '' out) = str_join '' '' out"
    by (auto simp: is_ascii_def list_all_iff intro!: casefold_id sub_runs_id)
  have "(if filter (\<lambda>w. w \<notin> set ARTICLES) out = [] then out else filter (\<lambda>w. w \<notin> set ARTICLES) out) = out"
    by (auto simp: out_def kept_def)
  then have "matching_key decompose (str_join '' '' out) = str_join '' '' out"
    unfolding matching_key_def Let_def
    using asc by (simp only: if_True fold punct pieces_join [OF space(1) words])
  then show ?thesis using ok by (simp add: key)
qed

theorem matching_key_normal_form_witness:
  "matching_key id (matching_key id ''The Sandman: Overture'') = matching_key id ''The Sandman: Overture''"
  using matching_key_normal_form [of "''The Sandman: Overture''" id id]
  by (simp add: is_ascii_def code_def)

section \<open>Fixed-width numbers\<close>

fun digits_of_width :: "nat \<Rightarrow> nat \<Rightarrow> string" where
  "digits_of_width 0 n = []"
| "digits_of_width (Suc w) n = digits_of_width w (n div 10) @ [digit_char (n mod 10)]"

lemma length_digits_of_width [simp]: "length (digits_of_width w n) = w"
  by (induction w arbitrary: n) simp_all

lemma digits_of_width_zero: "digits_of_width w 0 = replicate w (CHR ''0'')"
proof (induction w)
  case (Suc w)
  have "digit_char 0 = CHR ''0''" by code_simp
  with Suc show ?case by (simp add: replicate_append_same)
qed simp

lemma zfill_snoc: "zfill (Suc w) (s @ [d]) = zfill w s @ [d]"
  by (simp add: zfill_def)

lemma zfill_show_nat: "n < 10 ^ w \<Longrightarrow> 0 < w \<Longrightarrow> zfill w (show_nat n) = digits_of_width w n"
proof (induction n arbitrary: w rule: show_nat.induct)
  case (1 n)
  obtain v where w: "w = Suc v" using "1.prems" by (cases w) auto
  show ?case
  proof (cases "n < 10")
    case True
    then show ?thesis by (subst show_nat.simps) (simp add: w zfill_def digits_of_width_zero)
  next
    case False
    then have "n div 10 < 10 ^ v" "0 < v" using "1.prems" w by (cases v; simp add: less_mult_imp_div_less)+
    with "1.IH" False show ?thesis by (subst show_nat.simps) (simp add: w zfill_snoc)
  qed
qed

lemma length_zfill: "m < 10 ^ w \<Longrightarrow> 0 < w \<Longrightarrow> length (zfill w (show_nat m)) = w"
  by (simp add: zfill_show_nat)

lemma code_digit_char [simp]: "n < 10 \<Longrightarrow> code (digit_char n) = 48 + n"
  by (simp add: code_def)

lemma is_digit_digit_char [simp]: "n < 10 \<Longrightarrow> is_digit (digit_char n)"
  by (simp add: is_digit_def)

lemma digit_of_digit_char [simp]: "n < 10 \<Longrightarrow> digit_of (digit_char n) = n"
  by (simp add: digit_of_def is_digit_def)

lemma digits_digits_of_width [simp]: "list_all is_digit (digits_of_width w n)"
  by (induction w arbitrary: n) simp_all

lemma base_value_digits_of_width: "n < 10 ^ w \<Longrightarrow> base_value 10 (digits_of_width w n) = n"
proof (induction w arbitrary: n)
  case (Suc w)
  then have "base_value 10 (digits_of_width w (n div 10)) = n div 10" by (simp add: less_mult_imp_div_less)
  then show ?case by (simp add: base_value_def)
qed (simp add: base_value_def)

lemma show_nat_length: "10 ^ w \<le> n \<Longrightarrow> w < length (show_nat n)"
proof (induction w arbitrary: n)
  case (Suc w)
  then have "10 \<le> n" using order_trans [of 10 "10 ^ Suc w" n] by simp
  moreover have "10 ^ w \<le> n div 10" using Suc.prems by (simp add: less_eq_div_iff_mult_less_eq mult.commute)
  ultimately show ?case using Suc.IH [of "n div 10"] by (subst show_nat.simps) simp
qed simp

lemma show_nat_full: "10 ^ w \<le> n \<Longrightarrow> n < 10 ^ Suc w \<Longrightarrow> show_nat n = digits_of_width (Suc w) n"
  using zfill_show_nat [of n "Suc w"] show_nat_length [of w n] by (simp add: zfill_def)

end
