(* ===== verification/Issue_Order.thy ===== *)
theory Issue_Order
  imports Text
begin

text \<open>
  Issue numbers and their reading order: the number a ComicVine issue text stands for and its stored
  ordering key (\<open>library/ordering.py\<close>), on the numeric grammar (\<open>parser/grammar.py\<close>), the vocabulary
  (\<open>parser/vocab.py\<close>) and the sort key (\<open>parser/ordering.py\<close>) of the filename parser.

  A value is an exact rational, as in the code. The decimal context of the code has 50 digits,
  more than any value of the grammar needs, so the only rounding is the one to six decimals. Text
  is Latin-1, where the infinity sign does not occur.
\<close>

section \<open>Numbers\<close>

definition MAX_DIGITS :: nat where "MAX_DIGITS = 12"

definition digit_run :: "nat \<Rightarrow> nat \<Rightarrow> string \<Rightarrow> bool" where
  "digit_run lo hi s \<longleftrightarrow> list_all is_digit s \<and> lo \<le> length s \<and> length s \<le> hi"

text \<open>The end anchor of a pattern also matches before a final line feed.\<close>

definition chomp :: "string \<Rightarrow> string" where
  "chomp s = (if s \<noteq> [] \<and> last s = CHR 0x0A then butlast s else s)"

definition before_dot :: "string \<Rightarrow> string" where
  "before_dot s = takeWhile (\<lambda>c. c \<noteq> CHR ''.'') s"

definition after_dot :: "string \<Rightarrow> string option" where
  "after_dot s = (case dropWhile (\<lambda>c. c \<noteq> CHR ''.'') s of [] \<Rightarrow> None | _ # r \<Rightarrow> Some r)"

definition is_plain :: "string \<Rightarrow> bool" where
  "is_plain s \<longleftrightarrow> digit_run 1 MAX_DIGITS s"

definition is_decimal :: "string \<Rightarrow> bool" where
  "is_decimal s \<longleftrightarrow> digit_run 0 MAX_DIGITS (before_dot s) \<and>
     (case after_dot s of None \<Rightarrow> False | Some f \<Rightarrow> digit_run 1 MAX_DIGITS f)"

definition is_negative :: "string \<Rightarrow> bool" where
  "is_negative s \<longleftrightarrow>
     (case s of
        [] \<Rightarrow> False
      | c # r \<Rightarrow> c = CHR ''-'' \<and> digit_run 1 MAX_DIGITS (before_dot r) \<and>
          (case after_dot r of None \<Rightarrow> True | Some f \<Rightarrow> digit_run 1 MAX_DIGITS f))"

definition decimal_value :: "string \<Rightarrow> rat" where
  "decimal_value s =
     (let f = (case after_dot s of None \<Rightarrow> [] | Some f \<Rightarrow> f)
      in of_nat (base_value 10 (before_dot s @ f)) / 10 ^ length f)"

definition to_fraction :: "string \<Rightarrow> rat option" where
  "to_fraction t =
     (let s = chomp t
      in if is_plain s \<or> is_decimal s then Some (decimal_value s)
         else if is_negative s then Some (- decimal_value (tl s))
         else None)"

definition FRACTION_GLYPHS :: "(char \<times> rat) list" where
  "FRACTION_GLYPHS = [(CHR 0xBD, 1 / 2), (CHR 0xBC, 1 / 4), (CHR 0xBE, 3 / 4)]"

section \<open>Issues\<close>

datatype issue_class = Regular | Annual | Biannual | Special

record issue_number =
  in_value :: "rat option"
  in_display :: string
  in_suffix :: "string option"
  in_class :: issue_class
  in_infinity :: bool
  in_name :: "string option"

definition plain_issue :: "rat option \<Rightarrow> string \<Rightarrow> issue_number" where
  "plain_issue v d = \<lparr>in_value = v, in_display = d, in_suffix = None, in_class = Regular, in_infinity = False, in_name = None\<rparr>"

record parse_options =
  po_issue_suffixes :: "string list"
  po_single_letter_suffixes :: "string list"

definition ISSUE_SUFFIXES :: "string list" where
  "ISSUE_SUFFIXES = [''AU'', ''AI'', ''INH'', ''NOW'', ''BEY'', ''MU'', ''HU'', ''LR'', ''DEATHS'', ''ALPHA'', ''OMEGA'',
     ''SUMMER'', ''SPRING'', ''FALL'', ''WINTER'', ''PREVIEW'']"

definition SINGLE_LETTER_SUFFIXES :: "string list" where
  "SINGLE_LETTER_SUFFIXES = [''A'', ''B'', ''C'', ''X'', ''O'']"

definition DEFAULT_OPTIONS :: parse_options where
  "DEFAULT_OPTIONS = \<lparr>po_issue_suffixes = ISSUE_SUFFIXES, po_single_letter_suffixes = SINGLE_LETTER_SUFFIXES\<rparr>"

definition issue_suffix_set :: "parse_options \<Rightarrow> string set" where
  "issue_suffix_set opt = set (map str_upper (po_issue_suffixes opt))"

definition single_letter_suffix_set :: "parse_options \<Rightarrow> string set" where
  "single_letter_suffix_set opt = set (map str_upper (po_single_letter_suffixes opt))"

definition suffix_vocab_order :: "parse_options \<Rightarrow> string list" where
  "suffix_vocab_order opt = map str_upper (po_issue_suffixes opt) @ map str_upper (po_single_letter_suffixes opt)"

text \<open>A number with a fraction glyph behind it: its base and the value of the glyph.\<close>

definition glyph_match :: "string \<Rightarrow> (string \<times> rat) option" where
  "glyph_match s =
     (if s = [] then None
      else case map_of FRACTION_GLYPHS (last s) of
             None \<Rightarrow> None
           | Some v \<Rightarrow>
               (let base = butlast s
                in if list_all is_digit (before_dot base) \<and>
                     (case after_dot base of None \<Rightarrow> True | Some f \<Rightarrow> f \<noteq> [] \<and> list_all is_digit f)
                   then Some (base, v) else None))"

definition glyph_value :: "string \<Rightarrow> rat \<Rightarrow> rat" where
  "glyph_value base v =
     (if base = [] then v else case to_fraction base of None \<Rightarrow> v | Some b \<Rightarrow> b + v)"

definition is_letter :: "char \<Rightarrow> bool" where
  "is_letter c \<longleftrightarrow> is_upper c \<or> is_lower c"

text \<open>A number with a letter suffix, behind an optional dot or dash and before an optional exclamation mark.\<close>

definition suffix_match :: "string \<Rightarrow> (string \<times> string) option" where
  "suffix_match s =
     (let i = takeWhile is_digit s; r = dropWhile is_digit s;
          f = (case r of c # q \<Rightarrow> if c = CHR ''.'' then takeWhile is_digit q else [] | [] \<Rightarrow> []);
          (num, r) = (if f = [] then (i, r) else (i @ CHR ''.'' # f, dropWhile is_digit (tl r)));
          r = (case r of c # q \<Rightarrow> if c \<in> {CHR ''.'', CHR ''-''} then q else r | [] \<Rightarrow> r);
          alpha = takeWhile is_letter r; r = dropWhile is_letter r
      in if i \<noteq> [] \<and> alpha \<noteq> [] \<and> (r = [] \<or> r = ''!'') then Some (num, alpha) else None)"

definition parse_issue_number :: "string option \<Rightarrow> parse_options \<Rightarrow> issue_number" where
  "parse_issue_number raw opt =
     (case raw of
        None \<Rightarrow> plain_issue None []
      | Some s \<Rightarrow>
          (let s = strip s;
               named = (plain_issue None s)\<lparr>in_name := Some (casefold s)\<rparr>
           in if s = [] then plain_issue None []
              else case glyph_match s of
                     Some (base, v) \<Rightarrow> plain_issue (Some (glyph_value base v)) s
                   | None \<Rightarrow>
                       (case to_fraction s of
                          Some v \<Rightarrow> plain_issue (Some v) s
                        | None \<Rightarrow>
                            (case suffix_match s of
                               None \<Rightarrow> named
                             | Some (num, alpha) \<Rightarrow>
                                 (let canonical = str_upper alpha
                                  in case to_fraction num of
                                       None \<Rightarrow> named
                                     | Some v \<Rightarrow>
                                         if canonical \<in> issue_suffix_set opt \<union> single_letter_suffix_set opt
                                         then (plain_issue (Some v) s)\<lparr>in_suffix := Some canonical\<rparr>
                                         else named)))))"

section \<open>Keys\<close>

fun class_value :: "issue_class \<Rightarrow> string" where
  "class_value Regular = ''regular''"
| "class_value Annual = ''annual''"
| "class_value Biannual = ''biannual''"
| "class_value Special = ''special''"

fun class_rank :: "issue_class \<Rightarrow> nat" where
  "class_rank Regular = 0"
| "class_rank Annual = 1"
| "class_rank Biannual = 2"
| "class_rank Special = 3"

type_synonym sort_key_tuple = "nat \<times> rat \<times> nat \<times> int \<times> string \<times> string"

definition list_index :: "'a list \<Rightarrow> 'a \<Rightarrow> nat" where
  "list_index xs x = length (takeWhile (\<lambda>y. y \<noteq> x) xs)"

definition suffix_rank :: "parse_options \<Rightarrow> string option \<Rightarrow> int \<times> string" where
  "suffix_rank opt suffix =
     (case suffix of
        None \<Rightarrow> (- 1, [])
      | Some s \<Rightarrow>
          (let canonical = str_upper s; vocab = suffix_vocab_order opt
           in (int (if canonical \<in> set vocab then list_index vocab canonical else length vocab), canonical)))"

definition issue_sort_key :: "issue_number \<Rightarrow> parse_options \<Rightarrow> sort_key_tuple" where
  "issue_sort_key i opt =
     (let (rank, suffix_text) = suffix_rank opt (in_suffix i)
      in (if in_infinity i then 1 else 0, (case in_value i of None \<Rightarrow> 0 | Some v \<Rightarrow> v), class_rank (in_class i),
          rank, suffix_text, (case in_name i of None \<Rightarrow> [] | Some n \<Rightarrow> casefold n)))"

text \<open>Python's order of such tuples.\<close>

fun key_less :: "sort_key_tuple \<Rightarrow> sort_key_tuple \<Rightarrow> bool" where
  "key_less (i, v, c, r, s, n) (i', v', c', r', s', n') \<longleftrightarrow>
     i < i' \<or> i = i' \<and> (v < v' \<or> v = v' \<and> (c < c' \<or> c = c' \<and> (r < r' \<or> r = r' \<and>
       (str_less s s' \<or> s = s' \<and> str_less n n'))))"

definition round_half_even :: "rat \<Rightarrow> int" where
  "round_half_even x =
     (let f = \<lfloor>x\<rfloor>; d = x - of_int f
      in if d < 1 / 2 then f else if 1 / 2 < d then f + 1 else if even f then f else f + 1)"

definition MAX_INTEGER_DIGITS :: nat where "MAX_INTEGER_DIGITS = 13"

definition fraction_to_sortable :: "rat \<Rightarrow> string" where
  "fraction_to_sortable v =
     (let n = nat (round_half_even ((v + 10 ^ MAX_INTEGER_DIGITS) * 10 ^ 6))
      in zfill (MAX_INTEGER_DIGITS + 1) (show_nat (n div 10 ^ 6)) @ ''.'' @ zfill 6 (show_nat (n mod 10 ^ 6)))"

definition show_padded :: "nat \<Rightarrow> int \<Rightarrow> string" where
  "show_padded w i = (if i < 0 then CHR ''-'' # zfill (w - 1) (show_nat (nat (- i))) else zfill w (show_nat (nat i)))"

definition encode_sort_key :: "sort_key_tuple \<Rightarrow> string" where
  "encode_sort_key k =
     (case k of (i, v, c, r, s, n) \<Rightarrow>
        str_join ''|'' [show_padded 1 (int i), fraction_to_sortable v, show_padded 1 (int c), show_padded 5 r, s, n])"

definition ordering_key_for :: "string option \<Rightarrow> parse_options \<Rightarrow> string" where
  "ordering_key_for raw opt = encode_sort_key (issue_sort_key (parse_issue_number raw opt) opt)"

section \<open>The order of texts\<close>

lemma str_less_irrefl [simp]: "\<not> str_less s s"
  by (induction s) simp_all

lemma str_less_Nil [simp]: "str_less [] s \<longleftrightarrow> s \<noteq> []"
  by (cases s) simp_all

lemma str_less_append:
  "length a = length b \<Longrightarrow> str_less (a @ x) (b @ y) \<longleftrightarrow> str_less a b \<or> a = b \<and> str_less x y"
  by (induction a b rule: list_induct2) auto

lemma str_less_prefix [simp]: "str_less (a @ x) (a @ y) \<longleftrightarrow> str_less x y"
  by (simp add: str_less_append)

lemma div_mod_less: "(m :: nat) < n \<longleftrightarrow> m div d < n div d \<or> m div d = n div d \<and> m mod d < n mod d"
proof (cases "m div d" "n div d" rule: linorder_cases)
  case less
  then have "m < n" by (meson div_le_mono linorder_not_less)
  with less show ?thesis by simp
next
  case equal
  then show ?thesis by (metis less_irrefl mult_div_mod_eq nat_add_left_cancel_less)
next
  case greater
  then have "n < m" by (meson div_le_mono linorder_not_less)
  with greater show ?thesis by simp
qed

lemma str_less_digits:
  "m < 10 ^ w \<Longrightarrow> n < 10 ^ w \<Longrightarrow> str_less (digits_of_width w m) (digits_of_width w n) \<longleftrightarrow> m < n"
proof (induction w arbitrary: m n)
  case (Suc w)
  have d: "m div 10 < 10 ^ w" "n div 10 < 10 ^ w" using Suc.prems by (simp_all add: less_mult_imp_div_less)
  have e: "digits_of_width w (m div 10) = digits_of_width w (n div 10) \<longleftrightarrow> m div 10 = n div 10"
    using Suc.IH [OF d] Suc.IH [OF d(2,1)] by (metis linorder_neqE_nat str_less_irrefl)
  have "str_less [digit_char (m mod 10)] [digit_char (n mod 10)] \<longleftrightarrow> m mod 10 < n mod 10" by simp
  then show ?case using Suc.IH [OF d] e div_mod_less [of m n 10] by (simp add: str_less_append)
qed simp

lemma str_less_zfill:
  "m < 10 ^ w \<Longrightarrow> n < 10 ^ w \<Longrightarrow> 0 < w \<Longrightarrow>
   str_less (zfill w (show_nat m)) (zfill w (show_nat n)) \<longleftrightarrow> m < n"
  by (simp add: zfill_show_nat str_less_digits)

lemma zfill_inj:
  "m < 10 ^ w \<Longrightarrow> n < 10 ^ w \<Longrightarrow> 0 < w \<Longrightarrow> zfill w (show_nat m) = zfill w (show_nat n) \<longleftrightarrow> m = n"
  by (metis linorder_neqE_nat str_less_irrefl str_less_zfill)


section \<open>The order of keys\<close>

definition sixth :: "rat \<Rightarrow> nat" where
  "sixth v = nat (round_half_even ((v + 10 ^ MAX_INTEGER_DIGITS) * 10 ^ 6))"

definition six_places :: "rat \<Rightarrow> bool" where
  "six_places v \<longleftrightarrow> of_int \<lfloor>v * 10 ^ 6\<rfloor> = v * 10 ^ 6"

definition in_range :: "rat \<Rightarrow> bool" where
  "in_range v \<longleftrightarrow> \<bar>v\<bar> \<le> 10 ^ 12 + 1"

lemma round_half_even_of_int [simp]: "round_half_even (of_int k) = k"
  by (simp add: round_half_even_def)

lemma sixth_exact:
  assumes "six_places v" and "in_range v"
  shows "of_nat (sixth v) = (v + 10 ^ MAX_INTEGER_DIGITS) * 10 ^ 6" and "sixth v < 10 ^ 20"
proof -
  define k where "k = \<lfloor>v * 10 ^ 6\<rfloor>"
  have k: "of_int k = v * 10 ^ 6" using assms(1) by (simp add: six_places_def k_def)
  have e: "(v + 10 ^ MAX_INTEGER_DIGITS) * 10 ^ 6 = of_int (k + 10 ^ 19)"
    using k by (simp add: MAX_INTEGER_DIGITS_def algebra_simps)
  have b: "\<bar>of_int k\<bar> \<le> (10 ^ 12 + 1) * (10 ^ 6 :: rat)"
    using assms(2) by (simp add: k in_range_def abs_mult)
  then have "\<bar>k\<bar> \<le> (10 ^ 12 + 1) * 10 ^ 6"
    by (metis (mono_tags) of_int_1 of_int_abs of_int_add of_int_le_iff of_int_mult of_int_numeral of_int_power)
  then have k2: "0 \<le> k + 10 ^ 19" "k + 10 ^ 19 < 10 ^ 20" by auto
  have s: "sixth v = nat (k + 10 ^ 19)" unfolding sixth_def e round_half_even_of_int ..
  show "of_nat (sixth v) = (v + 10 ^ MAX_INTEGER_DIGITS) * 10 ^ 6"
    unfolding e s using k2(1) by simp
  show "sixth v < 10 ^ 20" using k2 by (simp add: s nat_less_iff)
qed

lemma sixth_less:
  assumes "six_places v" "in_range v" "six_places w" "in_range w"
  shows "sixth v < sixth w \<longleftrightarrow> v < w"
proof -
  have "of_nat (sixth v) < (of_nat (sixth w) :: rat) \<longleftrightarrow> v < w"
    unfolding sixth_exact(1) [OF assms(1,2)] sixth_exact(1) [OF assms(3,4)] by simp
  then show ?thesis by (simp only: of_nat_less_iff)
qed

lemma sixth_eq:
  assumes "six_places v" "in_range v" "six_places w" "in_range w"
  shows "sixth v = sixth w \<longleftrightarrow> v = w"
  using sixth_less [OF assms] sixth_less [OF assms(3,4,1,2)] by (metis linorder_neq_iff)

lemma sortable_parts:
  assumes "sixth v < 10 ^ 20"
  shows "fraction_to_sortable v = zfill 14 (show_nat (sixth v div 10 ^ 6)) @ ''.'' @ zfill 6 (show_nat (sixth v mod 10 ^ 6))"
    and "sixth v div 10 ^ 6 < 10 ^ 14" and "sixth v mod 10 ^ 6 < 10 ^ 6"
proof -
  have w: "MAX_INTEGER_DIGITS + 1 = 14" by (simp add: MAX_INTEGER_DIGITS_def)
  show "fraction_to_sortable v = zfill 14 (show_nat (sixth v div 10 ^ 6)) @ ''.'' @ zfill 6 (show_nat (sixth v mod 10 ^ 6))"
    unfolding fraction_to_sortable_def sixth_def Let_def w ..
  have "sixth v < 10 ^ 14 * 10 ^ 6" using assms by simp
  then show "sixth v div 10 ^ 6 < 10 ^ 14" by (rule less_mult_imp_div_less)
qed simp

lemma length_sortable: "sixth v < 10 ^ 20 \<Longrightarrow> length (fraction_to_sortable v) = 21"
  using sortable_parts [of v] by (simp add: length_zfill)

lemma sortable_less:
  assumes "sixth v < 10 ^ 20" and "sixth w < 10 ^ 20"
  shows "str_less (fraction_to_sortable v) (fraction_to_sortable w) \<longleftrightarrow> sixth v < sixth w"
    and "fraction_to_sortable v = fraction_to_sortable w \<longleftrightarrow> sixth v = sixth w"
proof -
  note v = sortable_parts [OF assms(1)] and w = sortable_parts [OF assms(2)]
  have dm: "sixth v < sixth w \<longleftrightarrow> sixth v div 10 ^ 6 < sixth w div 10 ^ 6 \<or>
      sixth v div 10 ^ 6 = sixth w div 10 ^ 6 \<and> sixth v mod 10 ^ 6 < sixth w mod 10 ^ 6"
    by (rule div_mod_less)
  show "str_less (fraction_to_sortable v) (fraction_to_sortable w) \<longleftrightarrow> sixth v < sixth w"
    unfolding v(1) w(1) dm using v(2,3) w(2,3) by (simp add: str_less_append length_zfill str_less_zfill zfill_inj)
  have "fraction_to_sortable v = fraction_to_sortable w \<longleftrightarrow>
      sixth v div 10 ^ 6 = sixth w div 10 ^ 6 \<and> sixth v mod 10 ^ 6 = sixth w mod 10 ^ 6"
    unfolding v(1) w(1) using v(2,3) w(2,3) by (simp add: length_zfill zfill_inj)
  also have "\<dots> \<longleftrightarrow> sixth v = sixth w" by (metis mult_div_mod_eq)
  finally show "fraction_to_sortable v = fraction_to_sortable w \<longleftrightarrow> sixth v = sixth w" .
qed

definition rank_ok :: "int \<Rightarrow> bool" where
  "rank_ok r \<longleftrightarrow> - 1 \<le> r \<and> r < 10 ^ 5"

lemma show_padded_one:
  assumes "n < 10"
  shows "show_padded 1 (int n) = [digit_char n]"
proof -
  have "show_nat n = [digit_char n]" using assms by (subst show_nat.simps) simp
  then show ?thesis by (simp add: show_padded_def zfill_def)
qed

lemma show_padded_five:
  assumes "rank_ok r" and "rank_ok r'"
  shows "length (show_padded 5 r) = 5" and "str_less (show_padded 5 r) (show_padded 5 r') \<longleftrightarrow> r < r'"
    and "show_padded 5 r = show_padded 5 r' \<longleftrightarrow> r = r'"
proof -
  have neg: "show_padded 5 q = CHR ''-'' # zfill 4 (show_nat 1)" "q = - 1" if "q < 0" "rank_ok q" for q
  proof -
    show "q = - 1" using that by (simp add: rank_ok_def)
    then show "show_padded 5 q = CHR ''-'' # zfill 4 (show_nat 1)" by (simp add: show_padded_def)
  qed
  have pos: "show_padded 5 q = zfill 5 (show_nat (nat q))" "nat q < 10 ^ 5" if "\<not> q < 0" "rank_ok q" for q
    using that by (auto simp: show_padded_def rank_ok_def)
  have len: "length (show_padded 5 q) = 5" if "rank_ok q" for q
    using neg [of q] pos [of q] that by (cases "q < 0") (simp_all add: length_zfill)
  then show "length (show_padded 5 r) = 5" using assms(1) .
  have first: "\<exists>d s. zfill 5 (show_nat n) = digit_char d # s \<and> d < 10" if "n < 10 ^ 5" for n
  proof -
    have "digits_of_width 5 n \<noteq> []" by (metis length_digits_of_width list.size(3) zero_neq_numeral)
    moreover have "c \<in> set (digits_of_width w m) \<Longrightarrow> \<exists>d < 10. c = digit_char d" for c w m
    proof (induction w arbitrary: m)
      case (Suc w)
      then show ?case by (auto intro: exI [of _ "m mod 10"])
    qed simp
    ultimately show ?thesis
      using that zfill_show_nat [of n 5] by (cases "digits_of_width 5 n") (auto, metis list.set_intros(1))
  qed
  have minus: "str_less (CHR ''-'' # x) (digit_char d # y)" "\<not> str_less (digit_char d # y) (CHR ''-'' # x)"
    "digit_char d \<noteq> CHR ''-''" if "d < 10" for d x y
    using of_char_digit_nat [OF that] by auto
  have less: "str_less (show_padded 5 p) (show_padded 5 q) \<longleftrightarrow> p < q" if "rank_ok p" "rank_ok q" for p q
  proof (cases "p < 0"; cases "q < 0")
    assume "p < 0" "\<not> q < 0"
    then show ?thesis using neg [of p] pos [of q] first [of "nat q"] minus that by auto
  next
    assume "\<not> p < 0" "q < 0"
    then show ?thesis using neg [of q] pos [of p] first [of "nat p"] minus that by auto
  next
    assume "p < 0" "q < 0"
    then show ?thesis using neg [of p] neg [of q] that by simp
  next
    assume "\<not> p < 0" "\<not> q < 0"
    then show ?thesis using pos [of p] pos [of q] that by (auto simp: str_less_zfill)
  qed
  show "str_less (show_padded 5 r) (show_padded 5 r') \<longleftrightarrow> r < r'" by (rule less [OF assms])
  show "show_padded 5 r = show_padded 5 r' \<longleftrightarrow> r = r'"
    using less [OF assms] less [OF assms(2,1)] by (metis linorder_neqE_linordered_idom str_less_irrefl)
qed

section \<open>What an issue text parses to\<close>

lemma base_value_less: "list_all is_digit s \<Longrightarrow> base_value 10 s < 10 ^ length s"
proof (induction s rule: rev_induct)
  case Nil
  then show ?case by (simp add: base_value_def)
next
  case (snoc c s)
  then have "digit_of c \<le> 9" by (auto simp: digit_of_def is_digit_def)
  with snoc show ?case by (simp add: base_value_def)
qed

lemma decimal_value_bounds:
  assumes "digit_run lo MAX_DIGITS (before_dot s)"
    and "case after_dot s of None \<Rightarrow> True | Some f \<Rightarrow> digit_run lo' hi f"
  shows "0 \<le> decimal_value s \<and> decimal_value s < 10 ^ 12"
proof -
  define f where "f = (case after_dot s of None \<Rightarrow> [] | Some f \<Rightarrow> f)"
  have d: "list_all is_digit (before_dot s @ f)" and l: "length (before_dot s) \<le> 12"
    using assms by (auto simp: f_def digit_run_def MAX_DIGITS_def split: option.splits)
  have "base_value 10 (before_dot s @ f) < 10 ^ length (before_dot s) * 10 ^ length f"
    using base_value_less [OF d] by (simp add: power_add)
  also have "\<dots> \<le> 10 ^ 12 * 10 ^ length f"
    using power_increasing [OF l, of "10 :: nat"] by (intro mult_right_mono) simp_all
  finally have "of_nat (base_value 10 (before_dot s @ f)) < (of_nat (10 ^ 12 * 10 ^ length f) :: rat)"
    by (simp only: of_nat_less_iff)
  then show ?thesis by (simp add: decimal_value_def f_def [symmetric] Let_def divide_less_eq)
qed

lemma to_fraction_bounds: "to_fraction t = Some v \<Longrightarrow> \<bar>v\<bar> < 10 ^ 12"
proof -
  assume t: "to_fraction t = Some v"
  define s where "s = chomp t"
  have dot: "before_dot x = x \<and> after_dot x = None" if "digit_run lo hi x" for lo hi x
  proof -
    have "CHR ''.'' \<notin> set x"
      using that by (auto simp: digit_run_def list_all_iff is_digit_def code_def)
    then have "takeWhile (\<lambda>c. c \<noteq> CHR ''.'') x = x" "dropWhile (\<lambda>c. c \<noteq> CHR ''.'') x = []"
      by (auto simp: takeWhile_eq_all_conv dropWhile_eq_Nil_conv)
    then show ?thesis by (simp only: before_dot_def after_dot_def list.case)
  qed
  from t consider "is_plain s" "v = decimal_value s" | "is_decimal s" "v = decimal_value s"
    | "is_negative s" "v = - decimal_value (tl s)"
    by (auto simp: to_fraction_def s_def Let_def split: if_splits)
  then show ?thesis
  proof cases
    case 1
    then show ?thesis
      using decimal_value_bounds [of 1 s] dot [of 1 MAX_DIGITS s] by (simp add: is_plain_def)
  next
    case 2
    then show ?thesis
      using decimal_value_bounds [of 0 s 1 MAX_DIGITS] by (auto simp: is_decimal_def split: option.splits)
  next
    case 3
    then show ?thesis
      using decimal_value_bounds [of 1 "tl s" 1 MAX_DIGITS]
      by (auto simp: is_negative_def split: option.splits list.splits)
  qed
qed

lemma glyph_value_bounds: "map_of FRACTION_GLYPHS c = Some v \<Longrightarrow> in_range (glyph_value base v)"
  using to_fraction_bounds [of base]
  by (auto simp: FRACTION_GLYPHS_def glyph_value_def in_range_def split: if_splits option.splits)

definition issue_value :: "issue_number \<Rightarrow> rat" where
  "issue_value i = (case in_value i of None \<Rightarrow> 0 | Some v \<Rightarrow> v)"

lemma plain_issue_simps [simp]:
  "in_value (plain_issue v d) = v" "in_suffix (plain_issue v d) = None" "in_infinity (plain_issue v d) = False"
  "in_class (plain_issue v d) = Regular" "in_name (plain_issue v d) = None"
  by (simp_all add: plain_issue_def)

lemma parsed_in_range: "in_range (issue_value (parse_issue_number raw opt))"
proof -
  have f: "in_range v" if "to_fraction x = Some v" for x v
    using to_fraction_bounds [OF that] by (simp add: in_range_def)
  have g: "in_range (glyph_value base v)" if "glyph_match x = Some (base, v)" for x base v
    using that by (auto simp: glyph_match_def Let_def intro: glyph_value_bounds split: if_splits option.splits)
  have z: "in_range 0" by (simp add: in_range_def)
  show ?thesis
    using f g z
    by (auto simp: parse_issue_number_def issue_value_def Let_def split: option.splits if_splits)
qed

lemma parsed_shape:
  "in_infinity (parse_issue_number raw opt) = False \<and> in_class (parse_issue_number raw opt) = Regular \<and>
   (case in_suffix (parse_issue_number raw opt) of None \<Rightarrow> True
    | Some s \<Rightarrow> s \<in> issue_suffix_set opt \<union> single_letter_suffix_set opt)"
  by (auto simp: parse_issue_number_def Let_def split: option.splits if_splits)


section \<open>The stored order\<close>

lemma str_upper_idem: "str_upper (str_upper s) = str_upper s"
  by (auto simp: str_upper_def is_lower_def)

lemma list_index_nth: "x \<in> set xs \<Longrightarrow> xs ! list_index xs x = x \<and> list_index xs x < length xs"
  by (induction xs) (auto simp: list_index_def)

lemma suffix_rank_facts:
  assumes "case sfx of None \<Rightarrow> True | Some s \<Rightarrow> s \<in> issue_suffix_set opt \<union> single_letter_suffix_set opt"
    and "suffix_rank opt sfx = (r, s)" and "length (suffix_vocab_order opt) < 10 ^ 5"
  shows "rank_ok r \<and> (if r = - 1 then s = [] else s = suffix_vocab_order opt ! nat r)"
proof (cases sfx)
  case None
  then show ?thesis using assms by (simp add: suffix_rank_def rank_ok_def)
next
  case (Some x)
  then have "x \<in> issue_suffix_set opt \<union> single_letter_suffix_set opt" using assms(1) by simp
  then have "str_upper x = x" and m: "x \<in> set (suffix_vocab_order opt)"
    by (auto simp: issue_suffix_set_def single_letter_suffix_set_def suffix_vocab_order_def str_upper_idem)
  then show ?thesis
    using list_index_nth [OF m] assms(2,3) Some by (auto simp: suffix_rank_def Let_def rank_ok_def)
qed

lemma encode_parts:
  "encode_sort_key (i, v, c, r, s, n) =
     show_padded 1 (int i) @ CHR ''|'' # fraction_to_sortable v @ CHR ''|'' # show_padded 1 (int c) @ CHR ''|'' #
     show_padded 5 r @ CHR ''|'' # s @ CHR ''|'' # n"
  by (simp add: encode_sort_key_def str_join_def)

lemma encode_order:
  assumes "sixth v < 10 ^ 20" "sixth w < 10 ^ 20" and "rank_ok r" "rank_ok q" and "r = q \<Longrightarrow> s = t"
  shows "str_less (encode_sort_key (0, v, 0, r, s, n)) (encode_sort_key (0, w, 0, q, t, m)) \<longleftrightarrow>
    sixth v < sixth w \<or> sixth v = sixth w \<and> (r < q \<or> r = q \<and> str_less n m)"
proof -
  have "str_less (encode_sort_key (0, v, 0, r, s, n)) (encode_sort_key (0, w, 0, q, t, m)) \<longleftrightarrow>
      str_less (fraction_to_sortable v) (fraction_to_sortable w) \<or>
      fraction_to_sortable v = fraction_to_sortable w \<and>
        (str_less (show_padded 5 r) (show_padded 5 q) \<or>
         show_padded 5 r = show_padded 5 q \<and> str_less (s @ CHR ''|'' # n) (t @ CHR ''|'' # m))"
    using show_padded_five(1) [OF assms(3,4)] show_padded_five(1) [OF assms(4,3)] length_sortable assms(1,2)
    by (simp add: encode_parts str_less_append)
  also have "\<dots> \<longleftrightarrow> sixth v < sixth w \<or> sixth v = sixth w \<and> (r < q \<or> r = q \<and> str_less n m)"
    using assms(5) by (auto simp: sortable_less [OF assms(1,2)] show_padded_five [OF assms(3,4)])
  finally show ?thesis .
qed

lemma issue_key_shape:
  assumes "length (suffix_vocab_order opt) < 10 ^ 5"
  obtains r s n where "issue_sort_key (parse_issue_number raw opt) opt = (0, issue_value (parse_issue_number raw opt), 0, r, s, n)"
    and "rank_ok r" and "if r = - 1 then s = [] else s = suffix_vocab_order opt ! nat r"
proof -
  obtain r s where rs: "suffix_rank opt (in_suffix (parse_issue_number raw opt)) = (r, s)"
    by (cases "suffix_rank opt (in_suffix (parse_issue_number raw opt))")
  have "rank_ok r \<and> (if r = - 1 then s = [] else s = suffix_vocab_order opt ! nat r)"
    using suffix_rank_facts [OF _ rs assms] parsed_shape by blast
  then show ?thesis
    using parsed_shape [of raw opt] rs by (intro that [of r s]) (simp_all add: issue_sort_key_def issue_value_def)
qed

text \<open>C34: The stored ordering key sorts as text in reading order: for issue numbers of up to six decimals the
  database's text order of the keys is the order of the exact sort tuples, number before suffix rank
  before name.\<close>

theorem ordering_key_follows_reading_order:
  assumes "length (suffix_vocab_order opt) < 10 ^ 5"
    and "six_places (issue_value (parse_issue_number a opt))" and "six_places (issue_value (parse_issue_number b opt))"
  shows "str_less (ordering_key_for a opt) (ordering_key_for b opt) \<longleftrightarrow>
    key_less (issue_sort_key (parse_issue_number a opt) opt) (issue_sort_key (parse_issue_number b opt) opt)"
proof -
  let ?v = "issue_value (parse_issue_number a opt)" and ?w = "issue_value (parse_issue_number b opt)"
  obtain r s n where a: "issue_sort_key (parse_issue_number a opt) opt = (0, ?v, 0, r, s, n)"
    and r: "rank_ok r" "if r = - 1 then s = [] else s = suffix_vocab_order opt ! nat r"
    by (rule issue_key_shape [OF assms(1)])
  obtain q t m where b: "issue_sort_key (parse_issue_number b opt) opt = (0, ?w, 0, q, t, m)"
    and q: "rank_ok q" "if q = - 1 then t = [] else t = suffix_vocab_order opt ! nat q"
    by (rule issue_key_shape [OF assms(1)])
  have st: "r = q \<Longrightarrow> s = t" using r(2) q(2) by (simp split: if_splits)
  note v = assms(2) parsed_in_range [of a opt] and w = assms(3) parsed_in_range [of b opt]
  have "str_less (ordering_key_for a opt) (ordering_key_for b opt) \<longleftrightarrow>
      sixth ?v < sixth ?w \<or> sixth ?v = sixth ?w \<and> (r < q \<or> r = q \<and> str_less n m)"
    unfolding ordering_key_for_def a b
    by (rule encode_order [OF sixth_exact(2) [OF v] sixth_exact(2) [OF w] r(1) q(1) st])
  also have "\<dots> \<longleftrightarrow> key_less (0, ?v, 0, r, s, n) (0, ?w, 0, q, t, m)"
    using st by (auto simp: sixth_less [OF v w] sixth_eq [OF v w])
  finally show ?thesis unfolding a b .
qed

lemma ordering_key_follows_reading_order_witness:
  "str_less (ordering_key_for (Some ''9.5'') DEFAULT_OPTIONS) (ordering_key_for (Some ''10AU'') DEFAULT_OPTIONS)"
proof -
  have "parse_issue_number (Some ''9.5'') DEFAULT_OPTIONS = plain_issue (Some (95 / 10)) ''9.5''"
    by code_simp
  moreover have "parse_issue_number (Some ''10AU'') DEFAULT_OPTIONS = (plain_issue (Some 10) ''10AU'')\<lparr>in_suffix := Some ''AU''\<rparr>"
    by code_simp
  moreover have "length (suffix_vocab_order DEFAULT_OPTIONS) < 10 ^ 5"
    by (simp add: suffix_vocab_order_def DEFAULT_OPTIONS_def ISSUE_SUFFIXES_def SINGLE_LETTER_SUFFIXES_def)
  ultimately show ?thesis
    using ordering_key_follows_reading_order [of DEFAULT_OPTIONS "Some ''9.5''" "Some ''10AU''"]
    by (simp add: issue_value_def six_places_def issue_sort_key_def suffix_rank_def Let_def)
qed

end
