(* ===== verification/Decision.thy ===== *)
theory Decision
  imports Issue_Order
begin

text \<open>
  The decision engine (\<open>search/decision.py\<close>, \<open>search/context.py\<close>, \<open>search/mapping.py\<close>,
  \<open>search/specs/\<close>, \<open>search/engine.py\<close>, and the value types of \<open>releases.py\<close> and
  \<open>parser/result.py\<close>).

  The engine is a pure function of a candidate and a context. The context's download queue,
  blocklist and free-space store are the protocol seams of the source and are functions here;
  the filename parser is an argument of the engine. Ages are exact (rationals of seconds), where
  the source rounds the quotient to a double.
\<close>

section \<open>Releases and parse results\<close>

record candidate =
  guid :: string
  title :: string
  link :: string
  indexer_id :: int
  indexer_name :: string
  indexer_priority :: int
  query_tier :: int
  size_bytes :: "int option"
  pub_date :: "datetime option"
  categories :: "int list"

datatype failure_reason = Empty_input | No_series_title | Internal_error

fun failure_code :: "failure_reason \<Rightarrow> string" where
  "failure_code Empty_input = ''empty-input''"
| "failure_code No_series_title = ''no-series-title''"
| "failure_code Internal_error = ''internal-error''"

record parse_result =
  series_name :: "string option"
  p_key :: "string option"
  p_issue :: "issue_number option"
  volume_ordinal :: "int option"
  volume_year :: "int option"
  p_year :: "int option"
  fix_revision :: "int option"
  p_issue_tag :: "string option"
  p_type :: "string option"
  failure :: "failure_reason option"

definition success :: "parse_result \<Rightarrow> bool" where
  "success p \<longleftrightarrow> failure p = None"

text \<open>Python's truth of an optional string or integer, and \<open>x or y\<close> on them.\<close>

definition str_or :: "string option \<Rightarrow> string \<Rightarrow> string" where
  "str_or x y = (case x of None \<Rightarrow> y | Some s \<Rightarrow> if s = [] then y else s)"

definition int_or :: "int option \<Rightarrow> int option \<Rightarrow> int option" where
  "int_or x y = (case x of None \<Rightarrow> y | Some n \<Rightarrow> if n = 0 then y else Some n)"

definition candidate_format :: "parse_result \<Rightarrow> string \<Rightarrow> string option" where
  "candidate_format p ttl =
     (let ext = (case p_type p of None \<Rightarrow> None | Some s \<Rightarrow> if s = [] then None else Some (str_lower s))
      in case ext of
           Some e \<Rightarrow> if e \<in> set KNOWN_FORMATS then Some e else find_format False ttl
         | None \<Rightarrow> find_format False ttl)"

section \<open>Library snapshot and context\<close>

record existing_file =
  f_format :: string
  f_size :: int

record issue_context =
  issue_id :: int
  issue_number :: "rat option"
  issue_suffix :: "string option"
  issue_monitored :: bool
  issue_files :: "existing_file list"

record format_profile =
  formats :: "string list"
  cutoff :: string

fun index_of :: "'a \<Rightarrow> 'a list \<Rightarrow> nat option" where
  "index_of x [] = None"
| "index_of x (y # ys) = (if x = y then Some 0 else map_option Suc (index_of x ys))"

definition rung :: "format_profile \<Rightarrow> string option \<Rightarrow> int" where
  "rung prof fmt =
     (case fmt of None \<Rightarrow> -1
      | Some f \<Rightarrow> (case index_of (str_lower f) (formats prof) of None \<Rightarrow> -1 | Some i \<Rightarrow> int i))"

definition allows :: "format_profile \<Rightarrow> string option \<Rightarrow> bool" where
  "allows prof fmt = (case fmt of None \<Rightarrow> True | Some f \<Rightarrow> str_lower f \<in> set (formats prof))"

record series_context =
  series_id :: int
  s_key :: string
  profile :: format_profile
  aliases :: "string list"
  start_year :: "int option"
  s_volume_year :: "int option"
  s_monitored :: bool
  issues :: "issue_context list"

definition matches_key :: "series_context \<Rightarrow> string \<Rightarrow> bool" where
  "matches_key s key \<longleftrightarrow> key = s_key s \<or> key \<in> set (aliases s)"

definition find_by_key :: "series_context list \<Rightarrow> string \<Rightarrow> series_context list" where
  "find_by_key lib key = filter (\<lambda>s. matches_key s key) lib"

record search_target =
  target_series :: int
  target_issue :: int

record engine_config =
  retention_days :: "int option"
  retention_by_indexer :: "(int \<times> int option) list"
  min_age_minutes :: int
  must_contain :: "string list"
  must_not_contain :: "string list"
  upgrades_allowed :: bool

definition retention_for :: "engine_config \<Rightarrow> int \<Rightarrow> int option" where
  "retention_for cfg i =
     (case map_of (retention_by_indexer cfg) i of Some r \<Rightarrow> r | None \<Rightarrow> retention_days cfg)"

record eval_context =
  library :: "series_context list"
  target :: "search_target option"
  config :: engine_config
  ctx_now :: datetime
  is_queued :: "int \<Rightarrow> int \<Rightarrow> bool"
  is_blocklisted :: "candidate \<Rightarrow> bool"
  free_bytes :: "int \<Rightarrow> int option"

section \<open>Mapping\<close>

record mapping =
  m_series :: "series_context option"
  m_issue :: "issue_context option"
  m_ambiguous :: bool

definition NO_MAPPING :: mapping where
  "NO_MAPPING = \<lparr>m_series = None, m_issue = None, m_ambiguous = False\<rparr>"

definition series_lookup_key :: "(string \<Rightarrow> string) \<Rightarrow> parse_result \<Rightarrow> string option" where
  "series_lookup_key decompose p =
     (if str_or (p_key p) [] \<noteq> [] then p_key p
      else if str_or (series_name p) [] \<noteq> [] then map_option (matching_key decompose) (series_name p)
      else None)"

definition of_year :: "int \<Rightarrow> series_context \<Rightarrow> bool" where
  "of_year y s \<longleftrightarrow> start_year s = Some y \<or> s_volume_year s = Some y"

definition disambiguate :: "series_context list \<Rightarrow> parse_result \<Rightarrow> series_context option \<times> bool" where
  "disambiguate found p =
     (case found of
        [s] \<Rightarrow> (Some s, False)
      | _ \<Rightarrow>
          (case int_or (volume_year p) (p_year p) of
             None \<Rightarrow> (None, True)
           | Some y \<Rightarrow> (case filter (of_year y) found of [s] \<Rightarrow> (Some s, False) | _ \<Rightarrow> (None, True))))"

definition folded_suffix :: "string option \<Rightarrow> string option" where
  "folded_suffix sfx = (let f = casefold (str_or sfx []) in if f = [] then None else Some f)"

definition match_issue :: "series_context \<Rightarrow> parse_result \<Rightarrow> issue_context option" where
  "match_issue s p =
     (case p_issue p of None \<Rightarrow> None
      | Some iss \<Rightarrow>
          (case in_value iss of None \<Rightarrow> None
           | Some v \<Rightarrow>
               find (\<lambda>i. issue_number i = Some v \<and>
                         folded_suffix (issue_suffix i) = folded_suffix (in_suffix iss)) (issues s)))"

definition map_release :: "(string \<Rightarrow> string) \<Rightarrow> parse_result \<Rightarrow> eval_context \<Rightarrow> mapping" where
  "map_release decompose p ctx =
     (if \<not> success p then NO_MAPPING
      else
        case series_lookup_key decompose p of
          None \<Rightarrow> NO_MAPPING
        | Some key \<Rightarrow>
            (let found = find_by_key (library ctx) key
             in if found = [] then NO_MAPPING
                else
                  case disambiguate found p of
                    (None, amb) \<Rightarrow> \<lparr>m_series = None, m_issue = None, m_ambiguous = amb\<rparr>
                  | (Some s, amb) \<Rightarrow>
                      \<lparr>m_series = Some s, m_issue = match_issue s p, m_ambiguous = False\<rparr>))"

section \<open>Rejections\<close>

datatype rejection_type = Permanent | Temporary

datatype decision_outcome = Approved | Temporarily_rejected | Rejected

record rejection =
  reason :: string
  r_type :: rejection_type
  spec :: string

record evaluation =
  ev_candidate :: candidate
  ev_parsed :: parse_result
  ev_mapping :: mapping
  ev_fmt :: "string option"

type_synonym spec_fn = "evaluation \<Rightarrow> eval_context \<Rightarrow> rejection option"

definition reject :: "string \<Rightarrow> rejection_type \<Rightarrow> string \<Rightarrow> rejection option" where
  "reject name ty text = Some \<lparr>reason = text, r_type = ty, spec = name\<rparr>"

definition APOSTROPHE :: string where "APOSTROPHE = [CHR 0x27]"

definition quoted :: "string \<Rightarrow> string" where
  "quoted s = APOSTROPHE @ s @ APOSTROPHE"

text \<open>An optional string inside an f-string.\<close>

definition shown_opt :: "string option \<Rightarrow> string" where
  "shown_opt x = (case x of None \<Rightarrow> ''None'' | Some s \<Rightarrow> s)"

section \<open>Specifications\<close>

definition parse_spec :: spec_fn where
  "parse_spec ev ctx =
     (case failure (ev_parsed ev) of
        None \<Rightarrow> None
      | Some f \<Rightarrow> reject ''parse'' Permanent (''Unable to parse release title ('' @ failure_code f @ '')''))"

definition series_match_spec :: spec_fn where
  "series_match_spec ev ctx =
     (if \<not> success (ev_parsed ev) \<or> m_series (ev_mapping ev) \<noteq> None then None
      else reject ''series-match'' Permanent
        (''Unknown series: no tracked series matches '' @
         quoted (str_or (series_name (ev_parsed ev)) (title (ev_candidate ev)))))"

definition shown_issue :: "parse_result \<Rightarrow> string" where
  "shown_issue p = (case p_issue p of None \<Rightarrow> ''?'' | Some i \<Rightarrow> in_display i)"

definition issue_match_spec :: spec_fn where
  "issue_match_spec ev ctx =
     (if \<not> success (ev_parsed ev) \<or> m_series (ev_mapping ev) = None \<or> m_issue (ev_mapping ev) \<noteq> None
      then None
      else reject ''issue-match'' Permanent
        (''Unknown issue: '' @ quoted (shown_issue (ev_parsed ev)) @ '' is not a tracked issue of this series''))"

definition search_match_spec :: spec_fn where
  "search_match_spec ev ctx =
     (case (target ctx, m_series (ev_mapping ev)) of
        (Some t, Some s) \<Rightarrow>
          if series_id s \<noteq> target_series t
          then reject ''search-match'' Permanent
            (''Wrong series: release maps to '' @ quoted (str_or (series_name (ev_parsed ev)) (s_key s)) @
             '', not the series that was searched'')
          else
            (case m_issue (ev_mapping ev) of
               None \<Rightarrow> None
             | Some i \<Rightarrow>
                 if issue_id i \<noteq> target_issue t
                 then reject ''search-match'' Permanent
                   (''Wrong issue: release is issue '' @ quoted (shown_issue (ev_parsed ev)) @
                    '', not the issue that was searched'')
                 else None)
      | _ \<Rightarrow> None)"

definition MIN_PLAUSIBLE_YEAR :: int where "MIN_PLAUSIBLE_YEAR = 1900"

definition year_sanity_spec :: spec_fn where
  "year_sanity_spec ev ctx =
     (case p_year (ev_parsed ev) of
        None \<Rightarrow> None
      | Some y \<Rightarrow>
          if MIN_PLAUSIBLE_YEAR \<le> y \<and> y \<le> year_of (ctx_now ctx) + 2 then None
          else reject ''year-sanity'' Permanent
            (''Implausible year '' @ show_int y @ '' in release title''))"

definition format_allowed_spec :: spec_fn where
  "format_allowed_spec ev ctx =
     (case m_series (ev_mapping ev) of
        None \<Rightarrow> None
      | Some s \<Rightarrow>
          if allows (profile s) (ev_fmt ev) then None
          else reject ''format-allowed'' Permanent
            (''Format not allowed: '' @ quoted (shown_opt (ev_fmt ev)) @ '' is not in the series'' @
             APOSTROPHE @ '' format profile''))"

text \<open>\<open>max(xs, key=k)\<close>: the first element whose key is the greatest.\<close>

fun max_by :: "('a \<Rightarrow> int) \<Rightarrow> 'a \<Rightarrow> 'a list \<Rightarrow> 'a" where
  "max_by k x [] = x"
| "max_by k x (y # ys) = (if k x < k y then max_by k y ys else max_by k x ys)"

definition upgrade_allowed_spec :: spec_fn where
  "upgrade_allowed_spec ev ctx =
     (case (m_series (ev_mapping ev), m_issue (ev_mapping ev)) of
        (Some s, Some i) \<Rightarrow>
          (case (issue_files i, ev_fmt ev) of
             (f # fs, Some fmt) \<Rightarrow>
               if \<not> upgrades_allowed (config ctx)
               then reject ''upgrade-allowed'' Permanent
                 ''Upgrades are disabled: a file already exists for this issue''
               else
                 (let best = max_by (\<lambda>x. rung (profile s) (Some (f_format x))) f fs
                  in if rung (profile s) (Some (f_format best)) < rung (profile s) (Some fmt) then None
                     else reject ''upgrade-allowed'' Permanent
                       (''Not an upgrade: existing '' @ quoted (f_format best) @
                        '' file is at least as good as this '' @ quoted fmt @ '' release''))
           | _ \<Rightarrow> None)
      | _ \<Rightarrow> None)"

definition age_in :: "int \<Rightarrow> datetime \<Rightarrow> datetime \<Rightarrow> rat" where
  "age_in unit now pub = of_int (now - pub) / of_int (unit * us_per_second)"

definition py_trunc :: "rat \<Rightarrow> int" where
  "py_trunc x = (if 0 \<le> x then \<lfloor>x\<rfloor> else \<lceil>x\<rceil>)"

definition retention_spec :: spec_fn where
  "retention_spec ev ctx =
     (case (retention_for (config ctx) (indexer_id (ev_candidate ev)), pub_date (ev_candidate ev)) of
        (Some retention, Some pub) \<Rightarrow>
          (let age_days = age_in 86400 (ctx_now ctx) pub
           in if age_days \<le> of_int retention then None
              else reject ''retention'' Permanent
                (''Exceeds retention: '' @ show_int (py_trunc age_days) @ '' days old, limit is '' @
                 show_int retention @ '' days''))
      | _ \<Rightarrow> None)"

definition min_age_spec :: spec_fn where
  "min_age_spec ev ctx =
     (let min_minutes = min_age_minutes (config ctx)
      in case pub_date (ev_candidate ev) of
           None \<Rightarrow> None
         | Some pub \<Rightarrow>
             if min_minutes \<le> 0 then None
             else
               (let age_minutes = age_in 60 (ctx_now ctx) pub
                in if of_int min_minutes \<le> age_minutes then None
                   else reject ''min-age'' Temporary
                     (''Too new: '' @ show_int (py_trunc age_minutes) @
                      '' min old, minimum release age is '' @ show_int min_minutes @ '' min'')))"

definition must_contain_spec :: spec_fn where
  "must_contain_spec ev ctx =
     (case find (\<lambda>t. t \<noteq> [] \<and> \<not> contains (casefold t) (casefold (title (ev_candidate ev))))
             (must_contain (config ctx)) of
        None \<Rightarrow> None
      | Some t \<Rightarrow> reject ''must-contain'' Permanent (''Missing required term '' @ quoted t))"

definition must_not_contain_spec :: spec_fn where
  "must_not_contain_spec ev ctx =
     (case find (\<lambda>t. t \<noteq> [] \<and> contains (casefold t) (casefold (title (ev_candidate ev))))
             (must_not_contain (config ctx)) of
        None \<Rightarrow> None
      | Some t \<Rightarrow> reject ''must-not-contain'' Permanent (''Contains ignored term '' @ quoted t))"

definition already_queued_spec :: spec_fn where
  "already_queued_spec ev ctx =
     (case (m_series (ev_mapping ev), m_issue (ev_mapping ev)) of
        (Some s, Some i) \<Rightarrow>
          if is_queued ctx (series_id s) (issue_id i)
          then reject ''already-queued'' Permanent ''Already in the download queue for this issue''
          else None
      | _ \<Rightarrow> None)"

definition blocklist_spec :: spec_fn where
  "blocklist_spec ev ctx =
     (if is_blocklisted ctx (ev_candidate ev)
      then reject ''blocklist'' Permanent ''Release is blocklisted'' else None)"

definition free_space_spec :: spec_fn where
  "free_space_spec ev ctx =
     (case (m_series (ev_mapping ev), size_bytes (ev_candidate ev)) of
        (Some s, Some need) \<Rightarrow>
          (case free_bytes ctx (series_id s) of
             None \<Rightarrow> None
           | Some free \<Rightarrow>
               if need \<le> free then None
               else reject ''free-space'' Temporary
                 (''Insufficient free space: need '' @ show_int need @ '' bytes, '' @ show_int free @
                  '' available''))
      | _ \<Rightarrow> None)"

definition default_specs :: "spec_fn list" where
  "default_specs =
     [parse_spec, series_match_spec, issue_match_spec, search_match_spec, year_sanity_spec,
      format_allowed_spec, upgrade_allowed_spec, retention_spec, min_age_spec, must_contain_spec,
      must_not_contain_spec, already_queued_spec, blocklist_spec, free_space_spec]"

section \<open>Engine\<close>

record decision =
  d_candidate :: candidate
  d_outcome :: decision_outcome
  d_rejections :: "rejection list"
  d_parsed :: parse_result
  d_series :: "int option"
  d_issue :: "int option"
  d_fmt :: "string option"

definition classify :: "rejection list \<Rightarrow> decision_outcome" where
  "classify rs =
     (if rs = [] then Approved
      else if list_ex (\<lambda>r. r_type r = Permanent) rs then Rejected
      else Temporarily_rejected)"

definition evaluate ::
  "spec_fn list \<Rightarrow> (string \<Rightarrow> int \<Rightarrow> parse_result) \<Rightarrow> (string \<Rightarrow> string) \<Rightarrow> candidate \<Rightarrow>
   eval_context \<Rightarrow> decision" where
  "evaluate specs parse decompose cand ctx =
     (let parsed = parse (title cand) (year_of (ctx_now ctx));
          m = map_release decompose parsed ctx;
          fmt = candidate_format parsed (title cand);
          ev = \<lparr>ev_candidate = cand, ev_parsed = parsed, ev_mapping = m, ev_fmt = fmt\<rparr>;
          rs = List.map_filter (\<lambda>sp. sp ev ctx) specs
      in \<lparr>d_candidate = cand, d_outcome = classify rs, d_rejections = rs, d_parsed = parsed,
          d_series = map_option series_id (m_series m), d_issue = map_option issue_id (m_issue m),
          d_fmt = fmt\<rparr>)"

definition evaluate_all ::
  "spec_fn list \<Rightarrow> (string \<Rightarrow> int \<Rightarrow> parse_result) \<Rightarrow> (string \<Rightarrow> string) \<Rightarrow> candidate list \<Rightarrow>
   eval_context \<Rightarrow> decision list" where
  "evaluate_all specs parse decompose cands ctx =
     map (\<lambda>c. evaluate specs parse decompose c ctx) cands"

section \<open>The acceptance policy\<close>

text \<open>What the specifications promise together, stated on the resolved series and issue.\<close>

definition upgrade_ok :: "bool \<Rightarrow> format_profile \<Rightarrow> existing_file list \<Rightarrow> string option \<Rightarrow> bool" where
  "upgrade_ok allowed prof files fmt \<longleftrightarrow>
     (case fmt of None \<Rightarrow> True
      | Some _ \<Rightarrow> files = [] \<or> allowed \<and>
          list_all (\<lambda>f. rung prof (Some (f_format f)) < rung prof fmt) files)"

definition permanent_ok ::
  "parse_result \<Rightarrow> series_context \<Rightarrow> issue_context \<Rightarrow> string option \<Rightarrow> candidate \<Rightarrow> eval_context \<Rightarrow> bool" where
  "permanent_ok p s i fmt c ctx \<longleftrightarrow>
     (case target ctx of None \<Rightarrow> True
      | Some t \<Rightarrow> series_id s = target_series t \<and> issue_id i = target_issue t) \<and>
     (case p_year p of None \<Rightarrow> True | Some y \<Rightarrow> 1900 \<le> y \<and> y \<le> year_of (ctx_now ctx) + 2) \<and>
     allows (profile s) fmt \<and>
     upgrade_ok (upgrades_allowed (config ctx)) (profile s) (issue_files i) fmt \<and>
     (case (retention_for (config ctx) (indexer_id c), pub_date c) of
        (Some r, Some pub) \<Rightarrow> ctx_now ctx \<le> pub + r * us_per_day | _ \<Rightarrow> True) \<and>
     list_all (\<lambda>t. t = [] \<or> contains (casefold t) (casefold (title c))) (must_contain (config ctx)) \<and>
     list_all (\<lambda>t. t = [] \<or> \<not> contains (casefold t) (casefold (title c))) (must_not_contain (config ctx)) \<and>
     \<not> is_queued ctx (series_id s) (issue_id i) \<and> \<not> is_blocklisted ctx c"

definition temporary_ok :: "series_context \<Rightarrow> candidate \<Rightarrow> eval_context \<Rightarrow> bool" where
  "temporary_ok s c ctx \<longleftrightarrow>
     (case pub_date c of None \<Rightarrow> True
      | Some pub \<Rightarrow> min_age_minutes (config ctx) \<le> 0 \<or>
          pub + seconds (60 * min_age_minutes (config ctx)) \<le> ctx_now ctx) \<and>
     (case (size_bytes c, free_bytes ctx (series_id s)) of
        (Some need, Some free) \<Rightarrow> need \<le> free | _ \<Rightarrow> True)"

definition policy ::
  "parse_result \<Rightarrow> mapping \<Rightarrow> string option \<Rightarrow> candidate \<Rightarrow> eval_context \<Rightarrow> decision_outcome" where
  "policy p m fmt c ctx =
     (case (success p, m_series m, m_issue m) of
        (True, Some s, Some i) \<Rightarrow>
          if \<not> permanent_ok p s i fmt c ctx then Rejected
          else if temporary_ok s c ctx then Approved else Temporarily_rejected
      | _ \<Rightarrow> Rejected)"

section \<open>Each specification against the policy\<close>

named_theorems spec_verdict "when a specification accepts, and the type of its rejections"

lemma reject_not_None [simp]: "reject n t x \<noteq> None" "Some r = reject n t x \<longleftrightarrow> reject n t x = Some r"
  by (auto simp: reject_def)

lemma max_by_greatest: "y \<in> set (x # xs) \<Longrightarrow> k y \<le> k (max_by k x xs)"
  by (induction k x xs arbitrary: y rule: max_by.induct) force+

lemma max_by_mem: "max_by k x xs \<in> set (x # xs)"
  by (induction k x xs rule: max_by.induct) auto

lemma max_by_less: "k (max_by k x xs) < b \<longleftrightarrow> list_all (\<lambda>y. k y < b) (x # xs)"
  using max_by_greatest [of _ x xs k] max_by_mem [of k x xs]
  by (force simp: list_all_iff)

lemma age_days_le: "age_in 86400 now pub \<le> of_int r \<longleftrightarrow> now \<le> pub + r * us_per_day"
proof -
  have "age_in 86400 now pub \<le> of_int r \<longleftrightarrow> (of_int (now - pub) :: rat) \<le> of_int (r * us_per_day)"
    by (simp add: age_in_def us_per_day_def us_per_second_def pos_divide_le_eq)
  then show ?thesis by (simp only: of_int_le_iff) linarith
qed

lemma age_minutes_ge: "of_int m \<le> age_in 60 now pub \<longleftrightarrow> pub + seconds (60 * m) \<le> now"
proof -
  have "of_int m \<le> age_in 60 now pub \<longleftrightarrow> (of_int (seconds (60 * m)) :: rat) \<le> of_int (now - pub)"
    by (simp add: age_in_def seconds_def us_per_second_def pos_le_divide_eq algebra_simps)
  then show ?thesis by (simp only: of_int_le_iff) linarith
qed

lemma find_None_list_all: "find P xs = None \<longleftrightarrow> list_all (\<lambda>x. \<not> P x) xs"
  by (auto simp: find_None_iff list_all_iff)

lemma r_type_reject: "reject n ty x = Some r \<Longrightarrow> r_type r = ty"
  by (auto simp: reject_def)

definition only_type :: "rejection_type \<Rightarrow> spec_fn \<Rightarrow> bool" where
  "only_type ty sp \<longleftrightarrow> (\<forall>ev ctx r. sp ev ctx = Some r \<longrightarrow> r_type r = ty)"

lemma permanent_specs:
  "only_type Permanent parse_spec" "only_type Permanent series_match_spec"
  "only_type Permanent issue_match_spec" "only_type Permanent search_match_spec"
  "only_type Permanent year_sanity_spec" "only_type Permanent format_allowed_spec"
  "only_type Permanent upgrade_allowed_spec" "only_type Permanent retention_spec"
  "only_type Permanent must_contain_spec" "only_type Permanent must_not_contain_spec"
  "only_type Permanent already_queued_spec" "only_type Permanent blocklist_spec"
  by (auto simp: only_type_def parse_spec_def series_match_spec_def issue_match_spec_def
      search_match_spec_def year_sanity_spec_def format_allowed_spec_def upgrade_allowed_spec_def
      retention_spec_def must_contain_spec_def must_not_contain_spec_def already_queued_spec_def
      blocklist_spec_def Let_def split: option.splits if_splits list.splits dest!: r_type_reject)

lemma temporary_specs: "only_type Temporary min_age_spec" "only_type Temporary free_space_spec"
  by (auto simp: only_type_def min_age_spec_def free_space_spec_def Let_def
      split: option.splits if_splits dest!: r_type_reject)

lemma ex_permanent:
  "only_type Permanent sp \<Longrightarrow> (\<exists>r. sp ev ctx = Some r \<and> r_type r = Permanent) \<longleftrightarrow> sp ev ctx \<noteq> None"
  "only_type Temporary sp \<Longrightarrow> (\<exists>r. sp ev ctx = Some r \<and> r_type r = Permanent) \<longleftrightarrow> False"
  by (auto simp: only_type_def)

lemma map_filter_empty: "List.map_filter f xs = [] \<longleftrightarrow> list_all (\<lambda>x. f x = None) xs"
  by (induction xs) (auto simp: map_filter_simps split: option.splits)

lemma map_filter_ex: "list_ex P (List.map_filter f xs) \<longleftrightarrow> list_ex (\<lambda>x. \<exists>r. f x = Some r \<and> P r) xs"
  by (induction xs) (auto simp: map_filter_simps split: option.splits)

lemma classify_default:
  "classify (List.map_filter (\<lambda>sp. sp ev ctx) default_specs) =
   (if parse_spec ev ctx \<noteq> None \<or> series_match_spec ev ctx \<noteq> None \<or> issue_match_spec ev ctx \<noteq> None \<or>
       search_match_spec ev ctx \<noteq> None \<or> year_sanity_spec ev ctx \<noteq> None \<or>
       format_allowed_spec ev ctx \<noteq> None \<or> upgrade_allowed_spec ev ctx \<noteq> None \<or>
       retention_spec ev ctx \<noteq> None \<or> must_contain_spec ev ctx \<noteq> None \<or>
       must_not_contain_spec ev ctx \<noteq> None \<or> already_queued_spec ev ctx \<noteq> None \<or>
       blocklist_spec ev ctx \<noteq> None then Rejected
    else if min_age_spec ev ctx = None \<and> free_space_spec ev ctx = None then Approved
    else Temporarily_rejected)"
  unfolding classify_def map_filter_empty map_filter_ex
  by (simp add: default_specs_def ex_permanent permanent_specs temporary_specs del: not_None_eq)

lemma case_reject: "(case x of None \<Rightarrow> None | Some t \<Rightarrow> reject n ty (f t)) = None \<longleftrightarrow> x = None"
  by (simp split: option.split)

lemma resolved_verdicts [spec_verdict]:
  assumes "ev_mapping ev = m" and "m_series m = Some s" and "m_issue m = Some i"
  shows "search_match_spec ev ctx = None \<longleftrightarrow>
      (case target ctx of None \<Rightarrow> True
       | Some t \<Rightarrow> series_id s = target_series t \<and> issue_id i = target_issue t)"
    and "format_allowed_spec ev ctx = None \<longleftrightarrow> allows (profile s) (ev_fmt ev)"
    and "upgrade_allowed_spec ev ctx = None \<longleftrightarrow>
      upgrade_ok (upgrades_allowed (config ctx)) (profile s) (issue_files i) (ev_fmt ev)"
    and "already_queued_spec ev ctx = None \<longleftrightarrow> \<not> is_queued ctx (series_id s) (issue_id i)"
    and "free_space_spec ev ctx = None \<longleftrightarrow>
      (case (size_bytes (ev_candidate ev), free_bytes ctx (series_id s)) of
        (Some need, Some free) \<Rightarrow> need \<le> free | _ \<Rightarrow> True)"
proof -
  show "search_match_spec ev ctx = None \<longleftrightarrow>
      (case target ctx of None \<Rightarrow> True
       | Some t \<Rightarrow> series_id s = target_series t \<and> issue_id i = target_issue t)"
    using assms by (simp add: search_match_spec_def split: option.split)
  show "format_allowed_spec ev ctx = None \<longleftrightarrow> allows (profile s) (ev_fmt ev)"
    using assms by (simp add: format_allowed_spec_def)
  show "already_queued_spec ev ctx = None \<longleftrightarrow> \<not> is_queued ctx (series_id s) (issue_id i)"
    using assms by (simp add: already_queued_spec_def)
  show "free_space_spec ev ctx = None \<longleftrightarrow>
      (case (size_bytes (ev_candidate ev), free_bytes ctx (series_id s)) of
        (Some need, Some free) \<Rightarrow> need \<le> free | _ \<Rightarrow> True)"
    using assms by (simp add: free_space_spec_def split: option.split)
  show "upgrade_allowed_spec ev ctx = None \<longleftrightarrow>
      upgrade_ok (upgrades_allowed (config ctx)) (profile s) (issue_files i) (ev_fmt ev)"
  proof (cases "ev_fmt ev")
    case (Some fmt)
    show ?thesis
    proof (cases "issue_files i")
      case (Cons f fs)
      show ?thesis
        using max_by_less [of "\<lambda>x. rung (profile s) (Some (f_format x))" f fs "rung (profile s) (Some fmt)"]
        by (simp add: upgrade_allowed_spec_def upgrade_ok_def Some Cons assms Let_def)
    qed (simp add: upgrade_allowed_spec_def upgrade_ok_def Some assms)
  qed (simp add: upgrade_allowed_spec_def upgrade_ok_def assms split: list.split)
qed

lemma plain_verdicts [spec_verdict]:
  "year_sanity_spec ev ctx = None \<longleftrightarrow>
    (case p_year (ev_parsed ev) of None \<Rightarrow> True | Some y \<Rightarrow> 1900 \<le> y \<and> y \<le> year_of (ctx_now ctx) + 2)"
  "retention_spec ev ctx = None \<longleftrightarrow>
    (case (retention_for (config ctx) (indexer_id (ev_candidate ev)), pub_date (ev_candidate ev)) of
        (Some r, Some pub) \<Rightarrow> ctx_now ctx \<le> pub + r * us_per_day | _ \<Rightarrow> True)"
  "min_age_spec ev ctx = None \<longleftrightarrow>
    (case pub_date (ev_candidate ev) of None \<Rightarrow> True
      | Some pub \<Rightarrow> min_age_minutes (config ctx) \<le> 0 \<or>
          pub + seconds (60 * min_age_minutes (config ctx)) \<le> ctx_now ctx)"
  "must_contain_spec ev ctx = None \<longleftrightarrow>
    list_all (\<lambda>t. t = [] \<or> contains (casefold t) (casefold (title (ev_candidate ev)))) (must_contain (config ctx))"
  "must_not_contain_spec ev ctx = None \<longleftrightarrow>
    list_all (\<lambda>t. t = [] \<or> \<not> contains (casefold t) (casefold (title (ev_candidate ev)))) (must_not_contain (config ctx))"
  "blocklist_spec ev ctx = None \<longleftrightarrow> \<not> is_blocklisted ctx (ev_candidate ev)"
  by (simp_all add: year_sanity_spec_def MIN_PLAUSIBLE_YEAR_def retention_spec_def min_age_spec_def
      must_contain_spec_def must_not_contain_spec_def blocklist_spec_def age_days_le age_minutes_ge
      case_reject find_None_list_all Let_def split: option.split)

lemma unresolved_rejected:
  assumes "\<not> (success (ev_parsed ev) \<and> m_series (ev_mapping ev) \<noteq> None \<and> m_issue (ev_mapping ev) \<noteq> None)"
  shows "parse_spec ev ctx \<noteq> None \<or> series_match_spec ev ctx \<noteq> None \<or> issue_match_spec ev ctx \<noteq> None"
  using assms
  by (auto simp: parse_spec_def series_match_spec_def issue_match_spec_def success_def reject_def
      split: option.split)

lemma resolved_accepted:
  assumes "success (ev_parsed ev)" and "m_series (ev_mapping ev) = Some s" and "m_issue (ev_mapping ev) = Some i"
  shows "parse_spec ev ctx = None" "series_match_spec ev ctx = None" "issue_match_spec ev ctx = None"
  using assms by (simp_all add: parse_spec_def series_match_spec_def issue_match_spec_def success_def)

lemma evaluate_outcome:
  "d_outcome (evaluate default_specs parse decompose c ctx) =
   (let p = parse (title c) (year_of (ctx_now ctx))
    in policy p (map_release decompose p ctx) (candidate_format p (title c)) c ctx)"
proof -
  define p where "p = parse (title c) (year_of (ctx_now ctx))"
  define ev where "ev = \<lparr>ev_candidate = c, ev_parsed = p, ev_mapping = map_release decompose p ctx,
    ev_fmt = candidate_format p (title c)\<rparr>"
  have out: "d_outcome (evaluate default_specs parse decompose c ctx) =
      classify (List.map_filter (\<lambda>sp. sp ev ctx) default_specs)"
    by (simp add: evaluate_def Let_def ev_def p_def)
  show ?thesis
  proof (cases "success p \<and> m_series (ev_mapping ev) \<noteq> None \<and> m_issue (ev_mapping ev) \<noteq> None")
    case False
    then have "\<not> (success (ev_parsed ev) \<and> m_series (ev_mapping ev) \<noteq> None \<and>
        m_issue (ev_mapping ev) \<noteq> None)" by (simp add: ev_def)
    from unresolved_rejected [OF this, of ctx]
    have "classify (List.map_filter (\<lambda>sp. sp ev ctx) default_specs) = Rejected"
      unfolding classify_default by (intro if_P) blast
    moreover have "policy p (map_release decompose p ctx) (candidate_format p (title c)) c ctx = Rejected"
      using False by (auto simp: policy_def ev_def split: option.split bool.split)
    ultimately show ?thesis by (simp add: out p_def)
  next
    case True
    then obtain s i where m: "m_series (ev_mapping ev) = Some s" "m_issue (ev_mapping ev) = Some i"
      by blast
    have "classify (List.map_filter (\<lambda>sp. sp ev ctx) default_specs) =
        (if \<not> permanent_ok p s i (ev_fmt ev) c ctx then Rejected
         else if temporary_ok s c ctx then Approved else Temporarily_rejected)"
      unfolding classify_default resolved_verdicts [OF refl m] plain_verdicts
        permanent_ok_def temporary_ok_def
      using True resolved_accepted [OF _ m, of ctx] by (simp add: ev_def)
    then show ?thesis
      using True m unfolding out p_def [symmetric] Let_def by (simp add: policy_def ev_def)
  qed
qed

section \<open>A small library, for the witnesses\<close>

definition demo_issue :: issue_context where
  "demo_issue = \<lparr>issue_id = 11, issue_number = Some 5, issue_suffix = None, issue_monitored = True,
     issue_files = [\<lparr>f_format = ''cbr'', f_size = 10\<rparr>]\<rparr>"

definition demo_series :: series_context where
  "demo_series = \<lparr>series_id = 1, s_key = ''cinder'',
     profile = \<lparr>formats = [''pdf'', ''cbr'', ''cbz''], cutoff = ''cbz''\<rparr>, aliases = [],
     start_year = Some 2012, s_volume_year = None, s_monitored = True, issues = [demo_issue]\<rparr>"

definition demo_config :: engine_config where
  "demo_config = \<lparr>retention_days = Some 1000, retention_by_indexer = [], min_age_minutes = 30,
     must_contain = [], must_not_contain = [''sample''], upgrades_allowed = True\<rparr>"

definition demo_ctx :: "datetime \<Rightarrow> eval_context" where
  "demo_ctx now = \<lparr>library = [demo_series, demo_series\<lparr>series_id := 2, start_year := Some 1999\<rparr>],
     target = Some \<lparr>target_series = 1, target_issue = 11\<rparr>,
     config = demo_config, ctx_now = now, is_queued = \<lambda>_ _. False, is_blocklisted = \<lambda>_. False,
     free_bytes = \<lambda>_. Some 1000\<rparr>"

definition demo_parsed :: parse_result where
  "demo_parsed = \<lparr>series_name = Some ''Cinder'', p_key = Some ''cinder'',
     p_issue = Some \<lparr>in_value = Some 5, in_display = ''005'', in_suffix = None,
       in_class = Regular, in_infinity = False, in_name = None\<rparr>,
     volume_ordinal = None, volume_year = None, p_year = Some 2012, fix_revision = None, p_issue_tag = None,
     p_type = Some ''cbz'', failure = None\<rparr>"

definition demo_candidate :: candidate where
  "demo_candidate = \<lparr>guid = ''g1'', title = ''Cinder 005 (2012).cbz'', link = ''http://x/'',
     indexer_id = 3, indexer_name = ''idx'', indexer_priority = 1, query_tier = 0,
     size_bytes = Some 500, pub_date = Some 63493200000000000, categories = []\<rparr>"

lemma demo_mapping:
  "map_release id demo_parsed (demo_ctx now) =
   \<lparr>m_series = Some demo_series, m_issue = Some demo_issue, m_ambiguous = False\<rparr>"
  by (simp add: map_release_def demo_parsed_def success_def series_lookup_key_def str_or_def
      demo_ctx_def find_by_key_def matches_key_def demo_series_def disambiguate_def int_or_def
      of_year_def match_issue_def demo_issue_def Let_def)

lemma demo_format: "candidate_format demo_parsed ttl = Some ''cbz''"
  by (simp add: candidate_format_def demo_parsed_def str_lower_def is_upper_def code_def
      KNOWN_FORMATS_def)

lemma demo_years: "year_of 63493200000000000 = 2013" "year_of 63493201800000000 = 2013"
  by (simp_all add: year_of_def us_per_day_def us_per_second_def Let_def)

lemma demo_success: "success demo_parsed"
  by (simp add: success_def demo_parsed_def)

lemma disambiguate_eq:
  "disambiguate found p =
    (if length found = 1 then (Some (hd found), False)
     else
       case int_or (volume_year p) (p_year p) of
         None \<Rightarrow> (None, True)
       | Some y \<Rightarrow>
           (let ys = filter (of_year y) found
            in if length ys = 1 then (Some (hd ys), False) else (None, True)))"
proof -
  have single: "(case xs of [s] \<Rightarrow> f s | _ \<Rightarrow> g) = (if length xs = 1 then f (hd xs) else g)"
    for xs :: "series_context list" and f and g :: "series_context option \<times> bool"
    by (cases xs rule: remdups_adj.cases) simp_all
  show ?thesis unfolding disambiguate_def Let_def single ..
qed

section \<open>Properties\<close>

text \<open>C20: The verdict is the acceptance policy: a candidate is rejected exactly when it does not
  resolve to one tracked series and issue or breaks a permanent rule (searched target,
  plausible year, allowed format, strict upgrade over every file on disk, retention,
  required and ignored terms, not queued, not blocklisted), temporarily rejected exactly when
  only its age or the free space stand against it, and approved otherwise.\<close>

theorem verdict_refines_policy:
  "d_outcome (evaluate default_specs parse decompose c ctx) =
   policy (parse (title c) (year_of (ctx_now ctx)))
     (map_release decompose (parse (title c) (year_of (ctx_now ctx))) ctx)
     (candidate_format (parse (title c) (year_of (ctx_now ctx))) (title c)) c ctx"
  by (simp add: evaluate_outcome Let_def)

text \<open>A temporary rejection clears: when the same candidate is evaluated again in the same
  calendar year, still within retention, once it has reached the minimum age and the disk has
  room, it is approved.\<close>

theorem temporary_rejection_clears:
  assumes "d_outcome (evaluate default_specs parse decompose c ctx) = Temporarily_rejected"
    and "year_of later = year_of (ctx_now ctx)"
    and "case retention_for (config ctx) (indexer_id c) of
      None \<Rightarrow> True | Some r \<Rightarrow> later \<le> pub + r * us_per_day"
    and "pub_date c = Some pub" and "pub + seconds (60 * min_age_minutes (config ctx)) \<le> later"
    and "size_bytes c = Some need" and "\<And>s. case free s of None \<Rightarrow> True | Some b \<Rightarrow> need \<le> b"
  shows "d_outcome (evaluate default_specs parse decompose c
    (ctx\<lparr>ctx_now := later, free_bytes := free\<rparr>)) = Approved"
proof -
  let ?ctx = "ctx\<lparr>ctx_now := later, free_bytes := free\<rparr>"
  define p where "p = parse (title c) (year_of (ctx_now ctx))"
  let ?m = "map_release decompose p ctx" and ?fmt = "candidate_format p (title c)"
  have "policy p ?m ?fmt c ctx = Temporarily_rejected"
    using assms(1) by (simp add: evaluate_outcome Let_def p_def)
  then obtain s i where si: "success p" "m_series ?m = Some s" "m_issue ?m = Some i"
    and perm: "permanent_ok p s i ?fmt c ctx"
    by (auto simp: policy_def split: option.splits bool.splits if_splits)
  have same: "map_release decompose p ?ctx = ?m"
    by (simp add: map_release_def cong: option.case_cong)
  have "permanent_ok p s i ?fmt c ?ctx"
    using perm assms(2,3,4) by (auto simp: permanent_ok_def split: option.split)
  moreover have "temporary_ok s c ?ctx"
    using assms(4-7) by (auto simp: temporary_ok_def split: option.split)
  ultimately have "policy p ?m ?fmt c ?ctx = Approved" by (simp add: policy_def si)
  then show ?thesis using assms(2) same by (simp add: evaluate_outcome Let_def p_def)
qed

theorem temporary_rejection_clears_witness:
  "d_outcome (evaluate default_specs (\<lambda>_ _. demo_parsed) id demo_candidate
     (demo_ctx 63493200000000000)) = Temporarily_rejected \<and>
   d_outcome (evaluate default_specs (\<lambda>_ _. demo_parsed) id demo_candidate
     ((demo_ctx 63493200000000000)\<lparr>ctx_now := 63493201800000000, free_bytes := \<lambda>_. None\<rparr>)) = Approved"
proof (intro conjI)
  have perm: "permanent_ok demo_parsed demo_series demo_issue (Some ''cbz'') demo_candidate
      (demo_ctx 63493200000000000)"
    by (simp add: permanent_ok_def demo_ctx_def demo_parsed_def demo_series_def demo_issue_def
        demo_candidate_def demo_config_def demo_years allows_def str_lower_def upgrade_ok_def
        rung_def is_upper_def code_def retention_for_def us_per_day_def us_per_second_def
        contains_def casefold_def casefold_char_def upt_conv_Cons)
  have temp: "\<not> temporary_ok demo_series demo_candidate (demo_ctx 63493200000000000)"
    by (simp add: temporary_ok_def demo_ctx_def demo_series_def demo_candidate_def demo_config_def
        seconds_def us_per_second_def)
  show out: "d_outcome (evaluate default_specs (\<lambda>_ _. demo_parsed) id demo_candidate
     (demo_ctx 63493200000000000)) = Temporarily_rejected"
    using perm temp
    by (simp add: evaluate_outcome Let_def demo_mapping demo_format policy_def demo_success)
  show "d_outcome (evaluate default_specs (\<lambda>_ _. demo_parsed) id demo_candidate
     ((demo_ctx 63493200000000000)\<lparr>ctx_now := 63493201800000000, free_bytes := \<lambda>_. None\<rparr>)) = Approved"
    by (rule temporary_rejection_clears [OF out, where pub = 63493200000000000 and need = 500])
      (simp_all add: demo_ctx_def demo_candidate_def demo_config_def demo_years us_per_day_def
        us_per_second_def seconds_def retention_for_def)
qed

text \<open>Mapping is exact and never guesses: a mapped series is a tracked one whose key or alias
  equals the release's key, and any other tracked series with that key is told apart by the
  year on the release; a mapped issue is an issue of that series with the parsed number and
  the same folded suffix.\<close>

theorem mapping_is_exact:
  assumes "m_series (map_release decompose p ctx) = Some s"
  shows "\<exists>key. series_lookup_key decompose p = Some key \<and> s \<in> set (library ctx) \<and> matches_key s key \<and>
    (\<forall>s' \<in> set (library ctx). matches_key s' key \<longrightarrow>
       s' = s \<or> (\<exists>y. int_or (volume_year p) (p_year p) = Some y \<and> of_year y s \<and> \<not> of_year y s')) \<and>
    (\<forall>i. m_issue (map_release decompose p ctx) = Some i \<longrightarrow>
       i \<in> set (issues s) \<and> (\<exists>iss. p_issue p = Some iss \<and> issue_number i = in_value iss \<and>
         folded_suffix (issue_suffix i) = folded_suffix (in_suffix iss)))"
proof -
  obtain key where key: "series_lookup_key decompose p = Some key" and
    dis: "fst (disambiguate (find_by_key (library ctx) key) p) = Some s"
    and iss: "m_issue (map_release decompose p ctx) = match_issue s p"
    using assms
    by (auto simp: map_release_def NO_MAPPING_def Let_def split: option.splits if_splits prod.splits)
  have found: "find_by_key (library ctx) key = [s] \<or>
      (\<exists>y. int_or (volume_year p) (p_year p) = Some y \<and>
        filter (of_year y) (find_by_key (library ctx) key) = [s])"
    using dis unfolding disambiguate_eq
    by (auto simp: length_Suc_conv Let_def split: if_splits option.splits)
  then have mem: "s \<in> set (find_by_key (library ctx) key)"
    by (metis filter_is_subset list.set_intros(1) subsetD)
  have other: "s' = s \<or> (\<exists>y. int_or (volume_year p) (p_year p) = Some y \<and> of_year y s \<and> \<not> of_year y s')"
    if s': "s' \<in> set (library ctx)" "matches_key s' key" for s'
    using found
  proof
    assume "find_by_key (library ctx) key = [s]"
    then have "set (find_by_key (library ctx) key) = {s}" by simp
    then show ?thesis using s' unfolding find_by_key_def by auto
  next
    assume "\<exists>y. int_or (volume_year p) (p_year p) = Some y \<and>
        filter (of_year y) (find_by_key (library ctx) key) = [s]"
    then obtain y where y: "int_or (volume_year p) (p_year p) = Some y"
      and flt: "filter (of_year y) (find_by_key (library ctx) key) = [s]" by blast
    have "set (filter (of_year y) (find_by_key (library ctx) key)) = {s}" by (simp add: flt)
    then show ?thesis using s' y unfolding find_by_key_def by auto
  qed
  have "i \<in> set (issues s) \<and> (\<exists>iss. p_issue p = Some iss \<and> issue_number i = in_value iss \<and>
         folded_suffix (issue_suffix i) = folded_suffix (in_suffix iss))"
    if "match_issue s p = Some i" for i
    using that by (auto simp: match_issue_def find_Some_iff split: option.splits)
  then show ?thesis using key mem other iss by (auto simp: find_by_key_def)
qed

theorem mapping_is_exact_witness:
  "\<exists>key. series_lookup_key id demo_parsed = Some key \<and> matches_key demo_series key"
  using mapping_is_exact [of id demo_parsed "demo_ctx 0" demo_series]
  by (auto simp: demo_mapping)

end
