(* ===== verification/Ranking.thy ===== *)
theory Ranking
  imports Decision "HOL-Library.Product_Lexorder" "HOL-Library.List_Lexorder" "HOL-Library.Char_ord"
    "HOL-Library.Multiset"
begin

text \<open>
  The prioritisation chain and the cross-indexer de-duplication
  (\<open>search/comparator.py\<close>, \<open>search/dedup.py\<close>).

  Sort keys are tuples in Python's lexicographic order, strings in code-point order. The
  logarithmic buckets are computed on exact rationals; \<open>age_bucket_log\<close> and
  \<open>size_closeness_log\<close> relate them to the logarithms the source takes.
\<close>

section \<open>Comparator\<close>

definition NO_AGE_BUCKET :: int where "NO_AGE_BUCKET = 1000000"

fun ilog2 :: "nat \<Rightarrow> nat" where
  "ilog2 n = (if n < 2 then 0 else Suc (ilog2 (n div 2)))"

declare ilog2.simps [simp del]

definition age_bucket :: "datetime option \<Rightarrow> datetime \<Rightarrow> int" where
  "age_bucket pub now =
     (case pub of None \<Rightarrow> NO_AGE_BUCKET
      | Some p \<Rightarrow> int (ilog2 (nat \<lfloor>max (age_in 3600 now p) 0 + 1\<rfloor>)))"

definition size_closeness_bucket :: "int option \<Rightarrow> nat option \<Rightarrow> int" where
  "size_closeness_bucket sz preferred =
     (case preferred of None \<Rightarrow> 0
      | Some p \<Rightarrow>
          if p = 0 then 0
          else
            (case sz of None \<Rightarrow> NO_AGE_BUCKET
             | Some s \<Rightarrow>
                 if s \<le> 0 then NO_AGE_BUCKET
                 else
                   (let q = of_int (max s (int p)) / of_int (min s (int p)) :: rat
                    in int (ilog2 (nat \<lfloor>q * q\<rfloor>)))))"

definition comparator_key ::
  "format_profile \<Rightarrow> datetime \<Rightarrow> nat option \<Rightarrow> decision \<Rightarrow> int \<times> int \<times> int \<times> int \<times> int \<times> int \<times> string" where
  "comparator_key prof now preferred d =
     (let c = d_candidate d
      in (- rung prof (d_fmt d), indexer_priority c, query_tier c, age_bucket (pub_date c) now,
          size_closeness_bucket (size_bytes c) preferred, indexer_id c, guid c))"

definition order_decisions ::
  "format_profile \<Rightarrow> datetime \<Rightarrow> nat option \<Rightarrow> decision list \<Rightarrow> decision list" where
  "order_decisions prof now preferred ds = sort_key (comparator_key prof now preferred) ds"

text \<open>\<open>min(xs, key=k)\<close>: the first element whose key is the least.\<close>

fun min_by :: "('a \<Rightarrow> 'b::linorder) \<Rightarrow> 'a \<Rightarrow> 'a list \<Rightarrow> 'a" where
  "min_by k x [] = x"
| "min_by k x (y # ys) = (if k y < k x then min_by k y ys else min_by k x ys)"

definition best_decision ::
  "format_profile \<Rightarrow> datetime \<Rightarrow> nat option \<Rightarrow> decision list \<Rightarrow> decision option" where
  "best_decision prof now preferred ds =
     (case ds of [] \<Rightarrow> None | d # ds' \<Rightarrow> Some (min_by (comparator_key prof now preferred) d ds'))"

section \<open>De-duplication\<close>

definition SIZE_BUCKET_BYTES :: int where "SIZE_BUCKET_BYTES = 1024 * 1024"

definition size_bucket :: "int option \<Rightarrow> int" where
  "size_bucket sz = (case sz of None \<Rightarrow> -1 | Some s \<Rightarrow> s div SIZE_BUCKET_BYTES)"

definition preference :: "decision \<Rightarrow> int \<times> int \<times> int \<times> string" where
  "preference d =
     (let c = d_candidate d
      in (int (length (d_rejections d)), indexer_priority c, indexer_id c, guid c))"

text \<open>The \<open>winners\<close> dictionary and the list of its keys in order of first appearance.\<close>

definition collapse_step ::
  "(decision \<Rightarrow> 'k) \<Rightarrow> decision \<Rightarrow> ('k, decision) odict \<times> 'k list \<Rightarrow> ('k, decision) odict \<times> 'k list" where
  "collapse_step key d acc =
     (case acc of (winners, order) \<Rightarrow>
        (case map_of winners (key d) of
           None \<Rightarrow> (od_set (key d) d winners, order @ [key d])
         | Some current \<Rightarrow>
             if preference d < preference current then (od_set (key d) d winners, order)
             else (winners, order)))"

definition collapse :: "(decision \<Rightarrow> 'k) \<Rightarrow> decision list \<Rightarrow> decision list" where
  "collapse key ds =
     (case fold (collapse_step key) ds ([], []) of
        (winners, order) \<Rightarrow> map (\<lambda>k. the (map_of winners k)) order)"

definition guid_key :: "decision \<Rightarrow> int \<times> string" where
  "guid_key d = (indexer_id (d_candidate d), guid (d_candidate d))"

definition title_size_key :: "decision \<Rightarrow> string \<times> int" where
  "title_size_key d = (normalized_title (title (d_candidate d)), size_bucket (size_bytes (d_candidate d)))"

definition deduplicate :: "decision list \<Rightarrow> decision list" where
  "deduplicate ds = collapse title_size_key (collapse guid_key ds)"

section \<open>Buckets as logarithms\<close>

lemma ilog2_bounds: "0 < n \<Longrightarrow> 2 ^ ilog2 n \<le> n \<and> n < 2 ^ Suc (ilog2 n)"
proof (induction n rule: ilog2.induct)
  case (1 n)
  show ?case
  proof (cases "n < 2")
    case False
    then have "2 ^ ilog2 (n div 2) \<le> n div 2 \<and> n div 2 < 2 ^ Suc (ilog2 (n div 2))"
      using 1 by simp
    then show ?thesis using False by (subst (1 2) ilog2.simps) auto
  qed (use 1 in \<open>simp add: ilog2.simps\<close>)
qed

lemma ilog2_floor_log:
  fixes x :: rat
  assumes "1 \<le> x"
  shows "int (ilog2 (nat \<lfloor>x\<rfloor>)) = \<lfloor>log 2 (real_of_rat x)\<rfloor>"
proof -
  let ?n = "nat \<lfloor>x\<rfloor>" and ?k = "ilog2 (nat \<lfloor>x\<rfloor>)"
  have n: "0 < ?n" using assms by simp
  note b = ilog2_bounds [OF n]
  have fl: "of_int \<lfloor>x\<rfloor> = (of_nat ?n :: rat)" using assms by simp
  have "of_nat (2 ^ ?k) \<le> (of_nat ?n :: rat)" unfolding of_nat_le_iff using b by blast
  moreover have "of_nat (2 ^ ?k) = (2::rat) ^ ?k" "of_nat (2 ^ Suc ?k) = (2::rat) ^ Suc ?k"
    by (simp_all del: power_Suc)
  moreover have "of_nat (Suc ?n) \<le> (of_nat (2 ^ Suc ?k) :: rat)"
    unfolding of_nat_le_iff by (rule Suc_leI) (rule conjunct2 [OF b])
  moreover have "of_nat (Suc ?n) = (of_nat ?n + 1 :: rat)" by simp
  ultimately have lo: "(2::rat) ^ ?k \<le> x" and hi: "x < (2::rat) ^ Suc ?k"
    using fl floor_correct [of x] by linarith+
  have "real_of_rat (2 ^ ?k) \<le> real_of_rat x" "real_of_rat x < real_of_rat (2 ^ Suc ?k)"
    unfolding of_rat_less_eq of_rat_less by (rule lo, rule hi)
  then have "(2::real) ^ ?k \<le> real_of_rat x" "real_of_rat x < 2 ^ Suc ?k"
    by (simp_all add: of_rat_power del: power_Suc)
  then have "2 powr real ?k \<le> real_of_rat x" "real_of_rat x < 2 powr (real ?k + 1)"
    by (simp_all add: powr_realpow powr_add)
  then have "real ?k \<le> log 2 (real_of_rat x)" "log 2 (real_of_rat x) < real ?k + 1"
    using assms by (simp_all add: le_log_iff log_less_iff)
  then show ?thesis by (simp add: floor_unique [symmetric])
qed

lemma age_bucket_log:
  "age_bucket (Some p) now = \<lfloor>log 2 (max (real_of_rat (age_in 3600 now p)) 0 + 1)\<rfloor>"
proof -
  have "real_of_rat (max (age_in 3600 now p) 0 + 1) = max (real_of_rat (age_in 3600 now p)) 0 + 1"
    by (simp add: of_rat_add max_def)
  then show ?thesis
    using ilog2_floor_log [of "max (age_in 3600 now p) 0 + 1"] by (simp add: age_bucket_def)
qed

lemma log_ratio:
  fixes a b :: real
  assumes "0 < a" and "0 < b"
  shows "log 2 ((max a b / min a b) * (max a b / min a b)) = \<bar>log 2 a - log 2 b\<bar> * 2"
  using assms by (cases "a \<le> b") (simp_all add: max_def min_def log_mult log_divide)

lemma size_closeness_log:
  assumes "0 < s" and "0 < p"
  shows "size_closeness_bucket (Some s) (Some p) = \<lfloor>\<bar>log 2 (of_int s) - log 2 (of_nat p)\<bar> * 2\<rfloor>"
proof -
  let ?q = "of_int (max s (int p)) / of_int (min s (int p)) :: rat"
  have "of_int (min s (int p)) \<le> (of_int (max s (int p)) :: rat)" by (simp only: of_int_le_iff)
  then have q: "1 \<le> ?q" using assms by (simp add: pos_le_divide_eq)
  then have one: "1 \<le> ?q * ?q" using mult_mono [of 1 ?q 1 ?q] by simp
  have "real_of_rat ?q = max (of_int s) (of_nat p) / min (of_int s) (of_nat p)"
    by (cases "s \<le> int p") (simp_all add: of_rat_divide max_def min_def)
  then have "log 2 (real_of_rat (?q * ?q)) = \<bar>log 2 (of_int s) - log 2 (of_nat p)\<bar> * 2"
    using log_ratio [of "of_int s" "of_nat p"] assms by (simp only: of_rat_mult)
  then show ?thesis
    using ilog2_floor_log [OF one] assms by (simp add: size_closeness_bucket_def Let_def)
qed

section \<open>Sorting\<close>

lemma hd_insort_key: "hd (insort_key k x xs) = (if xs = [] \<or> k x \<le> k (hd xs) then x else hd xs)"
  by (cases xs) auto

lemma min_by_hd: "min_by k x ys = hd (sort_key k (x # ys))"
proof (induction ys arbitrary: x)
  case (Cons y ys)
  have ne: "sort_key k ys = [] \<longleftrightarrow> ys = []" by (metis length_0_conv length_sort)
  show ?case
  proof (cases "k y < k x")
    case True
    then show ?thesis using Cons [of y] ne by (auto simp: hd_insort_key)
  next
    case False
    then show ?thesis using Cons [of x] ne by (auto simp: hd_insort_key)
  qed
qed simp

section \<open>What collapsing keeps\<close>

text \<open>The state after a prefix: the keys seen, in order, and for each the best decision so far.\<close>

definition collapsed :: "(decision \<Rightarrow> 'k) \<Rightarrow> decision list \<Rightarrow> ('k, decision) odict \<times> 'k list \<Rightarrow> bool" where
  "collapsed key ds acc \<longleftrightarrow> (case acc of (winners, order) \<Rightarrow>
     distinct order \<and> set order = key ` set ds \<and> dom (map_of winners) = set order \<and>
     (\<forall>k w. map_of winners k = Some w \<longrightarrow> w \<in> set ds \<and> key w = k \<and>
        (\<forall>d \<in> set ds. key d = k \<longrightarrow> preference w \<le> preference d)))"

lemma collapsed_step: "collapsed key ds acc \<Longrightarrow> collapsed key (ds @ [d]) (collapse_step key d acc)"
proof (cases acc)
  case (Pair winners order)
  assume inv: "collapsed key ds acc"
  note I = inv [unfolded collapsed_def Pair split_conv]
  show ?thesis
  proof (cases "map_of winners (key d)")
    case None
    then have new: "key d \<notin> key ` set ds" using I by (metis domIff)
    then have "key x \<noteq> key d" if "x \<in> set ds" for x using that by (metis imageI)
    then show ?thesis
      using I None new by (auto simp: collapsed_def collapse_step_def Pair map_of_od_set)
  next
    case (Some w)
    then have w: "key w = key d" "w \<in> set ds" "\<forall>x \<in> set ds. key x = key d \<longrightarrow> preference w \<le> preference x"
      using I by blast+
    have kd: "key d \<in> key ` set ds" using w(1,2) by (metis imageI)
    show ?thesis
    proof (cases "preference d < preference w")
      case True
      then have "preference d \<le> preference x" if "x \<in> set ds" "key x = key d" for x
        using w(3) that by (meson less_imp_le less_le_trans)
      then show ?thesis
        using I Some True kd by (auto simp: collapsed_def collapse_step_def Pair map_of_od_set)
    next
      case False
      then show ?thesis
        using I Some kd w by (auto simp: collapsed_def collapse_step_def Pair not_less)
    qed
  qed
qed

lemma collapsed_fold: "collapsed key ds (fold (collapse_step key) ds ([], []))"
proof (induction ds rule: rev_induct)
  case (snoc d ds)
  then show ?case using collapsed_step by simp
qed (simp add: collapsed_def)

lemma collapse_spec:
  shows "distinct (map key (collapse key ds))"
    and "key ` set (collapse key ds) = key ` set ds"
    and "w \<in> set (collapse key ds) \<Longrightarrow> w \<in> set ds \<and>
      (\<forall>d \<in> set ds. key d = key w \<longrightarrow> preference w \<le> preference d)"
proof -
  obtain winners order where acc: "fold (collapse_step key) ds ([], []) = (winners, order)"
    by (cases "fold (collapse_step key) ds ([], [])")
  note I = collapsed_fold [of key ds, unfolded acc collapsed_def split_conv]
  have out: "collapse key ds = map (\<lambda>k. the (map_of winners k)) order"
    by (simp add: collapse_def acc)
  have look: "map_of winners k = Some (the (map_of winners k))" if "k \<in> set order" for k
    using I that by (metis domIff option.collapse)
  have keys: "map key (collapse key ds) = order"
    unfolding out map_map comp_def by (intro map_idI) (use I look in blast)
  show "distinct (map key (collapse key ds))" using keys I by simp
  show "key ` set (collapse key ds) = key ` set ds"
    using keys I by (metis list.set_map)
  show "w \<in> set (collapse key ds) \<Longrightarrow> w \<in> set ds \<and>
      (\<forall>d \<in> set ds. key d = key w \<longrightarrow> preference w \<le> preference d)"
    using I look by (auto simp: out)
qed

lemma collapse_set:
  assumes "inj_on preference (set ds)"
  shows "set (collapse key ds) = {w \<in> set ds. \<forall>d \<in> set ds. key d = key w \<longrightarrow> preference w \<le> preference d}"
proof (intro set_eqI iffI)
  fix w
  assume w: "w \<in> {w \<in> set ds. \<forall>d \<in> set ds. key d = key w \<longrightarrow> preference w \<le> preference d}"
  then have "key w \<in> key ` set (collapse key ds)" using collapse_spec(2) [of key ds] by auto
  then obtain v where v: "v \<in> set (collapse key ds)" "key v = key w" by auto
  then have "v \<in> set ds" "preference v \<le> preference w" using collapse_spec(3) w by force+
  moreover have "preference w \<le> preference v" using w v \<open>v \<in> set ds\<close> by simp
  ultimately have "v = w" using assms w by (auto dest: inj_onD)
  then show "w \<in> set (collapse key ds)" using v by simp
next
  fix w
  assume "w \<in> set (collapse key ds)"
  then show "w \<in> {w \<in> set ds. \<forall>d \<in> set ds. key d = key w \<longrightarrow> preference w \<le> preference d}"
    using collapse_spec(3) by blast
qed

lemma inj_guid:
  assumes "inj_on guid_key A"
  shows "inj_on preference A" and "inj_on (comparator_key prof now preferred) A"
  using assms by (auto simp: inj_on_def guid_key_def preference_def comparator_key_def Let_def)

lemma collapse_distinct: "distinct (collapse key ds)"
  using collapse_spec(1) [of key ds] by (simp add: distinct_map)

lemma deduplicate_set:
  assumes "set ds = set ds'" and "inj_on guid_key (set ds)"
  shows "set (deduplicate ds) = set (deduplicate ds')"
proof -
  have "set (collapse guid_key ds) = set (collapse guid_key ds')"
    using assms by (simp add: collapse_set inj_guid)
  moreover have "inj_on preference (set (collapse guid_key ds))"
    using assms by (auto simp: collapse_set inj_guid intro: inj_on_subset [OF inj_guid(1)])
  ultimately show ?thesis by (simp add: deduplicate_def collapse_set)
qed

lemma collapse_subset: "set (collapse key ds) \<subseteq> set ds"
  using collapse_spec(3) by blast

lemma deduplicate_subset: "set (deduplicate ds) \<subseteq> set ds"
  unfolding deduplicate_def using collapse_subset [of _ "collapse guid_key ds"] collapse_subset by blast

section \<open>Witness data\<close>

definition demo_decision :: "int \<Rightarrow> string \<Rightarrow> string \<Rightarrow> decision" where
  "demo_decision prio ttl g =
     \<lparr>d_candidate = demo_candidate\<lparr>indexer_priority := prio, title := ttl, guid := g, size_bytes := None\<rparr>,
      d_outcome = Approved, d_rejections = [], d_parsed = demo_parsed, d_series = Some 1,
      d_issue = Some 11, d_fmt = Some ''cbz''\<rparr>"

section \<open>Properties\<close>

text \<open>C29: The ranked result does not depend on the order in which the indexers answered: for the
  same set of decisions, no two of them with the same indexer and guid, de-duplication
  followed by prioritisation returns the same list.\<close>

theorem ranking_order_independent:
  assumes "set ds = set ds'" and "inj_on guid_key (set ds)"
  shows "order_decisions prof now preferred (deduplicate ds) =
    order_decisions prof now preferred (deduplicate ds')"
proof -
  let ?k = "comparator_key prof now preferred"
  have "distinct (deduplicate ds)" "distinct (deduplicate ds')"
    by (simp_all add: deduplicate_def collapse_distinct)
  then have "mset (deduplicate ds) = mset (sort_key ?k (deduplicate ds'))"
    using deduplicate_set [OF assms] by (simp add: set_eq_iff_mset_eq_distinct)
  moreover have "inj_on ?k (set (deduplicate ds))"
    using inj_on_subset [OF inj_guid(2) [OF assms(2)] deduplicate_subset] .
  ultimately show ?thesis
    unfolding order_decisions_def by (intro sort_key_inj_key_eq) simp_all
qed

theorem ranking_order_independent_witness:
  "order_decisions (profile demo_series) 0 None (deduplicate [demo_decision 1 ''a'' ''x'', demo_decision 2 ''b'' ''y'']) =
   order_decisions (profile demo_series) 0 None (deduplicate [demo_decision 2 ''b'' ''y'', demo_decision 1 ''a'' ''x''])"
  by (rule ranking_order_independent) (auto simp: guid_key_def demo_decision_def)

text \<open>De-duplication keeps exactly one decision per release: the survivors are input decisions
  with pairwise distinct normalized title and size bucket and pairwise distinct indexer and
  guid, every input has a survivor reachable through its guid group and its title group, and
  no survivor is beaten (fewer rejections, then better indexer) by another copy it replaced.\<close>

theorem deduplicate_one_per_release:
  "set (deduplicate ds) \<subseteq> set ds \<and>
   distinct (map title_size_key (deduplicate ds)) \<and> distinct (map guid_key (deduplicate ds)) \<and>
   list_all (\<lambda>d. list_ex (\<lambda>d1. guid_key d1 = guid_key d \<and> preference d1 \<le> preference d \<and>
       list_ex (\<lambda>w. title_size_key w = title_size_key d1 \<and> preference w \<le> preference d1)
         (deduplicate ds)) ds) ds"
proof (intro conjI)
  let ?g = "collapse guid_key ds"
  show "set (deduplicate ds) \<subseteq> set ds" by (rule deduplicate_subset)
  show "distinct (map title_size_key (deduplicate ds))"
    unfolding deduplicate_def by (rule collapse_spec(1))
  have sub: "set (deduplicate ds) \<subseteq> set ?g" unfolding deduplicate_def by (rule collapse_subset)
  have "distinct (deduplicate ds)" by (simp add: deduplicate_def collapse_distinct)
  moreover have "inj_on guid_key (set ?g)" using collapse_spec(1) [of guid_key ds] by (simp add: distinct_map)
  ultimately show "distinct (map guid_key (deduplicate ds))"
    using inj_on_subset [OF _ sub] by (simp add: distinct_map)
  have "\<exists>d1 \<in> set ds. guid_key d1 = guid_key d \<and> preference d1 \<le> preference d \<and>
      (\<exists>w \<in> set (deduplicate ds). title_size_key w = title_size_key d1 \<and> preference w \<le> preference d1)"
    if d: "d \<in> set ds" for d
  proof -
    have "guid_key d \<in> guid_key ` set ?g" using collapse_spec(2) [of guid_key ds] d by auto
    then obtain d1 where d1: "d1 \<in> set ?g" "guid_key d1 = guid_key d" by auto
    note p1 = collapse_spec(3) [OF d1(1)]
    have "title_size_key d1 \<in> title_size_key ` set (deduplicate ds)"
      using collapse_spec(2) [of title_size_key ?g] d1(1) unfolding deduplicate_def by auto
    then obtain w where w: "w \<in> set (deduplicate ds)" "title_size_key w = title_size_key d1" by auto
    have "preference w \<le> preference d1"
      using collapse_spec(3) [OF w(1) [unfolded deduplicate_def]] d1(1) w(2) by simp
    then show ?thesis using p1 d d1(2) w by auto
  qed
  then show "list_all (\<lambda>d. list_ex (\<lambda>d1. guid_key d1 = guid_key d \<and> preference d1 \<le> preference d \<and>
       list_ex (\<lambda>w. title_size_key w = title_size_key d1 \<and> preference w \<le> preference d1)
         (deduplicate ds)) ds) ds"
    by (simp add: list_all_iff list_ex_iff)
qed

text \<open>The best decision is the head of the ranking, and no decision of the input comes strictly
  before it in the comparator's order.\<close>

theorem best_decision_heads_ranking:
  "case best_decision prof now preferred ds of
     None \<Rightarrow> ds = []
   | Some b \<Rightarrow> b = hd (order_decisions prof now preferred ds) \<and>
       list_all (\<lambda>d. comparator_key prof now preferred b \<le> comparator_key prof now preferred d) ds"
proof (cases ds)
  case (Cons d ds')
  let ?k = "comparator_key prof now preferred"
  have b: "best_decision prof now preferred ds = Some (hd (sort_key ?k ds))"
    by (simp add: best_decision_def Cons min_by_hd)
  obtain x xs where srt: "sort_key ?k ds = x # xs"
    by (metis Cons list.exhaust list.simps(3) length_0_conv length_sort)
  have "sorted (map ?k (x # xs))" using sorted_sort_key [of ?k ds] srt by simp
  moreover have "set ds = set (x # xs)" using set_sort [of ?k ds] srt by simp
  ultimately show ?thesis using b srt by (auto simp: order_decisions_def list_all_iff)
qed (simp add: best_decision_def)

text \<open>The title key of the cross-indexer stage drops every character outside ASCII letters and
  digits: two releases whose titles are different non-ASCII words, both of unknown size, are
  collapsed into one although they share neither guid nor title.\<close>

theorem non_ascii_titles_collapse:
  assumes "list_all (\<lambda>c. 128 \<le> code c \<and> code c \<noteq> 223) (title (d_candidate d1))"
    and "list_all (\<lambda>c. 128 \<le> code c \<and> code c \<noteq> 223) (title (d_candidate d2))"
    and "size_bytes (d_candidate d1) = size_bytes (d_candidate d2)"
  shows "length (deduplicate [d1, d2]) = 1"
proof -
  have empty: "normalized_title t = []" if "list_all (\<lambda>c. 128 \<le> code c \<and> code c \<noteq> 223) t" for t
    using normalized_title_non_ascii [OF that] .
  have key: "title_size_key d1 = title_size_key d2"
    using assms by (simp add: title_size_key_def empty)
  have sub: "set (collapse guid_key [d1, d2]) \<subseteq> {d1, d2}"
    using collapse_subset [of guid_key "[d1, d2]"] by simp
  have "collapse guid_key [d1, d2] \<noteq> []"
    using collapse_spec(2) [of guid_key "[d1, d2]"] by auto
  then obtain x where x: "x \<in> set (collapse guid_key [d1, d2])" by (metis list.set_sel(1))
  have one: "title_size_key y = title_size_key d1" if "y \<in> set (collapse guid_key [d1, d2])" for y
    using that sub key by auto
  have "title_size_key ` set (deduplicate [d1, d2]) = title_size_key ` set (collapse guid_key [d1, d2])"
    unfolding deduplicate_def by (rule collapse_spec(2))
  also have "\<dots> = {title_size_key d1}" using one x by (intro set_eqI) (auto intro: rev_image_eqI)
  finally have "title_size_key ` set (deduplicate [d1, d2]) = {title_size_key d1}" .
  moreover have "distinct (map title_size_key (deduplicate [d1, d2]))"
    unfolding deduplicate_def by (rule collapse_spec(1))
  ultimately show ?thesis
    by (metis One_nat_def card.empty card_insert_disjoint distinct_card empty_iff finite.emptyI
        length_map list.set_map)
qed

theorem non_ascii_titles_collapse_witness:
  "length (deduplicate [demo_decision 1 [char_of (201::nat)] ''x'', demo_decision 1 [char_of (202::nat)] ''y'']) = 1"
  by (rule non_ascii_titles_collapse) (simp_all add: demo_decision_def)

end
