(* ===== verification/Downloads.thy ===== *)
theory Downloads
  imports Decision
begin

text \<open>
  Tracked downloads: the cheap check, the failure loop and the live stores
  (\<open>downloads/state.py\<close>, \<open>downloads/tracking.py\<close>, \<open>downloads/stores.py\<close>).

  The database is a record of tables (rows in id order) with the events published on commit;
  the whole of \<open>reconcile_downloads\<close> and of the write session of \<open>process_failures\<close> are one
  transaction each. A row is found by its unique (client, download id) pair and written back by
  its primary key, as the mutated ORM object is. Status messages are the decoded list: the JSON text is written by
  \<open>_encode_messages\<close> alone, which \<open>decode_messages\<close> inverts. Clients are seen only through the
  items they report; the filename parser is an argument and may raise.
\<close>

section \<open>States and rows\<close>

datatype tracked_state =
  Downloading | Import_blocked | Import_pending | Importing | Imported | Failed_pending | Failed | Ignored

datatype tracked_status = Ok_status | Warning_status | Error_status

datatype item_status = Item_queued | Item_paused | Item_downloading | Item_completed | Item_failed | Item_warning

record client_item =
  it_download_id :: string
  it_title :: string
  it_category :: string
  it_total_size :: int
  it_remaining_size :: int
  it_estimated_time :: "real option"
  it_output_path :: "string option"
  it_status :: item_status
  it_encrypted :: bool
  it_reason :: "string option"

record observation =
  ob_client_id :: "int option"
  ob_client_name :: "string option"
  ob_protocol :: string
  ob_item :: client_item

record tracked_row =
  tr_id :: int
  tr_download_id :: string
  tr_client_id :: "int option"
  tr_client_name :: "string option"
  tr_protocol :: string
  tr_source :: string
  tr_state :: tracked_state
  tr_status :: tracked_status
  tr_messages :: "string list"
  tr_series_id :: "int option"
  tr_issue_id :: "int option"
  tr_indexer_name :: "string option"
  tr_title :: "string option"
  tr_category :: "string option"
  tr_total_size :: "int option"
  tr_remaining_size :: "int option"
  tr_estimated_time :: "int option"
  tr_output_path :: "string option"
  tr_encrypted :: bool
  tr_added_at :: datetime
  tr_updated_at :: datetime
  tr_stall_count :: nat
  tr_first_stalled_at :: "datetime option"

record grab_row =
  gr_download_id :: string
  gr_client_id :: "int option"
  gr_series_id :: "int option"
  gr_issue_id :: "int option"
  gr_indexer_id :: "int option"
  gr_indexer_name :: "string option"
  gr_guid :: "string option"
  gr_title :: string
  gr_link :: "string option"
  gr_size :: "int option"
  gr_pub_date :: "datetime option"
  gr_protocol :: string
  gr_source :: string

record blocklist_row =
  bl_series_id :: "int option"
  bl_issue_id :: "int option"
  bl_source_title :: "string option"
  bl_guid :: "string option"
  bl_indexer_id :: "int option"
  bl_indexer_name :: "string option"
  bl_size :: "int option"
  bl_publish_date :: "datetime option"
  bl_protocol :: string
  bl_source :: string
  bl_source_url :: "string option"
  bl_download_id :: string
  bl_message :: "string option"
  bl_created_at :: datetime

record failed_history =
  fh_series_id :: "int option"
  fh_issue_id :: "int option"
  fh_download_id :: string
  fh_source_title :: "string option"
  fh_message :: "string option"
  fh_indexer :: "string option"
  fh_protocol :: string

record failure_event =
  fe_download_id :: string
  fe_source_title :: "string option"
  fe_guid :: "string option"
  fe_indexer_id :: "int option"
  fe_indexer_name :: "string option"
  fe_size :: "int option"
  fe_publish_date :: "datetime option"
  fe_protocol :: string
  fe_source :: string
  fe_issues :: "(int \<times> int) list"

datatype dl_event =
    State_changed string tracked_state tracked_status "int option" "int option"
  | Blocklist_changed
  | Download_failed failure_event

record download_db =
  tracked :: "tracked_row list"
  grabs :: "grab_row list"
  blocklist :: "blocklist_row list"
  dl_history :: "failed_history list"
  dl_events :: "dl_event list"

definition SOURCE_DDL :: string where "SOURCE_DDL = ''ddl''"
definition SOURCE_INDEXER :: string where "SOURCE_INDEXER = ''indexer''"
definition PROTOCOL_DDL :: string where "PROTOCOL_DDL = ''ddl''"

section \<open>The cheap check\<close>

text \<open>The em dash is outside the character type and stands as its UTF-8 bytes.\<close>

definition EM_DASH :: string where
  "EM_DASH = map char_of [226, 128, 148 :: nat]"

definition classify_item :: "client_item \<Rightarrow> tracked_state \<times> tracked_status \<times> string list" where
  "classify_item item =
     (if it_encrypted item \<or> it_status item = Item_failed then
        (Failed_pending, Error_status,
         [str_or (it_reason item)
            (if it_encrypted item then ''encrypted / password-protected archive'' else ''download failed'')])
      else if it_status item = Item_warning then
        (Import_blocked, Warning_status,
         [str_or (it_reason item)
            (''completed but not importable '' @ EM_DASH @ '' check remote path mapping'')])
      else if it_status item = Item_completed then (Import_pending, Ok_status, [])
      else if it_status item = Item_paused then (Downloading, Warning_status, [''paused''])
      else (Downloading, Ok_status, []))"

definition terminal_state :: "tracked_state \<Rightarrow> bool" where
  "terminal_state st \<longleftrightarrow> st \<in> {Failed, Ignored, Importing, Imported}"

definition should_advance :: "tracked_state \<Rightarrow> tracked_state \<Rightarrow> bool" where
  "should_advance current tgt =
     (if terminal_state current then False
      else if current \<in> {Import_pending, Import_blocked} \<and> tgt = Downloading then False
      else if current = Failed_pending \<and> tgt \<in> {Downloading, Import_pending, Import_blocked} then False
      else True)"

text \<open>The library rows adoption reads: series (id, matching key), issues (id, series id, number).\<close>

record adoption_library =
  al_series :: "(int \<times> string) list"
  al_issues :: "(int \<times> int \<times> string) list"

definition adopt_by_tag :: "adoption_library \<Rightarrow> parse_result \<Rightarrow> (int option \<times> int option \<times> string) option" where
  "adopt_by_tag lib p =
     (case p_issue_tag p of None \<Rightarrow> None
      | Some tag \<Rightarrow>
          (case py_int tag of None \<Rightarrow> None
           | Some iid \<Rightarrow>
               (case find (\<lambda>i. fst i = iid) (al_issues lib) of None \<Rightarrow> None
                | Some (i, sid, num) \<Rightarrow>
                    Some (Some sid, Some i, ''adopted via issue-id tag onto issue '' @ show_int iid))))"

definition adopt_by_title :: "adoption_library \<Rightarrow> parse_result \<Rightarrow> (int option \<times> int option \<times> string) option" where
  "adopt_by_title lib p =
     (case (p_key p, p_issue p) of
        (Some key, Some iss) \<Rightarrow>
          if key = [] then None
          else
            (case find (\<lambda>s. snd s = key) (al_series lib) of None \<Rightarrow> None
             | Some (sid, _) \<Rightarrow>
                 (case find (\<lambda>(i, s, num). s = sid \<and> num = in_display iss) (al_issues lib) of
                    None \<Rightarrow> None
                  | Some (i, _) \<Rightarrow> Some (Some sid, Some i, ''adopted via title match'')))
      | _ \<Rightarrow> None)"

definition adopt_unmatched ::
  "(string \<Rightarrow> int \<Rightarrow> parse_result result) \<Rightarrow> adoption_library \<Rightarrow> datetime \<Rightarrow> string \<Rightarrow>
   int option \<times> int option \<times> string" where
  "adopt_unmatched parse lib now ttl =
     (case parse ttl (year_of now) of
        Inl e \<Rightarrow> (None, None, ''unmatched download (re-parse failed)'')
      | Inr p \<Rightarrow>
          (case adopt_by_tag lib p of
             Some a \<Rightarrow> a
           | None \<Rightarrow>
               (case adopt_by_title lib p of
                  Some a \<Rightarrow> a
                | None \<Rightarrow> (None, None, ''unmatched download (unknown)''))))"

definition refresh_mutable_fields :: "client_item \<Rightarrow> datetime \<Rightarrow> tracked_row \<Rightarrow> tracked_row" where
  "refresh_mutable_fields item now r =
     r\<lparr>tr_title := Some (it_title item), tr_category := Some (it_category item),
       tr_total_size := Some (it_total_size item), tr_remaining_size := Some (it_remaining_size item),
       tr_estimated_time := map_option py_round (it_estimated_time item),
       tr_output_path := (case it_output_path item of None \<Rightarrow> tr_output_path r | Some q \<Rightarrow> Some q),
       tr_encrypted := tr_encrypted r \<or> it_encrypted item, tr_updated_at := now\<rparr>"

definition next_tracked_id :: "tracked_row list \<Rightarrow> int" where
  "next_tracked_id rows = 1 + foldr max (map tr_id rows) 0"

definition grabs_of :: "string \<Rightarrow> grab_row list \<Rightarrow> grab_row list" where
  "grabs_of did gs = filter (\<lambda>g. gr_download_id g = did) gs"

definition create_tracked_row ::
  "(string \<Rightarrow> int \<Rightarrow> parse_result result) \<Rightarrow> adoption_library \<Rightarrow> datetime \<Rightarrow> observation \<Rightarrow>
   download_db \<Rightarrow> tracked_row" where
  "create_tracked_row parse lib now obs db =
     (let item = ob_item obs;
          (sid, iid, src, idx, msgs) =
            (case grabs_of (it_download_id item) (grabs db) of
               g # _ \<Rightarrow> (gr_series_id g, gr_issue_id g, gr_source g, gr_indexer_name g, [])
             | [] \<Rightarrow>
                 (case adopt_unmatched parse lib now (it_title item) of
                    (s, i, msg) \<Rightarrow>
                      (s, i, if ob_protocol obs = PROTOCOL_DDL then SOURCE_DDL else SOURCE_INDEXER,
                       None, [msg])))
      in \<lparr>tr_id = next_tracked_id (tracked db), tr_download_id = it_download_id item,
          tr_client_id = ob_client_id obs, tr_client_name = ob_client_name obs,
          tr_protocol = ob_protocol obs, tr_source = src, tr_state = Downloading, tr_status = Ok_status,
          tr_messages = msgs, tr_series_id = sid, tr_issue_id = iid, tr_indexer_name = idx,
          tr_title = None, tr_category = None, tr_total_size = None, tr_remaining_size = None,
          tr_estimated_time = None, tr_output_path = None, tr_encrypted = False, tr_added_at = now,
          tr_updated_at = now, tr_stall_count = 0, tr_first_stalled_at = None\<rparr>)"

definition tr_key :: "tracked_row \<Rightarrow> int option \<times> string" where
  "tr_key r = (tr_client_id r, tr_download_id r)"

definition state_event :: "tracked_row \<Rightarrow> dl_event" where
  "state_event r = State_changed (tr_download_id r) (tr_state r) (tr_status r) (tr_series_id r) (tr_issue_id r)"

definition observe_one ::
  "(string \<Rightarrow> int \<Rightarrow> parse_result result) \<Rightarrow> adoption_library \<Rightarrow> datetime \<Rightarrow> observation \<Rightarrow>
   download_db \<Rightarrow> download_db" where
  "observe_one parse lib now obs db =
     (let item = ob_item obs;
          (tgt, status, msgs) = classify_item item;
          found = row_get tr_key (ob_client_id obs, it_download_id item) (tracked db);
          is_new = (found = None);
          row0 = (case found of None \<Rightarrow> create_tracked_row parse lib now obs db | Some r \<Rightarrow> r);
          base = (if is_new then tr_messages row0 else []);
          row1 = refresh_mutable_fields item now row0
      in if should_advance (tr_state row1) tgt then
           (let changed = (is_new \<or> tr_state row1 \<noteq> tgt);
                row2 = row1\<lparr>tr_state := tgt, tr_status := status, tr_messages := base @ msgs,
                            tr_updated_at := now\<rparr>
            in db\<lparr>tracked := row_put tr_id row2 (tracked db),
                  dl_events := dl_events db @ (if changed then [state_event row2] else [])\<rparr>)
         else db\<lparr>tracked := row_put tr_id row1 (tracked db)\<rparr>)"

definition vanished :: "string set \<Rightarrow> int option set option \<Rightarrow> tracked_row \<Rightarrow> bool" where
  "vanished seen polled r \<longleftrightarrow>
     tr_download_id r \<notin> seen \<and> tr_state r = Downloading \<and>
     (case polled of None \<Rightarrow> True | Some ids \<Rightarrow> tr_client_id r \<in> ids)"

definition mark_vanished :: "datetime \<Rightarrow> tracked_row \<Rightarrow> tracked_row" where
  "mark_vanished now r =
     r\<lparr>tr_state := Failed_pending, tr_status := Error_status,
       tr_messages := [''download vanished from the client before completing''], tr_updated_at := now\<rparr>"

definition sweep_vanished :: "string set \<Rightarrow> int option set option \<Rightarrow> datetime \<Rightarrow> download_db \<Rightarrow> download_db" where
  "sweep_vanished seen polled now db =
     (let gone = vanished seen polled
      in db\<lparr>tracked := map (\<lambda>r. if gone r then mark_vanished now r else r) (tracked db),
            dl_events := dl_events db @ map (\<lambda>r. state_event (mark_vanished now r)) (filter gone (tracked db))\<rparr>)"

definition reconcile_downloads ::
  "(string \<Rightarrow> int \<Rightarrow> parse_result result) \<Rightarrow> adoption_library \<Rightarrow> bool \<Rightarrow> observation list \<Rightarrow>
   int option set option \<Rightarrow> datetime \<Rightarrow> download_db \<Rightarrow> download_db result" where
  "reconcile_downloads parse lib commit_ok obs polled now db =
     (if commit_ok
      then Inr (sweep_vanished (set (map (it_download_id \<circ> ob_item) obs)) polled now
             (fold (observe_one parse lib now) obs db))
      else Inl DatabaseBusyError)"

text \<open>\<open>collect_observations\<close>: a client that raises is skipped, its id not polled.\<close>

record client_row =
  cl_id :: int
  cl_name :: string
  cl_protocol :: string

definition collect_observations ::
  "(client_row \<times> client_item list result) list \<Rightarrow> int option set \<times> observation list" where
  "collect_observations clients =
     (set (List.map_filter (\<lambda>(c, res). case res of Inl e \<Rightarrow> None | Inr its \<Rightarrow> Some (Some (cl_id c))) clients),
      concat (map (\<lambda>(c, res). case res of Inl e \<Rightarrow> []
        | Inr its \<Rightarrow> map (\<lambda>it. \<lparr>ob_client_id = Some (cl_id c), ob_client_name = Some (cl_name c),
            ob_protocol = cl_protocol c, ob_item = it\<rparr>) its) clients))"

section \<open>The failure loop\<close>

fun dedup_pairs :: "(int \<times> int) list \<Rightarrow> (int \<times> int) list \<Rightarrow> (int \<times> int) list" where
  "dedup_pairs seen [] = []"
| "dedup_pairs seen (q # qs) =
     (if q \<in> set seen then dedup_pairs seen qs else q # dedup_pairs (q # seen) qs)"

definition grab_pair :: "grab_row \<Rightarrow> (int \<times> int) option" where
  "grab_pair g = (case (gr_series_id g, gr_issue_id g) of (Some s, Some i) \<Rightarrow> Some (s, i) | _ \<Rightarrow> None)"

definition affected_issues :: "tracked_row \<Rightarrow> grab_row list \<Rightarrow> (int \<times> int) list" where
  "affected_issues r gs =
     (let ps = dedup_pairs [] (List.map_filter grab_pair gs)
      in if ps = [] then
           (case (tr_series_id r, tr_issue_id r) of (Some s, Some i) \<Rightarrow> [(s, i)] | _ \<Rightarrow> [])
         else ps)"

definition new_blocklist_row ::
  "tracked_row \<Rightarrow> grab_row list \<Rightarrow> datetime \<Rightarrow> string option \<Rightarrow> blocklist_row" where
  "new_blocklist_row r gs now msg =
     (case gs of
        [] \<Rightarrow>
          \<lparr>bl_series_id = tr_series_id r, bl_issue_id = tr_issue_id r, bl_source_title = tr_title r,
           bl_guid = None, bl_indexer_id = None, bl_indexer_name = tr_indexer_name r,
           bl_size = tr_total_size r, bl_publish_date = None, bl_protocol = tr_protocol r,
           bl_source = tr_source r, bl_source_url = None, bl_download_id = tr_download_id r,
           bl_message = msg, bl_created_at = now\<rparr>
      | g # _ \<Rightarrow>
          \<lparr>bl_series_id = tr_series_id r, bl_issue_id = tr_issue_id r, bl_source_title = Some (gr_title g),
           bl_guid = gr_guid g, bl_indexer_id = gr_indexer_id g, bl_indexer_name = gr_indexer_name g,
           bl_size = gr_size g, bl_publish_date = gr_pub_date g, bl_protocol = gr_protocol g,
           bl_source = gr_source g,
           bl_source_url = (if gr_protocol g = PROTOCOL_DDL \<or> gr_source g = SOURCE_DDL then gr_link g else None),
           bl_download_id = tr_download_id r, bl_message = msg, bl_created_at = now\<rparr>)"

definition new_failed_history :: "tracked_row \<Rightarrow> grab_row list \<Rightarrow> string option \<Rightarrow> failed_history" where
  "new_failed_history r gs msg =
     \<lparr>fh_series_id = tr_series_id r, fh_issue_id = tr_issue_id r, fh_download_id = tr_download_id r,
      fh_source_title = (case gs of [] \<Rightarrow> tr_title r | g # _ \<Rightarrow> Some (gr_title g)), fh_message = msg,
      fh_indexer = (case gs of [] \<Rightarrow> tr_indexer_name r | g # _ \<Rightarrow> gr_indexer_name g),
      fh_protocol = (case gs of [] \<Rightarrow> tr_protocol r | g # _ \<Rightarrow> gr_protocol g)\<rparr>"

definition new_failure_event :: "tracked_row \<Rightarrow> grab_row list \<Rightarrow> failure_event" where
  "new_failure_event r gs =
     (let b = new_blocklist_row r gs 0 None
      in \<lparr>fe_download_id = tr_download_id r, fe_source_title = bl_source_title b, fe_guid = bl_guid b,
          fe_indexer_id = bl_indexer_id b, fe_indexer_name = bl_indexer_name b, fe_size = bl_size b,
          fe_publish_date = bl_publish_date b, fe_protocol = bl_protocol b, fe_source = bl_source b,
          fe_issues = affected_issues r gs\<rparr>)"

definition mark_failed :: "datetime \<Rightarrow> tracked_row \<Rightarrow> tracked_row" where
  "mark_failed now r = r\<lparr>tr_state := Failed, tr_status := Error_status, tr_updated_at := now\<rparr>"

definition fail_one :: "datetime \<Rightarrow> tracked_row \<Rightarrow> download_db \<Rightarrow> download_db" where
  "fail_one now r db =
     (let gs = grabs_of (tr_download_id r) (grabs db);
          joined = str_join ''; '' (tr_messages r);
          msg = (if joined = [] then None else Some joined)
      in db\<lparr>tracked := row_put tr_id (mark_failed now r) (tracked db),
            blocklist := blocklist db @ [new_blocklist_row r gs now msg],
            dl_history := dl_history db @ [new_failed_history r gs msg],
            dl_events := dl_events db @ [Blocklist_changed, Download_failed (new_failure_event r gs)]\<rparr>)"

definition pending_failures :: "download_db \<Rightarrow> tracked_row list" where
  "pending_failures db = filter (\<lambda>r. tr_state r = Failed_pending) (tracked db)"

text \<open>
  The re-search, after the commit: one \<open>enqueue\<close> of the command service per affected issue,
  skipping read-only issues and repeats. An enqueue that raises leaves the loop.
\<close>

fun research_loop ::
  "('s \<Rightarrow> int \<times> int \<Rightarrow> ('s \<times> 'r) result) \<Rightarrow> int set \<Rightarrow> (int \<times> int) list \<Rightarrow> (int \<times> int) set \<Rightarrow> 's \<Rightarrow>
   's \<times> unit result" where
  "research_loop submit browse [] queued s = (s, Inr ())"
| "research_loop submit browse (q # qs) queued s =
     (if snd q \<in> browse \<or> q \<in> queued then research_loop submit browse qs queued s
      else
        (case submit s q of
           Inl e \<Rightarrow> (s, Inl e)
         | Inr (s', _) \<Rightarrow> research_loop submit browse qs (insert q queued) s'))"

definition process_failures ::
  "('s \<Rightarrow> int \<times> int \<Rightarrow> ('s \<times> 'r) result) \<Rightarrow> bool \<Rightarrow> int set \<Rightarrow> bool \<Rightarrow> datetime \<Rightarrow> download_db \<times> 's \<Rightarrow>
   (download_db \<times> 's) \<times> (string \<times> (int \<times> int) list) list result" where
  "process_failures submit auto_redownload browse commit_ok now dbs =
     (case dbs of (db, s) \<Rightarrow>
        if \<not> commit_ok then ((db, s), Inl DatabaseBusyError)
        else
          (let rows = pending_failures db;
               infos = map (\<lambda>r. (tr_download_id r, affected_issues r (grabs_of (tr_download_id r) (grabs db)))) rows;
               db' = fold (fail_one now) rows db
           in if \<not> auto_redownload then ((db', s), Inr infos)
              else
                (case research_loop submit browse (concat (map snd infos)) {} s of
                   (s', Inl e) \<Rightarrow> ((db', s'), Inl e)
                 | (s', Inr _) \<Rightarrow> ((db', s'), Inr infos))))"

section \<open>The live stores\<close>

definition active_queue_state :: "tracked_state \<Rightarrow> bool" where
  "active_queue_state st \<longleftrightarrow>
     st \<in> {Downloading, Import_blocked, Import_pending, Failed_pending, Importing, Imported}"

definition load_queue_store :: "download_db \<Rightarrow> int \<Rightarrow> int \<Rightarrow> bool" where
  "load_queue_store db sid iid \<longleftrightarrow>
     list_ex (\<lambda>r. tr_series_id r = Some sid \<and> tr_issue_id r = Some iid \<and> active_queue_state (tr_state r))
       (tracked db)"

definition entry_matches :: "blocklist_row \<Rightarrow> candidate \<Rightarrow> bool" where
  "entry_matches b c =
     (if bl_guid b = Some (guid c) \<and> (bl_indexer_id b = None \<or> bl_indexer_id b = Some (indexer_id c)) then True
      else if bl_protocol b = PROTOCOL_DDL \<or> bl_source b = SOURCE_DDL then
        bl_source_url b = Some (link c) \<or> bl_source_title b = Some (title c)
      else
        bl_source_title b = Some (title c) \<and> bl_indexer_name b = Some (indexer_name c) \<and>
        bl_size b \<noteq> None \<and> bl_size b = size_bytes c \<and>
        (bl_publish_date b = None \<or> pub_date c = None \<or> bl_publish_date b = pub_date c))"

definition load_blocklist_store :: "download_db \<Rightarrow> candidate \<Rightarrow> bool" where
  "load_blocklist_store db c \<longleftrightarrow> list_ex (\<lambda>b. entry_matches b c) (blocklist db)"


section \<open>Tables of tracked rows\<close>

interpretation tracked_store: keyed_store tr_id "row_get tr_id" "row_put tr_id" "row_del tr_id"
  "unique_key tr_id"
  by (rule keyed_store_rows)

definition state_of :: "download_db \<Rightarrow> int \<Rightarrow> tracked_state option" where
  "state_of db i = map_option tr_state (row_get tr_id i (tracked db))"

lemma next_tracked_id_gt: "r \<in> set rows \<Longrightarrow> tr_id r < next_tracked_id rows"
  unfolding next_tracked_id_def by (induction rows) auto

lemma next_tracked_id_fresh: "row_get tr_id (next_tracked_id rows) rows = None"
  using next_tracked_id_gt by (fastforce simp: row_get_None)

lemma refresh_mutable_fields_simps [simp]:
  "tr_id (refresh_mutable_fields item now r) = tr_id r"
  "tr_state (refresh_mutable_fields item now r) = tr_state r"
  "tr_client_id (refresh_mutable_fields item now r) = tr_client_id r"
  "tr_download_id (refresh_mutable_fields item now r) = tr_download_id r"
  by (simp_all add: refresh_mutable_fields_def)

lemma mark_vanished_simps [simp]:
  "tr_id (mark_vanished now r) = tr_id r"
  "tr_state (mark_vanished now r) = Failed_pending"
  "tr_client_id (mark_vanished now r) = tr_client_id r"
  by (simp_all add: mark_vanished_def)

lemma mark_failed_simps [simp]:
  "tr_id (mark_failed now r) = tr_id r"
  "tr_state (mark_failed now r) = Failed"
  by (simp_all add: mark_failed_def)

lemma create_tracked_row_simps [simp]:
  "tr_id (create_tracked_row parse lib now obs db) = next_tracked_id (tracked db)"
  "tr_state (create_tracked_row parse lib now obs db) = Downloading"
  "tr_client_id (create_tracked_row parse lib now obs db) = ob_client_id obs"
  "tr_download_id (create_tracked_row parse lib now obs db) = it_download_id (ob_item obs)"
  by (auto simp: create_tracked_row_def Let_def split: list.splits prod.splits)

text \<open>One observation writes one row, which either exists under its key or is new.\<close>

lemma observe_one_row:
  obtains r where "tracked (observe_one parse lib now obs db) = row_put tr_id r (tracked db)"
    and "tr_client_id r = ob_client_id obs" and "tr_download_id r = it_download_id (ob_item obs)"
    and "row_get tr_key (ob_client_id obs, it_download_id (ob_item obs)) (tracked db) = None \<Longrightarrow>
         tr_id r = next_tracked_id (tracked db)"
    and "\<And>q. row_get tr_key (ob_client_id obs, it_download_id (ob_item obs)) (tracked db) = Some q \<Longrightarrow>
         tr_id r = tr_id q \<and> (tr_state r = tr_state q \<or>
           tr_state r = fst (classify_item (ob_item obs)) \<and> should_advance (tr_state q) (tr_state r))"
proof -
  let ?k = "(ob_client_id obs, it_download_id (ob_item obs))"
  obtain tgt st ms where c: "classify_item (ob_item obs) = (tgt, st, ms)" by (metis prod_cases3)
  let ?f = "row_get tr_key ?k (tracked db)"
  let ?r0 = "case ?f of None \<Rightarrow> create_tracked_row parse lib now obs db | Some r \<Rightarrow> r"
  let ?r1 = "refresh_mutable_fields (ob_item obs) now ?r0"
  let ?r2 = "?r1\<lparr>tr_state := tgt, tr_status := st,
      tr_messages := (if ?f = None then tr_messages ?r0 else []) @ ms, tr_updated_at := now\<rparr>"
  let ?r = "if should_advance (tr_state ?r1) tgt then ?r2 else ?r1"
  have key: "tr_client_id ?r0 = ob_client_id obs \<and> tr_download_id ?r0 = it_download_id (ob_item obs)"
    by (cases ?f) (auto dest: row_get_SomeD simp: tr_key_def)
  show thesis
  proof (rule that [of ?r])
    show "tracked (observe_one parse lib now obs db) = row_put tr_id ?r (tracked db)"
      by (simp add: observe_one_def c Let_def)
    show "?f = None \<Longrightarrow> tr_id ?r = next_tracked_id (tracked db)" by simp
    show "\<And>q. ?f = Some q \<Longrightarrow> tr_id ?r = tr_id q \<and> (tr_state ?r = tr_state q \<or>
        tr_state ?r = fst (classify_item (ob_item obs)) \<and> should_advance (tr_state q) (tr_state ?r))"
      by (simp add: c)
  qed (use key in simp_all)
qed

lemma unique_observe_one:
  "unique_key tr_id (tracked db) \<Longrightarrow> unique_key tr_id (tracked (observe_one parse lib now obs db))"
  by (rule observe_one_row [of parse lib now obs db]) (simp add: unique_row_put)

lemma unique_observe_all:
  "unique_key tr_id (tracked db) \<Longrightarrow> unique_key tr_id (tracked (fold (observe_one parse lib now) obs db))"
  by (induction obs arbitrary: db) (simp_all add: unique_observe_one)

lemma unique_sweep_vanished:
  "unique_key tr_id (tracked db) \<Longrightarrow> unique_key tr_id (tracked (sweep_vanished seen polled now db))"
  by (simp add: sweep_vanished_def Let_def unique_key_map)

lemma unique_reconcile:
  "reconcile_downloads parse lib ok obs polled now db = Inr db' \<Longrightarrow> unique_key tr_id (tracked db) \<Longrightarrow>
   unique_key tr_id (tracked db')"
  by (auto simp: reconcile_downloads_def unique_sweep_vanished unique_observe_all split: if_splits)

section \<open>Life cycle\<close>

text \<open>What one poll may do to the state of a tracked download.\<close>

definition poll_moves :: "tracked_state \<Rightarrow> tracked_state \<Rightarrow> bool" where
  "poll_moves a b \<longleftrightarrow>
     a = b \<or> (a = Downloading \<and> b \<in> {Import_pending, Import_blocked, Failed_pending}) \<or>
     (a \<in> {Import_pending, Import_blocked} \<and> b \<in> {Import_pending, Import_blocked, Failed_pending})"

lemma poll_moves_refl [simp]: "poll_moves a a"
  by (simp add: poll_moves_def)

lemma poll_moves_trans: "poll_moves a b \<Longrightarrow> poll_moves b c \<Longrightarrow> poll_moves a c"
  by (auto simp: poll_moves_def)

lemma classify_item_targets:
  "fst (classify_item item) \<in> {Downloading, Import_pending, Import_blocked, Failed_pending}"
  by (simp add: classify_item_def)

lemma should_advance_moves:
  "should_advance a (fst (classify_item item)) \<Longrightarrow> poll_moves a (fst (classify_item item))"
  using classify_item_targets [of item]
  by (cases a) (auto simp: should_advance_def terminal_state_def poll_moves_def)

lemma observe_one_moves:
  assumes u: "unique_key tr_id (tracked db)" and r: "row_get tr_id i (tracked db) = Some r"
  shows "\<exists>r'. row_get tr_id i (tracked (observe_one parse lib now obs db)) = Some r' \<and>
    poll_moves (tr_state r) (tr_state r')"
proof (rule observe_one_row [of parse lib now obs db])
  fix w
  let ?f = "row_get tr_key (ob_client_id obs, it_download_id (ob_item obs)) (tracked db)"
  assume t: "tracked (observe_one parse lib now obs db) = row_put tr_id w (tracked db)"
    and new: "?f = None \<Longrightarrow> tr_id w = next_tracked_id (tracked db)"
    and old: "\<And>q. ?f = Some q \<Longrightarrow> tr_id w = tr_id q \<and> (tr_state w = tr_state q \<or>
           tr_state w = fst (classify_item (ob_item obs)) \<and> should_advance (tr_state q) (tr_state w))"
  show ?thesis
  proof (cases "tr_id w = i")
    case False
    then show ?thesis using r by (simp add: t row_get_put)
  next
    case True
    then obtain q where q: "?f = Some q"
      using new r next_tracked_id_fresh [of "tracked db"] by (cases ?f) auto
    then have "q = r"
      using old [OF q] True r u row_get_SomeD [OF q] row_get_unique by fastforce
    then have "poll_moves (tr_state r) (tr_state w)"
      using old [OF q] should_advance_moves by auto
    then show ?thesis using True by (simp add: t row_get_put)
  qed
qed

lemma observe_all_moves:
  "unique_key tr_id (tracked db) \<Longrightarrow> row_get tr_id i (tracked db) = Some r \<Longrightarrow>
   \<exists>r'. row_get tr_id i (tracked (fold (observe_one parse lib now) obs db)) = Some r' \<and>
     poll_moves (tr_state r) (tr_state r')"
proof (induction obs arbitrary: db r)
  case (Cons ob obs)
  from observe_one_moves [OF Cons.prems] obtain r1
    where r1: "row_get tr_id i (tracked (observe_one parse lib now ob db)) = Some r1"
      and m1: "poll_moves (tr_state r) (tr_state r1)" by blast
  from Cons.IH [OF unique_observe_one [OF Cons.prems(1)] r1] obtain r2
    where r2: "row_get tr_id i (tracked (fold (observe_one parse lib now) obs
        (observe_one parse lib now ob db))) = Some r2"
      and m2: "poll_moves (tr_state r1) (tr_state r2)" by blast
  show ?case using r2 poll_moves_trans [OF m1 m2] by simp
qed simp

lemma row_get_sweep:
  "row_get tr_id i (tracked (sweep_vanished seen polled now db)) =
   map_option (\<lambda>r. if vanished seen polled r then mark_vanished now r else r) (row_get tr_id i (tracked db))"
  by (simp add: sweep_vanished_def Let_def row_get_map)

lemma reconcile_moves:
  assumes "reconcile_downloads parse lib ok obs polled now db = Inr db'"
    and "unique_key tr_id (tracked db)" and "row_get tr_id i (tracked db) = Some r"
  shows "\<exists>r'. row_get tr_id i (tracked db') = Some r' \<and> poll_moves (tr_state r) (tr_state r')"
proof -
  let ?seen = "set (map (it_download_id \<circ> ob_item) obs)"
  have db': "db' = sweep_vanished ?seen polled now (fold (observe_one parse lib now) obs db)"
    using assms(1) by (auto simp: reconcile_downloads_def split: if_splits)
  from observe_all_moves [OF assms(2,3)] obtain r1
    where r1: "row_get tr_id i (tracked (fold (observe_one parse lib now) obs db)) = Some r1"
      and m: "poll_moves (tr_state r) (tr_state r1)" by blast
  let ?r2 = "if vanished ?seen polled r1 then mark_vanished now r1 else r1"
  have "poll_moves (tr_state r1) (tr_state ?r2)"
    by (auto simp: vanished_def poll_moves_def)
  with m have "poll_moves (tr_state r) (tr_state ?r2)" by (rule poll_moves_trans)
  moreover have "row_get tr_id i (tracked db') = Some ?r2"
    by (simp add: db' row_get_sweep r1)
  ultimately show ?thesis by blast
qed

section \<open>Outages\<close>

lemma observe_one_other_client:
  assumes u: "unique_key tr_id (tracked db)" and r: "row_get tr_id i (tracked db) = Some r"
    and c: "ob_client_id obs \<noteq> tr_client_id r"
  shows "row_get tr_id i (tracked (observe_one parse lib now obs db)) = Some r"
proof (rule observe_one_row [of parse lib now obs db])
  fix w
  let ?f = "row_get tr_key (ob_client_id obs, it_download_id (ob_item obs)) (tracked db)"
  assume t: "tracked (observe_one parse lib now obs db) = row_put tr_id w (tracked db)"
    and new: "?f = None \<Longrightarrow> tr_id w = next_tracked_id (tracked db)"
    and old: "\<And>q. ?f = Some q \<Longrightarrow> tr_id w = tr_id q \<and> (tr_state w = tr_state q \<or>
           tr_state w = fst (classify_item (ob_item obs)) \<and> should_advance (tr_state q) (tr_state w))"
  have "tr_id w \<noteq> i"
  proof
    assume w: "tr_id w = i"
    then obtain q where q: "?f = Some q"
      using new r next_tracked_id_fresh [of "tracked db"] by (cases ?f) auto
    then have "q = r"
      using old [OF q] w r u row_get_SomeD [OF q] row_get_unique by fastforce
    then show False using row_get_SomeD [OF q] c by (simp add: tr_key_def)
  qed
  then show ?thesis by (simp add: t row_get_put r)
qed

lemma observe_all_other_client:
  "unique_key tr_id (tracked db) \<Longrightarrow> row_get tr_id i (tracked db) = Some r \<Longrightarrow>
   list_all (\<lambda>ob. ob_client_id ob \<noteq> tr_client_id r) obs \<Longrightarrow>
   row_get tr_id i (tracked (fold (observe_one parse lib now) obs db)) = Some r"
  by (induction obs arbitrary: db) (simp_all add: unique_observe_one observe_one_other_client)

lemma collected_client_polled:
  "ob \<in> set (snd (collect_observations clients)) \<Longrightarrow> ob_client_id ob \<in> fst (collect_observations clients)"
  by (induction clients)
    (auto simp: collect_observations_def map_filter_def split: sum.splits if_splits)

text \<open>C22: A client outage never fails its queue: whatever the reachable clients report, a poll
  leaves every tracked download of a client that was not polled (it raised, or is not
  configured) exactly as it was, its state included.\<close>

theorem outage_preserves_downloads:
  assumes "unique_key tr_id (tracked db)" and "row_get tr_id i (tracked db) = Some r"
    and "tr_client_id r \<notin> fst (collect_observations clients)"
    and "reconcile_downloads parse lib True (snd (collect_observations clients))
           (Some (fst (collect_observations clients))) now db = Inr db'"
  shows "row_get tr_id i (tracked db') = Some r"
proof -
  let ?p = "fst (collect_observations clients)" and ?obs = "snd (collect_observations clients)"
  have "list_all (\<lambda>ob. ob_client_id ob \<noteq> tr_client_id r) ?obs"
    unfolding list_all_iff using assms(3) collected_client_polled by metis
  then have "row_get tr_id i (tracked (fold (observe_one parse lib now) ?obs db)) = Some r"
    by (rule observe_all_other_client [OF assms(1,2)])
  moreover have "\<not> vanished (set (map (it_download_id \<circ> ob_item) ?obs)) (Some ?p) r"
    using assms(3) by (simp add: vanished_def)
  ultimately show ?thesis
    using assms(4) by (auto simp: reconcile_downloads_def row_get_sweep)
qed

definition sample_row :: tracked_row where
  "sample_row = \<lparr>tr_id = 1, tr_download_id = ''SAB_1'', tr_client_id = Some 7, tr_client_name = Some ''sab'',
     tr_protocol = ''usenet'', tr_source = SOURCE_INDEXER, tr_state = Downloading, tr_status = Ok_status,
     tr_messages = [], tr_series_id = Some 3, tr_issue_id = Some 30, tr_indexer_name = None,
     tr_title = Some ''Saga 001'', tr_category = None, tr_total_size = None, tr_remaining_size = None,
     tr_estimated_time = None, tr_output_path = None, tr_encrypted = False, tr_added_at = 0,
     tr_updated_at = 0, tr_stall_count = 0, tr_first_stalled_at = None\<rparr>"

definition sample_db :: "tracked_row list \<Rightarrow> download_db" where
  "sample_db rows = \<lparr>tracked = rows, grabs = [], blocklist = [], dl_history = [], dl_events = []\<rparr>"

definition no_parse :: "string \<Rightarrow> int \<Rightarrow> parse_result result" where
  "no_parse t y = Inl ValueError"

definition no_library :: adoption_library where
  "no_library = \<lparr>al_series = [], al_issues = []\<rparr>"

text \<open>The same row is failed when its client answers without it, kept when the client raises.\<close>

lemma outage_preserves_downloads_witness:
  "case reconcile_downloads no_parse no_library True
     (snd (collect_observations [(\<lparr>cl_id = 7, cl_name = ''sab'', cl_protocol = ''usenet''\<rparr>, Inl ValueError)]))
     (Some (fst (collect_observations
       [(\<lparr>cl_id = 7, cl_name = ''sab'', cl_protocol = ''usenet''\<rparr>, Inl ValueError)]))) 5 (sample_db [sample_row])
   of Inl e \<Rightarrow> False
    | Inr db' \<Rightarrow> row_get tr_id 1 (tracked db') = Some sample_row"
proof -
  let ?c = "[(\<lparr>cl_id = 7, cl_name = ''sab'', cl_protocol = ''usenet''\<rparr>, Inl ValueError)]"
  let ?r = "reconcile_downloads no_parse no_library True (snd (collect_observations ?c))
      (Some (fst (collect_observations ?c))) 5 (sample_db [sample_row])"
  obtain db' where db': "?r = Inr db'" by (simp add: reconcile_downloads_def)
  have "row_get tr_id 1 (tracked db') = Some sample_row"
    by (rule outage_preserves_downloads [OF _ _ _ db'])
      (simp_all add: sample_db_def sample_row_def unique_key_def collect_observations_def map_filter_def)
  then show ?thesis by (simp add: db')
qed

section \<open>The failure loop\<close>

lemma fail_one_fields [simp]:
  "grabs (fail_one now r db) = grabs db"
  "tracked (fail_one now r db) = row_put tr_id (mark_failed now r) (tracked db)"
  by (simp_all add: fail_one_def Let_def)

definition failure_message :: "tracked_row \<Rightarrow> string option" where
  "failure_message r = (let j = str_join ''; '' (tr_messages r) in if j = [] then None else Some j)"

lemma fail_one_blocklist:
  "blocklist (fail_one now r db) =
     blocklist db @ [new_blocklist_row r (grabs_of (tr_download_id r) (grabs db)) now (failure_message r)]"
  "dl_history (fail_one now r db) =
     dl_history db @ [new_failed_history r (grabs_of (tr_download_id r) (grabs db)) (failure_message r)]"
  by (simp_all add: fail_one_def failure_message_def Let_def)

lemma fold_fail_one:
  "grabs (fold (fail_one now) rs db) = grabs db"
  "tracked (fold (fail_one now) rs db) = fold (\<lambda>r. row_put tr_id (mark_failed now r)) rs (tracked db)"
  "blocklist (fold (fail_one now) rs db) = blocklist db @
     map (\<lambda>r. new_blocklist_row r (grabs_of (tr_download_id r) (grabs db)) now (failure_message r)) rs"
  "dl_history (fold (fail_one now) rs db) = dl_history db @
     map (\<lambda>r. new_failed_history r (grabs_of (tr_download_id r) (grabs db)) (failure_message r)) rs"
  by (induction rs arbitrary: db) (simp_all add: fail_one_blocklist)

definition failed_in_place :: "datetime \<Rightarrow> tracked_row \<Rightarrow> tracked_row" where
  "failed_in_place now r = (if tr_state r = Failed_pending then mark_failed now r else r)"

lemma fold_fail_pending:
  "unique_key tr_id (tracked db) \<Longrightarrow>
   tracked (fold (fail_one now) (pending_failures db) db) = map (failed_in_place now) (tracked db)"
  by (simp add: fold_fail_one pending_failures_def fold_row_put_filter failed_in_place_def [abs_def])

lemma no_pending_after: "filter (\<lambda>r. tr_state r = Failed_pending) (map (failed_in_place now) rows) = []"
  by (induction rows) (auto simp: failed_in_place_def)

lemma process_failures_db:
  "fst (fst (process_failures submit auto browse True now (db, s))) = fold (fail_one now) (pending_failures db) db"
  by (auto simp: process_failures_def Let_def split: prod.splits sum.splits)

text \<open>C21: One run of the failure loop promotes exactly the \<open>failed_pending\<close> downloads to \<open>failed\<close> and
  writes for each of them one blocklist row and one history event, in row order and in the same
  transaction, whatever the re-search afterwards does; no other row changes and none is left
  pending.\<close>

theorem failures_processed_once:
  assumes "unique_key tr_id (tracked db)"
    and "process_failures submit auto browse True now (db, s) = ((db', s'), res)"
  shows "tracked db' = map (failed_in_place now) (tracked db) \<and>
    blocklist db' = blocklist db @
      map (\<lambda>r. new_blocklist_row r (grabs_of (tr_download_id r) (grabs db)) now (failure_message r))
        (pending_failures db) \<and>
    dl_history db' = dl_history db @
      map (\<lambda>r. new_failed_history r (grabs_of (tr_download_id r) (grabs db)) (failure_message r))
        (pending_failures db) \<and>
    pending_failures db' = []"
proof -
  have db': "db' = fold (fail_one now) (pending_failures db) db"
    using process_failures_db [of submit auto browse now db s] assms(2) by simp
  then have t: "tracked db' = map (failed_in_place now) (tracked db)"
    by (simp add: fold_fail_pending assms(1))
  then have "pending_failures db' = []"
    by (simp add: pending_failures_def no_pending_after)
  with t db' show ?thesis by (simp add: fold_fail_one)
qed

definition submit_log :: "(int \<times> int) list \<Rightarrow> int \<times> int \<Rightarrow> ((int \<times> int) list \<times> unit) result" where
  "submit_log s q = Inr (s @ [q], ())"

definition submit_busy :: "(int \<times> int) list \<Rightarrow> int \<times> int \<Rightarrow> ((int \<times> int) list \<times> unit) result" where
  "submit_busy s q = Inl DatabaseBusyError"

definition sample_failed :: "int \<Rightarrow> int \<Rightarrow> tracked_row" where
  "sample_failed i issue = sample_row\<lparr>tr_id := i, tr_download_id := ''SAB_'' @ show_int i,
     tr_issue_id := Some issue, tr_state := Failed_pending\<rparr>"

lemma failures_processed_once_witness:
  "case process_failures submit_log True {} True 9 (sample_db [sample_failed 1 30, sample_row\<lparr>tr_id := 2\<rparr>], [])
   of ((db', s'), res) \<Rightarrow> map tr_state (tracked db') = [Failed, Downloading] \<and> length (blocklist db') = 1"
proof -
  let ?db = "sample_db [sample_failed 1 30, sample_row\<lparr>tr_id := 2\<rparr>]"
  obtain db' s' res where p: "process_failures submit_log True {} True 9 (?db, []) = ((db', s'), res)"
    by (metis prod.exhaust)
  have "unique_key tr_id (tracked ?db)"
    by (simp add: unique_key_def sample_db_def sample_failed_def sample_row_def)
  from failures_processed_once [OF this p] show ?thesis
    unfolding p
    by (simp add: sample_db_def sample_failed_def sample_row_def failed_in_place_def pending_failures_def mark_failed_def)
qed

text \<open>The re-search submits every affected issue once, read-only issues apart.\<close>

fun research_targets :: "int set \<Rightarrow> (int \<times> int) list \<Rightarrow> (int \<times> int) set \<Rightarrow> (int \<times> int) list" where
  "research_targets browse [] queued = []"
| "research_targets browse (q # qs) queued =
     (if snd q \<in> browse \<or> q \<in> queued then research_targets browse qs queued
      else q # research_targets browse qs (insert q queued))"

lemma research_targets_set:
  "distinct (research_targets browse qs queued) \<and>
   set (research_targets browse qs queued) = {q \<in> set qs. snd q \<notin> browse} - queued"
  by (induction browse qs queued rule: research_targets.induct) auto

lemma research_loop_log:
  "research_loop submit_log browse qs queued s = (s @ research_targets browse qs queued, Inr ())"
  by (induction browse qs queued arbitrary: s rule: research_targets.induct) (simp_all add: submit_log_def)

text \<open>When the command service accepts every submission, the automatic re-search after a failure
  run submits each issue affected by one of the failed downloads exactly once, except the issues
  of read-only roots, which are never submitted.\<close>

theorem research_covers_failures:
  "case process_failures submit_log True browse True now (db, [])
   of ((db', submitted), res) \<Rightarrow>
     distinct submitted \<and>
     set submitted =
       {q. \<exists>r \<in> set (pending_failures db).
             q \<in> set (affected_issues r (grabs_of (tr_download_id r) (grabs db))) \<and> snd q \<notin> browse} \<and>
     res = Inr (map (\<lambda>r. (tr_download_id r, affected_issues r (grabs_of (tr_download_id r) (grabs db))))
             (pending_failures db))"
  by (auto simp: process_failures_def Let_def research_loop_log research_targets_set comp_def)

text \<open>A re-search that stops early is lost: when submitting one of the issues raises, the downloads
  are already \<open>failed\<close>, and every later run of the failure loop finds nothing to do, so neither
  that issue nor the ones after it are ever re-searched automatically.\<close>

theorem interrupted_research_lost:
  assumes "unique_key tr_id (tracked db)"
    and "process_failures submit True browse True now (db, s) = ((db', s'), Inl e)"
  shows "process_failures submit' auto browse' True now' (db', s') = ((db', s'), Inr [])"
proof -
  have "pending_failures db' = []"
    using failures_processed_once [OF assms] by simp
  then show ?thesis by (simp add: process_failures_def)
qed

lemma interrupted_research_lost_witness:
  "case process_failures submit_busy True {} True 9 (sample_db [sample_failed 1 30, sample_failed 2 40], [])
   of ((db', s'), res) \<Rightarrow> res = Inl DatabaseBusyError \<and> s' = [] \<and> map tr_state (tracked db') = [Failed, Failed] \<and>
     process_failures submit_log True {} True 10 (db', s') = ((db', []), Inr [])"
proof -
  let ?db = "sample_db [sample_failed 1 30, sample_failed 2 40]"
  obtain db' s' res where p: "process_failures submit_busy True {} True 9 (?db, []) = ((db', s'), res)"
    by (metis prod.exhaust)
  have u: "unique_key tr_id (tracked ?db)"
    by (simp add: unique_key_def sample_db_def sample_failed_def sample_row_def)
  have "affected_issues (sample_failed 1 30) [] = [(3, 30)]"
    by (simp add: affected_issues_def sample_failed_def sample_row_def map_filter_def)
  then have r: "s' = []" "res = Inl DatabaseBusyError"
    using p by (auto simp: process_failures_def pending_failures_def sample_db_def grabs_of_def
        submit_busy_def sample_failed_def [of 1] sample_failed_def [of 2] sample_row_def)
  have "map tr_state (tracked db') = [Failed, Failed]"
    using failures_processed_once [OF u p]
    by (simp add: sample_db_def sample_failed_def sample_row_def failed_in_place_def)
  with r interrupted_research_lost [OF u p [unfolded r(2)]] show ?thesis
    unfolding p by simp
qed

end
