(* ===== verification/Grab.thy ===== *)
theory Grab
  imports Downloads
begin

text \<open>
  From a verdict to a download: the hand-off (\<open>search_ops/grab.py\<close>), the choice of the client
  (\<open>downloads/resolver.py\<close>), the interactive-search cache (\<open>search_ops/cache.py\<close>) and the grab
  endpoint that reads it (\<open>api/releases.py\<close>).

  The remote client is a function from the hand-off to a download id or an exception; a download
  it accepted is recorded even when the write after it fails. The cached payload is the hand-off
  itself: its JSON text is written and read by the model class. The read-only tests of the
  library are arguments.
\<close>

section \<open>Hand-off\<close>

record grab_handoff =
  gh_indexer_id :: int
  gh_guid :: string
  gh_link :: string
  gh_title :: string
  gh_size :: "int option"
  gh_pub_date :: "datetime option"
  gh_series_id :: "int option"
  gh_issue_id :: "int option"
  gh_indexer_name :: "string option"

definition handoff_from_decision :: "decision \<Rightarrow> grab_handoff" where
  "handoff_from_decision d =
     (let c = d_candidate d
      in \<lparr>gh_indexer_id = indexer_id c, gh_guid = guid c, gh_link = link c, gh_title = title c,
          gh_size = size_bytes c, gh_pub_date = pub_date c, gh_series_id = d_series d,
          gh_issue_id = d_issue d, gh_indexer_name = Some (indexer_name c)\<rparr>)"

definition write_grab_history_rows ::
  "string \<Rightarrow> (int option \<times> int option) list \<Rightarrow> grab_handoff \<Rightarrow> string \<Rightarrow> string \<Rightarrow> int option \<Rightarrow>
   grab_row list \<Rightarrow> grab_row list" where
  "write_grab_history_rows did targets h protocol src client gs =
     gs @ map (\<lambda>(s, i). \<lparr>gr_download_id = did, gr_client_id = client, gr_series_id = s, gr_issue_id = i,
        gr_indexer_id = Some (gh_indexer_id h), gr_indexer_name = gh_indexer_name h, gr_guid = Some (gh_guid h),
        gr_title = gh_title h, gr_link = Some (gh_link h), gr_size = gh_size h, gr_pub_date = gh_pub_date h,
        gr_protocol = protocol, gr_source = src\<rparr>) targets"

section \<open>Clients\<close>

datatype grab_error =
    Read_only_series
  | No_download_client
  | Client_failed py_error
  | History_not_written

record client_config =
  cc_id :: int
  cc_enabled :: bool
  cc_protocol :: string
  cc_priority :: int
  cc_runnable :: bool

definition protocol_for_indexer :: "(int \<times> string) list \<Rightarrow> int \<Rightarrow> grab_error + string" where
  "protocol_for_indexer indexers i =
     (case map_of indexers i of None \<Rightarrow> Inl No_download_client | Some p \<Rightarrow> Inr p)"

definition client_before :: "client_config \<Rightarrow> client_config \<Rightarrow> bool" where
  "client_before a b \<longleftrightarrow> cc_priority a < cc_priority b \<or> cc_priority a = cc_priority b \<and> cc_id a < cc_id b"

fun least_client :: "client_config \<Rightarrow> client_config list \<Rightarrow> client_config" where
  "least_client best [] = best"
| "least_client best (c # cs) = least_client (if client_before c best then c else best) cs"

definition resolve_client_for :: "client_config list \<Rightarrow> string \<Rightarrow> grab_error + client_config" where
  "resolve_client_for clients protocol =
     (case filter (\<lambda>c. cc_enabled c \<and> cc_protocol c = protocol) clients of
        [] \<Rightarrow> Inl No_download_client
      | c # cs \<Rightarrow>
          (let best = least_client c cs in if cc_runnable best then Inr best else Inl No_download_client))"

section \<open>The grab command\<close>

record grabbed_event =
  ge_series_id :: "int option"
  ge_issue_id :: "int option"
  ge_download_id :: string
  ge_source_title :: string
  ge_protocol :: string
  ge_guid :: string

record grab_state =
  gs_db :: download_db
  gs_history :: "grabbed_event list"
  gs_downloads :: "(int \<times> string) list"
  gs_enqueued :: "string list"

record grab_env =
  ga_read_only_series :: "int \<Rightarrow> bool"
  ga_read_only_issue :: "int \<Rightarrow> bool"
  ga_indexers :: "(int \<times> string) list"
  ga_clients :: "client_config list"
  ga_download :: "int \<Rightarrow> grab_handoff \<Rightarrow> string result"

definition enqueue_grab_followups :: "string \<Rightarrow> grab_state \<Rightarrow> grab_state" where
  "enqueue_grab_followups protocol s =
     s\<lparr>gs_enqueued := gs_enqueued s @ ''track-downloads'' #
         (if protocol = PROTOCOL_DDL then [''process-ddl-queue''] else [])\<rparr>"

definition read_only_target :: "grab_env \<Rightarrow> grab_handoff \<Rightarrow> bool" where
  "read_only_target env h =
     (case gh_series_id h of
        Some s \<Rightarrow> ga_read_only_series env s
      | None \<Rightarrow> (case gh_issue_id h of Some i \<Rightarrow> ga_read_only_issue env i | None \<Rightarrow> False))"

definition prior_download :: "grab_handoff \<Rightarrow> grab_row list \<Rightarrow> string option" where
  "prior_download h gs =
     map_option gr_download_id
       (find (\<lambda>g. gr_indexer_id g = Some (gh_indexer_id h) \<and> gr_guid g = Some (gh_guid h)) gs)"

definition record_grab :: "string \<Rightarrow> string \<Rightarrow> int \<Rightarrow> grab_handoff \<Rightarrow> grab_state \<Rightarrow> grab_state" where
  "record_grab did protocol client h s =
     (let src = (if protocol = PROTOCOL_DDL then SOURCE_DDL else SOURCE_INDEXER)
      in s\<lparr>gs_db := (gs_db s)\<lparr>grabs := write_grab_history_rows did [(gh_series_id h, gh_issue_id h)] h protocol src
             (Some client) (grabs (gs_db s))\<rparr>,
           gs_history := gs_history s @
             [\<lparr>ge_series_id = gh_series_id h, ge_issue_id = gh_issue_id h, ge_download_id = did,
               ge_source_title = gh_title h, ge_protocol = protocol, ge_guid = gh_guid h\<rparr>]\<rparr>)"

definition handle_grab_release ::
  "grab_env \<Rightarrow> bool \<Rightarrow> grab_handoff \<Rightarrow> grab_state \<Rightarrow> grab_state \<times> (grab_error + string)" where
  "handle_grab_release env commit_ok h s =
     (if read_only_target env h then (s, Inl Read_only_series)
      else
        (case protocol_for_indexer (ga_indexers env) (gh_indexer_id h) of
           Inl e \<Rightarrow> (s, Inl e)
         | Inr protocol \<Rightarrow>
             (case prior_download h (grabs (gs_db s)) of
                Some did \<Rightarrow> (enqueue_grab_followups protocol s, Inr did)
              | None \<Rightarrow>
                  (case resolve_client_for (ga_clients env) protocol of
                     Inl e \<Rightarrow> (s, Inl e)
                   | Inr client \<Rightarrow>
                       (case ga_download env (cc_id client) h of
                          Inl e \<Rightarrow> (s, Inl (Client_failed e))
                        | Inr did \<Rightarrow>
                            (let s1 = s\<lparr>gs_downloads := gs_downloads s @ [(cc_id client, gh_guid h)]\<rparr>
                             in if commit_ok then
                                  (enqueue_grab_followups protocol (record_grab did protocol (cc_id client) h s1), Inr did)
                                else (s1, Inl History_not_written)))))))"

section \<open>The interactive-search cache\<close>

definition CACHE_TTL_MINUTES :: int where "CACHE_TTL_MINUTES = 30"

record cache_row =
  ca_indexer_id :: int
  ca_guid :: string
  ca_issue_id :: "int option"
  ca_payload :: grab_handoff
  ca_approved :: "bool option"
  ca_created_at :: datetime
  ca_expires_at :: datetime

definition cache_key :: "cache_row \<Rightarrow> int \<times> string" where
  "cache_key r = (ca_indexer_id r, ca_guid r)"

definition minutes :: "int \<Rightarrow> timedelta" where
  "minutes m = seconds (60 * m)"

definition cache_entry :: "int option \<Rightarrow> datetime \<Rightarrow> datetime \<Rightarrow> decision \<Rightarrow> cache_row" where
  "cache_entry issue now expires d =
     (let h = handoff_from_decision d
      in \<lparr>ca_indexer_id = gh_indexer_id h, ca_guid = gh_guid h, ca_issue_id = issue, ca_payload = h,
          ca_approved = Some (d_outcome d = Approved), ca_created_at = now, ca_expires_at = expires\<rparr>)"

definition cache_decisions ::
  "int option \<Rightarrow> decision list \<Rightarrow> int \<Rightarrow> datetime \<Rightarrow> cache_row list \<Rightarrow> cache_row list" where
  "cache_decisions issue ds ttl_minutes now t =
     fold (\<lambda>d. row_put cache_key (cache_entry issue now (now + minutes ttl_minutes) d)) ds t"

definition get_cached :: "int \<Rightarrow> string \<Rightarrow> datetime \<Rightarrow> cache_row list \<Rightarrow> (grab_handoff \<times> bool) option" where
  "get_cached i g now t =
     (case row_get cache_key (i, g) t of
        None \<Rightarrow> None
      | Some r \<Rightarrow> if ca_expires_at r \<le> now then None else Some (ca_payload r, ca_approved r = Some True))"

definition prune_release_cache :: "datetime \<Rightarrow> cache_row list \<Rightarrow> cache_row list \<times> nat" where
  "prune_release_cache now t =
     (let kept = filter (\<lambda>r. \<not> ca_expires_at r \<le> now) t in (kept, length t - length kept))"

datatype grab_refusal = Not_cached | Read_only_refused | Rejected_release

definition grab_release_endpoint ::
  "(int \<Rightarrow> bool) \<Rightarrow> int \<Rightarrow> string \<Rightarrow> bool \<Rightarrow> datetime \<Rightarrow> cache_row list \<Rightarrow> grab_refusal + grab_handoff \<times> string" where
  "grab_release_endpoint read_only i g force now t =
     (case get_cached i g now t of
        None \<Rightarrow> Inl Not_cached
      | Some (h, approved) \<Rightarrow>
          if (case gh_series_id h of None \<Rightarrow> False | Some s \<Rightarrow> read_only s) then Inl Read_only_refused
          else if approved then Inr (h, ''interactive'')
          else if force then Inr (h, ''interactive-forced'')
          else Inl Rejected_release)"

section \<open>Lemmas\<close>

interpretation cache_table: keyed_store cache_key "row_get cache_key" "row_put cache_key" "row_del cache_key"
  "unique_key cache_key"
  by (rule keyed_store_rows)

lemma cache_entry_simps [simp]:
  "cache_key (cache_entry issue now e d) = (indexer_id (d_candidate d), guid (d_candidate d))"
  "ca_payload (cache_entry issue now e d) = handoff_from_decision d"
  "ca_approved (cache_entry issue now e d) = Some (d_outcome d = Approved)"
  "ca_expires_at (cache_entry issue now e d) = e"
  by (simp_all add: cache_entry_def cache_key_def handoff_from_decision_def Let_def)

definition release_key :: "decision \<Rightarrow> int \<times> string" where
  "release_key d = (indexer_id (d_candidate d), guid (d_candidate d))"

lemma row_get_cache_decisions:
  "row_get cache_key k (cache_decisions issue ds ttl now t) =
   (case find (\<lambda>d. release_key d = k) (rev ds) of
      Some d \<Rightarrow> Some (cache_entry issue now (now + minutes ttl) d)
    | None \<Rightarrow> row_get cache_key k t)"
proof (induction ds arbitrary: t)
  case (Cons d ds)
  have "find P (xs @ [y]) = (case find P xs of None \<Rightarrow> if P y then Some y else None | Some x \<Rightarrow> Some x)"
    for P xs and y :: decision by (induction xs) auto
  with Cons show ?case
    by (simp add: cache_decisions_def cache_table.get_put release_key_def split: option.splits)
qed (simp add: cache_decisions_def)

lemma unique_cache_decisions:
  "unique_key cache_key t \<Longrightarrow> unique_key cache_key (cache_decisions issue ds ttl now t)"
  by (induction ds arbitrary: t) (simp_all add: cache_decisions_def unique_row_put)

lemma row_get_filter:
  "unique_key key t \<Longrightarrow> row_get key k (filter P t) =
   (case row_get key k t of None \<Rightarrow> None | Some r \<Rightarrow> if P r then Some r else None)"
proof (induction t)
  case (Cons x xs)
  have "row_get key (key x) (filter P xs) = None" if "key x \<notin> key ` set xs"
    using that by (auto simp: row_get_None)
  then show ?case using Cons by (auto simp: unique_key_def split: option.splits)
qed simp

text \<open>What was searched is what is grabbed: after caching a search's decisions, and any pruning up
  to then, a grab of a release within its lifetime hands off exactly the last decision on it,
  grabs an approved one, grabs a rejected one only when forced, and refuses a read-only series
  in either case; once the lifetime is over every grab asks for a new search.\<close>

theorem cached_release_roundtrip:
  assumes "unique_key cache_key t" and "find (\<lambda>d. release_key d = (i, g)) (rev ds) = Some d"
    and "pruned \<le> now"
  shows "grab_release_endpoint ro i g force now
      (fst (prune_release_cache pruned (cache_decisions issue ds ttl t0 t))) =
    (if t0 + minutes ttl \<le> now then Inl Not_cached
     else if (case d_series d of None \<Rightarrow> False | Some s \<Rightarrow> ro s) then Inl Read_only_refused
     else if d_outcome d = Approved then Inr (handoff_from_decision d, ''interactive'')
     else if force then Inr (handoff_from_decision d, ''interactive-forced'')
     else Inl Rejected_release)"
proof -
  have "gh_series_id (handoff_from_decision d) = d_series d"
    by (simp add: handoff_from_decision_def Let_def)
  moreover have "row_get cache_key (i, g) (fst (prune_release_cache pruned (cache_decisions issue ds ttl t0 t))) =
      (if t0 + minutes ttl \<le> pruned then None else Some (cache_entry issue t0 (t0 + minutes ttl) d))"
    using unique_cache_decisions [OF assms(1), of issue ds ttl t0] assms(2)
    by (simp add: prune_release_cache_def Let_def row_get_filter row_get_cache_decisions)
  ultimately show ?thesis
    using assms(3) by (simp add: grab_release_endpoint_def get_cached_def)
qed

definition demo_decision :: decision where
  "demo_decision = \<lparr>d_candidate = demo_candidate, d_outcome = Rejected, d_rejections = [], d_parsed = demo_parsed,
     d_series = Some 1, d_issue = Some 11, d_fmt = None\<rparr>"

lemma cached_release_roundtrip_witness:
  "grab_release_endpoint (\<lambda>_. False) (indexer_id demo_candidate) (guid demo_candidate) True 5
     (fst (prune_release_cache 3 (cache_decisions None [demo_decision] CACHE_TTL_MINUTES 0 []))) =
   Inr (handoff_from_decision demo_decision, ''interactive-forced'')"
proof -
  have "find (\<lambda>d. release_key d = (indexer_id demo_candidate, guid demo_candidate)) (rev [demo_decision]) = Some demo_decision"
    by (simp add: release_key_def demo_decision_def)
  from cached_release_roundtrip [OF _ this, of "[]" 3 5 "\<lambda>_. False" True None CACHE_TTL_MINUTES 0] show ?thesis
    by (simp add: unique_key_def demo_decision_def CACHE_TTL_MINUTES_def minutes_def seconds_def us_per_second_def)
qed

section \<open>One download per release\<close>

lemma prior_download_grab:
  "prior_download h gs = Some did \<Longrightarrow> \<exists>g \<in> set gs. gr_download_id g = did"
  by (auto simp: prior_download_def find_Some_iff)

lemma handle_grab_fresh:
  assumes "handle_grab_release env True h s = (s', Inr did)" and "grabs_of did (grabs (gs_db s)) = []"
  shows "\<exists>protocol client. grabs (gs_db s') = write_grab_history_rows did [(gh_series_id h, gh_issue_id h)] h protocol
      (if protocol = PROTOCOL_DDL then SOURCE_DDL else SOURCE_INDEXER) (Some client) (grabs (gs_db s)) \<and>
    ga_download env client h = Inr did \<and> gs_downloads s' = gs_downloads s @ [(client, gh_guid h)]"
  using assms
  by (auto simp: handle_grab_release_def enqueue_grab_followups_def record_grab_def Let_def grabs_of_def
      filter_empty_conv dest!: prior_download_grab split: if_splits sum.splits option.splits)

lemma handle_grab_records:
  assumes "handle_grab_release env True h s = (s', Inr did)"
  shows "prior_download h (grabs (gs_db s')) \<noteq> None"
proof (cases "prior_download h (grabs (gs_db s))")
  case None
  have "find P (xs @ [y]) \<noteq> None" if "P y" for P xs and y :: grab_row
    using that by (induction xs) auto
  then show ?thesis
    using assms None
    by (auto simp: handle_grab_release_def enqueue_grab_followups_def record_grab_def Let_def
        write_grab_history_rows_def prior_download_def split: if_splits sum.splits option.splits)
next
  case (Some d)
  then show ?thesis
    using assms
    by (auto simp: handle_grab_release_def enqueue_grab_followups_def split: if_splits sum.splits)
qed

text \<open>A release is handed to a download client at most once: after a grab that was recorded, the
  same command run again (an orphan re-run, or a second request for the release) never calls a
  client, for whatever configuration, and leaves the tables alone.\<close>

theorem grab_downloads_once:
  assumes "handle_grab_release env True h s = (s', Inr did)"
    and "handle_grab_release env' ok h' (s'\<lparr>gs_enqueued := q\<rparr>) = (s'', res)"
    and "gh_indexer_id h' = gh_indexer_id h" and "gh_guid h' = gh_guid h"
  shows "gs_downloads s'' = gs_downloads s' \<and> gs_db s'' = gs_db s' \<and> gs_history s'' = gs_history s'"
proof -
  have "prior_download h' (grabs (gs_db s')) \<noteq> None"
    using handle_grab_records [OF assms(1)] assms(3,4) by (simp add: prior_download_def)
  then show ?thesis
    using assms(2)
    by (auto simp: handle_grab_release_def enqueue_grab_followups_def split: if_splits sum.splits)
qed

definition demo_grab_env :: grab_env where
  "demo_grab_env = \<lparr>ga_read_only_series = (\<lambda>_. False), ga_read_only_issue = (\<lambda>_. False),
     ga_indexers = [(indexer_id demo_candidate, ''usenet'')],
     ga_clients = [\<lparr>cc_id = 7, cc_enabled = True, cc_protocol = ''usenet'', cc_priority = 1, cc_runnable = True\<rparr>],
     ga_download = (\<lambda>c h. Inr ''SAB_1'')\<rparr>"

definition demo_grab_state :: grab_state where
  "demo_grab_state = \<lparr>gs_db = sample_db [], gs_history = [], gs_downloads = [], gs_enqueued = []\<rparr>"

definition demo_handoff :: grab_handoff where
  "demo_handoff = handoff_from_decision demo_decision"

lemma demo_grab:
  "handle_grab_release demo_grab_env True demo_handoff demo_grab_state =
    (enqueue_grab_followups ''usenet'' (record_grab ''SAB_1'' ''usenet'' 7 demo_handoff
       (demo_grab_state\<lparr>gs_downloads := [(7, guid demo_candidate)]\<rparr>)), Inr ''SAB_1'')"
proof -
  have k: "gh_indexer_id demo_handoff = indexer_id demo_candidate" "gh_guid demo_handoff = guid demo_candidate"
    "gh_series_id demo_handoff = Some 1"
    by (simp_all add: demo_handoff_def handoff_from_decision_def demo_decision_def Let_def)
  show ?thesis
    by (simp add: handle_grab_release_def read_only_target_def k demo_grab_env_def protocol_for_indexer_def
        demo_grab_state_def sample_db_def prior_download_def resolve_client_for_def Let_def)
qed

lemma grab_downloads_once_witness:
  "gs_downloads (fst (handle_grab_release demo_grab_env True demo_handoff
     (fst (handle_grab_release demo_grab_env True demo_handoff demo_grab_state)))) = [(7, guid demo_candidate)]"
proof -
  let ?s = "fst (handle_grab_release demo_grab_env True demo_handoff demo_grab_state)"
  let ?p = "handle_grab_release demo_grab_env True demo_handoff ?s"
  have a: "handle_grab_release demo_grab_env True demo_handoff demo_grab_state = (?s, Inr ''SAB_1'')"
    by (simp add: demo_grab)
  have b: "handle_grab_release demo_grab_env True demo_handoff (?s\<lparr>gs_enqueued := gs_enqueued ?s\<rparr>) = (fst ?p, snd ?p)"
    by simp
  have "gs_downloads ?s = [(7, guid demo_candidate)]"
    unfolding demo_grab by (simp add: enqueue_grab_followups_def record_grab_def Let_def demo_grab_state_def)
  with grab_downloads_once [OF a b refl refl] show ?thesis by simp
qed

end
