(* ===== verification/Path_Map.thy ===== *)
theory Path_Map
  imports Text "HOL-Library.Sublist"
begin

text \<open>
  Remote path mapping (\<open>downloads/pathmap.py\<close>), the path helpers of the intake and the two bounded
  walks over a completed download (\<open>library/matching.py\<close>, \<open>importer/sources.py\<close>).

  A directory tree is a value: a walk sees one snapshot, in the listing order, without symbolic
  links and without files that vanish under it.
\<close>

section \<open>Mappings\<close>

definition CHECK_MAPPING_WARNING :: string where
  "CHECK_MAPPING_WARNING = ''check remote path mapping''"

record path_mapping =
  pm_host :: string
  pm_remote :: string
  pm_local :: string

definition slash :: char where "slash = CHR ''/''"
definition backslash :: char where "backslash = CHR 0x5C"

text \<open>\<open>str.isalpha\<close> on Latin-1.\<close>

definition is_alpha :: "char \<Rightarrow> bool" where
  "is_alpha c \<longleftrightarrow> is_lower c \<or> is_upper c \<or> code c \<in> {170, 181, 186} \<or>
     192 \<le> code c \<and> code c \<noteq> 215 \<and> code c \<noteq> 247"

definition looks_windows :: "string \<Rightarrow> bool" where
  "looks_windows p \<longleftrightarrow> backslash \<in> set p \<or>
     (case p of a # b # _ \<Rightarrow> is_alpha a \<and> b = CHR '':'' | _ \<Rightarrow> False)"

definition rstrip_chars :: "char list \<Rightarrow> string \<Rightarrow> string" where
  "rstrip_chars cs s = rev (dropWhile (\<lambda>c. c \<in> set cs) (rev s))"

definition normalize_prefix :: "string \<Rightarrow> string" where
  "normalize_prefix p = rstrip_chars [slash, backslash] p"

definition startswith :: "string \<Rightarrow> string \<Rightarrow> bool" where
  "startswith s t \<longleftrightarrow> take (length t) s = t"

definition mapping_hit :: "string \<Rightarrow> path_mapping \<Rightarrow> bool" where
  "mapping_hit out m =
     (let remote = normalize_prefix (pm_remote m)
      in out = remote \<or> startswith out (remote @ [slash]) \<or>
         (backslash \<in> set (pm_remote m) \<and> (out = remote \<or> startswith out (remote @ [backslash]))))"

definition apply_mappings :: "string \<Rightarrow> path_mapping list \<Rightarrow> string \<times> string option" where
  "apply_mappings out ms =
     (case find (mapping_hit out) ms of
        Some m \<Rightarrow>
          (let suffix = map (\<lambda>c. if c = backslash then slash else c)
                 (drop (length (normalize_prefix (pm_remote m))) out)
           in (normalize_prefix (pm_local m) @ suffix, None))
      | None \<Rightarrow>
          (out, if looks_windows out \<or> ms \<noteq> [] then Some CHECK_MAPPING_WARNING else None))"

section \<open>Path text\<close>

definition path_parts :: "string \<Rightarrow> string list" where
  "path_parts p = filter (\<lambda>x. x \<noteq> ''.'') (pieces (\<lambda>c. c = slash) p)"

definition path_lead :: "string \<Rightarrow> string" where
  "path_lead p =
     (if startswith p [slash, slash] \<and> \<not> startswith p [slash, slash, slash] then [slash, slash]
      else if startswith p [slash] then [slash] else [])"

definition path_join :: "string \<Rightarrow> string \<Rightarrow> string" where
  "path_join d n =
     (if startswith n [slash] then n
      else if d = [] \<or> last d = slash then d @ n else d @ slash # n)"

fun join_parts :: "string list \<Rightarrow> string" where
  "join_parts [] = []"
| "join_parts [x] = x"
| "join_parts (x # xs) = x @ slash # join_parts xs"

definition path_render :: "string \<Rightarrow> string list \<Rightarrow> string" where
  "path_render lead xs = (if lead = [] \<and> xs = [] then ''.'' else lead @ join_parts xs)"

definition path_str :: "string \<Rightarrow> string" where
  "path_str p = path_render (path_lead p) (path_parts p)"

definition path_name :: "string \<Rightarrow> string" where
  "path_name p = (case path_parts p of [] \<Rightarrow> [] | xs \<Rightarrow> last xs)"

definition path_parent :: "string \<Rightarrow> string" where
  "path_parent p = path_render (path_lead p) (butlast (path_parts p))"

section \<open>Walks\<close>

datatype fs_node = Fs_file string int | Fs_dir string "fs_node list"

text \<open>A disk maps the path text of \<open>str(Path(p))\<close> to the file's size or the directory's entries.\<close>

datatype fs_entry = Is_file int | Is_dir "fs_node list"

type_synonym disk = "string \<Rightarrow> fs_entry option"

definition is_junk_dir :: "string \<Rightarrow> bool" where
  "is_junk_dir n \<longleftrightarrow> startswith n ''.'' \<or> n = ''@eaDir'' \<or> startswith (str_lower n) ''_unpack_''"

definition is_junk_file :: "string \<Rightarrow> bool" where
  "is_junk_file n \<longleftrightarrow> startswith n ''.''"

definition file_extension :: "string \<Rightarrow> string" where
  "file_extension n =
     (if CHR ''.'' \<in> set n then str_lower (rev (takeWhile (\<lambda>c. c \<noteq> CHR ''.'') (rev n))) else [])"

definition lstrip_dots :: "string \<Rightarrow> string" where
  "lstrip_dots s = dropWhile (\<lambda>c. c = CHR ''.'') s"

definition dir_archives :: "string list \<Rightarrow> string \<Rightarrow> fs_node list \<Rightarrow> (string \<times> int) list" where
  "dir_archives exts path nodes = List.map_filter (\<lambda>n. case n of
       Fs_file name sz \<Rightarrow>
         if file_extension name \<in> set exts \<and> \<not> is_junk_file name then Some (path_join path name, sz) else None
     | Fs_dir _ _ \<Rightarrow> None) nodes"

definition may_descend :: "nat option \<Rightarrow> nat \<Rightarrow> bool" where
  "may_descend max_depth d \<longleftrightarrow> (case max_depth of None \<Rightarrow> True | Some m \<Rightarrow> d < m)"

fun walk_dirs :: "string list \<Rightarrow> nat option \<Rightarrow> nat \<Rightarrow> string \<Rightarrow> fs_node list \<Rightarrow> (string \<times> int) list" where
  "walk_dirs exts md d path [] = []"
| "walk_dirs exts md d path (Fs_file n s # ns) = walk_dirs exts md d path ns"
| "walk_dirs exts md d path (Fs_dir n kids # ns) =
     (if is_junk_dir n \<or> \<not> may_descend md d then []
      else dir_archives exts (path_join path n) kids @ walk_dirs exts md (Suc d) (path_join path n) kids)
     @ walk_dirs exts md d path ns"

definition iter_archive_files :: "disk \<Rightarrow> string list \<Rightarrow> nat option \<Rightarrow> string \<Rightarrow> (string \<times> int) list" where
  "iter_archive_files disk extensions md top_path =
     (case disk (path_str top_path) of
        None \<Rightarrow> []
      | Some (Is_file sz) \<Rightarrow> if is_junk_file (path_name top_path) then [] else [(path_str top_path, sz)]
      | Some (Is_dir nodes) \<Rightarrow>
          (let exts = map (lstrip_dots \<circ> str_lower) extensions
           in dir_archives exts (path_str top_path) nodes @ walk_dirs exts md 0 (path_str top_path) nodes))"

definition plain_file :: "fs_node \<Rightarrow> bool" where
  "plain_file n = (case n of Fs_file name _ \<Rightarrow> \<not> is_junk_file name | Fs_dir _ _ \<Rightarrow> False)"

fun holds_in_dirs :: "nat option \<Rightarrow> nat \<Rightarrow> fs_node list \<Rightarrow> bool" where
  "holds_in_dirs md d [] = False"
| "holds_in_dirs md d (Fs_file n s # ns) = holds_in_dirs md d ns"
| "holds_in_dirs md d (Fs_dir n kids # ns) =
     (\<not> is_junk_dir n \<and> may_descend md d \<and> (list_ex plain_file kids \<or> holds_in_dirs md (Suc d) kids)
      \<or> holds_in_dirs md d ns)"

definition holds_any_file :: "disk \<Rightarrow> nat option \<Rightarrow> string \<Rightarrow> bool" where
  "holds_any_file disk md top_path =
     (case disk (path_str top_path) of
        None \<Rightarrow> False
      | Some (Is_file _) \<Rightarrow> \<not> is_junk_file (path_name top_path)
      | Some (Is_dir nodes) \<Rightarrow> list_ex plain_file nodes \<or> holds_in_dirs md 0 nodes)"

section \<open>Lemmas\<close>

lemma startswith_append [simp]: "startswith (t @ u) t"
  by (simp add: startswith_def)

lemma startswith_iff: "startswith s t \<longleftrightarrow> (\<exists>u. s = t @ u)"
  unfolding startswith_def by (metis append_eq_conv_conj)

lemma dir_archives_plain: "dir_archives exts path nodes \<noteq> [] \<Longrightarrow> list_ex plain_file nodes"
  by (induction nodes)
    (auto simp: dir_archives_def map_filter_simps plain_file_def split: fs_node.splits if_splits option.splits)

lemma walk_dirs_holds: "walk_dirs exts md d path nodes \<noteq> [] \<Longrightarrow> holds_in_dirs md d nodes"
  by (induction exts md d path nodes rule: walk_dirs.induct)
    (auto split: if_splits dest: dir_archives_plain)

text \<open>The visibility probe is wider than the intake: whatever yields an archive is seen.\<close>

lemma archives_seen: "iter_archive_files disk exts md top_path \<noteq> [] \<Longrightarrow> holds_any_file disk md top_path"
  by (auto simp: iter_archive_files_def holds_any_file_def Let_def
      split: option.splits fs_entry.splits if_splits dest: dir_archives_plain walk_dirs_holds)

lemma normalize_prefix_idem [simp]: "normalize_prefix (normalize_prefix p) = normalize_prefix p"
proof -
  have "dropWhile P (dropWhile P xs) = dropWhile P xs" for P and xs :: string
    by (induction xs) auto
  then show ?thesis by (simp add: normalize_prefix_def rstrip_chars_def)
qed

text \<open>A mapping only rewrites at a separator of the path.\<close>

lemma mapping_hit_boundary:
  assumes "mapping_hit out m"
  shows "out = normalize_prefix (pm_remote m) \<or>
    (\<exists>sep rest. out = normalize_prefix (pm_remote m) @ sep # rest \<and> sep \<in> {slash, backslash})"
  using assms by (auto simp: mapping_hit_def Let_def startswith_iff)

lemma apply_mappings_one:
  assumes "r = normalize_prefix (pm_remote m)" and "backslash \<notin> set rest"
  shows "apply_mappings (r @ slash # rest) [m] = (normalize_prefix (pm_local m) @ slash # rest, None)"
proof -
  have "startswith (r @ slash # rest) (r @ [slash])"
    by (simp add: startswith_iff)
  then have "mapping_hit (r @ slash # rest) m"
    by (simp add: mapping_hit_def assms(1))
  moreover have "map (\<lambda>c. if c = backslash then slash else c) rest = rest"
    using assms(2) by (induction rest) auto
  ultimately show ?thesis
    by (simp add: apply_mappings_def assms(1) slash_def backslash_def)
qed

definition inverse_mapping :: "path_mapping \<Rightarrow> path_mapping" where
  "inverse_mapping m = m\<lparr>pm_remote := pm_local m, pm_local := pm_remote m\<rparr>"

text \<open>A remote path mapping moves a tree without changing it: a path under the remote prefix is
  rewritten to the same relative path under the local prefix, with no warning, and mapping back
  with the prefixes exchanged returns the path; a path that continues the prefix inside a name
  (\<open>/dl2\<close> against \<open>/dl\<close>) is not rewritten and carries the warning.\<close>

theorem mapping_moves_tree:
  assumes "backslash \<notin> set rest" and "c \<noteq> slash" and "c \<noteq> backslash"
  shows "apply_mappings (normalize_prefix (pm_remote m) @ slash # rest) [m] =
           (normalize_prefix (pm_local m) @ slash # rest, None) \<and>
         apply_mappings (normalize_prefix (pm_local m) @ slash # rest) [inverse_mapping m] =
           (normalize_prefix (pm_remote m) @ slash # rest, None) \<and>
         apply_mappings (normalize_prefix (pm_remote m) @ c # rest) [m] =
           (normalize_prefix (pm_remote m) @ c # rest, Some CHECK_MAPPING_WARNING)"
proof -
  have "\<not> mapping_hit (normalize_prefix (pm_remote m) @ c # rest) m"
    using mapping_hit_boundary [of "normalize_prefix (pm_remote m) @ c # rest" m] assms(2,3) by auto
  then show ?thesis
    using apply_mappings_one [of "normalize_prefix (pm_remote m)" m rest]
      apply_mappings_one [of "normalize_prefix (pm_local m)" "inverse_mapping m" rest] assms(1)
    by (simp add: inverse_mapping_def) (simp add: apply_mappings_def)
qed

lemma mapping_moves_tree_witness:
  "apply_mappings ''/downloads/Saga/001.cbz'' [\<lparr>pm_host = ''sab'', pm_remote = ''/downloads/'', pm_local = ''/mnt/dl''\<rparr>]
     = (''/mnt/dl/Saga/001.cbz'', None) \<and>
   apply_mappings ''/downloads2/Saga'' [\<lparr>pm_host = ''sab'', pm_remote = ''/downloads/'', pm_local = ''/mnt/dl''\<rparr>]
     = (''/downloads2/Saga'', Some CHECK_MAPPING_WARNING)"
proof -
  let ?m = "\<lparr>pm_host = ''sab'', pm_remote = ''/downloads/'', pm_local = ''/mnt/dl''\<rparr>"
  have p: "normalize_prefix (pm_remote ?m) = ''/downloads''" "normalize_prefix (pm_local ?m) = ''/mnt/dl''"
    by (simp_all add: normalize_prefix_def rstrip_chars_def slash_def backslash_def)
  show ?thesis
    using mapping_moves_tree [of "''Saga/001.cbz''" "CHR ''x''" ?m]
      mapping_moves_tree [of "''/Saga''" "CHR ''2''" ?m]
    unfolding p by (simp add: slash_def backslash_def)
qed

end
