(* ===== verification/Imports.thy ===== *)
theory Imports
  imports Downloads Path_Map
begin

text \<open>
  The drain of completed downloads (\<open>downloads/imports.py\<close>), the store hook it calls
  (\<open>sources/import_hook.py\<close>), the intake of a completed download (\<open>importer/sources.py\<close>) and the
  manual removal of queue rows (\<open>api/queue.py\<close>).

  The state has the downloads database, the store entitlements, the library tables the drain
  reads and writes, and the disk. The import of one file (\<open>import_candidate\<close>) and the fills of
  \<open>apply_owned_via_edition\<close> are arguments: both belong to packages outside this theory. A failed
  file import rolls the tables of its session back, not the disk. The link rows of an issue are
  read in table order, where the code goes through a Python set.

  \<open>process_one\<close> is \<open>drain_import\<close> (claim, intake, recovery, import transaction) and then
  \<open>run_post_import_side_effects\<close>; \<open>drain_io\<close> says where an exception strikes. For the interleaving with
  polls, failure runs and removals the same stretches are rules of \<open>download_step\<close>, over the state
  and the phase of the drain under way.
\<close>

section \<open>Files and outcomes\<close>

definition GRAB_SOURCE_STORE :: string where "GRAB_SOURCE_STORE = ''store''"
definition HUMBLE_DOWNLOAD_PREFIX :: string where "HUMBLE_DOWNLOAD_PREFIX = ''humble:''"

record import_file =
  if_local_path :: string
  if_size :: int
  if_file_name :: string
  if_folder_name :: "string option"
  if_container_root :: string
  if_download_id :: string
  if_client_title :: "string option"
  if_grab_title :: "string option"
  if_grab_series_id :: "int option"
  if_grab_issue_id :: "int option"
  if_store_entitlement_id :: "int option"
  if_mapping_warning :: "string option"

datatype import_status = File_imported | File_blocked | File_failed

record import_outcome =
  oc_status :: import_status
  oc_file :: import_file
  oc_reasons :: "string list"
  oc_issue_id :: "int option"
  oc_imported_path :: "string option"

definition entitlement_id_from_download_id :: "string \<Rightarrow> int option" where
  "entitlement_id_from_download_id did =
     (if startswith did HUMBLE_DOWNLOAD_PREFIX then py_int (drop (length HUMBLE_DOWNLOAD_PREFIX) did) else None)"

section \<open>Intake\<close>

definition none_if_empty :: "string \<Rightarrow> string option" where
  "none_if_empty s = (if s = [] then None else Some s)"

definition latest_grab :: "string \<Rightarrow> grab_row list \<Rightarrow> grab_row option" where
  "latest_grab did gs = (case grabs_of did gs of [] \<Rightarrow> None | xs \<Rightarrow> Some (last xs))"

definition gather_file ::
  "grab_row list \<Rightarrow> string \<Rightarrow> string option \<Rightarrow> string \<Rightarrow> int \<Rightarrow> string \<Rightarrow> string option \<Rightarrow> import_file" where
  "gather_file gs did client_title path sz container warning =
     (let grab = latest_grab did gs
      in \<lparr>if_local_path = path, if_size = sz, if_file_name = path_name path,
          if_folder_name = none_if_empty (path_name (path_parent path)), if_container_root = container,
          if_download_id = did, if_client_title = client_title,
          if_grab_title = map_option gr_title grab,
          if_grab_series_id = Option.bind grab gr_series_id,
          if_grab_issue_id = Option.bind grab gr_issue_id,
          if_store_entitlement_id =
            (case grab of None \<Rightarrow> None
             | Some g \<Rightarrow> if gr_source g = GRAB_SOURCE_STORE then entitlement_id_from_download_id did else None),
          if_mapping_warning = warning\<rparr>)"

definition gather_completed ::
  "disk \<Rightarrow> string list \<Rightarrow> nat option \<Rightarrow> path_mapping list \<Rightarrow> grab_row list \<Rightarrow> string \<Rightarrow> string \<Rightarrow>
   string option \<Rightarrow> import_file list" where
  "gather_completed disk exts depth maps gs did output_path client_title =
     (case apply_mappings output_path maps of
        (path, Some w) \<Rightarrow> [gather_file gs did client_title path 0 path (Some w)]
      | (path, None) \<Rightarrow>
          (let container = (case disk (path_str path) of Some (Is_dir _) \<Rightarrow> path | _ \<Rightarrow> path_parent path)
           in map (\<lambda>(p, sz). gather_file gs did client_title p sz container None)
                (iter_archive_files disk exts depth path)))"

definition saw_any_files :: "disk \<Rightarrow> nat option \<Rightarrow> path_mapping list \<Rightarrow> string \<Rightarrow> bool" where
  "saw_any_files disk depth maps output_path = holds_any_file disk depth (fst (apply_mappings output_path maps))"

section \<open>Verdicts\<close>

definition NO_IMPORTABLE_FILES_MESSAGE :: string where
  "NO_IMPORTABLE_FILES_MESSAGE = ''no importable files found under the completed download path''"

definition is_visibility_stall :: "import_outcome list \<Rightarrow> bool \<Rightarrow> bool \<Rightarrow> bool" where
  "is_visibility_stall outcomes no_output saw_files =
     (if no_output then True
      else if list_ex (\<lambda>c. if_mapping_warning (oc_file c) \<noteq> None) outcomes then True
      else if outcomes \<noteq> [] then False
      else \<not> saw_files)"

definition outcome_messages :: "import_status \<Rightarrow> string \<Rightarrow> import_outcome list \<Rightarrow> string list" where
  "outcome_messages st dflt outcomes =
     concat (map (\<lambda>c. map (\<lambda>reason. if_file_name (oc_file c) @ '': '' @ reason)
         (if oc_reasons c = [] then [dflt] else oc_reasons c))
       (filter (\<lambda>c. oc_status c = st) outcomes))"

definition resolve_terminal_state ::
  "import_outcome list \<Rightarrow> bool \<Rightarrow> tracked_state \<times> tracked_status \<times> string list" where
  "resolve_terminal_state outcomes no_output =
     (if no_output \<or> outcomes = [] then (Import_blocked, Warning_status, [NO_IMPORTABLE_FILES_MESSAGE])
      else if list_ex (\<lambda>c. oc_status c = File_failed) outcomes then
        (Failed_pending, Error_status, outcome_messages File_failed ''archive failed validation'' outcomes)
      else if list_all (\<lambda>c. oc_status c = File_imported) outcomes then (Imported, Ok_status, [])
      else (Import_blocked, Warning_status, outcome_messages File_blocked ''blocked'' outcomes))"

definition apply_state ::
  "int \<Rightarrow> tracked_state \<Rightarrow> tracked_status \<Rightarrow> string list \<Rightarrow> datetime \<Rightarrow> bool \<Rightarrow> download_db \<Rightarrow> download_db" where
  "apply_state row_id final status msgs now stalled db =
     (case row_get tr_id row_id (tracked db) of
        None \<Rightarrow> db
      | Some r \<Rightarrow>
          (let r' = r\<lparr>tr_state := final, tr_status := status, tr_messages := msgs, tr_updated_at := now,
                 tr_stall_count := (if stalled then tr_stall_count r + 1 else 0),
                 tr_first_stalled_at :=
                   (if stalled then (case tr_first_stalled_at r of None \<Rightarrow> Some now | Some t \<Rightarrow> Some t) else None)\<rparr>
           in db\<lparr>tracked := row_put tr_id r' (tracked db), dl_events := dl_events db @ [state_event r']\<rparr>))"

section \<open>The store hook\<close>

record entitlement =
  en_id :: int
  en_review_status :: string
  en_download_state :: "string option"
  en_download_error :: "string option"
  en_updated_at :: datetime

definition source_import_withdrawn :: "entitlement list \<Rightarrow> string \<Rightarrow> bool" where
  "source_import_withdrawn ents did =
     (case entitlement_id_from_download_id did of
        None \<Rightarrow> False
      | Some e \<Rightarrow>
          (case row_get en_id e ents of None \<Rightarrow> True | Some r \<Rightarrow> en_review_status r \<noteq> ''matched''))"

record issue_file =
  fi_issue_id :: int
  fi_path :: string
  fi_size :: int
  fi_added_at :: datetime

record imported_event =
  ev_series_id :: "int option"
  ev_issue_id :: int
  ev_download_id :: string
  ev_path :: string

record library_db =
  lb_issues :: "(int \<times> int) list"
  lb_series :: "(int \<times> string) list"
  lb_files :: "issue_file list"
  lb_history :: "imported_event list"

fun fill_editions ::
  "(int \<Rightarrow> string \<Rightarrow> library_db \<Rightarrow> library_db result) \<Rightarrow> (int \<times> string) list \<Rightarrow> library_db \<Rightarrow> library_db result" where
  "fill_editions fill [] lib = Inr lib"
| "fill_editions fill ((i, p) # rest) lib = result_bind (fill i p lib) (fill_editions fill rest)"

definition apply_source_import ::
  "(int \<Rightarrow> string \<Rightarrow> library_db \<Rightarrow> library_db result) \<Rightarrow> string \<Rightarrow> tracked_state \<Rightarrow> (int \<times> string) list \<Rightarrow>
   datetime \<Rightarrow> entitlement list \<times> library_db \<Rightarrow> (entitlement list \<times> library_db) result" where
  "apply_source_import fill did final imported now el =
     (case el of (ents, lib) \<Rightarrow>
      case Option.bind (entitlement_id_from_download_id did) (\<lambda>e. row_get en_id e ents) of
        None \<Rightarrow> Inr (ents, lib)
      | Some r \<Rightarrow>
          if en_review_status r \<noteq> ''matched'' then Inr (ents, lib)
          else if final = Imported then
            result_bind (fill_editions fill imported lib) (\<lambda>lib'.
              Inr (row_put en_id (r\<lparr>en_download_state := Some ''imported'', en_download_error := None,
                     en_updated_at := now\<rparr>) ents, lib'))
          else if final = Import_blocked then
            Inr (row_put en_id (r\<lparr>en_download_state := Some ''import_blocked'', en_updated_at := now\<rparr>) ents, lib)
          else if final = Failed_pending then
            Inr (row_put en_id (r\<lparr>en_download_state := Some ''failed'',
                   en_download_error := Some (''import failed '' @ EM_DASH @
                     '' the downloaded archive was rejected by the importer''),
                   en_updated_at := now\<rparr>) ents, lib)
          else Inr (ents, lib))"

section \<open>One download\<close>

record import_state =
  is_db :: download_db
  is_ents :: "entitlement list"
  is_lib :: library_db
  is_disk :: disk

record import_env =
  ie_now :: datetime
  ie_maps :: "int \<Rightarrow> path_mapping list"
  ie_exts :: "string list"
  ie_depth :: "nat option"
  ie_import :: "import_file \<Rightarrow> disk \<times> library_db \<Rightarrow> (disk \<times> library_db) \<times> import_outcome result"
  ie_fill :: "int \<Rightarrow> string \<Rightarrow> library_db \<Rightarrow> library_db result"
  ie_dir_bytes :: "string \<Rightarrow> int"

definition imported_issues :: "import_outcome list \<Rightarrow> (int \<times> string) list" where
  "imported_issues outcomes = List.map_filter (\<lambda>c.
     case (oc_status c, oc_issue_id c, oc_imported_path c) of
       (File_imported, Some i, Some p) \<Rightarrow> if p = [] then None else Some (i, p)
     | _ \<Rightarrow> None) outcomes"

definition finalize_download_import ::
  "import_env \<Rightarrow> int \<Rightarrow> string \<Rightarrow> import_outcome list \<Rightarrow> bool \<Rightarrow> bool \<Rightarrow> import_state \<Rightarrow>
   (import_state \<times> tracked_state) result" where
  "finalize_download_import env row_id did outcomes no_output saw_files s =
     (case resolve_terminal_state outcomes no_output of (final, status, msgs) \<Rightarrow>
        let db' = apply_state row_id final status msgs (ie_now env)
              (is_visibility_stall outcomes no_output saw_files) (is_db s)
        in result_bind
             (apply_source_import (ie_fill env) did final (imported_issues outcomes) (ie_now env) (is_ents s, is_lib s))
             (\<lambda>(ents', lib'). Inr (s\<lparr>is_db := db', is_ents := ents', is_lib := lib'\<rparr>, final)))"

definition withdraw_import :: "int \<Rightarrow> download_db \<Rightarrow> download_db" where
  "withdraw_import row_id db = db\<lparr>tracked := row_del tr_id row_id (tracked db)\<rparr>"

definition claimable :: "tracked_state \<Rightarrow> bool" where
  "claimable st \<longleftrightarrow> st = Import_pending \<or> st = Importing"

definition claim_import :: "datetime \<Rightarrow> int \<Rightarrow> download_db \<Rightarrow> (download_db \<times> tracked_row) option" where
  "claim_import now row_id db =
     (case row_get tr_id row_id (tracked db) of
        None \<Rightarrow> None
      | Some r \<Rightarrow>
          if claimable (tr_state r) then
            Some (db\<lparr>tracked := row_put tr_id (r\<lparr>tr_state := Importing, tr_updated_at := now\<rparr>) (tracked db)\<rparr>, r)
          else None)"

fun import_all ::
  "import_env \<Rightarrow> import_file list \<Rightarrow> disk \<times> library_db \<Rightarrow> (disk \<times> library_db) \<times> import_outcome list result" where
  "import_all env [] dl = (dl, Inr [])"
| "import_all env (c # cs) dl =
     (case ie_import env c dl of
        (dl', Inl e) \<Rightarrow> (dl', Inl e)
      | (dl', Inr oc) \<Rightarrow>
          (case import_all env cs dl' of
             (dl'', Inl e) \<Rightarrow> (dl'', Inl e)
           | (dl'', Inr ocs) \<Rightarrow> (dl'', Inr (oc # ocs))))"

text \<open>
  The import transaction: the withdrawal gate, every file, the verdict. An exception (or a busy
  commit) restores the tables; files already moved stay moved.
\<close>

definition import_transaction ::
  "import_env \<Rightarrow> bool \<Rightarrow> int \<Rightarrow> string \<Rightarrow> import_file list \<Rightarrow> bool \<Rightarrow> bool \<Rightarrow> import_state \<Rightarrow>
   import_state \<times> tracked_state result" where
  "import_transaction env commit_ok row_id did files no_output saw_files s =
     (if source_import_withdrawn (is_ents s) did then
        (if commit_ok then (s\<lparr>is_db := withdraw_import row_id (is_db s)\<rparr>, Inr Ignored) else (s, Inl DatabaseBusyError))
      else
        (case import_all env files (is_disk s, is_lib s) of
           ((disk', lib'), Inl e) \<Rightarrow> (s\<lparr>is_disk := disk'\<rparr>, Inl e)
         | ((disk', lib'), Inr outcomes) \<Rightarrow>
             (case finalize_download_import env row_id did outcomes no_output saw_files
                     (s\<lparr>is_disk := disk', is_lib := lib'\<rparr>) of
                Inl e \<Rightarrow> (s\<lparr>is_disk := disk'\<rparr>, Inl e)
              | Inr (s', final) \<Rightarrow>
                  if commit_ok then (s', Inr final) else (s\<lparr>is_disk := disk'\<rparr>, Inl DatabaseBusyError))))"

text \<open>
  A stale \<open>importing\<close> row whose source holds nothing any more: a recorded file of the issue that
  still exists makes the import durable; otherwise a file carrying the issue tag in the series
  folder is adopted. \<open>None\<close> when nothing is recoverable.
\<close>

definition issue_tag :: "int \<Rightarrow> string" where
  "issue_tag i = ''[__'' @ show_int i @ ''__]''"

definition orphan_file :: "disk \<Rightarrow> string list \<Rightarrow> string \<Rightarrow> int \<Rightarrow> string option" where
  "orphan_file disk linked series_path iid =
     (let entries = (case disk (path_str series_path) of Some (Is_dir nodes) \<Rightarrow> nodes | _ \<Rightarrow> [])
      in Option.bind
           (find (\<lambda>n. case n of
              Fs_file name _ \<Rightarrow> contains (issue_tag iid) name \<and> path_join series_path name \<notin> set linked
            | Fs_dir _ _ \<Rightarrow> False) entries)
           (\<lambda>n. case n of Fs_file name _ \<Rightarrow> Some (path_join series_path name) | Fs_dir _ _ \<Rightarrow> None))"

text \<open>
  The read half: what to recover, if anything. The folder is listed, and the files are looked for,
  before the write session opens; the adopted file is measured inside it.
\<close>

datatype recovery = Durable int string | Adopt int int string

definition recovery_plan :: "int option \<Rightarrow> int option \<Rightarrow> import_state \<Rightarrow> recovery option" where
  "recovery_plan sid issue s =
     (case issue of
        None \<Rightarrow> None
      | Some iid \<Rightarrow>
          (case row_get fst iid (lb_issues (is_lib s)) of
             None \<Rightarrow> None
           | Some (_, owner) \<Rightarrow>
               (case row_get fst owner (lb_series (is_lib s)) of
                  None \<Rightarrow> None
                | Some (_, series_path) \<Rightarrow>
                    (let linked = map fi_path (filter (\<lambda>f. fi_issue_id f = iid) (lb_files (is_lib s)));
                         resolved = (case sid of None \<Rightarrow> owner | Some i \<Rightarrow> i)
                     in case find (\<lambda>p. is_disk s (path_str p) \<noteq> None) linked of
                          Some p \<Rightarrow> Some (Durable iid p)
                        | None \<Rightarrow> map_option (Adopt iid resolved) (orphan_file (is_disk s) linked series_path iid)))))"

definition file_bytes :: "import_env \<Rightarrow> disk \<Rightarrow> string \<Rightarrow> int result" where
  "file_bytes env disk p =
     (case disk (path_str p) of
        None \<Rightarrow> Inl FileNotFoundError
      | Some (Is_file sz) \<Rightarrow> Inr sz
      | Some (Is_dir _) \<Rightarrow> Inr (ie_dir_bytes env p))"

definition adopt_file :: "import_env \<Rightarrow> string \<Rightarrow> int \<Rightarrow> int \<Rightarrow> string \<Rightarrow> int \<Rightarrow> library_db \<Rightarrow> library_db" where
  "adopt_file env did iid resolved p sz lib =
     lib\<lparr>lb_files := lb_files lib @ [\<lparr>fi_issue_id = iid, fi_path = p, fi_size = sz, fi_added_at = ie_now env\<rparr>],
       lb_history := lb_history lib @
         [\<lparr>ev_series_id = Some resolved, ev_issue_id = iid, ev_download_id = did, ev_path = p\<rparr>]\<rparr>"

definition finish_recovery ::
  "import_env \<Rightarrow> bool \<Rightarrow> int \<Rightarrow> string \<Rightarrow> int \<Rightarrow> string \<Rightarrow> library_db \<Rightarrow> import_state \<Rightarrow>
   import_state \<times> tracked_state result" where
  "finish_recovery env commit_ok row_id did iid path lib s =
     (case apply_source_import (ie_fill env) did Imported [(iid, path)] (ie_now env) (is_ents s, lib) of
        Inl e \<Rightarrow> (s, Inl e)
      | Inr (ents', lib') \<Rightarrow>
          if commit_ok then
            (s\<lparr>is_db := apply_state row_id Imported Ok_status [] (ie_now env) False (is_db s),
               is_ents := ents', is_lib := lib'\<rparr>, Inr Imported)
          else (s, Inl DatabaseBusyError))"

text \<open>The write half, one transaction.\<close>

definition apply_recovery ::
  "import_env \<Rightarrow> bool \<Rightarrow> int \<Rightarrow> string \<Rightarrow> recovery \<Rightarrow> import_state \<Rightarrow> import_state \<times> tracked_state result" where
  "apply_recovery env commit_ok row_id did rec s =
     (case rec of
        Durable iid p \<Rightarrow> finish_recovery env commit_ok row_id did iid p (is_lib s) s
      | Adopt iid resolved p \<Rightarrow>
          (case file_bytes env (is_disk s) p of
             Inl e \<Rightarrow> (s, Inl e)
           | Inr sz \<Rightarrow>
               finish_recovery env commit_ok row_id did iid p (adopt_file env did iid resolved p sz (is_lib s)) s))"

definition reconcile_recovered_import ::
  "import_env \<Rightarrow> bool \<Rightarrow> int \<Rightarrow> string \<Rightarrow> int option \<Rightarrow> int option \<Rightarrow> import_state \<Rightarrow>
   import_state \<times> tracked_state option result" where
  "reconcile_recovered_import env commit_ok row_id did sid issue s =
     (case recovery_plan sid issue s of
        None \<Rightarrow> (s, Inr None)
      | Some rec \<Rightarrow>
          (case apply_recovery env commit_ok row_id did rec s of
             (s', Inl e) \<Rightarrow> (s', Inl e)
           | (s', Inr st) \<Rightarrow> (s', Inr (Some st))))"

text \<open>
  The stretches of \<open>_process_one\<close> between two sessions. What the claim read of the row stays as it
  was read; the grabs, the disk and the library are read when a stretch runs.
\<close>

definition claimed_output :: "tracked_row \<Rightarrow> string" where
  "claimed_output r = (case tr_output_path r of None \<Rightarrow> [] | Some p \<Rightarrow> p)"

definition drain_maps :: "import_env \<Rightarrow> tracked_row \<Rightarrow> path_mapping list" where
  "drain_maps env r = (case tr_client_id r of None \<Rightarrow> [] | Some c \<Rightarrow> ie_maps env c)"

definition drain_files :: "import_env \<Rightarrow> tracked_row \<Rightarrow> import_state \<Rightarrow> import_file list" where
  "drain_files env r s =
     gather_completed (is_disk s) (ie_exts env) (ie_depth env) (drain_maps env r) (grabs (is_db s)) (tr_download_id r)
       (claimed_output r) (tr_title r)"

definition drain_saw :: "import_env \<Rightarrow> tracked_row \<Rightarrow> import_file list \<Rightarrow> import_state \<Rightarrow> bool" where
  "drain_saw env r files s \<longleftrightarrow>
     files \<noteq> [] \<or> saw_any_files (is_disk s) (ie_depth env) (drain_maps env r) (claimed_output r)"

definition recovering :: "tracked_row \<Rightarrow> import_file list \<Rightarrow> bool" where
  "recovering r files \<longleftrightarrow> tr_state r = Importing \<and> files = []"

text \<open>
  Where an exception can come from: each of the two commits may find the database busy, each read
  between them may raise, and so may the read of the client row and the failure run at the end.
\<close>

record drain_io =
  di_claim :: bool
  di_gather :: "py_error option"
  di_plan :: "py_error option"
  di_probe :: "py_error option"
  di_commit :: bool
  di_client :: "py_error option"
  di_failures :: bool

definition quiet_io :: drain_io where
  "quiet_io = \<lparr>di_claim = True, di_gather = None, di_plan = None, di_probe = None, di_commit = True,
     di_client = None, di_failures = True\<rparr>"

text \<open>
  \<open>_process_one\<close> up to its side effects: the state after its sessions and the verdict, with the
  claimed row when control goes on to the side effects.
\<close>

definition with_effects ::
  "tracked_row option \<Rightarrow> 's \<times> tracked_state result \<Rightarrow> 's \<times> (tracked_state option \<times> tracked_row option) result" where
  "with_effects due r = (case r of
     (s, Inl e) \<Rightarrow> (s, Inl e)
   | (s, Inr st) \<Rightarrow> (s, Inr (Some st, if st = Ignored then None else due)))"

definition drain_commit ::
  "import_env \<Rightarrow> drain_io \<Rightarrow> int \<Rightarrow> tracked_row \<Rightarrow> import_file list \<Rightarrow> import_state \<Rightarrow>
   import_state \<times> (tracked_state option \<times> tracked_row option) result" where
  "drain_commit env io row_id r files s =
     (case di_probe io of
        Some e \<Rightarrow> (s, Inl e)
      | None \<Rightarrow> with_effects (Some r)
          (import_transaction env (di_commit io) row_id (tr_download_id r) files False (drain_saw env r files s) s))"

definition drain_import ::
  "import_env \<Rightarrow> drain_io \<Rightarrow> int \<Rightarrow> import_state \<Rightarrow>
   import_state \<times> (tracked_state option \<times> tracked_row option) result" where
  "drain_import env io row_id s =
     (if \<not> di_claim io then (s, Inl DatabaseBusyError)
      else
        (case claim_import (ie_now env) row_id (is_db s) of
           None \<Rightarrow> (s, Inr (None, None))
         | Some (db1, r) \<Rightarrow>
             (let s1 = s\<lparr>is_db := db1\<rparr>
              in if claimed_output r = [] then
                   with_effects None (import_transaction env (di_commit io) row_id (tr_download_id r) [] True False s1)
                 else
                   (case di_gather io of
                      Some e \<Rightarrow> (s1, Inl e)
                    | None \<Rightarrow>
                        (let files = drain_files env r s1
                         in if \<not> recovering r files then drain_commit env io row_id r files s1
                            else
                              (case di_plan io of
                                 Some e \<Rightarrow> (s1, Inl e)
                               | None \<Rightarrow>
                                   (case reconcile_recovered_import env (di_commit io) row_id (tr_download_id r)
                                           (tr_series_id r) (tr_issue_id r) s1 of
                                      (s2, Inl e) \<Rightarrow> (s2, Inl e)
                                    | (s2, Inr (Some st)) \<Rightarrow> (s2, Inr (Some st, None))
                                    | (s2, Inr None) \<Rightarrow> drain_commit env io row_id r files s2)))))))"

text \<open>After the commit: the client of an imported download, the failure loop of a corrupt one.\<close>

datatype client_call = Remove_data int string | Mark_imported int string

definition post_import_cleanup ::
  "(int \<Rightarrow> bool) \<Rightarrow> (int \<Rightarrow> client_item list option) \<Rightarrow> py_error option \<Rightarrow> int option \<Rightarrow> string \<Rightarrow>
   client_call list result" where
  "post_import_cleanup remove_completed items row_read client did =
     (case client of
        None \<Rightarrow> Inr []
      | Some c \<Rightarrow>
          (case row_read of
             Some e \<Rightarrow> Inl e
           | None \<Rightarrow>
               (case items c of
                  None \<Rightarrow> Inr []
                | Some its \<Rightarrow>
                    (case find (\<lambda>it. it_download_id it = did) its of
                       None \<Rightarrow> Inr []
                     | Some _ \<Rightarrow> Inr [if remove_completed c then Remove_data c did else Mark_imported c did]))))"

record 's effects_env =
  ee_remove_completed :: "int \<Rightarrow> bool"
  ee_items :: "int \<Rightarrow> client_item list option"
  ee_submit :: "'s \<Rightarrow> int \<times> int \<Rightarrow> ('s \<times> unit) result"
  ee_auto_redownload :: bool
  ee_browse :: "int set"

definition run_post_import_side_effects ::
  "'s effects_env \<Rightarrow> drain_io \<Rightarrow> datetime \<Rightarrow> tracked_state option \<Rightarrow> int option \<Rightarrow> string \<Rightarrow> import_state \<times> 's \<Rightarrow>
   (import_state \<times> 's) \<times> client_call list result" where
  "run_post_import_side_effects ee io now final client did sc =
     (if final = Some Imported then
        (sc, post_import_cleanup (ee_remove_completed ee) (ee_items ee) (di_client io) client did)
      else if final = Some Failed_pending then
        (case sc of (s, cmds) \<Rightarrow>
         case process_failures (ee_submit ee) (ee_auto_redownload ee) (ee_browse ee) (di_failures io) now (is_db s, cmds) of
           ((db', cmds'), Inl e) \<Rightarrow> ((s\<lparr>is_db := db'\<rparr>, cmds'), Inl e)
         | ((db', cmds'), Inr _) \<Rightarrow> ((s\<lparr>is_db := db'\<rparr>, cmds'), Inr []))
      else (sc, Inr []))"

text \<open>\<open>_process_one\<close>: the drain and, after its commit, the side effects.\<close>

definition process_one ::
  "'s effects_env \<Rightarrow> import_env \<Rightarrow> drain_io \<Rightarrow> int \<Rightarrow> import_state \<times> 's \<Rightarrow>
   (import_state \<times> 's) \<times> (tracked_state option \<times> client_call list) result" where
  "process_one ee env io row_id sc =
     (case sc of (s, cmds) \<Rightarrow>
      case drain_import env io row_id s of
        (s', Inl e) \<Rightarrow> ((s', cmds), Inl e)
      | (s', Inr (st, None)) \<Rightarrow> ((s', cmds), Inr (st, []))
      | (s', Inr (st, Some r)) \<Rightarrow>
          (case run_post_import_side_effects ee io (ie_now env) st (tr_client_id r) (tr_download_id r) (s', cmds) of
             (sc', Inl e) \<Rightarrow> (sc', Inl e)
           | (sc', Inr calls) \<Rightarrow> (sc', Inr (st, calls))))"

record import_summary =
  su_imported :: nat
  su_blocked :: nat
  su_failed :: nat
  su_errored :: nat

definition count_verdict :: "tracked_state option \<Rightarrow> import_summary \<Rightarrow> import_summary" where
  "count_verdict st u =
     (if st = Some Imported then u\<lparr>su_imported := Suc (su_imported u)\<rparr>
      else if st = Some Import_blocked then u\<lparr>su_blocked := Suc (su_blocked u)\<rparr>
      else if st = Some Failed_pending then u\<lparr>su_failed := Suc (su_failed u)\<rparr>
      else u)"

definition drain_row ::
  "'s effects_env \<Rightarrow> import_env \<Rightarrow> (int \<Rightarrow> drain_io) \<Rightarrow> int \<Rightarrow> (import_state \<times> 's) \<times> import_summary \<Rightarrow>
   (import_state \<times> 's) \<times> import_summary" where
  "drain_row ee env io row_id acc =
     (case acc of (sc, u) \<Rightarrow>
      case process_one ee env (io row_id) row_id sc of
        (sc', Inl e) \<Rightarrow> (sc', u\<lparr>su_errored := Suc (su_errored u)\<rparr>)
      | (sc', Inr (st, calls)) \<Rightarrow> (sc', count_verdict st u))"

definition process_imports ::
  "'s effects_env \<Rightarrow> import_env \<Rightarrow> (int \<Rightarrow> drain_io) \<Rightarrow> import_state \<times> 's \<Rightarrow> (import_state \<times> 's) \<times> import_summary" where
  "process_imports ee env io sc =
     fold (drain_row ee env io)
       (map tr_id (filter (\<lambda>r. claimable (tr_state r)) (tracked (is_db (fst sc)))))
       (sc, \<lparr>su_imported = 0, su_blocked = 0, su_failed = 0, su_errored = 0\<rparr>)"

section \<open>Manual removal\<close>

datatype api_error = Api_error nat string

definition IMPORTING_REFUSAL :: string where
  "IMPORTING_REFUSAL = ''import in progress for this item; try again once it completes''"

definition not_found_message :: "int \<Rightarrow> string" where
  "not_found_message i = ''queue item '' @ show_int i @ '' not found''"

definition write_manual_blocklist :: "tracked_row \<Rightarrow> datetime \<Rightarrow> download_db \<Rightarrow> download_db" where
  "write_manual_blocklist r now db =
     db\<lparr>blocklist := blocklist db @
          [new_blocklist_row r (grabs_of (tr_download_id r) (grabs db)) now
             (Some ''manually removed from the queue and blocklisted'')],
        dl_events := dl_events db @ [Blocklist_changed]\<rparr>"

definition detrack :: "bool \<Rightarrow> datetime \<Rightarrow> tracked_row \<Rightarrow> download_db \<Rightarrow> download_db" where
  "detrack blk now r db =
     (let db1 = (if blk then write_manual_blocklist r now db else db)
      in db1\<lparr>tracked := row_del tr_id (tr_id r) (tracked db1)\<rparr>)"

definition queue_item :: "int \<Rightarrow> download_db \<Rightarrow> api_error + tracked_row" where
  "queue_item qid db =
     (case row_get tr_id qid (tracked db) of
        None \<Rightarrow> Inl (Api_error 404 (not_found_message qid))
      | Some r \<Rightarrow> if tr_state r = Importing then Inl (Api_error 409 IMPORTING_REFUSAL) else Inr r)"

text \<open>The row is read twice: \<open>seen\<close> is the database of the first session, \<open>db\<close> that of the second.\<close>

definition delete_queue_item ::
  "int \<Rightarrow> bool \<Rightarrow> datetime \<Rightarrow> download_db \<Rightarrow> download_db \<Rightarrow> api_error + download_db \<times> (int option \<times> string)" where
  "delete_queue_item qid blk now seen db =
     (case queue_item qid seen of
        Inl e \<Rightarrow> Inl e
      | Inr r0 \<Rightarrow>
          (case queue_item qid db of
             Inl e \<Rightarrow> Inl e
           | Inr r \<Rightarrow> Inr (detrack blk now r db, (tr_client_id r0, tr_download_id r0))))"

record remove_request =
  rq_ids :: "int list option"
  rq_scope_failed :: bool
  rq_blocklist :: bool

definition MAX_BULK_REMOVE :: nat where "MAX_BULK_REMOVE = 500"

definition valid_remove_request :: "remove_request \<Rightarrow> bool" where
  "valid_remove_request q =
     (case rq_ids q of
        None \<Rightarrow> rq_scope_failed q
      | Some ids \<Rightarrow> \<not> rq_scope_failed q \<and> ids \<noteq> [] \<and> length ids \<le> MAX_BULK_REMOVE)"

definition remove_targets :: "remove_request \<Rightarrow> download_db \<Rightarrow> (int \<times> tracked_row option) list" where
  "remove_targets q db =
     (if rq_scope_failed q then
        map (\<lambda>r. (tr_id r, Some r)) (filter (\<lambda>r. tr_state r = Failed) (tracked db))
      else map (\<lambda>i. (i, row_get tr_id i (tracked db)))
             (rev (remdups (rev (case rq_ids q of None \<Rightarrow> [] | Some ids \<Rightarrow> ids)))))"

fun remove_loop ::
  "bool \<Rightarrow> datetime \<Rightarrow> (int \<times> tracked_row option) list \<Rightarrow> download_db \<Rightarrow>
   download_db \<times> (int option \<times> string) list \<times> (int \<times> string) list" where
  "remove_loop blk now [] db = (db, [], [])"
| "remove_loop blk now ((i, None) # ts) db =
     (case remove_loop blk now ts db of (db', removed, errors) \<Rightarrow> (db', removed, (i, not_found_message i) # errors))"
| "remove_loop blk now ((i, Some r) # ts) db =
     (if tr_state r = Importing then
        (case remove_loop blk now ts db of (db', removed, errors) \<Rightarrow> (db', removed, (i, IMPORTING_REFUSAL) # errors))
      else
        (case remove_loop blk now ts (detrack blk now r db) of
           (db', removed, errors) \<Rightarrow> (db', (tr_client_id r, tr_download_id r) # removed, errors)))"

definition remove_queue_items ::
  "remove_request \<Rightarrow> datetime \<Rightarrow> download_db \<Rightarrow>
   (download_db \<times> (int option \<times> string) list \<times> (int \<times> string) list) option" where
  "remove_queue_items q now db =
     (if valid_remove_request q then Some (remove_loop (rq_blocklist q) now (remove_targets q db) db) else None)"

text \<open>The best-effort client calls, one listing per client in first-use order.\<close>

definition by_client :: "(int option \<times> string) list \<Rightarrow> (int, string list) odict" where
  "by_client removed = foldl (\<lambda>d (c, did). case c of None \<Rightarrow> d
     | Some i \<Rightarrow> od_set i ((case map_of d i of None \<Rightarrow> [] | Some xs \<Rightarrow> xs) @ [did]) d) [] removed"

definition instruct_clients_remove ::
  "(int \<Rightarrow> client_item list option) \<Rightarrow> (int option \<times> string) list \<Rightarrow> (int \<times> string) list" where
  "instruct_clients_remove items removed =
     concat (map (\<lambda>(c, dids). case items c of None \<Rightarrow> []
        | Some its \<Rightarrow> map (\<lambda>it. (c, it_download_id it)) (filter (\<lambda>it. it_download_id it \<in> set dids) its))
       (by_client removed))"

section \<open>The stall memory\<close>

lemma row_get_apply_state:
  "row_get tr_id j (tracked (apply_state i final status msgs now stalled db)) =
   (if j = i then map_option (\<lambda>r. r\<lparr>tr_state := final, tr_status := status, tr_messages := msgs,
        tr_updated_at := now, tr_stall_count := (if stalled then tr_stall_count r + 1 else 0),
        tr_first_stalled_at := (if stalled then (case tr_first_stalled_at r of None \<Rightarrow> Some now | Some t \<Rightarrow> Some t)
          else None)\<rparr>) (row_get tr_id i (tracked db))
    else row_get tr_id j (tracked db))"
proof (cases "row_get tr_id i (tracked db)")
  case (Some r)
  then have "tr_id r = i" by (auto dest: row_get_SomeD)
  with Some show ?thesis by (auto simp: apply_state_def Let_def row_get_put)
qed (simp add: apply_state_def)

type_synonym verdict = "tracked_state \<times> tracked_status \<times> string list \<times> datetime \<times> bool"

definition verdict_stalled :: "verdict \<Rightarrow> bool" where
  "verdict_stalled v = snd (snd (snd (snd v)))"

definition verdict_time :: "verdict \<Rightarrow> datetime" where
  "verdict_time v = fst (snd (snd (snd v)))"

definition apply_verdict :: "int \<Rightarrow> verdict \<Rightarrow> download_db \<Rightarrow> download_db" where
  "apply_verdict i v db =
     apply_state i (fst v) (fst (snd v)) (fst (snd (snd v))) (verdict_time v) (verdict_stalled v) db"

definition stall_streak :: "verdict list \<Rightarrow> verdict list" where
  "stall_streak vs = takeWhile verdict_stalled (rev vs)"

lemma row_get_apply_verdict:
  "row_get tr_id i (tracked (apply_verdict i v db)) =
   map_option (\<lambda>r. r\<lparr>tr_state := fst v, tr_status := fst (snd v), tr_messages := fst (snd (snd v)),
      tr_updated_at := verdict_time v, tr_stall_count := (if verdict_stalled v then tr_stall_count r + 1 else 0),
      tr_first_stalled_at := (if verdict_stalled v then (case tr_first_stalled_at r of
        None \<Rightarrow> Some (verdict_time v) | Some t \<Rightarrow> Some t) else None)\<rparr>) (row_get tr_id i (tracked db))"
  by (simp add: apply_verdict_def row_get_apply_state)

lemma stall_streak_snoc:
  "stall_streak (vs @ [v]) = (if verdict_stalled v then v # stall_streak vs else [])"
  by (simp add: stall_streak_def)

text \<open>The stall memory of a download is exactly its current streak: after any sequence of import
  verdicts on a fresh row, the counter is the number of verdicts since the last one that saw the
  path, and the time stamp is that of the first verdict of the streak, absent when there is none.\<close>

theorem stall_memory_is_streak:
  assumes "row_get tr_id i (tracked db) = Some r" and "tr_stall_count r = 0" and "tr_first_stalled_at r = None"
  shows "case row_get tr_id i (tracked (fold (apply_verdict i) vs db)) of
      None \<Rightarrow> False
    | Some r' \<Rightarrow> tr_stall_count r' = length (stall_streak vs) \<and>
        tr_first_stalled_at r' = (if stall_streak vs = [] then None else Some (verdict_time (last (stall_streak vs))))"
proof (induction vs rule: rev_induct)
  case Nil
  then show ?case using assms by (simp add: stall_streak_def)
next
  case (snoc v vs)
  then obtain q where "row_get tr_id i (tracked (fold (apply_verdict i) vs db)) = Some q"
    and "tr_stall_count q = length (stall_streak vs)"
    and "tr_first_stalled_at q = (if stall_streak vs = [] then None else Some (verdict_time (last (stall_streak vs))))"
    by (auto split: option.splits)
  then show ?case by (simp add: row_get_apply_verdict stall_streak_snoc)
qed

lemma stall_memory_is_streak_witness:
  "case row_get tr_id 1 (tracked (fold (apply_verdict 1)
      [(Import_blocked, Warning_status, [], 5, True), (Import_blocked, Warning_status, [], 6, False),
       (Import_blocked, Warning_status, [], 7, True), (Import_blocked, Warning_status, [], 8, True)]
      (sample_db [sample_row]))) of
     None \<Rightarrow> False | Some r' \<Rightarrow> tr_stall_count r' = 2 \<and> tr_first_stalled_at r' = Some 7"
  using stall_memory_is_streak [of 1 "sample_db [sample_row]" sample_row
      "[(Import_blocked, Warning_status, [], 5, True), (Import_blocked, Warning_status, [], 6, False),
       (Import_blocked, Warning_status, [], 7, True), (Import_blocked, Warning_status, [], 8, True)]"]
  by (simp add: sample_db_def sample_row_def stall_streak_def verdict_stalled_def verdict_time_def
      split: option.splits)

section \<open>What a drain does to the tables\<close>

lemma resolve_terminal_state_verdict:
  "fst (resolve_terminal_state outcomes no_output) \<in> {Imported, Import_blocked, Failed_pending}"
  by (simp add: resolve_terminal_state_def)

text \<open>The queue database after a drain of one row, whatever its outcome.\<close>

definition drained_db :: "int \<Rightarrow> download_db \<Rightarrow> download_db \<Rightarrow> bool" where
  "drained_db i db db' \<longleftrightarrow> db' = db \<or> db' = withdraw_import i db \<or>
     (\<exists>final status msgs now stalled. db' = apply_state i final status msgs now stalled db \<and>
        final \<in> {Imported, Import_blocked, Failed_pending})"

lemma drained_db_same [simp]: "drained_db i db db"
  by (simp add: drained_db_def)

lemma drained_db_withdraw [simp]: "drained_db i db (withdraw_import i db)"
  by (simp add: drained_db_def)

lemma drained_db_verdict:
  "final \<in> {Imported, Import_blocked, Failed_pending} \<Longrightarrow>
   drained_db i db (apply_state i final status msgs now stalled db)"
  unfolding drained_db_def by blast

lemma finalize_db:
  assumes "finalize_download_import env i did ocs no_output saw s = Inr (s', final)"
  shows "drained_db i (is_db s) (is_db s')"
proof -
  obtain f st ms where r: "resolve_terminal_state ocs no_output = (f, st, ms)" by (metis prod_cases3)
  then have "f \<in> {Imported, Import_blocked, Failed_pending}"
    using resolve_terminal_state_verdict [of ocs no_output] by simp
  with assms show ?thesis
    by (auto simp: finalize_download_import_def r Let_def result_bind_eq_Inr drained_db_verdict)
qed

lemma import_transaction_db:
  "drained_db i (is_db s) (is_db (fst (import_transaction env ok i did files no_output saw s)))"
  by (auto simp: import_transaction_def split: prod.splits sum.splits dest!: finalize_db)

lemma finish_recovery_db:
  "drained_db i (is_db s) (is_db (fst (finish_recovery env ok i did iid path lib s)))"
  by (auto simp: finish_recovery_def drained_db_verdict split: sum.splits)

lemma apply_recovery_db:
  "drained_db i (is_db s) (is_db (fst (apply_recovery env ok i did rec s)))"
  by (auto simp: apply_recovery_def finish_recovery_db split: recovery.splits sum.splits)

lemma fst_with_effects [simp]: "fst (with_effects due r) = fst r"
  by (auto simp: with_effects_def split: prod.splits sum.splits)

section \<open>The life of a tracked download\<close>

text \<open>
  The commands and requests that run against the tables, in any order: a poll, the failure loop,
  the two removal requests, changes made elsewhere to the store, the library and the disk, and
  the stretches of a drain, one rule for each stretch between two sessions. A drain that is under
  way is where it stands, with what it has read so far. There is one at a time, as the command
  queue runs the imports in an exclusivity group of their own. Any stretch may be the last one,
  by an exception or because the process stops.
\<close>

datatype drain_phase =
    Drain_idle
  | Drain_claimed import_env int tracked_row
  | Drain_stale import_env int tracked_row
  | Drain_recovery import_env int tracked_row recovery
  | Drain_intake import_env int tracked_row "import_file list"
  | Drain_ready import_env int tracked_row bool "import_file list" bool
  | Drain_settled import_env tracked_row tracked_state

definition after_claim :: "import_env \<Rightarrow> int \<Rightarrow> tracked_row \<Rightarrow> drain_phase" where
  "after_claim env i r = (if claimed_output r = [] then Drain_ready env i r True [] False else Drain_claimed env i r)"

definition after_intake :: "import_env \<Rightarrow> int \<Rightarrow> tracked_row \<Rightarrow> import_file list \<Rightarrow> drain_phase" where
  "after_intake env i r files = (if recovering r files then Drain_stale env i r else Drain_intake env i r files)"

definition after_commit :: "import_env \<Rightarrow> tracked_row \<Rightarrow> bool \<Rightarrow> tracked_state result \<Rightarrow> drain_phase" where
  "after_commit env r no_output res = (case res of
     Inl e \<Rightarrow> Drain_idle
   | Inr st \<Rightarrow> if no_output \<or> st = Ignored then Drain_idle else Drain_settled env r st)"

inductive download_step :: "import_state \<times> drain_phase \<Rightarrow> import_state \<times> drain_phase \<Rightarrow> bool" where
  step_poll: "reconcile_downloads parse lib ok obs polled now (is_db s) = Inr db' \<Longrightarrow>
    download_step (s, p) (s\<lparr>is_db := db'\<rparr>, p)"
| step_fail: "fst (process_failures (submit :: nat \<Rightarrow> int \<times> int \<Rightarrow> (nat \<times> unit) result) auto browse ok now (is_db s, cmds)) =
      (db', cmds') \<Longrightarrow>
    download_step (s, p) (s\<lparr>is_db := db'\<rparr>, p)"
| step_delete: "delete_queue_item qid blk now seen (is_db s) = Inr (db', call) \<Longrightarrow>
    download_step (s, p) (s\<lparr>is_db := db'\<rparr>, p)"
| step_remove: "remove_queue_items q now (is_db s) = Some (db', removed, errors) \<Longrightarrow>
    download_step (s, p) (s\<lparr>is_db := db'\<rparr>, p)"
| step_elsewhere: "download_step (s, p) (s\<lparr>is_ents := ents, is_lib := lb, is_disk := dk\<rparr>, p)"
| drain_claims: "claim_import (ie_now env) i (is_db s) = Some (db', r) \<Longrightarrow>
    download_step (s, Drain_idle) (s\<lparr>is_db := db'\<rparr>, after_claim env i r)"
| drain_gathers: "download_step (s, Drain_claimed env i r) (s, after_intake env i r (drain_files env r s))"
| drain_plans: "recovery_plan (tr_series_id r) (tr_issue_id r) s = Some rec \<Longrightarrow>
    download_step (s, Drain_stale env i r) (s, Drain_recovery env i r rec)"
| drain_plans_none: "recovery_plan (tr_series_id r) (tr_issue_id r) s = None \<Longrightarrow>
    download_step (s, Drain_stale env i r) (s, Drain_intake env i r [])"
| drain_recovers: "apply_recovery env ok i (tr_download_id r) rec s = (s', res) \<Longrightarrow>
    download_step (s, Drain_recovery env i r rec) (s', Drain_idle)"
| drain_probes: "download_step (s, Drain_intake env i r files)
      (s, Drain_ready env i r False files (drain_saw env r files s))"
| drain_commits: "import_transaction env ok i (tr_download_id r) files no_output saw s = (s', res) \<Longrightarrow>
    download_step (s, Drain_ready env i r no_output files saw) (s', after_commit env r no_output res)"
| drain_effects: "run_post_import_side_effects (ee :: nat effects_env) io (ie_now env) (Some st) (tr_client_id r)
      (tr_download_id r) (s, cmds) = ((s', cmds'), res) \<Longrightarrow>
    download_step (s, Drain_settled env r st) (s', Drain_idle)"
| drain_stops: "download_step (s, p) (s, Drain_idle)"

text \<open>A drain that runs without another command in between is a run of these steps.\<close>

lemma drain_commit_run:
  "\<exists>p. download_step\<^sup>*\<^sup>* (s, Drain_intake env i r files) (fst (drain_commit env io i r files s), p)"
proof (cases "di_probe io")
  case None
  obtain s' res where t: "import_transaction env (di_commit io) i (tr_download_id r) files False
      (drain_saw env r files s) s = (s', res)" by force
  have "fst (drain_commit env io i r files s) = s'" using None t by (simp add: drain_commit_def)
  then show ?thesis
    using drain_probes [of s env i r files] drain_commits [OF t]
    by (metis converse_rtranclp_into_rtranclp r_into_rtranclp)
qed (auto simp: drain_commit_def)

lemma drain_recovery_run:
  "\<exists>p. download_step\<^sup>*\<^sup>* (s, Drain_stale env i r)
      (fst (reconcile_recovered_import env ok i (tr_download_id r) (tr_series_id r) (tr_issue_id r) s), p)"
proof (cases "recovery_plan (tr_series_id r) (tr_issue_id r) s")
  case None
  then show ?thesis by (auto simp: reconcile_recovered_import_def)
next
  case (Some rec)
  obtain s' res where a: "apply_recovery env ok i (tr_download_id r) rec s = (s', res)" by force
  have "fst (reconcile_recovered_import env ok i (tr_download_id r) (tr_series_id r) (tr_issue_id r) s) = s'"
    using Some a by (cases res) (simp_all add: reconcile_recovered_import_def)
  then show ?thesis
    using drain_plans [OF Some, of env i] drain_recovers [OF a]
    by (metis converse_rtranclp_into_rtranclp r_into_rtranclp)
qed

lemma reconcile_recovered_none:
  "reconcile_recovered_import env ok i did sid issue s = (s2, Inr None) \<Longrightarrow>
   s2 = s \<and> recovery_plan sid issue s = None"
  by (auto simp: reconcile_recovered_import_def split: option.splits prod.splits sum.splits)

lemma drain_intake_run:
  "\<exists>p. download_step\<^sup>*\<^sup>* (s, after_intake env i r files)
      (fst (if \<not> recovering r files then drain_commit env io i r files s
        else (case di_plan io of Some e \<Rightarrow> (s, Inl e)
          | None \<Rightarrow> (case reconcile_recovered_import env (di_commit io) i (tr_download_id r)
                  (tr_series_id r) (tr_issue_id r) s of
               (s2, Inl e) \<Rightarrow> (s2, Inl e)
             | (s2, Inr (Some st)) \<Rightarrow> (s2, Inr (Some st, None))
             | (s2, Inr None) \<Rightarrow> drain_commit env io i r files s2))), p)"
proof (cases "recovering r files \<and> di_plan io = None")
  case False
  then show ?thesis using drain_commit_run [of s env i r files io] by (auto simp: after_intake_def)
next
  case True
  let ?rec = "reconcile_recovered_import env (di_commit io) i (tr_download_id r) (tr_series_id r) (tr_issue_id r) s"
  have f: "files = []" using True by (simp add: recovering_def)
  obtain s2 res where r: "?rec = (s2, res)" by force
  show ?thesis
  proof (cases "res = Inr None")
    case none: True
    then have "s2 = s" "recovery_plan (tr_series_id r) (tr_issue_id r) s = None"
      using reconcile_recovered_none r by blast+
    then have "download_step (s, Drain_stale env i r) (s2, Drain_intake env i r files)"
      using drain_plans_none f by simp
    moreover obtain p where "download_step\<^sup>*\<^sup>* (s2, Drain_intake env i r files) (fst (drain_commit env io i r files s2), p)"
      using drain_commit_run by blast
    ultimately have "download_step\<^sup>*\<^sup>* (s, Drain_stale env i r) (fst (drain_commit env io i r files s2), p)"
      by (rule converse_rtranclp_into_rtranclp)
    then show ?thesis using True none r by (auto simp: after_intake_def)
  next
    case False
    then show ?thesis
      using True r drain_recovery_run [of s env i r "di_commit io"]
      by (auto simp: after_intake_def split: sum.splits option.splits)
  qed
qed

lemma drain_is_a_run:
  "\<exists>p. download_step\<^sup>*\<^sup>* (s, Drain_idle) (fst (drain_import env io i s), p)"
proof (cases "claim_import (ie_now env) i (is_db s)")
  case None
  then show ?thesis by (auto simp: drain_import_def)
next
  case (Some c)
  obtain db1 r where c: "c = (db1, r)" by force
  let ?s1 = "s\<lparr>is_db := db1\<rparr>"
  have claim: "download_step (s, Drain_idle) (?s1, after_claim env i r)"
    using drain_claims Some c by blast
  have "\<exists>p. download_step\<^sup>*\<^sup>* (?s1, after_claim env i r) (fst (drain_import env io i s), p)" if ok: "di_claim io"
  proof (cases "claimed_output r = []")
    case True
    obtain s' res where "import_transaction env (di_commit io) i (tr_download_id r) [] True False ?s1 = (s', res)"
      by force
    from drain_commits [OF this] this show ?thesis
      using True Some c ok by (auto simp: drain_import_def after_claim_def)
  next
    case out: False
    show ?thesis
    proof (cases "di_gather io")
      case None
      obtain p where "download_step\<^sup>*\<^sup>* (?s1, after_intake env i r (drain_files env r ?s1)) (fst (drain_import env io i s), p)"
        using drain_intake_run [of ?s1 env i r "drain_files env r ?s1" io] out None Some c ok
        by (auto simp: drain_import_def Let_def)
      then have "download_step\<^sup>*\<^sup>* (?s1, Drain_claimed env i r) (fst (drain_import env io i s), p)"
        by (rule converse_rtranclp_into_rtranclp [where r = download_step, OF drain_gathers])
      then show ?thesis using out by (auto simp: after_claim_def)
    qed (use out Some c ok in \<open>auto simp: drain_import_def after_claim_def\<close>)
  qed
  then show ?thesis
    using claim by (cases "di_claim io") (auto simp: drain_import_def intro: converse_rtranclp_into_rtranclp)
qed

definition settled :: "tracked_state \<Rightarrow> bool" where
  "settled st \<longleftrightarrow> st \<in> {Imported, Failed, Ignored}"

definition life :: "tracked_state \<Rightarrow> tracked_state \<Rightarrow> bool" where
  "life a b \<longleftrightarrow> a = b \<or> (\<not> settled a \<and> a \<noteq> Failed_pending \<and> b \<notin> {Downloading, Ignored}) \<or>
     (a = Failed_pending \<and> b = Failed)"

lemma life_refl [simp]: "life a a"
  by (simp add: life_def)

lemma life_trans: "life a b \<Longrightarrow> life b c \<Longrightarrow> life a c"
  by (auto simp: life_def settled_def)

lemma poll_moves_life: "poll_moves a b \<Longrightarrow> life a b"
  by (auto simp: life_def settled_def poll_moves_def)

text \<open>Every step keeps the primary key unique and relates the state of each surviving row.\<close>

definition rows_live :: "download_db \<Rightarrow> download_db \<Rightarrow> bool" where
  "rows_live db db' \<longleftrightarrow>
     (unique_key tr_id (tracked db) \<longrightarrow> unique_key tr_id (tracked db') \<and>
       (\<forall>i a b. state_of db i = Some a \<and> state_of db' i = Some b \<longrightarrow> life a b))"

lemma rows_liveI:
  assumes "unique_key tr_id (tracked db) \<Longrightarrow> unique_key tr_id (tracked db')"
    and "\<And>i a b. unique_key tr_id (tracked db) \<Longrightarrow> state_of db i = Some a \<Longrightarrow> state_of db' i = Some b \<Longrightarrow> life a b"
  shows "rows_live db db'"
  using assms by (auto simp: rows_live_def)

lemma rows_live_refl [simp]: "rows_live db db"
  by (auto simp: rows_live_def)

lemma poll_live:
  assumes "reconcile_downloads parse lib ok obs polled now db = Inr db'"
  shows "rows_live db db'"
proof (rule rows_liveI)
  assume u: "unique_key tr_id (tracked db)"
  then show "unique_key tr_id (tracked db')" by (rule unique_reconcile [OF assms])
  fix i a b assume "state_of db i = Some a" and b: "state_of db' i = Some b"
  then obtain r where r: "row_get tr_id i (tracked db) = Some r" "tr_state r = a"
    by (auto simp: state_of_def)
  from reconcile_moves [OF assms u r(1)] b r(2) show "life a b"
    by (auto simp: state_of_def poll_moves_life)
qed

lemma fail_live:
  assumes "fst (process_failures submit auto browse ok now (db, cmds)) = (db', cmds')"
  shows "rows_live db db'"
proof (cases ok)
  case False
  then show ?thesis using assms by (simp add: process_failures_def)
next
  case True
  have db': "db' = fold (fail_one now) (pending_failures db) db"
    using process_failures_db [of submit auto browse now db cmds] assms True by simp
  have id: "tr_id (failed_in_place now r) = tr_id r" for r
    by (simp add: failed_in_place_def)
  show ?thesis
  proof (rule rows_liveI)
    assume u: "unique_key tr_id (tracked db)"
    then have t: "tracked db' = map (failed_in_place now) (tracked db)"
      by (simp add: db' fold_fail_pending)
    then show "unique_key tr_id (tracked db')" using u id by (simp add: unique_key_map)
    fix i a b assume "state_of db i = Some a" "state_of db' i = Some b"
    then show "life a b"
      by (auto simp: state_of_def t row_get_map id) (simp add: failed_in_place_def life_def)
  qed
qed

lemma unique_apply_state:
  "unique_key tr_id (tracked db) \<Longrightarrow> unique_key tr_id (tracked (apply_state i f st ms now x db))"
  by (auto simp: apply_state_def Let_def unique_row_put split: option.splits)

lemma state_of_apply_state:
  "state_of (apply_state i f st ms now x db) j =
   (if j = i then map_option (\<lambda>_. f) (state_of db i) else state_of db j)"
  by (cases "row_get tr_id i (tracked db)") (simp_all add: state_of_def row_get_apply_state)

lemma state_of_del:
  "state_of (db\<lparr>tracked := row_del tr_id i (tracked db)\<rparr>) j = (if j = i then None else state_of db j)"
  by (simp add: state_of_def row_get_del)

lemma claim_import_state:
  assumes "claim_import now i db = Some (db1, r)"
  shows "row_get tr_id i (tracked db) = Some r" and "claimable (tr_state r)"
    and "state_of db1 j = (if j = i then Some Importing else state_of db j)"
    and "unique_key tr_id (tracked db) \<Longrightarrow> unique_key tr_id (tracked db1)"
    and "grabs db1 = grabs db"
    and "row_get tr_id i (tracked db1) = Some (r\<lparr>tr_state := Importing, tr_updated_at := now\<rparr>)"
  using assms
  by (auto simp: claim_import_def state_of_def row_get_put unique_row_put dest: row_get_SomeD
      split: option.splits if_splits)

lemma drained_live:
  assumes "drained_db i db db'" and "state_of db i = Some Importing"
  shows "rows_live db db'"
proof (rule rows_liveI)
  show "unique_key tr_id (tracked db) \<Longrightarrow> unique_key tr_id (tracked db')"
    using assms(1) by (auto simp: drained_db_def withdraw_import_def unique_row_del unique_apply_state)
  fix j a b assume "state_of db j = Some a" "state_of db' j = Some b"
  then show "life a b"
    using assms
    by (auto simp: drained_db_def withdraw_import_def state_of_del state_of_apply_state life_def settled_def
        split: if_splits)
qed

lemma claim_live:
  assumes "claim_import now i db = Some (db', r)"
  shows "rows_live db db'"
proof (rule rows_liveI [OF claim_import_state(4) [OF assms]])
  note c = claim_import_state [OF assms]
  fix j a b assume a: "state_of db j = Some a" and b: "state_of db' j = Some b"
  show "life a b"
  proof (cases "j = i")
    case True
    with a b c(1) have "a = tr_state r" "b = Importing" by (simp_all add: c(3)) (simp add: state_of_def)
    then show ?thesis using c(2) by (auto simp: claimable_def life_def settled_def)
  next
    case False
    with b have "state_of db j = Some b" using c(3) [of j] by simp
    with a show ?thesis by simp
  qed
qed

lemma effects_live:
  assumes "run_post_import_side_effects ee io now st client did (s, cmds) = ((s', cmds'), res)"
  shows "rows_live (is_db s) (is_db s')"
proof (cases "fst (process_failures (ee_submit ee) (ee_auto_redownload ee) (ee_browse ee) (di_failures io) now (is_db s, cmds))")
  case (Pair db' c')
  then show ?thesis using assms fail_live [OF Pair]
    by (auto simp: run_post_import_side_effects_def split: if_splits prod.splits sum.splits)
qed

lemma queue_item_row: "queue_item qid db = Inr r \<Longrightarrow> row_get tr_id qid (tracked db) = Some r \<and> tr_state r \<noteq> Importing"
  by (auto simp: queue_item_def split: option.splits if_splits)

lemma detrack_tracked: "tracked (detrack blk now r db) = row_del tr_id (tr_id r) (tracked db)"
  by (simp add: detrack_def write_manual_blocklist_def Let_def)

lemma deleting_live:
  assumes "tracked db' = filter P (tracked db)"
  shows "rows_live db db'"
proof (rule rows_liveI)
  assume u: "unique_key tr_id (tracked db)"
  then show u': "unique_key tr_id (tracked db')"
    by (simp add: assms unique_key_def distinct_map_filter)
  fix i a b assume a: "state_of db i = Some a" and b: "state_of db' i = Some b"
  then obtain r r' where r: "row_get tr_id i (tracked db) = Some r" "tr_state r = a"
    and r': "row_get tr_id i (tracked db') = Some r'" "tr_state r' = b" by (auto simp: state_of_def)
  have "r' = r"
    using row_get_SomeD [OF r(1)] row_get_SomeD [OF r'(1)] u by (auto simp: assms dest: unique_key_eq)
  then show "life a b" using r(2) r'(2) by simp
qed

definition removable :: "(int \<times> tracked_row option) list \<Rightarrow> int list" where
  "removable ts = List.map_filter (\<lambda>t. case snd t of None \<Rightarrow> None
     | Some r \<Rightarrow> if tr_state r = Importing then None else Some (tr_id r)) ts"

lemma removable_simps [simp]:
  "removable [] = []"
  "removable ((i, None) # ts) = removable ts"
  "removable ((i, Some r) # ts) = (if tr_state r = Importing then removable ts else tr_id r # removable ts)"
  by (simp_all add: removable_def map_filter_simps)

lemma remove_loop_tracked:
  "tracked (fst (remove_loop blk now ts db)) = filter (\<lambda>q. tr_id q \<notin> set (removable ts)) (tracked db)"
proof (induction blk now ts db rule: remove_loop.induct)
  case (2 blk now i ts db)
  then show ?case by (cases "remove_loop blk now ts db") simp
next
  case (3 blk now i r ts db)
  then show ?case
    by (cases "remove_loop blk now ts db"; cases "remove_loop blk now ts (detrack blk now r db)")
      (auto simp: detrack_tracked row_del_def intro!: filter_cong)
qed simp

text \<open>The row a drain has claimed stays \<open>importing\<close> for as long as the drain is under way.\<close>

fun phase_claim :: "drain_phase \<Rightarrow> int option" where
  "phase_claim (Drain_claimed env i r) = Some i"
| "phase_claim (Drain_stale env i r) = Some i"
| "phase_claim (Drain_recovery env i r rec) = Some i"
| "phase_claim (Drain_intake env i r files) = Some i"
| "phase_claim (Drain_ready env i r no_output files saw) = Some i"
| "phase_claim p = None"

definition claim_held :: "import_state \<times> drain_phase \<Rightarrow> bool" where
  "claim_held c \<longleftrightarrow>
     (case phase_claim (snd c) of None \<Rightarrow> True | Some i \<Rightarrow> state_of (is_db (fst c)) i = Some Importing)"

definition keeps_importing :: "download_db \<Rightarrow> download_db \<Rightarrow> bool" where
  "keeps_importing db db' \<longleftrightarrow> (\<forall>i. state_of db i = Some Importing \<longrightarrow> state_of db' i = Some Importing)"

lemma poll_keeps_importing:
  assumes "reconcile_downloads parse lib ok obs polled now db = Inr db'" and "unique_key tr_id (tracked db)"
  shows "keeps_importing db db'"
  using reconcile_moves [OF assms] by (fastforce simp: keeps_importing_def state_of_def poll_moves_def)

lemma fail_keeps_importing:
  assumes "fst (process_failures submit auto browse ok now (db, cmds)) = (db', cmds')" and "unique_key tr_id (tracked db)"
  shows "keeps_importing db db'"
proof (cases ok)
  case True
  then have "tracked db' = map (failed_in_place now) (tracked db)"
    using process_failures_db [of submit auto browse now db cmds] assms by (simp add: fold_fail_pending)
  moreover have "tr_id (failed_in_place now r) = tr_id r" for r by (simp add: failed_in_place_def)
  ultimately show ?thesis
    by (auto simp: keeps_importing_def state_of_def row_get_map) (simp add: failed_in_place_def)
qed (use assms in \<open>simp add: process_failures_def keeps_importing_def\<close>)

lemma removable_ids:
  "removable (map (\<lambda>i. (i, row_get tr_id i rows)) is) =
   filter (\<lambda>i. case row_get tr_id i rows of None \<Rightarrow> False | Some r \<Rightarrow> tr_state r \<noteq> Importing) is"
  by (induction "is") (auto split: option.splits dest: row_get_SomeD)

lemma removable_failed:
  "removable (map (\<lambda>r. (tr_id r, Some r)) (filter (\<lambda>r. tr_state r = Failed) rows)) =
   map tr_id (filter (\<lambda>r. tr_state r = Failed) rows)"
  by (induction rows) auto

lemma removable_not_importing:
  "unique_key tr_id (tracked db) \<Longrightarrow> i \<in> set (removable (remove_targets q db)) \<Longrightarrow> state_of db i \<noteq> Some Importing"
  by (cases "rq_scope_failed q")
    (auto simp: remove_targets_def removable_failed removable_ids state_of_def row_get_unique split: option.splits)

lemma filter_keeps_importing:
  assumes "tracked db' = filter P (tracked db)" and "unique_key tr_id (tracked db)"
    and "\<And>r. r \<in> set (tracked db) \<Longrightarrow> tr_state r = Importing \<Longrightarrow> P r"
  shows "keeps_importing db db'"
proof -
  have "unique_key tr_id (tracked db')"
    using assms(2) by (simp add: assms(1) unique_key_def distinct_map_filter)
  then have "row_get tr_id (tr_id r) (tracked db') = Some r" if "r \<in> set (tracked db)" "tr_state r = Importing" for r
    using that assms(3) by (simp add: assms(1) row_get_unique)
  then show ?thesis by (fastforce simp: keeps_importing_def state_of_def dest: row_get_SomeD)
qed

lemma delete_keeps_importing:
  assumes "delete_queue_item qid blk now seen db = Inr (db', call)" and "unique_key tr_id (tracked db)"
  shows "keeps_importing db db'"
proof -
  obtain r where r: "queue_item qid db = Inr r" and d: "db' = detrack blk now r db"
    using assms(1) by (auto simp: delete_queue_item_def split: sum.splits)
  have g: "row_get tr_id qid (tracked db) = Some r" "tr_state r \<noteq> Importing" using queue_item_row [OF r] by auto
  show ?thesis
  proof (rule filter_keeps_importing [OF _ assms(2)])
    show "tracked db' = filter (\<lambda>q. tr_id q \<noteq> tr_id r) (tracked db)"
      by (simp add: d detrack_tracked row_del_def)
    fix q assume "q \<in> set (tracked db)" and "tr_state q = Importing"
    then show "tr_id q \<noteq> tr_id r"
      using g row_get_SomeD [OF g(1)] assms(2) by (auto dest: unique_key_eq)
  qed
qed

lemma remove_keeps_importing:
  assumes "remove_queue_items q now db = Some (db', removed, errors)" and u: "unique_key tr_id (tracked db)"
  shows "keeps_importing db db'"
proof (rule filter_keeps_importing [OF _ u])
  have "fst (remove_loop (rq_blocklist q) now (remove_targets q db) db) = db'"
    using assms(1) by (auto simp: remove_queue_items_def split: if_splits)
  then show "tracked db' = filter (\<lambda>x. tr_id x \<notin> set (removable (remove_targets q db))) (tracked db)"
    using remove_loop_tracked [of "rq_blocklist q" now "remove_targets q db" db] by simp
  fix r assume "r \<in> set (tracked db)" and "tr_state r = Importing"
  then have "state_of db (tr_id r) = Some Importing" using u by (simp add: state_of_def row_get_unique)
  then show "tr_id r \<notin> set (removable (remove_targets q db))" using removable_not_importing [OF u] by blast
qed

lemma claim_held_keep:
  "keeps_importing (is_db s) (is_db s') \<Longrightarrow> claim_held (s, p) \<Longrightarrow> claim_held (s', p)"
  by (auto simp: claim_held_def keeps_importing_def split: option.splits)

lemma phase_claim_after [simp]:
  "phase_claim (after_claim env i r) = Some i" "phase_claim (after_intake env i r files) = Some i"
  "phase_claim (after_commit env r no_output res) = None"
  by (simp_all add: after_claim_def after_intake_def after_commit_def split: sum.split)

lemma download_step_claim:
  "download_step c c' \<Longrightarrow> unique_key tr_id (tracked (is_db (fst c))) \<Longrightarrow> claim_held c \<Longrightarrow> claim_held c'"
proof (induction rule: download_step.induct)
  case (drain_claims env i s db' r)
  then show ?case using claim_import_state(3) [OF drain_claims.hyps, of i] by (simp add: claim_held_def)
next
  case (step_poll parse lib ok obs polled now s db' p)
  then show ?case using poll_keeps_importing [OF step_poll.hyps] claim_held_keep [of s "s\<lparr>is_db := db'\<rparr>"] by simp
next
  case (step_fail submit auto browse ok now s cmds db' cmds' p)
  then show ?case using fail_keeps_importing [OF step_fail.hyps] claim_held_keep [of s "s\<lparr>is_db := db'\<rparr>"] by simp
next
  case (step_delete qid blk now seen s db' call p)
  then show ?case using delete_keeps_importing [OF step_delete.hyps] claim_held_keep [of s "s\<lparr>is_db := db'\<rparr>"] by simp
next
  case (step_remove q now s db' removed errors p)
  then show ?case using remove_keeps_importing [OF step_remove.hyps] claim_held_keep [of s "s\<lparr>is_db := db'\<rparr>"] by simp
qed (auto simp: claim_held_def split: option.splits)

lemma download_step_live:
  "download_step c c' \<Longrightarrow> claim_held c \<Longrightarrow> rows_live (is_db (fst c)) (is_db (fst c'))"
proof (induction rule: download_step.induct)
  case (step_poll parse lib ok obs polled now s db' p)
  then show ?case by (simp add: poll_live)
next
  case (step_fail submit auto browse ok now s cmds db' cmds' p)
  then show ?case by (simp add: fail_live)
next
  case (step_delete qid blk now seen s db' call p)
  then show ?case
    by (auto simp: delete_queue_item_def detrack_tracked row_del_def intro!: deleting_live
        split: sum.splits)
next
  case (step_remove q now s db' removed errors p)
  then have "fst (remove_loop (rq_blocklist q) now (remove_targets q (is_db s)) (is_db s)) = db'"
    by (auto simp: remove_queue_items_def split: if_splits)
  then show ?case
    using remove_loop_tracked [of "rq_blocklist q" now "remove_targets q (is_db s)" "is_db s"]
    by (auto intro: deleting_live)
next
  case (drain_claims env i s db' r)
  then show ?case by (simp add: claim_live)
next
  case (drain_recovers env ok i r rec s s' res)
  then show ?case
    using drained_live [OF apply_recovery_db [of i s env ok "tr_download_id r" rec]] by (simp add: claim_held_def)
next
  case (drain_commits env ok i r files no_output saw s s' res)
  then show ?case
    using drained_live [OF import_transaction_db [of i s env ok "tr_download_id r" files no_output saw]]
    by (simp add: claim_held_def)
next
  case (drain_effects ee io env st r s cmds s' cmds' res)
  then show ?case using effects_live [OF drain_effects.hyps] by simp
qed simp_all

definition step_keeping :: "int \<Rightarrow> import_state \<times> drain_phase \<Rightarrow> import_state \<times> drain_phase \<Rightarrow> bool" where
  "step_keeping i c c' \<longleftrightarrow> download_step c c' \<and> state_of (is_db (fst c')) i \<noteq> None"

text \<open>C10: In any interleaving of polls, failure runs, removals and the stretches of a drain, a download
  that stays tracked only moves forward: \<open>imported\<close>, \<open>failed\<close> and \<open>ignored\<close> are never left, a pending
  failure can only become \<open>failed\<close>, and nothing ever returns to \<open>downloading\<close>. Between the claim
  of a row and the commit of its verdict any number of polls, failure runs and removals may come,
  and the row is still \<open>importing\<close> when the verdict is written. One drain runs at a time.\<close>

theorem tracked_download_life:
  assumes "(step_keeping i)\<^sup>*\<^sup>* (s, Drain_idle) (s', p')" and "unique_key tr_id (tracked (is_db s))"
    and "state_of (is_db s) i = Some a"
  shows "(case state_of (is_db s') i of None \<Rightarrow> False | Some b \<Rightarrow> life a b \<and> (settled a \<longrightarrow> b = a)) \<and>
    (case phase_claim p' of None \<Rightarrow> True | Some j \<Rightarrow> state_of (is_db s') j = Some Importing)"
proof -
  have "unique_key tr_id (tracked (is_db (fst c))) \<and> claim_held c \<and>
      (\<exists>b. state_of (is_db (fst c)) i = Some b \<and> life a b)" if "(step_keeping i)\<^sup>*\<^sup>* (s, Drain_idle) c" for c
    using that
  proof (induction rule: rtranclp_induct)
    case base
    then show ?case using assms(2,3) by (simp add: claim_held_def)
  next
    case (step c1 c2)
    then obtain b where u: "unique_key tr_id (tracked (is_db (fst c1)))" and h: "claim_held c1"
      and b: "state_of (is_db (fst c1)) i = Some b" "life a b" by blast
    from step.hyps have d: "download_step c1 c2" and "state_of (is_db (fst c2)) i \<noteq> None"
      by (auto simp: step_keeping_def)
    then obtain c where c: "state_of (is_db (fst c2)) i = Some c" by blast
    from download_step_live [OF d h] u b(1) c
    have "unique_key tr_id (tracked (is_db (fst c2)))" and "life b c"
      unfolding rows_live_def by blast+
    with c b(2) download_step_claim [OF d u h] show ?case by (blast intro: life_trans)
  qed
  from this [OF assms(1)] obtain b where "state_of (is_db s') i = Some b" and "life a b" and "claim_held (s', p')"
    by auto
  moreover have "settled a \<Longrightarrow> life a b \<Longrightarrow> b = a" by (auto simp: life_def settled_def)
  ultimately show ?thesis by (auto simp: claim_held_def split: option.splits)
qed

definition sample_state :: "tracked_row list \<Rightarrow> import_state" where
  "sample_state rows = \<lparr>is_db = sample_db rows, is_ents = [],
     is_lib = \<lparr>lb_issues = [(30, 3)], lb_series = [(3, ''/comics/Saga'')], lb_files = [], lb_history = []\<rparr>,
     is_disk = Map.empty\<rparr>"

definition sample_env :: import_env where
  "sample_env = \<lparr>ie_now = 9, ie_maps = (\<lambda>c. []), ie_exts = [''cbz''], ie_depth = None,
     ie_import = (\<lambda>f dl. (dl, Inl ValueError)), ie_fill = (\<lambda>i p l. Inr l),
     ie_dir_bytes = (\<lambda>p. 0)\<rparr>"

text \<open>A failure run between the claim of one download and the rest of its drain.\<close>

lemma tracked_download_life_witness:
  "\<exists>s' p'. (step_keeping 1)\<^sup>*\<^sup>*
       (sample_state [sample_failed 1 30, sample_row\<lparr>tr_id := 2, tr_state := Import_pending, tr_output_path := Some ''/dl''\<rparr>],
        Drain_idle) (s', p') \<and> phase_claim p' = Some 2 \<and>
     state_of (is_db s') 1 = Some Failed \<and> state_of (is_db s') 2 = Some Importing"
proof -
  let ?r = "sample_row\<lparr>tr_id := 2, tr_state := Import_pending, tr_output_path := Some ''/dl''\<rparr>"
  let ?s = "sample_state [sample_failed 1 30, ?r]"
  let ?db1 = "(is_db ?s)\<lparr>tracked := [sample_failed 1 30, ?r\<lparr>tr_state := Importing, tr_updated_at := 9\<rparr>]\<rparr>"
  let ?s1 = "?s\<lparr>is_db := ?db1\<rparr>"
  let ?submit = "\<lambda>(n :: nat) (q :: int \<times> int). Inr (n, ()) :: (nat \<times> unit) result"
  have u: "unique_key tr_id (tracked (is_db ?s))" "unique_key tr_id (tracked ?db1)"
    by (simp_all add: sample_state_def sample_db_def unique_key_def sample_failed_def)
  have p: "state_of (is_db ?s) 1 = Some Failed_pending" "state_of ?db1 1 = Some Failed_pending"
    by (simp_all add: state_of_def sample_state_def sample_db_def sample_failed_def)
  have "claim_import (ie_now sample_env) 2 (is_db ?s) = Some (?db1, ?r)"
    by (simp add: claim_import_def claimable_def sample_state_def sample_db_def sample_failed_def sample_env_def)
  from drain_claims [where s = ?s, OF this]
  have one: "step_keeping 1 (?s, Drain_idle) (?s1, after_claim sample_env 2 ?r)"
    using p by (simp add: step_keeping_def)
  obtain db' c' where f: "fst (process_failures ?submit False {} True 9 (is_db ?s1, 0)) = (db', c')"
    by force
  then have t: "tracked db' = map (failed_in_place 9) (tracked ?db1)"
    using process_failures_db [of ?submit False "{}" 9 "is_db ?s1" 0] fold_fail_pending [OF u(2)] by simp
  then have s: "state_of db' 1 = Some Failed"
    by (simp add: state_of_def failed_in_place_def sample_failed_def mark_failed_def)
  have "step_keeping 1 (?s1, after_claim sample_env 2 ?r) (?s1\<lparr>is_db := db'\<rparr>, after_claim sample_env 2 ?r)"
    unfolding step_keeping_def using step_fail [OF f] s by simp
  with one have run: "(step_keeping 1)\<^sup>*\<^sup>* (?s, Drain_idle) (?s1\<lparr>is_db := db'\<rparr>, after_claim sample_env 2 ?r)" by simp
  have "state_of (is_db (?s1\<lparr>is_db := db'\<rparr>)) 2 = Some Importing"
    using tracked_download_life [OF run u(1) p(1)] by simp
  with run s show ?thesis by fastforce
qed

section \<open>Removal requests\<close>

lemma remove_loop_errors:
  "map fst (snd (snd (remove_loop blk now ts db))) =
   map fst (filter (\<lambda>t. case snd t of None \<Rightarrow> True | Some r \<Rightarrow> tr_state r = Importing) ts)"
  by (induction blk now ts db rule: remove_loop.induct) (auto split: prod.splits)

text \<open>C39: A bulk removal never takes a row from under a running import: after an accepted request that
  names ids, exactly the named rows that were not \<open>importing\<close> are gone, and the errors name each
  missing or importing id once, in request order; an accepted request for the failed backlog
  removes exactly the \<open>failed\<close> rows and reports no error. The ids of the queue are unique, as its
  primary key makes them.\<close>

theorem bulk_remove_spares_imports:
  assumes "unique_key tr_id (tracked db)"
    and "remove_queue_items q now db = Some (db', removed, errors)"
  shows "case rq_ids q of
      None \<Rightarrow> tracked db' = filter (\<lambda>r. tr_state r \<noteq> Failed) (tracked db) \<and> errors = []
    | Some ids \<Rightarrow>
        tracked db' = filter (\<lambda>r. tr_id r \<notin> set ids \<or> tr_state r = Importing) (tracked db) \<and>
        map fst errors = filter (\<lambda>i. case row_get tr_id i (tracked db) of
            None \<Rightarrow> True | Some r \<Rightarrow> tr_state r = Importing) (rev (remdups (rev ids)))"
proof -
  let ?ts = "remove_targets q db"
  have v: "valid_remove_request q" and l: "remove_loop (rq_blocklist q) now ?ts db = (db', removed, errors)"
    using assms(2) by (auto simp: remove_queue_items_def split: if_splits)
  have t: "tracked db' = filter (\<lambda>r. tr_id r \<notin> set (removable ?ts)) (tracked db)"
    using remove_loop_tracked [of "rq_blocklist q" now ?ts db] l by simp
  have e: "map fst errors = map fst (filter (\<lambda>t. case snd t of None \<Rightarrow> True | Some r \<Rightarrow> tr_state r = Importing) ?ts)"
    using remove_loop_errors [of "rq_blocklist q" now ?ts db] l by simp
  show ?thesis
  proof (cases "rq_ids q")
    case None
    then have s: "rq_scope_failed q" using v by (simp add: valid_remove_request_def)
    have "tracked db' = filter (\<lambda>r. tr_state r \<noteq> Failed) (tracked db)"
      unfolding t using assms(1)
      by (auto simp: remove_targets_def s removable_failed intro!: filter_cong dest: unique_key_eq)
    moreover have "errors = []"
      using e by (simp add: remove_targets_def s filter_map comp_def)
    ultimately show ?thesis using None by simp
  next
    case (Some ids)
    then have s: "\<not> rq_scope_failed q" using v by (simp add: valid_remove_request_def)
    have "tr_id r \<notin> set (removable ?ts) \<longleftrightarrow> tr_id r \<notin> set ids \<or> tr_state r = Importing"
      if "r \<in> set (tracked db)" for r
      using row_get_unique [OF assms(1) that] by (auto simp: remove_targets_def s Some removable_ids)
    then have "tracked db' = filter (\<lambda>r. tr_id r \<notin> set ids \<or> tr_state r = Importing) (tracked db)"
      unfolding t by (intro filter_cong) auto
    moreover have "map fst errors = filter (\<lambda>i. case row_get tr_id i (tracked db) of
            None \<Rightarrow> True | Some r \<Rightarrow> tr_state r = Importing) (rev (remdups (rev ids)))"
      unfolding e by (simp add: remove_targets_def s Some filter_map comp_def)
    ultimately show ?thesis using Some by simp
  qed
qed

lemma bulk_remove_spares_imports_witness:
  "case remove_queue_items \<lparr>rq_ids = Some [1, 2, 9, 1], rq_scope_failed = False, rq_blocklist = False\<rparr> 5
      (sample_db [sample_failed 1 30, sample_row\<lparr>tr_id := 2, tr_state := Importing\<rparr>])
   of None \<Rightarrow> False
    | Some (db', removed, errors) \<Rightarrow> map tr_id (tracked db') = [2] \<and> map fst errors = [2, 9]"
proof -
  let ?db = "sample_db [sample_failed 1 30, sample_row\<lparr>tr_id := 2, tr_state := Importing\<rparr>]"
  let ?q = "\<lparr>rq_ids = Some [1, 2, 9, 1], rq_scope_failed = False, rq_blocklist = False\<rparr>"
  have u: "unique_key tr_id (tracked ?db)"
    by (simp add: unique_key_def sample_db_def sample_failed_def)
  have "valid_remove_request ?q" by (simp add: valid_remove_request_def MAX_BULK_REMOVE_def)
  then obtain db' removed errors where r: "remove_queue_items ?q 5 ?db = Some (db', removed, errors)"
    by (cases "remove_loop (rq_blocklist ?q) 5 (remove_targets ?q ?db) ?db") (simp add: remove_queue_items_def)
  show ?thesis
    using bulk_remove_spares_imports [OF u r] unfolding r
    by (simp add: sample_db_def sample_failed_def sample_row_def)
qed

section \<open>Withdrawn, interrupted and recovered imports\<close>

text \<open>A store download whose acceptance was withdrawn imports nothing: whenever the entitlement is
  gone or no longer matched at the import transaction, no file is touched and no table written
  but the queue, from which the row is deleted.\<close>

theorem withdrawn_imports_nothing:
  assumes "row_get tr_id i (tracked (is_db s)) = Some r" and "claimable (tr_state r)"
    and "source_import_withdrawn (is_ents s) (tr_download_id r)" and "tr_issue_id r = None"
  shows "case drain_import env quiet_io i s of (s', res) \<Rightarrow>
    res = Inr (Some Ignored, None) \<and> is_lib s' = is_lib s \<and> is_disk s' = is_disk s \<and> is_ents s' = is_ents s \<and>
    row_get tr_id i (tracked (is_db s')) = None"
proof -
  let ?r = "r\<lparr>tr_state := Importing, tr_updated_at := ie_now env\<rparr>"
  let ?s1 = "s\<lparr>is_db := (is_db s)\<lparr>tracked := row_put tr_id ?r (tracked (is_db s))\<rparr>\<rparr>"
  have c: "claim_import (ie_now env) i (is_db s) = Some (is_db ?s1, r)"
    using assms(1,2) by (simp add: claim_import_def)
  have "import_transaction env True i (tr_download_id r) files no_output saw ?s1 =
      (?s1\<lparr>is_db := withdraw_import i (is_db ?s1)\<rparr>, Inr Ignored)" for files no_output saw
    using assms(3) by (simp add: import_transaction_def)
  then have "drain_import env quiet_io i s =
      (?s1\<lparr>is_db := withdraw_import i (is_db ?s1)\<rparr>, Inr (Some Ignored, None))"
    using assms(4)
    by (simp add: drain_import_def quiet_io_def c Let_def with_effects_def drain_commit_def
        reconcile_recovered_import_def recovery_plan_def)
  then show ?thesis by (simp add: withdraw_import_def row_get_del)
qed

lemma withdrawn_imports_nothing_witness:
  "case drain_import sample_env quiet_io 1 (sample_state
      [sample_row\<lparr>tr_download_id := ''humble:5'', tr_client_id := None, tr_issue_id := None,
        tr_state := Import_pending, tr_output_path := Some ''/staging/5''\<rparr>]) of (s', res) \<Rightarrow>
     res = Inr (Some Ignored, None) \<and> lb_files (is_lib s') = [] \<and> row_get tr_id 1 (tracked (is_db s')) = None"
proof -
  let ?r = "sample_row\<lparr>tr_download_id := ''humble:5'', tr_client_id := None, tr_issue_id := None,
      tr_state := Import_pending, tr_output_path := Some ''/staging/5''\<rparr>"
  let ?s = "sample_state [?r]"
  have w: "source_import_withdrawn (is_ents ?s) (tr_download_id ?r)"
    by (simp add: source_import_withdrawn_def entitlement_id_from_download_id_def HUMBLE_DOWNLOAD_PREFIX_def
        startswith_def sample_state_def py_int_def strip_def is_space_def is_digit_def code_def)
  show ?thesis
    using withdrawn_imports_nothing [of 1 ?s ?r sample_env] w
    by (auto simp: sample_state_def sample_db_def sample_row_def claimable_def)
qed

text \<open>A transaction that raises changes the disk at most.\<close>

lemma import_transaction_error:
  "import_transaction env ok i did files no_output saw s = (s', Inl e) \<Longrightarrow>
   is_db s' = is_db s \<and> is_lib s' = is_lib s \<and> is_ents s' = is_ents s"
  by (auto simp: import_transaction_def split: prod.splits sum.splits if_splits)

lemma apply_recovery_error:
  "apply_recovery env ok i did rec s = (s', Inl e) \<Longrightarrow> s' = s"
  by (auto simp: apply_recovery_def finish_recovery_def split: recovery.splits prod.splits sum.splits if_splits)

lemma reconcile_recovered_error:
  "reconcile_recovered_import env ok i did sid issue s = (s', Inl e) \<Longrightarrow> s' = s"
  by (auto simp: reconcile_recovered_import_def split: option.splits prod.splits sum.splits
      dest: apply_recovery_error)

lemma with_effects_error: "with_effects due p = (s', Inl e) \<longleftrightarrow> p = (s', Inl e)"
  by (auto simp: with_effects_def split: prod.splits sum.splits)

lemma drain_commit_error:
  "drain_commit env io i r files s = (s', Inl e) \<Longrightarrow>
   is_db s' = is_db s \<and> is_lib s' = is_lib s \<and> is_ents s' = is_ents s"
  by (auto simp: drain_commit_def with_effects_error split: option.splits dest: import_transaction_error)

lemma drain_import_error:
  assumes "drain_import env io i s = (s', Inl e)"
  shows "s' = s \<or> (\<exists>db1 r. claim_import (ie_now env) i (is_db s) = Some (db1, r) \<and> is_db s' = db1 \<and>
    is_lib s' = is_lib s \<and> is_ents s' = is_ents s)"
  using assms
  by (auto simp: drain_import_def Let_def with_effects_error split: prod.splits option.splits if_splits sum.splits
      dest!: import_transaction_error drain_commit_error reconcile_recovered_error reconcile_recovered_none)

text \<open>Before its commit: a drain that raises leaves the row to the next one.\<close>

lemma drain_import_retried:
  assumes "row_get tr_id i (tracked (is_db s)) = Some r" and "claimable (tr_state r)"
    and "drain_import env io i s = (s', Inl e)"
  shows "is_lib s' = is_lib s \<and> is_ents s' = is_ents s \<and> claim_import now i (is_db s') \<noteq> None \<and>
    (case row_get tr_id i (tracked (is_db s')) of
       None \<Rightarrow> False
     | Some r' \<Rightarrow> tr_output_path r' = tr_output_path r \<and> tr_stall_count r' = tr_stall_count r \<and>
         tr_first_stalled_at r' = tr_first_stalled_at r)"
  using drain_import_error [OF assms(3)]
proof (elim disjE exE conjE)
  assume "s' = s"
  then show ?thesis using assms(1,2) by (simp add: claim_import_def)
next
  fix db1 q
  assume c: "claim_import (ie_now env) i (is_db s) = Some (db1, q)" and d: "is_db s' = db1"
    and l: "is_lib s' = is_lib s" "is_ents s' = is_ents s"
  note c' = claim_import_state [OF c]
  have "q = r" using c'(1) assms(1) by simp
  then have "row_get tr_id i (tracked (is_db s')) = Some (r\<lparr>tr_state := Importing, tr_updated_at := ie_now env\<rparr>)"
    using c'(6) d by simp
  then show ?thesis using l by (simp add: claim_import_def claimable_def)
qed

text \<open>After it: the verdict that goes on to the side effects is the one the row carries.\<close>

lemma import_transaction_verdict:
  assumes "import_transaction env ok i did files no_output saw s = (s', Inr st)" and "st \<noteq> Ignored"
    and "state_of (is_db s) i = Some a"
  shows "state_of (is_db s') i = Some st"
  using assms
  by (auto simp: import_transaction_def finalize_download_import_def Let_def result_bind_eq_Inr state_of_apply_state
      split: if_splits prod.splits sum.splits)

lemma import_transaction_unique:
  "unique_key tr_id (tracked (is_db s)) \<Longrightarrow>
   unique_key tr_id (tracked (is_db (fst (import_transaction env ok i did files no_output saw s))))"
  using import_transaction_db [of i s env ok did files no_output saw]
  by (auto simp: drained_db_def withdraw_import_def unique_row_del unique_apply_state)

lemma drain_commit_verdict:
  assumes "drain_commit env io i r files s = (s', Inr (st, Some q))" and "state_of (is_db s) i = Some a"
    and "unique_key tr_id (tracked (is_db s))"
  shows "state_of (is_db s') i = st \<and> unique_key tr_id (tracked (is_db s'))"
proof -
  obtain s2 res where t: "import_transaction env (di_commit io) i (tr_download_id r) files False
      (drain_saw env r files s) s = (s2, res)" by force
  then show ?thesis
    using assms(1,2) import_transaction_unique [OF assms(3), of env "di_commit io" i "tr_download_id r" files False
        "drain_saw env r files s"]
    by (auto simp: drain_commit_def with_effects_def dest: import_transaction_verdict [OF _ _ assms(2)]
        split: option.splits sum.splits if_splits)
qed

lemma drain_import_verdict:
  assumes "drain_import env io i s = (s', Inr (st, Some q))" and u: "unique_key tr_id (tracked (is_db s))"
  shows "state_of (is_db s') i = st \<and> unique_key tr_id (tracked (is_db s'))"
proof -
  obtain db1 r where c: "claim_import (ie_now env) i (is_db s) = Some (db1, r)"
    using assms(1) by (cases "claim_import (ie_now env) i (is_db s)")
      (auto simp: drain_import_def split: if_splits)
  note c' = claim_import_state [OF c]
  let ?s1 = "s\<lparr>is_db := db1\<rparr>"
  have u1: "unique_key tr_id (tracked (is_db ?s1))" and i1: "state_of (is_db ?s1) i = Some Importing"
    using c'(4) [OF u] c'(3) by simp_all
  have "\<exists>files. drain_commit env io i r files ?s1 = (s', Inr (st, Some q))"
    using assms(1) c
    by (auto simp: drain_import_def Let_def with_effects_def
        split: if_splits option.splits prod.splits sum.splits dest!: reconcile_recovered_none)
  then show ?thesis using drain_commit_verdict [OF _ i1 u1] by blast
qed

text \<open>Side effects that raise leave the store, the library and the disk alone.\<close>

lemma failed_in_place_state:
  "unique_key tr_id (tracked db) \<Longrightarrow> state_of db i = Some Failed_pending \<Longrightarrow>
   fst (process_failures submit auto browse ok now (db, cmds)) = (db', cmds') \<Longrightarrow>
   state_of db' i \<in> {Some Failed_pending, Some Failed}"
proof (cases ok)
  case True
  assume u: "unique_key tr_id (tracked db)" and s: "state_of db i = Some Failed_pending"
    and "fst (process_failures submit auto browse ok now (db, cmds)) = (db', cmds')"
  then have t: "tracked db' = map (failed_in_place now) (tracked db)"
    using process_failures_db [of submit auto browse now db cmds] True by (simp add: fold_fail_pending)
  have "tr_id (failed_in_place now r) = tr_id r" for r by (simp add: failed_in_place_def)
  with s t show ?thesis by (auto simp: state_of_def row_get_map failed_in_place_def mark_failed_def)
qed (simp add: process_failures_def)

lemma effects_raise:
  assumes "run_post_import_side_effects ee io now st client did (s, cmds) = ((s', cmds'), Inl e)"
    and "state_of (is_db s) i = st \<and> unique_key tr_id (tracked (is_db s))"
  shows "is_lib s' = is_lib s \<and> is_ents s' = is_ents s \<and> is_disk s' = is_disk s \<and>
    (st = Some Imported \<and> state_of (is_db s') i = Some Imported \<or>
     st = Some Failed_pending \<and> state_of (is_db s') i \<in> {Some Failed_pending, Some Failed})"
proof (cases "process_failures (ee_submit ee) (ee_auto_redownload ee) (ee_browse ee) (di_failures io) now (is_db s, cmds)")
  case (Pair p res)
  obtain db' c' where p: "p = (db', c')" by force
  show ?thesis
    using assms failed_in_place_state [of "is_db s" i "ee_submit ee" "ee_auto_redownload ee" "ee_browse ee"
        "di_failures io" now cmds db' c'] Pair p
    by (auto simp: run_post_import_side_effects_def split: if_splits sum.splits)
qed

text \<open>C25: A drain that raises is retried or has settled its download, wherever it raises. When it raises
  before its verdict is committed (at a claim or a commit on a busy database, in a read, in a file
  import or in a recovery), the library and the entitlements are as before, and the row is still
  there, claimable by the next drain, with its output path and its stall memory; files already
  moved stay moved, for the next drain to recover. When it raises in the side effects after the
  commit, the library, the entitlements and the disk are as the commit left them and the verdict
  stands: an imported download stays \<open>imported\<close>, and a corrupt one is still waiting for the failure
  loop or already \<open>failed\<close>.\<close>

theorem failed_drain_is_retried:
  assumes "row_get tr_id i (tracked (is_db s)) = Some r" and "claimable (tr_state r)"
    and "unique_key tr_id (tracked (is_db s))"
    and "process_one ee env io i (s, cmds) = ((s', cmds'), Inl e)"
  shows "case drain_import env io i s of
      (s1, Inl e1) \<Rightarrow> is_lib s' = is_lib s \<and> is_ents s' = is_ents s \<and> claim_import now i (is_db s') \<noteq> None \<and>
        (case row_get tr_id i (tracked (is_db s')) of
           None \<Rightarrow> False
         | Some r' \<Rightarrow> tr_output_path r' = tr_output_path r \<and> tr_stall_count r' = tr_stall_count r \<and>
             tr_first_stalled_at r' = tr_first_stalled_at r)
    | (s1, Inr (st, due)) \<Rightarrow> is_lib s' = is_lib s1 \<and> is_ents s' = is_ents s1 \<and> is_disk s' = is_disk s1 \<and>
        (st = Some Imported \<and> state_of (is_db s') i = Some Imported \<or>
         st = Some Failed_pending \<and> state_of (is_db s') i \<in> {Some Failed_pending, Some Failed})"
proof (cases "drain_import env io i s")
  case (Pair s1 res)
  show ?thesis
  proof (cases res)
    case (Inl e1)
    then have "s' = s1" using assms(4) Pair by (simp add: process_one_def)
    then show ?thesis using drain_import_retried [OF assms(1,2)] Pair Inl by simp
  next
    case (Inr v)
    obtain st due where v: "v = (st, due)" by force
    then obtain q where q: "due = Some q" 
      and ef: "run_post_import_side_effects ee io (ie_now env) st (tr_client_id q) (tr_download_id q) (s1, cmds) =
        ((s', cmds'), Inl e)"
      using assms(4) Pair Inr by (auto simp: process_one_def split: option.splits prod.splits sum.splits)
    from Pair Inr v q have "state_of (is_db s1) i = st \<and> unique_key tr_id (tracked (is_db s1))"
      using drain_import_verdict assms(3) by blast
    with effects_raise [OF ef] Pair Inr v show ?thesis by auto
  qed
qed

definition sample_disk :: disk where
  "sample_disk p = (if p = ''/dl/a.cbz'' then Some (Is_file 5) else None)"

definition sample_effects :: "nat effects_env" where
  "sample_effects = \<lparr>ee_remove_completed = (\<lambda>c. False), ee_items = (\<lambda>c. None), ee_submit = (\<lambda>n q. Inr (n, ())),
     ee_auto_redownload = False, ee_browse = {}\<rparr>"

lemma failed_drain_is_retried_witness:
  "case process_one sample_effects sample_env quiet_io 1 ((sample_state
      [sample_row\<lparr>tr_state := Import_pending, tr_output_path := Some ''/dl/a.cbz''\<rparr>])\<lparr>is_disk := sample_disk\<rparr>, 0)
   of ((s', cmds'), res) \<Rightarrow> res = Inl ValueError \<and> claim_import 10 1 (is_db s') \<noteq> None"
proof -
  let ?r = "sample_row\<lparr>tr_state := Import_pending, tr_output_path := Some ''/dl/a.cbz''\<rparr>"
  let ?s = "(sample_state [?r])\<lparr>is_disk := sample_disk\<rparr>"
  let ?d = "drain_import sample_env quiet_io 1 ?s"
  have path: "path_str ''/dl/a.cbz'' = ''/dl/a.cbz''" "path_name ''/dl/a.cbz'' = ''a.cbz''"
    by (simp_all add: path_str_def path_name_def path_render_def path_lead_def path_parts_def startswith_def slash_def)
  have "iter_archive_files sample_disk [''cbz''] None ''/dl/a.cbz'' = [(''/dl/a.cbz'', 5)]"
    by (simp add: iter_archive_files_def path sample_disk_def is_junk_file_def startswith_def)
  then have d: "?d = (fst ?d, Inl ValueError)"
    by (simp add: drain_import_def quiet_io_def claim_import_def claimable_def sample_state_def sample_db_def
        sample_row_def Let_def drain_files_def drain_maps_def claimed_output_def recovering_def drain_commit_def
        gather_completed_def apply_mappings_def looks_windows_def backslash_def is_alpha_def is_lower_def is_upper_def
        code_def sample_env_def import_transaction_def source_import_withdrawn_def entitlement_id_from_download_id_def
        HUMBLE_DOWNLOAD_PREFIX_def startswith_def with_effects_def)
  then have f: "process_one sample_effects sample_env quiet_io 1 (?s, 0) = ((fst ?d, 0), Inl ValueError)"
    by (auto simp: process_one_def split: prod.splits)
  have r: "row_get tr_id 1 (tracked (is_db ?s)) = Some ?r" "claimable (tr_state ?r)" "unique_key tr_id (tracked (is_db ?s))"
    by (simp_all add: sample_state_def sample_db_def sample_row_def claimable_def unique_key_def)
  have "claim_import 10 1 (is_db (fst ?d)) \<noteq> None"
    using failed_drain_is_retried [OF r f, of 10] d by (auto split: prod.splits)
  with f show ?thesis by simp
qed

text \<open>The drain of a stale claim whose source is empty is the recovery, when there is something to recover.\<close>

lemma drain_recovery:
  assumes r: "row_get tr_id i (tracked (is_db s)) = Some r" and st: "tr_state r = Importing"
    and out: "claimed_output r \<noteq> []" and empty: "drain_files env r s = []"
    and rec: "reconcile_recovered_import env True i (tr_download_id r) (tr_series_id r) (tr_issue_id r)
        (s\<lparr>is_db := (is_db s)\<lparr>tracked := row_put tr_id (r\<lparr>tr_state := Importing, tr_updated_at := ie_now env\<rparr>)
           (tracked (is_db s))\<rparr>\<rparr>) = (s2, Inr (Some final))"
  shows "drain_import env quiet_io i s = (s2, Inr (Some final, None))"
proof -
  have "drain_files env r (s\<lparr>is_db := (is_db s)\<lparr>tracked := rows\<rparr>\<rparr>) = []" for rows
    using empty by (simp add: drain_files_def)
  then show ?thesis
    using r st out rec
    by (simp add: drain_import_def quiet_io_def claim_import_def claimable_def Let_def recovering_def)
qed

lemma claimed_row:
  "row_get tr_id i (tracked db) = Some r \<Longrightarrow>
   row_get tr_id i (row_put tr_id (r\<lparr>tr_state := st, tr_updated_at := t\<rparr>) (tracked db)) =
     Some (r\<lparr>tr_state := st, tr_updated_at := t\<rparr>)"
  by (auto simp: row_get_put dest: row_get_SomeD)

lemma state_of_claimed_verdict:
  assumes "row_get tr_id i (tracked db) = Some r"
  shows "state_of (apply_state i final status msgs now stalled
    (db\<lparr>tracked := row_put tr_id (r\<lparr>tr_state := st, tr_updated_at := t\<rparr>) (tracked db)\<rparr>)) i = Some final"
  using claimed_row [OF assms] by (simp add: state_of_apply_state) (simp add: state_of_def)

text \<open>A stale claim of an upgrade is taken for a finished import: when a crashed run left the row
  \<open>importing\<close> before any file was moved and the download folder is not readable at restart, an
  older file of the issue makes the drain report \<open>imported\<close> although nothing was imported, and
  without the clean-up of a finished import.\<close>

theorem stale_claim_passes_for_import:
  assumes "row_get tr_id i (tracked (is_db s)) = Some r" and "tr_state r = Importing"
    and "claimed_output r \<noteq> []" and "drain_files env r s = []"
    and "tr_issue_id r = Some iid" and "row_get fst iid (lb_issues (is_lib s)) = Some (iid, owner)"
    and "row_get fst owner (lb_series (is_lib s)) = Some (owner, folder)"
    and "f \<in> set (lb_files (is_lib s))" and "fi_issue_id f = iid" and "is_disk s (path_str (fi_path f)) \<noteq> None"
    and "entitlement_id_from_download_id (tr_download_id r) = None"
  shows "case drain_import env quiet_io i s of (s', res) \<Rightarrow>
    res = Inr (Some Imported, None) \<and> state_of (is_db s') i = Some Imported \<and>
    is_lib s' = is_lib s \<and> is_disk s' = is_disk s"
proof -
  let ?s1 = "s\<lparr>is_db := (is_db s)\<lparr>tracked := row_put tr_id (r\<lparr>tr_state := Importing, tr_updated_at := ie_now env\<rparr>)
           (tracked (is_db s))\<rparr>\<rparr>"
  let ?s2 = "?s1\<lparr>is_db := apply_state i Imported Ok_status [] (ie_now env) False (is_db ?s1)\<rparr>"
  let ?linked = "map fi_path (filter (\<lambda>f. fi_issue_id f = iid) (lb_files (is_lib s)))"
  have "fi_path f \<in> set ?linked" using assms(8,9) by auto
  then obtain p where p: "find (\<lambda>p. is_disk s (path_str p) \<noteq> None) ?linked = Some p"
    using assms(10) by (cases "find (\<lambda>p. is_disk s (path_str p) \<noteq> None) ?linked") (auto simp: find_None_iff)
  have "finish_recovery env True i (tr_download_id r) iid p (is_lib s) ?s1 = (?s2, Inr Imported)"
    using assms(11) by (simp add: finish_recovery_def apply_source_import_def)
  then have "reconcile_recovered_import env True i (tr_download_id r) (tr_series_id r) (tr_issue_id r) ?s1 =
      (?s2, Inr (Some Imported))"
    using p by (simp add: reconcile_recovered_import_def recovery_plan_def apply_recovery_def assms(5-7))
  from drain_recovery [OF assms(1-4) this] show ?thesis
    using state_of_claimed_verdict [OF assms(1)] by simp
qed

definition upgrade_state :: import_state where
  "upgrade_state = (sample_state [sample_row\<lparr>tr_state := Importing, tr_output_path := Some ''/dl/Saga''\<rparr>])
     \<lparr>is_lib := \<lparr>lb_issues = [(30, 3)], lb_series = [(3, ''/comics/Saga'')],
        lb_files = [\<lparr>fi_issue_id = 30, fi_path = ''/dl/a.cbz'', fi_size = 5, fi_added_at = 0\<rparr>], lb_history = []\<rparr>,
      is_disk := sample_disk\<rparr>"

lemma sample_path: "path_str ''/dl/a.cbz'' = ''/dl/a.cbz''" "path_str ''/dl/Saga'' = ''/dl/Saga''"
  by (simp_all add: path_str_def path_render_def path_lead_def path_parts_def startswith_def slash_def)

lemma upgrade_gather:
  "gather_completed sample_disk exts md [] gs did ''/dl/Saga'' ct = []"
  by (simp add: gather_completed_def apply_mappings_def looks_windows_def backslash_def is_alpha_def is_lower_def
      is_upper_def code_def Let_def iter_archive_files_def sample_path sample_disk_def)

lemma stale_claim_passes_for_import_witness:
  "case drain_import sample_env quiet_io 1 upgrade_state of (s', res) \<Rightarrow>
     res = Inr (Some Imported, None) \<and> lb_history (is_lib s') = []"
proof -
  have e: "entitlement_id_from_download_id ''SAB_1'' = None"
    by (simp add: entitlement_id_from_download_id_def HUMBLE_DOWNLOAD_PREFIX_def startswith_def)
  show ?thesis
    using stale_claim_passes_for_import [of 1 upgrade_state
        "sample_row\<lparr>tr_state := Importing, tr_output_path := Some ''/dl/Saga''\<rparr>" sample_env 30 3
        "''/comics/Saga''" "\<lparr>fi_issue_id = 30, fi_path = ''/dl/a.cbz'', fi_size = 5, fi_added_at = 0\<rparr>"] e
    by (auto simp: claimed_output_def drain_files_def drain_maps_def upgrade_state_def sample_state_def sample_db_def sample_row_def sample_env_def upgrade_gather
        sample_path sample_disk_def)
qed

text \<open>A move that was not recorded is adopted: when no recorded file of the issue exists and the
  series folder holds an unrecorded file with the issue's tag, the drain of the stale row records
  that file for the issue with its size, adds one history event, and settles the row as
  \<open>imported\<close>, without touching the disk.\<close>

theorem recovery_adopts_moved_file:
  assumes "row_get tr_id i (tracked (is_db s)) = Some r" and "tr_state r = Importing"
    and "claimed_output r \<noteq> []" and "drain_files env r s = []"
    and "tr_issue_id r = Some iid" and "row_get fst iid (lb_issues (is_lib s)) = Some (iid, owner)"
    and "row_get fst owner (lb_series (is_lib s)) = Some (owner, folder)"
    and "list_all (\<lambda>f. fi_issue_id f = iid \<longrightarrow> is_disk s (path_str (fi_path f)) = None) (lb_files (is_lib s))"
    and "orphan_file (is_disk s) (map fi_path (filter (\<lambda>f. fi_issue_id f = iid) (lb_files (is_lib s)))) folder iid = Some p"
    and "is_disk s (path_str p) = Some (Is_file sz)"
    and "entitlement_id_from_download_id (tr_download_id r) = None"
  shows "case drain_import env quiet_io i s of (s', res) \<Rightarrow>
    res = Inr (Some Imported, None) \<and> state_of (is_db s') i = Some Imported \<and> is_disk s' = is_disk s \<and>
    lb_files (is_lib s') = lb_files (is_lib s) @
      [\<lparr>fi_issue_id = iid, fi_path = p, fi_size = sz, fi_added_at = ie_now env\<rparr>] \<and>
    map ev_path (lb_history (is_lib s')) = map ev_path (lb_history (is_lib s)) @ [p]"
proof -
  let ?s1 = "s\<lparr>is_db := (is_db s)\<lparr>tracked := row_put tr_id (r\<lparr>tr_state := Importing, tr_updated_at := ie_now env\<rparr>)
           (tracked (is_db s))\<rparr>\<rparr>"
  let ?owner = "case tr_series_id r of None \<Rightarrow> owner | Some i \<Rightarrow> i"
  let ?lib = "(is_lib s)\<lparr>lb_files := lb_files (is_lib s) @
        [\<lparr>fi_issue_id = iid, fi_path = p, fi_size = sz, fi_added_at = ie_now env\<rparr>],
      lb_history := lb_history (is_lib s) @
        [\<lparr>ev_series_id = Some ?owner,
          ev_issue_id = iid, ev_download_id = tr_download_id r, ev_path = p\<rparr>]\<rparr>"
  let ?s2 = "?s1\<lparr>is_db := apply_state i Imported Ok_status [] (ie_now env) False (is_db ?s1), is_lib := ?lib\<rparr>"
  let ?linked = "map fi_path (filter (\<lambda>f. fi_issue_id f = iid) (lb_files (is_lib s)))"
  have "find (\<lambda>p. is_disk s (path_str p) \<noteq> None) ?linked = None"
    using assms(8) by (auto simp: find_None_iff list_all_iff)
  moreover have "finish_recovery env True i (tr_download_id r) iid p ?lib ?s1 = (?s2, Inr Imported)"
    using assms(11) by (simp add: finish_recovery_def apply_source_import_def)
  ultimately have "reconcile_recovered_import env True i (tr_download_id r) (tr_series_id r) (tr_issue_id r) ?s1 =
      (?s2, Inr (Some Imported))"
    using assms(9,10) by (simp add: reconcile_recovered_import_def recovery_plan_def apply_recovery_def file_bytes_def
        adopt_file_def assms(5-7))
  from drain_recovery [OF assms(1-4) this] show ?thesis
    using state_of_claimed_verdict [OF assms(1)] by simp
qed

definition moved_disk :: disk where
  "moved_disk p = (if p = ''/comics/Saga'' then Some (Is_dir [Fs_file ''Saga 001 [__30__].cbz'' 7])
     else if p = ''/comics/Saga/Saga 001 [__30__].cbz'' then Some (Is_file 7) else None)"

definition moved_state :: import_state where
  "moved_state = (sample_state [sample_row\<lparr>tr_state := Importing, tr_output_path := Some ''/dl/Saga''\<rparr>])
     \<lparr>is_disk := moved_disk\<rparr>"

lemma moved_gather: "gather_completed moved_disk exts md [] gs did ''/dl/Saga'' ct = []"
  by (simp add: gather_completed_def apply_mappings_def looks_windows_def backslash_def is_alpha_def is_lower_def
      is_upper_def code_def Let_def iter_archive_files_def sample_path moved_disk_def)

lemma recovery_adopts_moved_file_witness:
  "case drain_import sample_env quiet_io 1 moved_state of (s', res) \<Rightarrow>
     res = Inr (Some Imported, None) \<and> map fi_path (lb_files (is_lib s')) = [''/comics/Saga/Saga 001 [__30__].cbz'']"
proof -
  have e: "entitlement_id_from_download_id ''SAB_1'' = None"
    by (simp add: entitlement_id_from_download_id_def HUMBLE_DOWNLOAD_PREFIX_def startswith_def)
  have "issue_tag 30 = ''[__30__]''" by code_simp
  moreover have "contains ''[__30__]'' ''Saga 001 [__30__].cbz''" by code_simp
  moreover have "path_str ''/comics/Saga'' = ''/comics/Saga''" by code_simp
  ultimately have o: "orphan_file moved_disk [] ''/comics/Saga'' 30 = Some ''/comics/Saga/Saga 001 [__30__].cbz''"
    by (simp add: orphan_file_def moved_disk_def path_join_def startswith_def slash_def)
  have "path_str ''/comics/Saga/Saga 001 [__30__].cbz'' = ''/comics/Saga/Saga 001 [__30__].cbz''" by code_simp
  then have z: "moved_disk (path_str ''/comics/Saga/Saga 001 [__30__].cbz'') = Some (Is_file 7)"
    by (simp add: moved_disk_def)
  show ?thesis
    using recovery_adopts_moved_file [of 1 moved_state
        "sample_row\<lparr>tr_state := Importing, tr_output_path := Some ''/dl/Saga''\<rparr>" sample_env 30 3
        "''/comics/Saga''" "''/comics/Saga/Saga 001 [__30__].cbz''" 7] e o z
    by (auto simp: claimed_output_def drain_files_def drain_maps_def moved_state_def sample_state_def sample_db_def sample_row_def sample_env_def moved_gather)
qed

end
