(* ===== verification/Acquisition.thy ===== *)
theory Acquisition
  imports Ranking Grab Imports
begin

text \<open>
  Where the parts of the acquisition loop meet: verdict, grab, failure, blocklist and the next
  verdict; import, queue store and the next verdict.
\<close>

lemma blocklisted_rejected:
  "is_blocklisted ctx c \<Longrightarrow> d_outcome (evaluate default_specs parse decompose c ctx) = Rejected"
  by (auto simp: evaluate_outcome Let_def policy_def permanent_ok_def split: option.split bool.split)

lemma queued_rejected:
  assumes "m_series (map_release decompose (parse (title c) (year_of (ctx_now ctx))) ctx) = Some s"
    and "m_issue (map_release decompose (parse (title c) (year_of (ctx_now ctx))) ctx) = Some i"
    and "is_queued ctx (series_id s) (issue_id i)"
  shows "d_outcome (evaluate default_specs parse decompose c ctx) = Rejected"
  using assms by (auto simp: evaluate_outcome Let_def policy_def permanent_ok_def split: bool.split)

lemma map_release_queue [simp]: "map_release decompose p (ctx\<lparr>is_queued := f\<rparr>) = map_release decompose p ctx"
  by (simp add: map_release_def cong: option.case_cong)

text \<open>The blocklist entry of a failed grab matches the release and every repost of it.\<close>

lemma entry_of_grab_matches:
  assumes "gs = write_grab_history_rows did [t] (handoff_from_decision d) protocol src client []"
    and "src = (if protocol = PROTOCOL_DDL then SOURCE_DDL else SOURCE_INDEXER)"
  shows "entry_matches (new_blocklist_row r gs now msg) (d_candidate d)"
    and "title c = title (d_candidate d) \<Longrightarrow> indexer_name c = indexer_name (d_candidate d) \<Longrightarrow>
      size_bytes c = size_bytes (d_candidate d) \<Longrightarrow> size_bytes c \<noteq> None \<Longrightarrow> pub_date c = pub_date (d_candidate d) \<Longrightarrow>
      entry_matches (new_blocklist_row r gs now msg) c"
proof -
  obtain a b where t: "t = (a, b)" by force
  show "entry_matches (new_blocklist_row r gs now msg) (d_candidate d)"
    by (simp add: assms t write_grab_history_rows_def handoff_from_decision_def Let_def new_blocklist_row_def
        entry_matches_def)
  show "title c = title (d_candidate d) \<Longrightarrow> indexer_name c = indexer_name (d_candidate d) \<Longrightarrow>
      size_bytes c = size_bytes (d_candidate d) \<Longrightarrow> size_bytes c \<noteq> None \<Longrightarrow> pub_date c = pub_date (d_candidate d) \<Longrightarrow>
      entry_matches (new_blocklist_row r gs now msg) c"
    by (auto simp: assms t write_grab_history_rows_def handoff_from_decision_def Let_def new_blocklist_row_def
        entry_matches_def)
qed

lemma process_failures_blocks:
  assumes "process_failures submit auto browse True now (db, cmds) = ((db', cmds'), res)"
    and "r \<in> set (pending_failures db)"
  shows "new_blocklist_row r (grabs_of (tr_download_id r) (grabs db)) now (failure_message r) \<in> set (blocklist db')"
  using process_failures_db [of submit auto browse now db cmds] assms by (auto simp: fold_fail_one)


definition demo_failed_db :: download_db where
  "demo_failed_db = (gs_db (fst (handle_grab_release demo_grab_env True demo_handoff demo_grab_state)))
     \<lparr>tracked := [sample_row\<lparr>tr_state := Failed_pending\<rparr>]\<rparr>"

definition after_failure :: download_db where
  "after_failure = fst (fst (process_failures submit_log True {} True 9 (demo_failed_db, [])))"


text \<open>An imported download keeps its issue queued: as long as the row of an imported download is
  tracked, and nothing but a request by hand removes it, every release that resolves to the
  issue is permanently rejected as already queued, a better format included.\<close>

theorem imported_issue_blocks_upgrades:
  assumes "r \<in> set (tracked db)" and "tr_state r = Imported" and "tr_series_id r = Some (series_id s)"
    and "tr_issue_id r = Some (issue_id i)" and "is_queued ctx = load_queue_store db"
    and "m_series (map_release decompose (parse (title c) (year_of (ctx_now ctx))) ctx) = Some s"
    and "m_issue (map_release decompose (parse (title c) (year_of (ctx_now ctx))) ctx) = Some i"
  shows "d_outcome (evaluate default_specs parse decompose c ctx) = Rejected"
proof -
  have "load_queue_store db (series_id s) (issue_id i)"
    unfolding load_queue_store_def list_ex_iff active_queue_state_def using assms(1-4) by auto
  then show ?thesis using queued_rejected [where parse = parse and decompose = decompose, OF assms(6,7)] by (simp add: assms(5))
qed

text \<open>With the row gone the same release, an upgrade over the file on disk, would be approved.\<close>

lemma imported_issue_blocks_upgrades_witness:
  "d_outcome (evaluate default_specs (\<lambda>_ _. demo_parsed) id demo_candidate
     ((demo_ctx 63493201800000000)\<lparr>is_queued := load_queue_store (sample_db
        [sample_row\<lparr>tr_state := Imported, tr_series_id := Some 1, tr_issue_id := Some 11\<rparr>])\<rparr>)) = Rejected"
proof (rule imported_issue_blocks_upgrades [where s = demo_series and i = demo_issue
      and r = "sample_row\<lparr>tr_state := Imported, tr_series_id := Some 1, tr_issue_id := Some 11\<rparr>"])
qed (simp_all add: sample_db_def demo_mapping, simp_all add: demo_series_def demo_issue_def)

end
