(* ===== verification/Url.thy ===== *)
theory Url
  imports Path_Map
begin

text \<open>
  The parts of \<open>urllib.parse.urlsplit\<close> that the allow list of direct downloads and the origin check
  of the perimeter rest on. The check of a bracketed IPv6 literal belongs to the \<open>ipaddress\<close> module
  and is the argument \<open>ip6\<close>; a malformed authority raises \<open>ValueError\<close>, as in Python.
\<close>

section \<open>URLs\<close>

definition endswith :: "string \<Rightarrow> string \<Rightarrow> bool" where
  "endswith s t \<longleftrightarrow> startswith (rev s) (rev t)"

definition scheme_char :: "char \<Rightarrow> bool" where
  "scheme_char c \<longleftrightarrow> is_alnum c \<or> c \<in> {CHR ''+'', CHR ''-'', CHR ''.''}"

definition url_clean :: "string \<Rightarrow> string" where
  "url_clean url =
     filter (\<lambda>c. code c \<notin> {9, 10, 13}) (dropWhile (\<lambda>c. code c \<le> 32) url)"

definition split_scheme :: "string \<Rightarrow> string \<times> string" where
  "split_scheme url =
     (let pre = takeWhile (\<lambda>c. c \<noteq> CHR '':'') url
      in if length pre < length url \<and> pre \<noteq> [] \<and> is_alpha (hd pre) \<and> code (hd pre) < 128 \<and>
            list_all scheme_char pre
         then (str_lower pre, drop (Suc (length pre)) url) else ([], url))"

definition url_netloc :: "string \<Rightarrow> string" where
  "url_netloc rest =
     (if startswith rest [slash, slash]
      then takeWhile (\<lambda>c. c \<notin> {slash, CHR ''?'', CHR ''#''}) (drop 2 rest) else [])"

definition after_at :: "string \<Rightarrow> string" where
  "after_at netloc = rev (takeWhile (\<lambda>c. c \<noteq> CHR ''@'') (rev netloc))"

definition bracketed :: "string \<Rightarrow> string" where
  "bracketed s = takeWhile (\<lambda>c. c \<noteq> CHR '']'') (drop 1 (dropWhile (\<lambda>c. c \<noteq> CHR ''['') s))"

text \<open>The host is lowered up to a zone, which follows a percent sign.\<close>

definition lower_host :: "string \<Rightarrow> string" where
  "lower_host h = str_lower (takeWhile (\<lambda>c. c \<noteq> CHR ''%'') h) @ dropWhile (\<lambda>c. c \<noteq> CHR ''%'') h"

definition netloc_host :: "string \<Rightarrow> string" where
  "netloc_host netloc =
     (let info = after_at netloc
      in lower_host (if CHR ''['' \<in> set info then bracketed info
                     else takeWhile (\<lambda>c. c \<noteq> CHR '':'') info))"

text \<open>The text before the last \<open>@\<close> of the authority, and its port: \<open>None\<close> without one.\<close>

definition url_userinfo :: "string \<Rightarrow> string option" where
  "url_userinfo netloc =
     (if CHR ''@'' \<in> set netloc then Some (take (length netloc - Suc (length (after_at netloc))) netloc) else None)"

definition netloc_port :: "string \<Rightarrow> nat option result" where
  "netloc_port netloc =
     (let info = after_at netloc;
          rest = (if CHR ''['' \<in> set info
                  then drop 1 (dropWhile (\<lambda>c. c \<noteq> CHR '']'') (drop 1 (dropWhile (\<lambda>c. c \<noteq> CHR ''['') info)))
                  else info);
          port = drop 1 (dropWhile (\<lambda>c. c \<noteq> CHR '':'') rest)
      in if port = [] then Inr None
         else if \<not> list_all is_digit port then Inl ValueError
         else result_bind (digit_int port) (\<lambda>n. if n \<le> 65535 then Inr (Some n) else Inl ValueError))"

definition url_path :: "string \<Rightarrow> string" where
  "url_path rest =
     takeWhile (\<lambda>c. c \<notin> {CHR ''?'', CHR ''#''})
       (if startswith rest [slash, slash]
        then dropWhile (\<lambda>c. c \<notin> {slash, CHR ''?'', CHR ''#''}) (drop 2 rest) else rest)"

text \<open>The scheme and the authority of a URL, and its lower-cased host (empty when there is none).\<close>

definition url_split :: "(string \<Rightarrow> bool) \<Rightarrow> string \<Rightarrow> (string \<times> string) result" where
  "url_split ip6 url =
     (case split_scheme (url_clean url) of (scheme, rest) \<Rightarrow>
      let netloc = url_netloc rest;
          opened = CHR ''['' \<in> set netloc; closed = CHR '']'' \<in> set netloc
      in if opened \<noteq> closed then Inl ValueError
         else if opened \<and> \<not> ip6 (bracketed netloc) then Inl ValueError
         else Inr (scheme, netloc))"

definition url_parts :: "(string \<Rightarrow> bool) \<Rightarrow> string \<Rightarrow> (string \<times> string) result" where
  "url_parts ip6 url = result_bind (url_split ip6 url) (\<lambda>(scheme, netloc). Inr (scheme, netloc_host netloc))"

definition url_host :: "(string \<Rightarrow> bool) \<Rightarrow> string \<Rightarrow> string result" where
  "url_host ip6 url = result_bind (url_parts ip6 url) (\<lambda>(_, h). Inr h)"

end
