(* ===== verification/Ddl_Links.thy ===== *)
theory Ddl_Links
  imports Url "HOL-Library.Multiset" "HOL-Library.Product_Lexorder"
begin

text \<open>
  The typed link tables of the direct-download client and their selection rules
  (\<open>ddl/links.py\<close>) and the outbound allow list (\<open>ddl/download.py\<close>).
\<close>

section \<open>The allow list\<close>

definition KNOWN_DDL_HOSTS :: "string list" where
  "KNOWN_DDL_HOSTS = [''getcomics.org'', ''getcomics.info'', ''comicfiles.ru'', ''readcomicsonline.ru'']"

record allow_list =
  al_hosts :: "string set"
  al_scheme :: string

definition within_host :: "string \<Rightarrow> string \<Rightarrow> bool" where
  "within_host host h \<longleftrightarrow> host = h \<or> endswith host (CHR ''.'' # h)"

definition allows_pair :: "allow_list \<Rightarrow> string \<Rightarrow> string \<Rightarrow> bool" where
  "allows_pair al scheme host \<longleftrightarrow>
     scheme = al_scheme al \<and> host \<noteq> [] \<and> (\<exists>h \<in> al_hosts al. within_host host h)"

definition allows_url :: "(string \<Rightarrow> bool) \<Rightarrow> allow_list \<Rightarrow> string \<Rightarrow> bool result" where
  "allows_url ip6 al url = result_bind (url_parts ip6 url) (\<lambda>(s, h). Inr (allows_pair al s h))"

definition hop_allowed :: "allow_list \<Rightarrow> string \<Rightarrow> string \<Rightarrow> bool" where
  "hop_allowed al scheme host = allows_pair al scheme (str_lower host)"

definition build_allowlist :: "(string \<Rightarrow> bool) \<Rightarrow> string \<Rightarrow> allow_list result" where
  "build_allowlist ip6 base_url =
     result_bind (url_host ip6 base_url) (\<lambda>h.
       Inr \<lparr>al_hosts = set KNOWN_DDL_HOSTS \<union> (if h = [] then {} else {h}), al_scheme = ''https''\<rparr>)"

section \<open>Tables\<close>

datatype quality_tier = Hd_upscaled | Hd_digital | Sd | Normal

datatype ddl_host = Host_main | Host_mirror | Host_mega | Host_mediafire | Host_pixeldrain

datatype download_strategy = Direct | Unsupported

definition ALL_HOSTS :: "ddl_host list" where
  "ALL_HOSTS = [Host_main, Host_mirror, Host_mega, Host_mediafire, Host_pixeldrain]"

fun host_value :: "ddl_host \<Rightarrow> string" where
  "host_value Host_main = ''main''"
| "host_value Host_mirror = ''mirror''"
| "host_value Host_mega = ''mega''"
| "host_value Host_mediafire = ''mediafire''"
| "host_value Host_pixeldrain = ''pixeldrain''"

record host_handler =
  hh_host :: ddl_host
  hh_link_type :: string
  hh_strategy :: download_strategy

definition DISPATCH :: "(ddl_host \<times> host_handler) list" where
  "DISPATCH =
     [(Host_main, \<lparr>hh_host = Host_main, hh_link_type = ''GC-Main'', hh_strategy = Direct\<rparr>),
      (Host_mirror, \<lparr>hh_host = Host_mirror, hh_link_type = ''GC-Mirror'', hh_strategy = Direct\<rparr>),
      (Host_mega, \<lparr>hh_host = Host_mega, hh_link_type = ''GC-Mega'', hh_strategy = Unsupported\<rparr>),
      (Host_mediafire, \<lparr>hh_host = Host_mediafire, hh_link_type = ''GC-Media'', hh_strategy = Unsupported\<rparr>),
      (Host_pixeldrain, \<lparr>hh_host = Host_pixeldrain, hh_link_type = ''GC-Pixel'', hh_strategy = Unsupported\<rparr>)]"

definition dispatch_for :: "ddl_host \<Rightarrow> host_handler result" where
  "dispatch_for h = (case map_of DISPATCH h of None \<Rightarrow> Inl KeyError | Some e \<Rightarrow> Inr e)"

definition PAYWALL_HOSTS :: "string list" where
  "PAYWALL_HOSTS = [''sh.st'', ''adf.ly'', ''ouo.io'', ''shorte.st'', ''linkvertise.com'']"

definition NON_DOWNLOAD_LABELS :: "string list" where
  "NON_DOWNLOAD_LABELS = [''read online'', ''read'']"

definition HOST_LABELS :: "(string \<times> ddl_host) list" where
  "HOST_LABELS =
     [(''mirror'', Host_mirror), (''mega'', Host_mega), (''mediafire'', Host_mediafire),
      (''media fire'', Host_mediafire), (''pixeldrain'', Host_pixeldrain),
      (''pixel drain'', Host_pixeldrain), (''download now'', Host_main),
      (''main server'', Host_main), (''main download'', Host_main)]"

definition QUALITY_LABELS :: "(string \<times> quality_tier) list" where
  "QUALITY_LABELS =
     [(''hd-upscaled'', Hd_upscaled), (''upscaled'', Hd_upscaled), (''hd-digital'', Hd_digital),
      (''hd digital'', Hd_digital), (''sd-digital'', Sd), (''sd digital'', Sd), (''sd'', Sd)]"

definition classify_host :: "string \<Rightarrow> ddl_host option" where
  "classify_host label =
     (let txt = str_lower (strip label)
      in if txt = [] then None
         else if list_ex (\<lambda>frag. contains frag txt) NON_DOWNLOAD_LABELS then None
         else map_option snd (find (\<lambda>(frag, _). contains frag txt) HOST_LABELS))"

definition classify_quality :: "string \<Rightarrow> quality_tier" where
  "classify_quality label =
     (let txt = str_lower (strip label)
      in case find (\<lambda>(frag, _). contains frag txt) QUALITY_LABELS of
           Some (_, tier) \<Rightarrow> tier | None \<Rightarrow> Normal)"

definition is_paywall_host :: "string \<Rightarrow> bool" where
  "is_paywall_host host = list_ex (within_host (str_lower (strip host))) PAYWALL_HOSTS"

section \<open>Selection\<close>

record link_candidate =
  lc_host :: ddl_host
  lc_quality :: quality_tier
  lc_link_type :: string
  lc_url :: string
  lc_strategy :: download_strategy

definition quality_order :: "bool \<Rightarrow> quality_tier list" where
  "quality_order prefer_upscaled =
     (if prefer_upscaled then [Hd_upscaled, Hd_digital, Sd, Normal]
      else [Hd_digital, Sd, Hd_upscaled, Normal])"

text \<open>\<open>{x: index for index, x in enumerate(xs)}.get(x, len(dict))\<close>.\<close>

definition rank_in :: "'a list \<Rightarrow> 'a \<Rightarrow> nat" where
  "rank_in xs x =
     (case map_of (rev (zip xs [0..<length xs])) x of Some i \<Rightarrow> i | None \<Rightarrow> length (remdups xs))"

definition host_named :: "string \<Rightarrow> ddl_host option" where
  "host_named name = find (\<lambda>h. host_value h = name) ALL_HOSTS"

definition add_new :: "ddl_host \<Rightarrow> ddl_host list \<Rightarrow> ddl_host list" where
  "add_new h order = (if h \<in> set order then order else order @ [h])"

definition parse_host_priority :: "string \<Rightarrow> ddl_host list" where
  "parse_host_priority raw =
     fold add_new ALL_HOSTS
       (fold (\<lambda>tok order. case host_named (str_lower (strip tok)) of
                None \<Rightarrow> order | Some h \<Rightarrow> add_new h order)
          (split_on (CHR '','') raw) [])"

definition candidate_key :: "ddl_host list \<Rightarrow> bool \<Rightarrow> link_candidate \<Rightarrow> nat \<times> nat" where
  "candidate_key host_priority prefer_upscaled c =
     (rank_in host_priority (lc_host c), rank_in (quality_order prefer_upscaled) (lc_quality c))"

definition order_candidates ::
  "link_candidate list \<Rightarrow> ddl_host list \<Rightarrow> bool \<Rightarrow> link_candidate list" where
  "order_candidates cs host_priority prefer_upscaled =
     sort_key (candidate_key host_priority prefer_upscaled) cs"

section \<open>Facts\<close>

lemma all_hosts: "set ALL_HOSTS = UNIV" "distinct ALL_HOSTS"
  by (auto simp: ALL_HOSTS_def intro: ddl_host.exhaust)

text \<open>The dispatch table has a row of its own for every host, and no two hosts share a link type.\<close>

lemma dispatch_complete: "\<exists>e. dispatch_for h = Inr e \<and> hh_host e = h"
  by (cases h) (simp_all add: dispatch_for_def DISPATCH_def)

lemma dispatch_link_types:
  "dispatch_for h = Inr e \<Longrightarrow> dispatch_for h' = Inr e' \<Longrightarrow> hh_link_type e = hh_link_type e' \<Longrightarrow> h = h'"
  by (cases h; cases h') (auto simp: dispatch_for_def DISPATCH_def)

definition LINK_TYPES :: "string list" where
  "LINK_TYPES = map (hh_link_type \<circ> snd) DISPATCH"

lemma link_type_listed: "dispatch_for h = Inr e \<Longrightarrow> hh_link_type e \<in> set LINK_TYPES"
  by (cases h) (auto simp: dispatch_for_def DISPATCH_def LINK_TYPES_def)

lemma add_new_set [simp]: "set (add_new h xs) = insert h (set xs)"
  by (auto simp: add_new_def)

lemma add_new_distinct: "distinct xs \<Longrightarrow> distinct (add_new h xs)"
  by (simp add: add_new_def)

lemma fold_add_new: "set (fold add_new hs xs) = set hs \<union> set xs"
  by (induction hs arbitrary: xs) auto

lemma fold_add_new_distinct: "distinct xs \<Longrightarrow> distinct (fold add_new hs xs)"
  by (induction hs arbitrary: xs) (simp_all add: add_new_distinct)

lemma host_priority_total: "set (parse_host_priority raw) = UNIV" "distinct (parse_host_priority raw)"
proof -
  let ?f = "\<lambda>tok order. case host_named (str_lower (strip tok)) of None \<Rightarrow> order | Some h \<Rightarrow> add_new h order"
  have "distinct (fold ?f toks xs)" if "distinct xs" for toks xs
    using that by (induction toks arbitrary: xs) (auto simp: add_new_distinct split: option.splits)
  then show "distinct (parse_host_priority raw)"
    by (simp add: parse_host_priority_def fold_add_new_distinct)
  show "set (parse_host_priority raw) = UNIV"
    by (simp add: parse_host_priority_def fold_add_new all_hosts)
qed

lemma rank_in_nth: "distinct xs \<Longrightarrow> i < length xs \<Longrightarrow> rank_in xs (xs ! i) = i"
proof -
  assume d: "distinct xs" and i: "i < length xs"
  have "distinct (map fst (rev (zip xs [0..<length xs])))" using d by (simp add: rev_map [symmetric])
  moreover have "(xs ! i, i) \<in> set (rev (zip xs [0..<length xs]))" using i by (force simp: in_set_zip)
  ultimately have "map_of (rev (zip xs [0..<length xs])) (xs ! i) = Some i" by (rule map_of_is_SomeI)
  then show ?thesis by (simp add: rank_in_def)
qed

text \<open>The tried link is the best offered one: the candidates are only reordered, and no other
  candidate has a host earlier in the operator's priority list, nor the same host and a preferred
  quality. The configured text always gives a complete order: each of the five hosts once.\<close>

theorem best_link_first:
  assumes "order_candidates cs (parse_host_priority raw) up = c # rest"
  shows "mset (c # rest) = mset cs \<and>
    (\<forall>d \<in> set cs. \<exists>i j. j < length (parse_host_priority raw) \<and> parse_host_priority raw ! i = lc_host c \<and>
       parse_host_priority raw ! j = lc_host d \<and>
       (i < j \<or> i = j \<and> rank_in (quality_order up) (lc_quality c) \<le> rank_in (quality_order up) (lc_quality d)))"
proof
  let ?k = "candidate_key (parse_host_priority raw) up"
  show "mset (c # rest) = mset cs" using assms [symmetric] by (simp only: order_candidates_def mset_sort)
  then have set: "set cs = set (c # rest)" by (metis set_mset_mset)
  have sorted: "sorted (map ?k (c # rest))" using assms by (metis order_candidates_def sorted_sort_key)
  show "\<forall>d \<in> set cs. \<exists>i j. j < length (parse_host_priority raw) \<and> parse_host_priority raw ! i = lc_host c \<and>
       parse_host_priority raw ! j = lc_host d \<and>
       (i < j \<or> i = j \<and> rank_in (quality_order up) (lc_quality c) \<le> rank_in (quality_order up) (lc_quality d))"
  proof
    fix d assume "d \<in> set cs"
    then have le: "?k c \<le> ?k d" using sorted set by auto
    obtain i where i: "i < length (parse_host_priority raw)" "parse_host_priority raw ! i = lc_host c"
      using host_priority_total(1) [of raw] in_set_conv_nth [of "lc_host c"] by auto
    obtain j where j: "j < length (parse_host_priority raw)" "parse_host_priority raw ! j = lc_host d"
      using host_priority_total(1) [of raw] in_set_conv_nth [of "lc_host d"] by auto
    have "rank_in (parse_host_priority raw) (lc_host c) = i" "rank_in (parse_host_priority raw) (lc_host d) = j"
      using rank_in_nth [OF host_priority_total(2)] i j by metis+
    then have "i < j \<or> i = j \<and> rank_in (quality_order up) (lc_quality c) \<le> rank_in (quality_order up) (lc_quality d)"
      using le by (auto simp: candidate_key_def less_eq_prod_def)
    with i j show "\<exists>i j. j < length (parse_host_priority raw) \<and> parse_host_priority raw ! i = lc_host c \<and>
       parse_host_priority raw ! j = lc_host d \<and>
       (i < j \<or> i = j \<and> rank_in (quality_order up) (lc_quality c) \<le> rank_in (quality_order up) (lc_quality d))"
      by blast
  qed
qed

definition sample_link :: "ddl_host \<Rightarrow> quality_tier \<Rightarrow> link_candidate" where
  "sample_link h q = \<lparr>lc_host = h, lc_quality = q, lc_link_type = ''GC-Main'', lc_url = ''https://getcomics.org/x'',
     lc_strategy = Direct\<rparr>"

theorem best_link_first_witness:
  "mset (sample_link Host_mirror Sd # [sample_link Host_main Normal]) =
   mset [sample_link Host_main Normal, sample_link Host_mirror Sd]"
proof -
  have "order_candidates [sample_link Host_main Normal, sample_link Host_mirror Sd]
      (parse_host_priority ''mirror, main'') True =
    sample_link Host_mirror Sd # [sample_link Host_main Normal]"
    by code_simp
  from best_link_first [OF this] show ?thesis by blast
qed

text \<open>Only the provider's host, the known download hosts and their subdomains pass the allow list,
  and only over its scheme: a look-alike name does not.\<close>

lemma within_host_cases: "within_host host h \<longleftrightarrow> host = h \<or> (\<exists>sub. host = sub @ CHR ''.'' # h)"
proof -
  have "endswith host (CHR ''.'' # h) \<longleftrightarrow> (\<exists>u. rev host = rev (CHR ''.'' # h) @ u)"
    by (simp only: endswith_def startswith_iff)
  also have "\<dots> \<longleftrightarrow> (\<exists>sub. host = sub @ CHR ''.'' # h)"
    by (metis rev_append rev_rev_ident)
  finally show ?thesis by (simp add: within_host_def)
qed

lemma allowlist_hosts:
  assumes "build_allowlist ip6 base = Inr al" and "allows_pair al scheme host"
  shows "scheme = ''https'' \<and>
    (\<exists>h. (h \<in> set KNOWN_DDL_HOSTS \<or> url_host ip6 base = Inr h) \<and> (host = h \<or> (\<exists>sub. host = sub @ CHR ''.'' # h)))"
  using assms by (auto simp: build_allowlist_def result_bind_eq_Inr allows_pair_def within_host_cases split: if_splits)

end
