(* ===== verification/Ddl_Adapter.thy ===== *)
theory Ddl_Adapter
  imports Ddl_Links
begin

text \<open>
  The parser of a post page (\<open>ddl/adapter_v1.py\<close>) as a fold over the events of Python's
  \<open>html.parser\<close>: start tags with their attributes, text and end tags. The tokenizer, which may
  raise, and \<open>urllib.parse.urljoin\<close>, which raises \<open>ValueError\<close> on a malformed authority, are
  arguments. The en dash that \<open>_norm\<close> replaces is outside the character range of the model.
\<close>

section \<open>Events\<close>

datatype html_event =
    Start_tag string "(string \<times> string option) list"
  | Html_data string
  | End_tag string

definition norm_text :: "string \<Rightarrow> string" where
  "norm_text s = str_join '' '' (pieces is_space s)"

definition html_attr :: "string \<Rightarrow> (string \<times> string option) list \<Rightarrow> string" where
  "html_attr n attrs = (case map_of attrs n of Some (Some v) \<Rightarrow> v | _ \<Rightarrow> [])"

definition html_classes :: "(string \<times> string option) list \<Rightarrow> string list" where
  "html_classes attrs = pieces is_space (html_attr ''class'' attrs)"

section \<open>The post parser\<close>

record raw_post_link =
  rl_quality_label :: string
  rl_host_label :: string
  rl_url :: string

record post_parser =
  pp_aio_seen :: bool
  pp_links :: "raw_post_link list"
  pp_div_stack :: "bool list"
  pp_quality :: string
  pp_heading_capture :: bool
  pp_heading_buf :: string
  pp_anchor :: "(string \<times> string) option"
  pp_anchor_buf :: string

definition new_post_parser :: post_parser where
  "new_post_parser =
     \<lparr>pp_aio_seen = False, pp_links = [], pp_div_stack = [], pp_quality = [], pp_heading_capture = False,
      pp_heading_buf = [], pp_anchor = None, pp_anchor_buf = []\<rparr>"

definition HEADING_TAGS :: "string list" where
  "HEADING_TAGS = [''h1'', ''h2'', ''h3'', ''h4'', ''h5'', ''strong'', ''p'']"

definition in_aio :: "post_parser \<Rightarrow> bool" where
  "in_aio p \<longleftrightarrow> True \<in> set (pp_div_stack p)"

definition post_starttag :: "string \<Rightarrow> (string \<times> string option) list \<Rightarrow> post_parser \<Rightarrow> post_parser" where
  "post_starttag tag attrs p =
     (let classes = html_classes attrs
      in if tag = ''div'' then
           (let is_aio = ''aio-pulse'' \<in> set classes
            in p\<lparr>pp_aio_seen := pp_aio_seen p \<or> is_aio, pp_div_stack := is_aio # pp_div_stack p\<rparr>)
         else if tag \<in> set HEADING_TAGS \<and> (''quality'' \<in> set classes \<or> ''aio-title'' \<in> set classes) then
           p\<lparr>pp_heading_capture := True, pp_heading_buf := []\<rparr>
         else if tag = ''a'' \<and> in_aio p then
           p\<lparr>pp_anchor := Some (html_attr ''href'' attrs, html_attr ''title'' attrs), pp_anchor_buf := []\<rparr>
         else p)"

definition post_data :: "string \<Rightarrow> post_parser \<Rightarrow> post_parser" where
  "post_data s p =
     (if pp_heading_capture p then p\<lparr>pp_heading_buf := pp_heading_buf p @ s\<rparr>
      else if pp_anchor p \<noteq> None then p\<lparr>pp_anchor_buf := pp_anchor_buf p @ s\<rparr>
      else p)"

definition finish_anchor :: "string \<Rightarrow> string \<Rightarrow> post_parser \<Rightarrow> post_parser" where
  "finish_anchor href ttl p =
     (let label = (if norm_text ttl = [] then norm_text (pp_anchor_buf p) else norm_text ttl);
          href' = norm_text href;
          p' = (if href' = [] then p
                else p\<lparr>pp_links := pp_links p @
                       [\<lparr>rl_quality_label = pp_quality p, rl_host_label = label, rl_url = href'\<rparr>]\<rparr>)
      in p'\<lparr>pp_anchor := None\<rparr>)"

definition post_endtag :: "string \<Rightarrow> post_parser \<Rightarrow> post_parser" where
  "post_endtag tag p =
     (if tag \<in> set HEADING_TAGS \<and> pp_heading_capture p then
        p\<lparr>pp_quality := norm_text (pp_heading_buf p), pp_heading_capture := False\<rparr>
      else case (if tag = ''a'' then pp_anchor p else None) of
             Some (href, ttl) \<Rightarrow> finish_anchor href ttl p
           | None \<Rightarrow> if tag = ''div'' then p\<lparr>pp_div_stack := drop 1 (pp_div_stack p)\<rparr> else p)"

fun post_event :: "html_event \<Rightarrow> post_parser \<Rightarrow> post_parser" where
  "post_event (Start_tag tag attrs) p = post_starttag tag attrs p"
| "post_event (Html_data s) p = post_data s p"
| "post_event (End_tag tag) p = post_endtag tag p"

section \<open>The page\<close>

datatype page_error = Adapter_drift string | Page_crash py_error

fun resolve_hrefs ::
  "(string \<Rightarrow> string result) \<Rightarrow> raw_post_link list \<Rightarrow> page_error + raw_post_link list" where
  "resolve_hrefs join [] = Inr []"
| "resolve_hrefs join (l # ls) =
     (case join (rl_url l) of
        Inl e \<Rightarrow> Inl (Page_crash e)
      | Inr u \<Rightarrow>
          (case resolve_hrefs join ls of
             Inl e \<Rightarrow> Inl e
           | Inr ls' \<Rightarrow> Inr (l\<lparr>rl_url := u\<rparr> # ls')))"

definition parse_post_page ::
  "(string \<Rightarrow> html_event list result) \<Rightarrow> (string \<Rightarrow> string \<Rightarrow> string result) \<Rightarrow> string \<Rightarrow> string \<Rightarrow>
   page_error + raw_post_link list" where
  "parse_post_page tokens join base_url html =
     (case tokens html of
        Inl _ \<Rightarrow> Inl (Adapter_drift ''unparseable HTML'')
      | Inr events \<Rightarrow>
          (let p = fold post_event events new_post_parser
           in if \<not> pp_aio_seen p then Inl (Adapter_drift ''no download block found'')
              else resolve_hrefs (join base_url) (pp_links p)))"

section \<open>Enumerating the candidates\<close>

text \<open>The loop of \<open>_resolve_candidates\<close> over the raw links, in page order.\<close>

fun enumerate_links ::
  "(string \<Rightarrow> bool) \<Rightarrow> string set \<Rightarrow> raw_post_link list \<Rightarrow> link_candidate list result" where
  "enumerate_links ip6 failed [] = Inr []"
| "enumerate_links ip6 failed (raw # rest) =
     (case classify_host (rl_host_label raw) of
        None \<Rightarrow> enumerate_links ip6 failed rest
      | Some h \<Rightarrow>
          result_bind (url_host ip6 (rl_url raw)) (\<lambda>uh.
            if is_paywall_host uh then enumerate_links ip6 failed rest
            else result_bind (dispatch_for h) (\<lambda>handler.
              if hh_link_type handler \<in> failed then enumerate_links ip6 failed rest
              else result_bind (enumerate_links ip6 failed rest) (\<lambda>cs.
                Inr (\<lparr>lc_host = h, lc_quality = classify_quality (rl_quality_label raw),
                      lc_link_type = hh_link_type handler, lc_url = rl_url raw,
                      lc_strategy = hh_strategy handler\<rparr> # cs)))))"

section \<open>Facts\<close>

text \<open>A candidate is a link of a typed host that is neither failed before nor behind a paywall.\<close>

lemma enumerate_links_sound:
  "enumerate_links ip6 failed raws = Inr cs \<Longrightarrow> c \<in> set cs \<Longrightarrow>
   lc_link_type c \<notin> failed \<and>
   (\<exists>e. dispatch_for (lc_host c) = Inr e \<and> lc_link_type c = hh_link_type e \<and> lc_strategy c = hh_strategy e) \<and>
   (\<exists>raw \<in> set raws. rl_url raw = lc_url c \<and> classify_host (rl_host_label raw) = Some (lc_host c)) \<and>
   (\<exists>uh. url_host ip6 (lc_url c) = Inr uh \<and> \<not> is_paywall_host uh)"
proof (induction raws arbitrary: cs)
  case (Cons raw rest)
  show ?case
  proof (cases "enumerate_links ip6 failed rest")
    case (Inl e)
    with Cons.prems show ?thesis by (auto simp: result_bind_eq_Inr split: option.splits if_splits)
  next
    case (Inr cs')
    then have "cs = cs' \<or> (\<exists>h handler uh. classify_host (rl_host_label raw) = Some h \<and>
        url_host ip6 (rl_url raw) = Inr uh \<and> \<not> is_paywall_host uh \<and> dispatch_for h = Inr handler \<and>
        hh_link_type handler \<notin> failed \<and>
        cs = \<lparr>lc_host = h, lc_quality = classify_quality (rl_quality_label raw),
               lc_link_type = hh_link_type handler, lc_url = rl_url raw, lc_strategy = hh_strategy handler\<rparr> # cs')"
      using Cons.prems(1) by (simp add: result_bind_eq_Inr split: option.splits if_splits) fastforce
    then show ?thesis using Cons.IH [OF Inr] Cons.prems(2) by auto
  qed
qed simp

end
