(* ===== verification/Egress.thy ===== *)
theory Egress
  imports Text "HOL-Library.Word"
begin

text \<open>
  The egress policy of outbound requests (\<open>http/egress.py\<close>): which IP addresses a request may
  reach, how a URL host is read as an address, and the validation of one hop.

  An address is a machine word of its width, and the network tests are the shifts of
  \<open>ipaddress\<close>. Dotted IPv4 text is parsed here; IPv6 text is the argument \<open>ip6\<close>, DNS the
  argument \<open>resolve\<close>. A URL is the value that \<open>httpx.URL\<close> holds: scheme, host without brackets,
  explicit port, and the rest.
\<close>

section \<open>Addresses\<close>

datatype ip_address = V4 "32 word" | V6 "128 word"

definition v4 :: "nat \<Rightarrow> nat \<Rightarrow> nat \<Rightarrow> nat \<Rightarrow> 32 word" where
  "v4 a b c d = of_nat (((a * 256 + b) * 256 + c) * 256 + d)"

definition in_net :: "'a :: len word \<Rightarrow> nat \<Rightarrow> 'a word \<Rightarrow> bool" where
  "in_net base len a \<longleftrightarrow> drop_bit (LENGTH('a) - len) a = drop_bit (LENGTH('a) - len) base"

definition RFC_1918 :: "(32 word \<times> nat) list" where
  "RFC_1918 = [(v4 10 0 0 0, 8), (v4 172 16 0 0, 12), (v4 192 168 0 0, 16)]"

definition IPV6_ULA :: "128 word" where
  "IPV6_ULA = push_bit 112 0xFC00"

definition forbidden_ipv4_reason :: "32 word \<Rightarrow> string option" where
  "forbidden_ipv4_reason a =
     (if a = 0 then Some ''unspecified''
      else if in_net (v4 127 0 0 0) 8 a then Some ''loopback''
      else if in_net (v4 169 254 0 0) 16 a then Some ''link-local''
      else if list_ex (\<lambda>(base, len). in_net base len a) RFC_1918 then Some ''private (RFC 1918)''
      else None)"

text \<open>\<open>ucast\<close> keeps the low 32 bits: Python's \<open>ip & 0xFFFFFFFF\<close>.\<close>

definition embedded_ipv4_candidates :: "128 word \<Rightarrow> 32 word list" where
  "embedded_ipv4_candidates a =
     (if drop_bit 32 a = 0xFFFF then [ucast a] else []) @
     (if drop_bit 32 a = 0 \<and> a \<noteq> 0 \<and> a \<noteq> 1 then [ucast a] else []) @
     (if drop_bit 112 a = 0x2002 then [ucast (drop_bit 80 a)] else []) @
     (if drop_bit 96 a = 0x20010000 then [ucast (not a)] else [])"

definition forbidden_reason :: "ip_address \<Rightarrow> string option" where
  "forbidden_reason ip =
     (case ip of
        V4 a \<Rightarrow> forbidden_ipv4_reason a
      | V6 a \<Rightarrow>
          (case find (\<lambda>r. r \<noteq> None) (map forbidden_ipv4_reason (embedded_ipv4_candidates a)) of
             Some r \<Rightarrow> r
           | None \<Rightarrow>
               if a = 0 then Some ''unspecified''
               else if a = 1 then Some ''loopback''
               else if in_net (push_bit 112 0xFE80) 10 a then Some ''link-local''
               else if in_net IPV6_ULA 7 a then Some ''unique-local (ULA)''
               else None))"

section \<open>Hosts\<close>

definition digits_of :: "string \<Rightarrow> bool" where
  "digits_of s \<longleftrightarrow> s \<noteq> [] \<and> list_all is_digit s"

text \<open>One octet of a dotted literal: ASCII digits, at most three, no leading zero, at most 255.\<close>

definition octet :: "string \<Rightarrow> nat option" where
  "octet s =
     (if digits_of s \<and> length s \<le> 3 \<and> (s = ''0'' \<or> hd s \<noteq> CHR ''0'') \<and> base_value 10 s \<le> 255
      then Some (base_value 10 s) else None)"

definition ipv4_text :: "string \<Rightarrow> 32 word option" where
  "ipv4_text s =
     (case map octet (split_on (CHR ''.'') s) of
        [Some a, Some b, Some c, Some d] \<Rightarrow> Some (v4 a b c d)
      | _ \<Rightarrow> None)"

definition ip_text :: "(string \<Rightarrow> 128 word option) \<Rightarrow> string \<Rightarrow> ip_address option" where
  "ip_text ip6 s = (case ipv4_text s of Some a \<Rightarrow> Some (V4 a) | None \<Rightarrow> map_option V6 (ip6 s))"

definition is_hex_digit :: "char \<Rightarrow> bool" where
  "is_hex_digit c \<longleftrightarrow> is_digit c \<or> 65 \<le> code c \<and> code c \<le> 70 \<or> 97 \<le> code c \<and> code c \<le> 102"

definition hex_host :: "string \<Rightarrow> bool" where
  "hex_host s \<longleftrightarrow> (take 2 s = ''0x'' \<or> take 2 s = ''0X'') \<and> drop 2 s \<noteq> [] \<and> list_all is_hex_digit (drop 2 s)"

definition packed_ipv4 :: "nat \<Rightarrow> ip_address option result" where
  "packed_ipv4 n = (if n \<le> 0xFFFFFFFF then Inr (Some (V4 (of_nat n))) else Inl ValueError)"

definition interpret_host_as_ip :: "(string \<Rightarrow> 128 word option) \<Rightarrow> string \<Rightarrow> ip_address option result" where
  "interpret_host_as_ip ip6 host =
     (case ip_text ip6 host of
        Some ip \<Rightarrow> Inr (Some ip)
      | None \<Rightarrow>
          if digits_of host then
            if 1 < length host \<and> hd host = CHR ''0'' then
              if list_all (\<lambda>c. code c < 56) host then packed_ipv4 (base_value 8 host) else Inl ValueError
            else packed_ipv4 (base_value 10 host)
          else if hex_host host then packed_ipv4 (base_value 16 (drop 2 host))
          else Inr None)"

section \<open>One hop\<close>

record http_url =
  hu_scheme :: string
  hu_host :: string
  hu_port :: "nat option"
  hu_path :: string

definition ALLOWED_SCHEMES :: "string list" where
  "ALLOWED_SCHEMES = [''http'', ''https'']"

definition effective_port :: "http_url \<Rightarrow> nat option" where
  "effective_port u =
     (case hu_port u of
        Some p \<Rightarrow> if p = 0 then map_of [(''http'', 80), (''https'', 443)] (hu_scheme u) else Some p
      | None \<Rightarrow> map_of [(''http'', 80), (''https'', 443)] (hu_scheme u))"

definition same_origin :: "http_url \<Rightarrow> http_url \<Rightarrow> bool" where
  "same_origin u base \<longleftrightarrow>
     hu_scheme u = hu_scheme base \<and> str_lower (hu_host u) = str_lower (hu_host base) \<and>
     effective_port u = effective_port base"

datatype client_profile = External | Local_service "http_url option"

datatype http_error =
    Egress_policy "ip_address option" string
  | Too_many_redirects
  | Response_too_large
  | Hop_refused
  | Httpx_fault string
  | Py_fault py_error

text \<open>The subclasses of \<open>OutboundHttpError\<close>.\<close>

fun is_outbound_http_error :: "http_error \<Rightarrow> bool" where
  "is_outbound_http_error (Egress_policy _ _) = True"
| "is_outbound_http_error Too_many_redirects = True"
| "is_outbound_http_error Response_too_large = True"
| "is_outbound_http_error _ = False"

datatype dns_answer = Resolved "string list" | Os_error string | Resolver_fault py_error

definition host_addresses ::
  "(string \<Rightarrow> 128 word option) \<Rightarrow> (string \<Rightarrow> dns_answer) \<Rightarrow> string \<Rightarrow> http_error + ip_address list" where
  "host_addresses ip6 resolve host =
     (case interpret_host_as_ip ip6 host of
        Inl _ \<Rightarrow> Inl (Egress_policy None ''unparseable numeric host'')
      | Inr (Some ip) \<Rightarrow> Inr [ip]
      | Inr None \<Rightarrow>
          (case resolve host of
             Os_error msg \<Rightarrow> Inl (Egress_policy None (''DNS resolution failed: '' @ msg))
           | Resolver_fault e \<Rightarrow> Inl (Py_fault e)
           | Resolved txts \<Rightarrow>
               if list_ex (\<lambda>t. ip_text ip6 t = None) txts then Inl (Py_fault ValueError)
               else if txts = [] then Inl (Egress_policy None ''DNS resolution returned no addresses'')
               else Inr (map (\<lambda>t. the (ip_text ip6 t)) txts)))"

fun refuse_forbidden :: "(ip_address \<Rightarrow> bool) \<Rightarrow> ip_address list \<Rightarrow> http_error + unit" where
  "refuse_forbidden test_allow [] = Inr ()"
| "refuse_forbidden test_allow (ip # ips) =
     (if test_allow ip then refuse_forbidden test_allow ips
      else case forbidden_reason ip of
             Some r \<Rightarrow> Inl (Egress_policy (Some ip) r)
           | None \<Rightarrow> refuse_forbidden test_allow ips)"

definition validate ::
  "(string \<Rightarrow> 128 word option) \<Rightarrow> (ip_address \<Rightarrow> bool) \<Rightarrow> (string \<Rightarrow> dns_answer) \<Rightarrow> client_profile \<Rightarrow>
   http_url \<Rightarrow> http_error + unit" where
  "validate ip6 test_allow resolve profile u =
     (if hu_scheme u \<notin> set ALLOWED_SCHEMES then Inl (Egress_policy None ''forbidden scheme'')
      else if hu_host u = [] then Inl (Egress_policy None ''URL has no host'')
      else if (case profile of Local_service (Some base) \<Rightarrow> same_origin u base | _ \<Rightarrow> False) then Inr ()
      else case host_addresses ip6 resolve (hu_host u) of
             Inl e \<Rightarrow> Inl e
           | Inr ips \<Rightarrow> refuse_forbidden test_allow ips)"

section \<open>The policy as address ranges\<close>

text \<open>The refused IPv4 ranges, first and last address, of the requirement.\<close>

definition FORBIDDEN_RANGES :: "(32 word \<times> 32 word) list" where
  "FORBIDDEN_RANGES =
     [(v4 0 0 0 0, v4 0 0 0 0), (v4 10 0 0 0, v4 10 255 255 255), (v4 127 0 0 0, v4 127 255 255 255),
      (v4 169 254 0 0, v4 169 254 255 255), (v4 172 16 0 0, v4 172 31 255 255),
      (v4 192 168 0 0, v4 192 168 255 255)]"

definition private_ipv4 :: "32 word \<Rightarrow> bool" where
  "private_ipv4 a \<longleftrightarrow> (\<exists>(lo, hi) \<in> set FORBIDDEN_RANGES. lo \<le> a \<and> a \<le> hi)"

lemma in_net_div:
  "in_net base len a \<longleftrightarrow> unat a div 2 ^ (LENGTH('a) - len) = unat base div 2 ^ (LENGTH('a) - len)"
  for a base :: "'a :: len word"
proof -
  have "in_net base len a \<longleftrightarrow>
      unat (drop_bit (LENGTH('a) - len) a) = unat (drop_bit (LENGTH('a) - len) base)"
    by (simp only: in_net_def word_unat_eq_iff)
  then show ?thesis by (simp only: unat_drop_bit_eq) (simp only: drop_bit_eq_div)
qed

lemma div_eq_range:
  fixes n d k :: nat
  assumes "0 < d"
  shows "n div d = k \<longleftrightarrow> k * d \<le> n \<and> n < (k + 1) * d"
proof -
  have "n div d = k \<longleftrightarrow> k \<le> n div d \<and> n div d < k + 1" by auto
  then show ?thesis
    by (simp only: less_eq_div_iff_mult_less_eq [OF assms] div_less_iff_less_mult [OF assms])
qed

lemma forbidden_ipv4_ranges: "forbidden_ipv4_reason a \<noteq> None \<longleftrightarrow> private_ipv4 a"
proof -
  have "forbidden_ipv4_reason a \<noteq> None \<longleftrightarrow>
     a = 0 \<or> in_net (v4 127 0 0 0) 8 a \<or> in_net (v4 169 254 0 0) 16 a \<or> in_net (v4 10 0 0 0) 8 a \<or>
     in_net (v4 172 16 0 0) 12 a \<or> in_net (v4 192 168 0 0) 16 a"
    by (simp add: forbidden_ipv4_reason_def RFC_1918_def)
  also have "\<dots> \<longleftrightarrow> private_ipv4 a"
    unfolding private_ipv4_def FORBIDDEN_RANGES_def
    by (simp add: in_net_div div_eq_range v4_def word_le_nat_alt word_unat_eq_iff [of a]) linarith
  finally show ?thesis .
qed

text \<open>The four IPv6 forms that route to an IPv4 address.\<close>

definition mapped_form :: "32 word \<Rightarrow> 128 word" where
  "mapped_form a = or (push_bit 32 0xFFFF) (ucast a)"

definition sixtofour_form :: "32 word \<Rightarrow> 128 word \<Rightarrow> 128 word" where
  "sixtofour_form a rest = or (push_bit 112 0x2002) (or (push_bit 80 (ucast a)) (take_bit 80 rest))"

definition teredo_form :: "32 word \<Rightarrow> 128 word \<Rightarrow> 128 word" where
  "teredo_form a rest =
     or (push_bit 96 0x20010000) (or (push_bit 32 (take_bit 64 rest)) (ucast (not a)))"

text \<open>How the shifts read the parts of a joined word.\<close>

lemma ucast_bit_less: "bit (ucast (a :: 32 word) :: 128 word) n \<Longrightarrow> n < 32"
  by (auto simp: bit_simps dest: bit_imp_le_length)

lemma ucast_back [simp]: "ucast (ucast (a :: 32 word) :: 128 word) = a"
  by (rule bit_word_eqI) (auto simp: bit_simps dest: bit_imp_le_length)

lemma join_high: "k + 16 \<le> 128 \<Longrightarrow> drop_bit k (or (push_bit k c) x) = or (take_bit (128 - k) c) (drop_bit k x)"
  for c x :: "128 word"
  by (rule bit_word_eqI) (auto simp: bit_simps)

lemma join_low: "32 \<le> k \<Longrightarrow> ucast (or (push_bit k c) x) = (ucast x :: 32 word)"
  for c x :: "128 word"
  by (rule bit_word_eqI) (auto simp: bit_simps)

lemma drop_ucast: "32 \<le> k \<Longrightarrow> drop_bit k (ucast (a :: 32 word) :: 128 word) = 0"
  by (rule bit_word_eqI) (auto simp: bit_simps dest: bit_imp_le_length)

lemma drop_low: "k + 32 \<le> m \<Longrightarrow> drop_bit m (or (push_bit k (ucast (a :: 32 word))) (take_bit k r)) = 0"
  for r :: "128 word"
  by (rule bit_word_eqI) (auto simp: bit_simps dest!: ucast_bit_less dest: bit_imp_le_length)

lemma mapped_form_parts:
  "drop_bit 32 (mapped_form a) = 0xFFFF" "ucast (mapped_form a) = a"
proof -
  show "drop_bit 32 (mapped_form a) = 0xFFFF"
    unfolding mapped_form_def by (subst join_high) (simp_all add: drop_ucast take_bit_word_eq_self)
  show "ucast (mapped_form a) = a"
    unfolding mapped_form_def by (subst join_low) simp_all
qed

lemma sixtofour_form_parts:
  "drop_bit 112 (sixtofour_form a r) = 0x2002" "ucast (drop_bit 80 (sixtofour_form a r)) = a"
proof -
  show "drop_bit 112 (sixtofour_form a r) = 0x2002"
    unfolding sixtofour_form_def by (subst join_high, simp, subst drop_low) simp_all
  have low: "ucast (drop_bit 80 (or (push_bit 112 c) (or (push_bit 80 (ucast a)) (take_bit 80 r)))) = a"
    for c :: "128 word"
    by (rule bit_word_eqI) (auto simp: bit_simps dest: bit_imp_le_length)
  show "ucast (drop_bit 80 (sixtofour_form a r)) = a" unfolding sixtofour_form_def by (rule low)
qed

lemma teredo_form_parts:
  "drop_bit 96 (teredo_form a r) = 0x20010000" "ucast (not (teredo_form a r)) = a"
proof -
  have "drop_bit 96 (or (push_bit 32 (take_bit 64 r)) (ucast (not a))) = 0"
    by (rule bit_word_eqI) (auto simp: bit_simps dest: bit_imp_le_length)
  then show "drop_bit 96 (teredo_form a r) = 0x20010000"
    unfolding teredo_form_def by (subst join_high) simp_all
  have low: "ucast (not (or (push_bit 96 c) (or (push_bit 32 (take_bit 64 r)) (ucast (not a))))) = a"
    for c :: "128 word"
    by (rule bit_word_eqI) (auto simp: bit_simps dest: bit_imp_le_length)
  show "ucast (not (teredo_form a r)) = a" unfolding teredo_form_def by (rule low)
qed

lemma embedded_is_refused:
  "x \<in> set (embedded_ipv4_candidates a) \<Longrightarrow> private_ipv4 x \<Longrightarrow> forbidden_reason (V6 a) \<noteq> None"
proof -
  assume x: "x \<in> set (embedded_ipv4_candidates a)" and "private_ipv4 x"
  then have "forbidden_ipv4_reason x \<noteq> None" by (simp only: forbidden_ipv4_ranges)
  with x have "find (\<lambda>r. r \<noteq> None) (map forbidden_ipv4_reason (embedded_ipv4_candidates a)) \<noteq> None"
    by (auto simp: find_None_iff)
  then obtain r where "find (\<lambda>r. r \<noteq> None) (map forbidden_ipv4_reason (embedded_ipv4_candidates a)) = Some r"
      "r \<noteq> None"
    by (auto simp: find_Some_iff)
  then show ?thesis by (simp add: forbidden_reason_def)
qed

text \<open>C15: The egress policy is exactly the list of ranges on IPv4, and no tunnelled form of a refused
  IPv4 address gets through: not the mapped one, the compatible one, 6to4 or Teredo.\<close>

theorem egress_ranges_exact:
  "(forbidden_reason (V4 a) \<noteq> None \<longleftrightarrow> private_ipv4 a) \<and>
   (private_ipv4 a \<longrightarrow>
     forbidden_reason (V6 (mapped_form a)) \<noteq> None \<and>
     forbidden_reason (V6 (ucast a)) \<noteq> None \<and>
     forbidden_reason (V6 (sixtofour_form a r)) \<noteq> None \<and>
     forbidden_reason (V6 (teredo_form a r)) \<noteq> None)"
proof (intro conjI impI)
  show "forbidden_reason (V4 a) \<noteq> None \<longleftrightarrow> private_ipv4 a"
    using forbidden_ipv4_ranges [of a] by (simp add: forbidden_reason_def)
  assume priv: "private_ipv4 a"
  show "forbidden_reason (V6 (mapped_form a)) \<noteq> None"
    by (rule embedded_is_refused [OF _ priv])
      (simp add: embedded_ipv4_candidates_def mapped_form_parts)
  show "forbidden_reason (V6 (sixtofour_form a r)) \<noteq> None"
    by (rule embedded_is_refused [OF _ priv])
      (simp add: embedded_ipv4_candidates_def sixtofour_form_parts)
  show "forbidden_reason (V6 (teredo_form a r)) \<noteq> None"
    by (rule embedded_is_refused [OF _ priv])
      (simp add: embedded_ipv4_candidates_def teredo_form_parts)
  show "forbidden_reason (V6 (ucast a)) \<noteq> None"
  proof (cases "ucast a = (0 :: 128 word) \<or> ucast a = (1 :: 128 word)")
    case False
    then have "a \<in> set (embedded_ipv4_candidates (ucast a))"
      by (simp add: embedded_ipv4_candidates_def drop_ucast)
    then show ?thesis by (rule embedded_is_refused [OF _ priv])
  qed (auto simp: forbidden_reason_def embedded_ipv4_candidates_def)
qed

theorem egress_ranges_exact_witness:
  "forbidden_reason (V6 (mapped_form (v4 127 0 0 1))) \<noteq> None"
proof -
  have "private_ipv4 (v4 127 0 0 1)"
    by (simp add: private_ipv4_def FORBIDDEN_RANGES_def v4_def)
  then show ?thesis using egress_ranges_exact [of "v4 127 0 0 1" 0] by blast
qed

end
