(* ===== verification/Http_Client.thy ===== *)
theory Http_Client
  imports Egress
begin

text \<open>
  The outbound client (\<open>http/factory.py\<close>): the manual redirect walk with its per-hop checks, the
  credential rule, and the bounded read of a body.

  The network is the argument \<open>net\<close>: DNS, the transport and \<open>httpx\<close>'s URL join, which may answer
  differently at every hop. A walk returns the requests it sent, in order, with its result.
  Header names are lower-cased, as \<open>httpx.Headers\<close> compares them.
\<close>

section \<open>Requests and responses\<close>

definition MAX_REDIRECTS :: nat where "MAX_REDIRECTS = 5"

definition REDIRECT_STATUSES :: "int list" where
  "REDIRECT_STATUSES = [301, 302, 303, 307, 308]"

definition SENSITIVE_HEADERS :: "string list" where
  "SENSITIVE_HEADERS = [''authorization'', ''proxy-authorization'', ''cookie'', ''x-api-key'']"

record http_request =
  rq_method :: string
  rq_url :: http_url
  rq_headers :: "(string \<times> string) list"
  rq_body :: "string option"

text \<open>A response body arrives in chunks, and the transfer may break off after any of them.\<close>

record http_response =
  rs_status :: int
  rs_headers :: "(string \<times> string) list"
  rs_chunks :: "string list"
  rs_broken :: "string option"

record network =
  nt_ip6 :: "string \<Rightarrow> 128 word option"
  nt_test_allow :: "ip_address \<Rightarrow> bool"
  nt_resolve :: "nat \<Rightarrow> string \<Rightarrow> dns_answer"
  nt_send :: "nat \<Rightarrow> http_request \<Rightarrow> string + http_response"
  nt_join :: "http_url \<Rightarrow> string \<Rightarrow> string + http_url"

record outbound_client =
  oc_profile :: client_profile
  oc_max_response_bytes :: nat

section \<open>The redirect walk\<close>

definition hop_headers :: "(string \<times> string) list \<Rightarrow> http_url \<Rightarrow> string \<Rightarrow> (string \<times> string) list" where
  "hop_headers headers u original_host =
     (if str_lower (hu_host u) \<noteq> original_host
      then filter (\<lambda>(n, _). n \<notin> set SENSITIVE_HEADERS) headers else headers)"

definition redirect_location :: "http_response \<Rightarrow> string option" where
  "redirect_location resp =
     (case map_of (rs_headers resp) ''location'' of
        Some l \<Rightarrow> if rs_status resp \<in> set REDIRECT_STATUSES \<and> l \<noteq> [] then Some l else None
      | None \<Rightarrow> None)"

definition next_method :: "int \<Rightarrow> string \<times> string option \<Rightarrow> string \<times> string option" where
  "next_method status mb =
     (if status \<in> {301, 302, 303} \<and> fst mb \<notin> {''GET'', ''HEAD''} then (''GET'', None) else mb)"

text \<open>\<open>left\<close> counts the redirects still allowed; hop \<open>k\<close> is number \<open>MAX_REDIRECTS - left\<close>.\<close>

fun walk ::
  "network \<Rightarrow> client_profile \<Rightarrow> (http_url \<Rightarrow> bool) option \<Rightarrow> (string \<times> string) list \<Rightarrow> string \<Rightarrow> nat \<Rightarrow>
   string \<times> string option \<Rightarrow> http_url \<Rightarrow> http_request list \<times> (http_error + http_response \<times> http_url)" where
  "walk net profile hop_check headers original_host left mb u =
     (case validate (nt_ip6 net) (nt_test_allow net) (nt_resolve net left) profile u of
        Inl e \<Rightarrow> ([], Inl e)
      | Inr _ \<Rightarrow>
          if (case hop_check of Some ok \<Rightarrow> \<not> ok u | None \<Rightarrow> False) then ([], Inl Hop_refused)
          else
            (let req = \<lparr>rq_method = fst mb, rq_url = u, rq_headers = hop_headers headers u original_host,
                   rq_body = snd mb\<rparr>
             in case nt_send net left req of
                  Inl fault \<Rightarrow> ([req], Inl (Httpx_fault fault))
                | Inr resp \<Rightarrow>
                    (case redirect_location resp of
                       None \<Rightarrow> ([req], Inr (resp, u))
                     | Some loc \<Rightarrow>
                         (case left of
                            0 \<Rightarrow> ([req], Inl Too_many_redirects)
                          | Suc n \<Rightarrow>
                              (case nt_join net u loc of
                                 Inl fault \<Rightarrow> ([req], Inl (Httpx_fault fault))
                               | Inr u' \<Rightarrow>
                                   (case walk net profile hop_check headers original_host n
                                           (next_method (rs_status resp) mb) u' of
                                      (sent, r) \<Rightarrow> (req # sent, r)))))))"

declare walk.simps [simp del]

definition open_final ::
  "network \<Rightarrow> outbound_client \<Rightarrow> (http_url \<Rightarrow> bool) option \<Rightarrow> (string \<times> string) list \<Rightarrow> string \<Rightarrow>
   string option \<Rightarrow> http_url \<Rightarrow> http_request list \<times> (http_error + http_response \<times> http_url)" where
  "open_final net client hop_check headers method content u =
     walk net (oc_profile client) hop_check headers (str_lower (hu_host u)) MAX_REDIRECTS
       (str_upper method, content) u"

section \<open>The bounded read\<close>

record fetch_result =
  fr_status :: int
  fr_headers :: "(string \<times> string) list"
  fr_content :: string
  fr_url :: http_url

fun read_chunks :: "nat \<Rightarrow> nat \<Rightarrow> string list \<Rightarrow> http_error + string list" where
  "read_chunks cap received [] = Inr []"
| "read_chunks cap received (c # cs) =
     (if cap < received + length c then Inl Response_too_large
      else case read_chunks cap (received + length c) cs of
             Inl e \<Rightarrow> Inl e | Inr cs' \<Rightarrow> Inr (c # cs'))"

definition read_bounded :: "nat \<Rightarrow> http_response \<Rightarrow> http_url \<Rightarrow> http_error + fetch_result" where
  "read_bounded cap resp u =
     (case (case map_of (rs_headers resp) ''content-length'' of
              Some d \<Rightarrow> if isdigit_text d then result_bind (digit_int d) (\<lambda>n. Inr (cap < n)) else Inr False
            | None \<Rightarrow> Inr False) of
        Inl e \<Rightarrow> Inl (Py_fault e)
      | Inr True \<Rightarrow> Inl Response_too_large
      | Inr False \<Rightarrow>
          (case read_chunks cap 0 (rs_chunks resp) of
             Inl e \<Rightarrow> Inl e
           | Inr cs \<Rightarrow>
               (case rs_broken resp of
                  Some fault \<Rightarrow> Inl (Httpx_fault fault)
                | None \<Rightarrow> Inr \<lparr>fr_status = rs_status resp, fr_headers = rs_headers resp,
                                fr_content = concat cs, fr_url = u\<rparr>)))"

definition http_request_call ::
  "network \<Rightarrow> outbound_client \<Rightarrow> (http_url \<Rightarrow> bool) option \<Rightarrow> (string \<times> string) list \<Rightarrow> nat option \<Rightarrow>
   string \<Rightarrow> string option \<Rightarrow> http_url \<Rightarrow> http_request list \<times> (http_error + fetch_result)" where
  "http_request_call net client hop_check headers max_bytes method content u =
     (let cap = (case max_bytes of None \<Rightarrow> oc_max_response_bytes client
                 | Some m \<Rightarrow> min (oc_max_response_bytes client) m)
      in case open_final net client hop_check headers method content u of
           (sent, Inl e) \<Rightarrow> (sent, Inl e)
         | (sent, Inr (resp, final)) \<Rightarrow> (sent, read_bounded cap resp final))"

definition http_get ::
  "network \<Rightarrow> outbound_client \<Rightarrow> (http_url \<Rightarrow> bool) option \<Rightarrow> nat option \<Rightarrow> http_url \<Rightarrow>
   http_request list \<times> (http_error + fetch_result)" where
  "http_get net client hop_check max_bytes u =
     http_request_call net client hop_check [] max_bytes ''GET'' None u"

definition external_client :: "nat \<Rightarrow> outbound_client" where
  "external_client cap = \<lparr>oc_profile = External, oc_max_response_bytes = cap\<rparr>"

definition local_service_client :: "nat \<Rightarrow> http_url \<Rightarrow> http_error + outbound_client" where
  "local_service_client cap base =
     (if hu_scheme base \<notin> set ALLOWED_SCHEMES \<or> hu_host base = []
      then Inl (Egress_policy None ''invalid base URL'')
      else Inr \<lparr>oc_profile = Local_service (Some base), oc_max_response_bytes = cap\<rparr>)"

section \<open>Facts\<close>

text \<open>What the policy promises of one request that went out at hop \<open>k\<close>.\<close>

definition reachable_address :: "network \<Rightarrow> nat \<Rightarrow> string \<Rightarrow> bool" where
  "reachable_address net k host \<longleftrightarrow>
     (\<exists>ips. host_addresses (nt_ip6 net) (nt_resolve net k) host = Inr ips \<and> ips \<noteq> [] \<and>
        (\<forall>ip \<in> set ips. nt_test_allow net ip \<or> forbidden_reason ip = None))"

definition guarded_request ::
  "network \<Rightarrow> client_profile \<Rightarrow> (http_url \<Rightarrow> bool) option \<Rightarrow> string \<Rightarrow> nat \<Rightarrow> http_request \<Rightarrow> bool" where
  "guarded_request net profile hop_check original_host k req \<longleftrightarrow>
     hu_scheme (rq_url req) \<in> {''http'', ''https''} \<and>
     (reachable_address net k (hu_host (rq_url req)) \<or>
      (\<exists>base. profile = Local_service (Some base) \<and> same_origin (rq_url req) base)) \<and>
     (\<forall>ok. hop_check = Some ok \<longrightarrow> ok (rq_url req)) \<and>
     (str_lower (hu_host (rq_url req)) \<noteq> original_host \<longrightarrow>
       fst ` set (rq_headers req) \<inter> {''authorization'', ''proxy-authorization'', ''cookie'', ''x-api-key''} = {})"

lemma refuse_forbidden_Inr:
  "refuse_forbidden allow ips = Inr () \<longleftrightarrow> (\<forall>ip \<in> set ips. allow ip \<or> forbidden_reason ip = None)"
  by (induction ips) (auto split: option.splits)

lemma host_addresses_nonempty: "host_addresses ip6 resolve host = Inr ips \<Longrightarrow> ips \<noteq> []"
  by (auto simp: host_addresses_def split: sum.splits option.splits dns_answer.splits if_splits)

lemma validate_Inr:
  assumes "validate (nt_ip6 net) (nt_test_allow net) (nt_resolve net k) profile u = Inr ()"
  shows "hu_scheme u \<in> {''http'', ''https''} \<and>
    (reachable_address net k (hu_host u) \<or>
     (\<exists>base. profile = Local_service (Some base) \<and> same_origin u base))"
  using assms host_addresses_nonempty [of "nt_ip6 net" "nt_resolve net k" "hu_host u"]
  by (auto simp: validate_def reachable_address_def refuse_forbidden_Inr ALLOWED_SCHEMES_def
      split: if_splits sum.splits client_profile.splits option.splits)

lemma hop_headers_stripped:
  "str_lower (hu_host u) \<noteq> h \<Longrightarrow> fst ` set (hop_headers hs u h) \<inter>
     {''authorization'', ''proxy-authorization'', ''cookie'', ''x-api-key''} = {}"
  by (auto simp: hop_headers_def SENSITIVE_HEADERS_def)

text \<open>One step of the walk: what it sends first and how it goes on.\<close>

lemma walk_cases:
  assumes "walk net profile hc hs h n mb u = (sent, r)"
  obtains (refused) "sent = []" and "\<forall>x. r \<noteq> Inr x"
  | (stopped) req where "sent = [req]" and "guarded_request net profile hc h n req"
      and "\<forall>resp u'. r = Inr (resp, u') \<longrightarrow>
        nt_send net n req = Inr resp \<and> redirect_location resp = None \<and> rq_url req = u'"
  | (followed) req m rest mb' u' where "n = Suc m" and "sent = req # rest"
      and "guarded_request net profile hc h n req"
      and "walk net profile hc hs h m mb' u' = (rest, r)"
proof -
  let ?req = "\<lparr>rq_method = fst mb, rq_url = u, rq_headers = hop_headers hs u h, rq_body = snd mb\<rparr>"
  note w = assms [unfolded walk.simps [of net profile hc hs h n]]
  show thesis
  proof (cases "validate (nt_ip6 net) (nt_test_allow net) (nt_resolve net n) profile u")
    case (Inl e)
    with w show ?thesis by (auto intro: refused)
  next
    case (Inr x)
    show ?thesis
    proof (cases "case hc of Some ok \<Rightarrow> \<not> ok u | None \<Rightarrow> False")
      case True
      with w Inr show ?thesis by (auto intro: refused)
    next
      case False
      have g: "guarded_request net profile hc h n ?req"
        using validate_Inr [of net n profile u] Inr False hop_headers_stripped [of u h hs]
        by (auto simp: guarded_request_def split: option.splits)
      show ?thesis
        using w Inr False g
        by (auto simp: Let_def split: sum.splits option.splits nat.splits prod.splits
            intro: stopped followed)
    qed
  qed
qed

lemma walk_guarded:
  "walk net profile hc hs h n mb u = (sent, r) \<Longrightarrow>
   length sent \<le> Suc n \<and> (\<forall>i < length sent. guarded_request net profile hc h (n - i) (sent ! i))"
proof (induction n arbitrary: mb u sent r)
  case 0
  then show ?case by (cases rule: walk_cases) auto
next
  case (Suc n)
  from Suc.prems show ?case
  proof (cases rule: walk_cases)
    case (followed req m rest mb' u')
    with Suc.IH [of mb' u' rest r]
    have "length rest \<le> Suc n" "\<forall>i < length rest. guarded_request net profile hc h (n - i) (rest ! i)"
      by simp_all
    with followed show ?thesis by (auto simp: less_Suc_eq_0_disj)
  qed auto
qed

text \<open>A walk that succeeds ends with the answer to the last request it sent, and that is no redirect.\<close>

lemma walk_answer:
  "walk net profile hc hs h n mb u = (sent, Inr (resp, u')) \<Longrightarrow>
   sent \<noteq> [] \<and> nt_send net (Suc n - length sent) (last sent) = Inr resp \<and> redirect_location resp = None \<and>
   rq_url (last sent) = u'"
proof (induction n arbitrary: mb u sent)
  case 0
  then show ?case by (cases rule: walk_cases) auto
next
  case (Suc n)
  from Suc.prems show ?case
  proof (cases rule: walk_cases)
    case (followed req m rest mb' v)
    then show ?thesis using Suc.IH [of mb' v rest] by auto
  qed auto
qed

lemma open_final_guarded:
  "open_final net client hc hs m content u = (sent, r) \<Longrightarrow>
   length sent \<le> Suc MAX_REDIRECTS \<and>
   (\<forall>req \<in> set sent. \<exists>k. guarded_request net (oc_profile client) hc (str_lower (hu_host u)) k req)"
  unfolding open_final_def using walk_guarded [of net "oc_profile client" hc hs] by (fastforce simp: in_set_conv_nth)

lemma read_chunks_bounded:
  "read_chunks cap n cs = Inr cs' \<Longrightarrow> cs' = cs \<and> (cs = [] \<or> n + length (concat cs) \<le> cap)"
  by (induction cap n cs arbitrary: cs' rule: read_chunks.induct)
    (auto split: if_splits sum.splits)

lemma read_bounded_Inr:
  "read_bounded cap resp u = Inr res \<Longrightarrow>
   res = \<lparr>fr_status = rs_status resp, fr_headers = rs_headers resp, fr_content = concat (rs_chunks resp), fr_url = u\<rparr> \<and>
   length (fr_content res) \<le> cap \<and> rs_broken resp = None"
  by (auto simp: read_bounded_def split: if_splits sum.splits option.splits bool.splits dest: read_chunks_bounded)

text \<open>C1: Whatever a server answers, a request of the outbound client sends at most six messages, each
  to an http or https host none of whose addresses the egress policy refuses (or to the one
  configured local origin) that also passes the caller's own check, never with a credential
  header outside the host first asked. A result is the answer to the last message: it is no
  redirect, its body arrived to the end and is returned whole, and it is within the byte cap of
  the client and within that of the call.\<close>

theorem outbound_request_guarded:
  assumes "http_request_call net client hop_check headers max_bytes method content u = (sent, r)"
  shows "length sent \<le> 6 \<and>
    (\<forall>i < length sent. guarded_request net (oc_profile client) hop_check (str_lower (hu_host u)) (5 - i) (sent ! i)) \<and>
    (\<forall>res. r = Inr res \<longrightarrow> sent \<noteq> [] \<and>
       (\<exists>resp. nt_send net (6 - length sent) (last sent) = Inr resp \<and> redirect_location resp = None \<and>
          rs_broken resp = None \<and>
          res = \<lparr>fr_status = rs_status resp, fr_headers = rs_headers resp, fr_content = concat (rs_chunks resp),
            fr_url = rq_url (last sent)\<rparr>) \<and>
       length (fr_content res) \<le> oc_max_response_bytes client \<and>
       (\<forall>m. max_bytes = Some m \<longrightarrow> length (fr_content res) \<le> m))"
proof -
  let ?cap = "case max_bytes of None \<Rightarrow> oc_max_response_bytes client | Some m \<Rightarrow> min (oc_max_response_bytes client) m"
  obtain s r' where w: "walk net (oc_profile client) hop_check headers (str_lower (hu_host u)) 5
      (str_upper method, content) u = (s, r')"
    by fastforce
  with assms have sent: "sent = s" and res: "\<And>res. r = Inr res \<Longrightarrow>
      \<exists>resp final. r' = Inr (resp, final) \<and> read_bounded ?cap resp final = Inr res"
    by (auto simp: http_request_call_def open_final_def MAX_REDIRECTS_def Let_def split: sum.splits prod.splits)
  have "sent \<noteq> [] \<and>
       (\<exists>resp. nt_send net (6 - length sent) (last sent) = Inr resp \<and> redirect_location resp = None \<and>
          rs_broken resp = None \<and>
          res = \<lparr>fr_status = rs_status resp, fr_headers = rs_headers resp, fr_content = concat (rs_chunks resp),
            fr_url = rq_url (last sent)\<rparr>) \<and>
       length (fr_content res) \<le> oc_max_response_bytes client \<and>
       (\<forall>m. max_bytes = Some m \<longrightarrow> length (fr_content res) \<le> m)" if r: "r = Inr res" for res
  proof -
    from res [OF r] obtain resp final where r': "r' = Inr (resp, final)"
      and b: "read_bounded ?cap resp final = Inr res" by blast
    show ?thesis
      using walk_answer [OF w [unfolded r']] read_bounded_Inr [OF b]
      by (auto simp: sent split: option.splits)
  qed
  then show ?thesis using walk_guarded [OF w] by (simp add: sent)
qed

definition sample_url :: "string \<Rightarrow> http_url" where
  "sample_url host = \<lparr>hu_scheme = ''https'', hu_host = host, hu_port = None, hu_path = ''/''\<rparr>"

text \<open>A public host that redirects to a loopback address.\<close>

definition sample_net :: network where
  "sample_net =
     \<lparr>nt_ip6 = (\<lambda>_. None), nt_test_allow = (\<lambda>_. False),
      nt_resolve = (\<lambda>_ _. Resolved [''93.184.216.34'']),
      nt_send = (\<lambda>k req. Inr \<lparr>rs_status = 302, rs_headers = [(''location'', ''http://127.0.0.1/'')],
                   rs_chunks = [], rs_broken = None\<rparr>),
      nt_join = (\<lambda>_ _. Inr (sample_url ''127.0.0.1''))\<rparr>"

lemma sample_addresses:
  "ipv4_text ''93.184.216.34'' = Some (v4 93 184 216 34)" "ipv4_text ''127.0.0.1'' = Some (v4 127 0 0 1)"
  "ipv4_text ''example.org'' = None" "digits_of ''example.org'' = False" "hex_host ''example.org'' = False"
  by (simp_all add: ipv4_text_def split_on.simps octet_def digits_of_def hex_host_def is_digit_def code_def
      base_value_def digit_of_def Let_def)

lemma sample_verdicts:
  "forbidden_reason (V4 (v4 93 184 216 34)) = None"
  "forbidden_reason (V4 (v4 127 0 0 1)) = Some ''loopback''"
  by (simp_all add: forbidden_reason_def forbidden_ipv4_reason_def in_net_def v4_def RFC_1918_def)

lemma sample_redirect_refused:
  "http_get sample_net (external_client 100) None None (sample_url ''example.org'') =
   ([\<lparr>rq_method = ''GET'', rq_url = sample_url ''example.org'', rq_headers = [], rq_body = None\<rparr>],
    Inl (Egress_policy (Some (V4 (v4 127 0 0 1))) ''loopback''))"
proof -
  have up: "str_upper ''GET'' = ''GET''" by code_simp
  show ?thesis
    unfolding http_get_def http_request_call_def open_final_def MAX_REDIRECTS_def up
    by (simp add: walk.simps [where left = 5] walk.simps [where left = 4] sample_net_def sample_url_def external_client_def
        validate_def host_addresses_def interpret_host_as_ip_def ip_text_def sample_addresses
        sample_verdicts redirect_location_def REDIRECT_STATUSES_def ALLOWED_SCHEMES_def hop_headers_def
        next_method_def del: One_nat_def)
qed

text \<open>A public host that answers in two chunks.\<close>

definition answer_net :: network where
  "answer_net = sample_net\<lparr>nt_send := (\<lambda>k req. Inr \<lparr>rs_status = 200, rs_headers = [], rs_chunks = [''ab'', ''c''],
     rs_broken = None\<rparr>)\<rparr>"

lemma sample_answer:
  "http_request_call answer_net (external_client 100) None [] (Some 3) ''GET'' None (sample_url ''example.org'') =
   ([\<lparr>rq_method = ''GET'', rq_url = sample_url ''example.org'', rq_headers = [], rq_body = None\<rparr>],
    Inr \<lparr>fr_status = 200, fr_headers = [], fr_content = ''abc'', fr_url = sample_url ''example.org''\<rparr>)"
proof -
  have up: "str_upper ''GET'' = ''GET''" by code_simp
  show ?thesis
    unfolding http_request_call_def open_final_def MAX_REDIRECTS_def up
    by (simp add: walk.simps [where left = 5] answer_net_def sample_net_def sample_url_def external_client_def
        validate_def host_addresses_def interpret_host_as_ip_def ip_text_def sample_addresses
        sample_verdicts redirect_location_def ALLOWED_SCHEMES_def hop_headers_def read_bounded_def
        result_bind_def del: One_nat_def)
qed

theorem outbound_request_guarded_witness:
  "guarded_request sample_net External None ''example.org'' 5
     \<lparr>rq_method = ''GET'', rq_url = sample_url ''example.org'', rq_headers = [], rq_body = None\<rparr> \<and>
   length ''abc'' \<le> (3 :: nat)"
proof -
  have host: "str_lower (hu_host (sample_url ''example.org'')) = ''example.org''" by code_simp
  show ?thesis
    using outbound_request_guarded [OF sample_redirect_refused [unfolded http_get_def]]
      outbound_request_guarded [OF sample_answer]
    by (simp add: host external_client_def)
qed

end
