(* ===== verification/Safe_Paths.thy ===== *)
theory Safe_Paths
  imports Path_Map
begin

text \<open>
  Path confinement (\<open>security/paths.py\<close>): the reduction of an untrusted string to one path
  segment, the guarded join under a managed root, and the check of a stored path.

  \<open>os.path.realpath\<close> depends on the file system and is the argument \<open>rp\<close>. Paths are POSIX
  text.
\<close>

section \<open>One segment\<close>

definition RESERVED_NAMES :: "string list" where
  "RESERVED_NAMES = [''CON'', ''PRN'', ''AUX'', ''NUL''] @
     map (\<lambda>i. ''COM'' @ show_nat i) [1..<10] @ map (\<lambda>i. ''LPT'' @ show_nat i) [1..<10]"

definition is_control :: "char \<Rightarrow> bool" where
  "is_control c \<longleftrightarrow> code c < 32 \<or> code c = 127"

definition is_separator :: "char \<Rightarrow> bool" where
  "is_separator c \<longleftrightarrow> c = slash \<or> c = backslash"

definition strip_set :: "char list \<Rightarrow> string \<Rightarrow> string" where
  "strip_set cs s = rev (dropWhile (\<lambda>c. c \<in> set cs) (rev (dropWhile (\<lambda>c. c \<in> set cs) s)))"

definition segment_text :: "string \<Rightarrow> string" where
  "segment_text raw =
     strip_set '' .'' (str_join '' '' (pieces is_space
       (map (\<lambda>c. if is_separator c \<or> is_control c then CHR '' '' else c) raw)))"

definition stem :: "string \<Rightarrow> string" where
  "stem s = takeWhile (\<lambda>c. c \<noteq> CHR ''.'') s"

definition safe_path_component :: "string option \<Rightarrow> string \<Rightarrow> string" where
  "safe_path_component raw fallback =
     (let txt = segment_text (case raw of None \<Rightarrow> [] | Some s \<Rightarrow> s);
          txt = (if txt = [] then fallback else txt)
      in if str_upper (stem txt) \<in> set RESERVED_NAMES then CHR ''_'' # txt else txt)"

section \<open>Containment\<close>

definition abs_parts :: "string \<Rightarrow> string list" where
  "abs_parts p = filter (\<lambda>x. x \<noteq> [] \<and> x \<noteq> ''.'') (split_on slash p)"

definition commonpath :: "string \<Rightarrow> string \<Rightarrow> string result" where
  "commonpath a b =
     (if startswith a [slash] \<noteq> startswith b [slash] then Inl ValueError
      else Inr ((if startswith a [slash] then [slash] else []) @
             join_parts (longest_common_prefix (abs_parts a) (abs_parts b))))"

definition is_within :: "string \<Rightarrow> string \<Rightarrow> bool" where
  "is_within root_real candidate_real \<longleftrightarrow>
     candidate_real = root_real \<or> commonpath root_real candidate_real = Inr root_real"

definition UNTITLED :: string where "UNTITLED = ''untitled''"

datatype confinement_error = Path_confinement_error

definition safe_join ::
  "(string \<Rightarrow> string) \<Rightarrow> string \<Rightarrow> string list \<Rightarrow> confinement_error + string" where
  "safe_join rp root_path parts =
     (let candidate = foldl (\<lambda>p part. path_join p (safe_path_component (Some part) UNTITLED)) root_path parts
      in if is_within (rp root_path) (rp candidate) then Inr candidate else Inl Path_confinement_error)"

fun validate_under_root ::
  "(string \<Rightarrow> string) \<Rightarrow> string \<Rightarrow> string list \<Rightarrow> confinement_error + string" where
  "validate_under_root rp p [] = Inl Path_confinement_error"
| "validate_under_root rp p (r # rs) =
     (if is_within (rp r) (rp p) then Inr (rp p) else validate_under_root rp p rs)"

section \<open>Facts about segments\<close>

text \<open>White space only as single inner spaces.\<close>

fun single_spaced :: "string \<Rightarrow> bool" where
  "single_spaced [] = True"
| "single_spaced [c] = (is_space c \<longrightarrow> c = CHR '' '')"
| "single_spaced (c # d # cs) =
     ((is_space c \<longrightarrow> c = CHR '' '' \<and> \<not> is_space d) \<and> single_spaced (d # cs))"

lemma is_space_blank: "is_space (CHR '' '')"
  by (simp add: is_space_def code_def)

lemma single_spaced_tl: "single_spaced (c # cs) \<Longrightarrow> single_spaced cs"
  by (cases cs) simp_all

lemma single_spaced_suffix: "single_spaced s \<Longrightarrow> suffix t s \<Longrightarrow> single_spaced t"
  by (induction s) (auto simp: suffix_Cons dest: single_spaced_tl)

lemma single_spaced_prefix: "single_spaced s \<Longrightarrow> prefix t s \<Longrightarrow> single_spaced t"
proof (induction s arbitrary: t rule: single_spaced.induct)
  case (3 c d cs)
  show ?case
  proof (cases t)
    case (Cons x u)
    with "3.prems" "3.IH" [of u] show ?thesis by (cases u) auto
  qed simp
qed (auto simp: prefix_Cons)

lemma single_spaced_word:
  "list_all (\<lambda>c. \<not> is_space c) w \<Longrightarrow> w \<noteq> [] \<Longrightarrow>
   single_spaced s \<Longrightarrow> s \<noteq> [] \<Longrightarrow> \<not> is_space (hd s) \<Longrightarrow> single_spaced (w @ CHR '' '' # s)"
proof (induction w rule: single_spaced.induct)
  case (2 c)
  then show ?case by (cases s) (auto simp: is_space_blank)
qed auto

lemma single_spaced_nonspace: "list_all (\<lambda>c. \<not> is_space c) w \<Longrightarrow> single_spaced w"
  by (induction w rule: single_spaced.induct) auto

lemma str_join_Cons: "ws \<noteq> [] \<Longrightarrow> str_join '' '' (w # ws) = w @ CHR '' '' # str_join '' '' ws"
  by (cases ws) (auto simp: str_join_def)

lemma str_join_single [simp]: "str_join sep [w] = w"
  by (simp add: str_join_def)

lemma str_join_words:
  "list_all (\<lambda>w. w \<noteq> [] \<and> list_all (\<lambda>c. \<not> is_space c) w) ws \<Longrightarrow> ws \<noteq> [] \<Longrightarrow>
   single_spaced (str_join '' '' ws) \<and> str_join '' '' ws \<noteq> [] \<and> \<not> is_space (hd (str_join '' '' ws))"
proof (induction ws)
  case (Cons w ws)
  show ?case
  proof (cases "ws = []")
    case True
    with Cons.prems show ?thesis by (cases w) (auto simp: single_spaced_nonspace)
  next
    case False
    with Cons.IH Cons.prems
    have "single_spaced (w @ CHR '' '' # str_join '' '' ws)"
      by (intro single_spaced_word) auto
    with Cons.prems False show ?thesis by (cases w) (simp_all add: str_join_Cons)
  qed
qed simp

text \<open>Splitting and joining a single-spaced text that starts and ends in a letter gives it back.\<close>

lemma pieces_single_spaced:
  "single_spaced s \<Longrightarrow> s \<noteq> [] \<Longrightarrow> \<not> is_space (hd s) \<Longrightarrow> \<not> is_space (last s) \<Longrightarrow>
   str_join '' '' (pieces is_space s) = s"
proof (induction s rule: length_induct)
  case (1 s)
  obtain c cs where s: "s = c # cs" using "1.prems"(2) by (cases s) auto
  let ?w = "takeWhile (\<lambda>x. \<not> is_space x) cs"
  have nc: "\<not> is_space c" using "1.prems"(3) s by simp
  show ?case
  proof (cases "dropWhile (\<lambda>x. \<not> is_space x) cs")
    case Nil
    then have w: "?w = cs" by (simp add: dropWhile_eq_Nil_conv takeWhile_eq_all_conv)
    show ?thesis by (simp only: s pieces.simps nc if_False Nil w str_join_single)
  next
    case (Cons b r)
    then have b: "is_space b" using dropWhile_hd [OF Cons] by simp
    have cs: "?w @ b # r = cs" using takeWhile_dropWhile_id [of "\<lambda>x. \<not> is_space x" cs] Cons by simp
    have split: "s = (c # ?w) @ b # r" by (simp only: s cs append_Cons)
    then have sb: "single_spaced (b # r)"
      using "1.prems"(1) single_spaced_suffix by (metis suffix_def)
    have last: "last s = last (b # r)" by (subst split) simp
    have r: "r \<noteq> []" using "1.prems"(4) b last by auto
    have blank: "b = CHR '' ''" and hr: "\<not> is_space (hd r)" using sb b r by (cases r; simp)+
    have lr: "\<not> is_space (last r)" using "1.prems"(4) last r by simp
    have "length r < length s" using arg_cong [OF cs, of length] s by simp
    then have IH: "str_join '' '' (pieces is_space r) = r"
      using "1.IH" r hr lr single_spaced_tl [OF sb] by blast
    have "pieces is_space r \<noteq> []" using hr r by (cases r) auto
    then have "str_join '' '' (pieces is_space s) = (c # ?w) @ CHR '' '' # r"
      using nc Cons b IH by (simp add: s str_join_Cons)
    also have "\<dots> = s" by (simp only: split [symmetric] blank [symmetric])
    finally show ?thesis .
  qed
qed

text \<open>The shape of a cleaned segment.\<close>

definition clean_segment :: "string \<Rightarrow> bool" where
  "clean_segment s \<longleftrightarrow> single_spaced s \<and> hd s \<notin> set '' .'' \<and> last s \<notin> set '' .'' \<and>
     list_all (\<lambda>c. \<not> is_separator c \<and> \<not> is_control c) s"

lemma strip_set_sublist: "\<exists>pre post. s = pre @ strip_set cs s @ post"
proof -
  let ?p = "\<lambda>c. c \<in> set cs"
  have "s = takeWhile ?p s @ dropWhile ?p s" by simp
  moreover have "dropWhile ?p s = strip_set cs s @ rev (takeWhile ?p (rev (dropWhile ?p s)))"
    unfolding strip_set_def by (simp flip: rev_append)
  ultimately show ?thesis by metis
qed

lemma strip_set_ends:
  assumes "strip_set cs s \<noteq> []"
  shows "hd (strip_set cs s) \<notin> set cs \<and> last (strip_set cs s) \<notin> set cs"
proof -
  let ?p = "\<lambda>c. c \<in> set cs"
  let ?m = "dropWhile ?p s" and ?t = "strip_set cs s"
  have t: "?m = ?t @ rev (takeWhile ?p (rev ?m))"
    unfolding strip_set_def by (simp flip: rev_append)
  have "hd ?m = hd ?t" using assms by (subst t) simp
  moreover have "?m \<noteq> []" using assms t by (metis Nil_is_append_conv)
  ultimately have h: "hd ?t \<notin> set cs" using hd_dropWhile [of ?p s] by simp
  have "rev ?t = dropWhile ?p (rev ?m)" by (simp add: strip_set_def)
  moreover have "dropWhile ?p (rev ?m) \<noteq> []" using assms by (simp add: strip_set_def)
  ultimately have "hd (rev ?t) \<notin> set cs" using hd_dropWhile [of ?p "rev ?m"] by simp
  then show ?thesis using h assms by (simp add: hd_rev)
qed

lemma strip_set_id: "s \<noteq> [] \<Longrightarrow> hd s \<notin> set cs \<Longrightarrow> last s \<notin> set cs \<Longrightarrow> strip_set cs s = s"
proof -
  assume s: "s \<noteq> []" "hd s \<notin> set cs" "last s \<notin> set cs"
  then have "dropWhile (\<lambda>c. c \<in> set cs) s = s" by (cases s) auto
  moreover have "dropWhile (\<lambda>c. c \<in> set cs) (rev s) = rev s"
    using s by (cases "rev s") (auto simp flip: hd_rev)
  ultimately show ?thesis by (simp add: strip_set_def)
qed

lemma segment_text_clean:
  assumes "segment_text raw \<noteq> []"
  shows "clean_segment (segment_text raw)"
proof -
  define m where "m = map (\<lambda>c. if is_separator c \<or> is_control c then CHR '' '' else c) raw"
  define j where "j = str_join '' '' (pieces is_space m)"
  have blank: "\<not> is_separator (CHR '' '')" "\<not> is_control (CHR '' '')"
    by (simp_all add: is_separator_def is_control_def slash_def backslash_def code_def)
  have words: "list_all (\<lambda>w. w \<noteq> [] \<and> list_all (\<lambda>c. \<not> is_space c) w) (pieces is_space m)"
    and chars: "w \<in> set (pieces is_space m) \<Longrightarrow> set w \<subseteq> set m" for w
    using pieces_pieces [of _ is_space m] by (auto simp: list_all_iff)
  have seg: "segment_text raw = strip_set '' .'' j" by (simp add: segment_text_def m_def j_def)
  with assms obtain pre post where j: "j = pre @ segment_text raw @ post" using strip_set_sublist by metis
  have "j \<noteq> []" using assms j by auto
  then have "pieces is_space m \<noteq> []" by (auto simp: j_def str_join_def)
  then have "single_spaced j" using str_join_words [OF words] by (simp add: j_def)
  then have "single_spaced (segment_text raw @ post)" using single_spaced_suffix j by (metis suffix_def)
  then have single: "single_spaced (segment_text raw)" using single_spaced_prefix by (metis prefix_def)
  have "set j \<subseteq> insert (CHR '' '') (set m)"
    using set_str_join [of "'' ''" "pieces is_space m"] chars by (fastforce simp: j_def)
  then have "list_all (\<lambda>c. \<not> is_separator c \<and> \<not> is_control c) (segment_text raw)"
    using j blank by (auto simp: list_all_iff m_def subset_iff)
  then show ?thesis
    using strip_set_ends [of "'' .''" j] assms single by (simp add: clean_segment_def seg)
qed

lemma segment_text_id:
  assumes "clean_segment s" and "s \<noteq> []"
  shows "segment_text s = s"
proof -
  have "map (\<lambda>c. if is_separator c \<or> is_control c then CHR '' '' else c) s = s"
    using assms(1) by (auto simp: clean_segment_def list_all_iff intro!: map_idI)
  moreover have "\<not> is_space (hd s) \<and> \<not> is_space (last s)"
  proof -
    have "is_space c \<Longrightarrow> c \<in> set s \<Longrightarrow> c = CHR '' ''" for c
      using assms(1)[unfolded clean_segment_def, THEN conjunct1]
      by (induction s rule: single_spaced.induct) auto
    then show ?thesis using assms by (auto simp: clean_segment_def)
  qed
  ultimately show ?thesis
    using assms pieces_single_spaced [of s] strip_set_id [of s "'' .''"]
    by (simp add: segment_text_def clean_segment_def)
qed

lemma upper_underscore: "str_upper (stem (CHR ''_'' # s)) \<notin> set RESERVED_NAMES"
  by (auto simp: stem_def str_upper_def RESERVED_NAMES_def is_lower_def code_def)

lemma clean_underscore: "clean_segment s \<Longrightarrow> s \<noteq> [] \<Longrightarrow> clean_segment (CHR ''_'' # s)"
  by (cases s) (simp_all add: clean_segment_def is_space_def is_separator_def is_control_def slash_def
      backslash_def code_def)

lemma safe_component_clean:
  assumes "clean_segment fallback" and "fallback \<noteq> []"
  shows "clean_segment (safe_path_component raw fallback)" and "safe_path_component raw fallback \<noteq> []"
    and "str_upper (stem (safe_path_component raw fallback)) \<notin> set RESERVED_NAMES"
proof -
  define u where "u = (let x = segment_text (case raw of None \<Rightarrow> [] | Some s \<Rightarrow> s) in if x = [] then fallback else x)"
  have u: "clean_segment u" "u \<noteq> []" using assms segment_text_clean by (auto simp: u_def Let_def)
  have tu: "safe_path_component raw fallback = (if str_upper (stem u) \<in> set RESERVED_NAMES then CHR ''_'' # u else u)"
    by (simp add: safe_path_component_def u_def Let_def)
  then show "clean_segment (safe_path_component raw fallback)" "safe_path_component raw fallback \<noteq> []"
    using u clean_underscore by auto
  show "str_upper (stem (safe_path_component raw fallback)) \<notin> set RESERVED_NAMES"
    using tu upper_underscore by auto
qed

text \<open>Whatever the untrusted text, the sanitiser gives one non-empty path segment: no separator, no
  control character, not a dot or dot-dot, no reserved device name before the first dot; and
  sanitising the result again changes nothing.\<close>

theorem safe_component_one_segment:
  assumes "clean_segment fallback" and "fallback \<noteq> []" and t: "t = safe_path_component raw fallback"
  shows "t \<noteq> [] \<and> t \<noteq> ''.'' \<and> t \<noteq> ''..'' \<and>
    list_all (\<lambda>c. \<not> is_separator c \<and> \<not> is_control c) t \<and>
    str_upper (stem t) \<notin> set RESERVED_NAMES \<and> safe_path_component (Some t) fallback' = t"
proof -
  have clean: "clean_segment t" "t \<noteq> []" and res: "str_upper (stem t) \<notin> set RESERVED_NAMES"
    unfolding t by (rule safe_component_clean [OF assms(1,2)])+
  have "t \<noteq> ''.''" "t \<noteq> ''..''" using clean by (auto simp: clean_segment_def)
  with clean res show ?thesis by (simp add: safe_path_component_def segment_text_id) (simp add: clean_segment_def)
qed

theorem safe_component_one_segment_witness:
  "safe_path_component (Some ''_con'') UNTITLED = ''_con''"
proof -
  have c: "clean_segment UNTITLED" "UNTITLED \<noteq> []" by code_simp+
  have t: "''_con'' = safe_path_component (Some ''../con'') UNTITLED" by code_simp
  show ?thesis using safe_component_one_segment [OF c t] by blast
qed

section \<open>Facts about containment\<close>

lemma split_on_no: "c \<notin> set s \<Longrightarrow> split_on c s = [s]"
proof -
  assume "c \<notin> set s"
  then have w: "takeWhile (\<lambda>x. x \<noteq> c) s = s" by (auto simp: takeWhile_eq_all_conv)
  show ?thesis by (subst split_on.simps) (simp only: Let_def w less_irrefl if_False)
qed

lemma split_on_Cons: "c \<notin> set s \<Longrightarrow> split_on c (s @ c # r) = s # split_on c r"
proof -
  assume "c \<notin> set s"
  then have "takeWhile (\<lambda>x. x \<noteq> c) (s @ c # r) = s" by (subst takeWhile_append2) auto
  then show ?thesis by (subst split_on.simps) simp
qed

lemma split_on_no_sep: "t \<in> set (split_on c s) \<Longrightarrow> c \<notin> set t"
proof (induction c s arbitrary: t rule: split_on.induct)
  case (1 c s)
  have "c \<notin> set (takeWhile (\<lambda>x. x \<noteq> c) s)" by (auto dest: set_takeWhileD)
  with 1 show ?case by (subst (asm) split_on.simps) (auto simp: Let_def split: if_splits)
qed

lemma split_join_parts:
  "xs \<noteq> [] \<Longrightarrow> list_all (\<lambda>x. slash \<notin> set x) xs \<Longrightarrow> split_on slash (join_parts xs) = xs"
  by (induction xs rule: join_parts.induct) (simp_all add: split_on_no split_on_Cons)

lemma abs_parts_lead: "abs_parts (slash # s) = abs_parts s"
  using split_on_Cons [of slash "[]" s] by (simp add: abs_parts_def)

lemma abs_parts_join:
  assumes "set xs \<subseteq> set (abs_parts p)"
  shows "abs_parts (join_parts xs) = xs"
proof (cases "xs = []")
  case False
  have ok: "list_all (\<lambda>x. slash \<notin> set x \<and> x \<noteq> [] \<and> x \<noteq> ''.'') xs"
    using assms split_on_no_sep [of _ slash p] by (auto simp: abs_parts_def list_all_iff subset_iff)
  then have "split_on slash (join_parts xs) = xs"
    by (intro split_join_parts False) (simp add: list_all_iff)
  then show ?thesis using ok by (auto simp: abs_parts_def list_all_iff intro: filter_True)
qed (simp add: abs_parts_def split_on.simps)

lemma is_within_prefix: "is_within a b \<Longrightarrow> prefix (abs_parts a) (abs_parts b)"
proof -
  assume "is_within a b"
  then consider "a = b" | "commonpath a b = Inr a" by (auto simp: is_within_def)
  then show ?thesis
  proof cases
    case 2
    let ?c = "longest_common_prefix (abs_parts a) (abs_parts b)"
    have pre: "prefix ?c (abs_parts a)" "prefix ?c (abs_parts b)"
      by (rule longest_common_prefix_prefix1, rule longest_common_prefix_prefix2)
    have "a = (if startswith a [slash] then [slash] else []) @ join_parts ?c"
      using 2 by (auto simp: commonpath_def split: if_splits)
    then have "abs_parts a = abs_parts (join_parts ?c)" by (metis abs_parts_lead append_Cons append_Nil)
    also have "\<dots> = ?c" using set_mono_prefix [OF pre(1)] by (rule abs_parts_join)
    finally show ?thesis using pre(2) by simp
  qed simp
qed

text \<open>C17: A path built from untrusted parts, or a stored path that passes the check, resolves to a path
  whose components start with those of a managed root: no traversal, no sibling with a longer
  name and no symbolic link in the tree leads out of it.\<close>

theorem accepted_paths_confined:
  assumes "safe_join rp folder parts = Inr p"
    and "validate_under_root rp stored roots = Inr q"
  shows "prefix (abs_parts (rp folder)) (abs_parts (rp p)) \<and>
    (\<exists>r \<in> set roots. prefix (abs_parts (rp r)) (abs_parts q))"
proof
  show "prefix (abs_parts (rp folder)) (abs_parts (rp p))"
    using assms(1) by (auto simp: safe_join_def Let_def split: if_splits intro: is_within_prefix)
  show "\<exists>r \<in> set roots. prefix (abs_parts (rp r)) (abs_parts q)"
    using assms(2) by (induction rp stored roots rule: validate_under_root.induct)
      (auto split: if_splits intro: is_within_prefix)
qed

theorem accepted_paths_confined_witness:
  "prefix (abs_parts ''/comics'') (abs_parts ''/comics/Saga/etc'')"
proof -
  have "safe_join (\<lambda>x. x) ''/comics'' [''Saga'', ''../etc''] = Inr ''/comics/Saga/etc''" by code_simp
  moreover have "validate_under_root (\<lambda>x. x) ''/comics/Saga'' [''/com'', ''/comics''] = Inr ''/comics/Saga''"
    by code_simp
  ultimately show ?thesis
    using accepted_paths_confined [of "\<lambda>x. x" "''/comics''" "[''Saga'', ''../etc'']" "''/comics/Saga/etc''"
      "''/comics/Saga''" "[''/com'', ''/comics'']" "''/comics/Saga''"] by blast
qed

end
