(* ===== verification/Ddl_Fetch.thy ===== *)
theory Ddl_Fetch
  imports Ddl_Adapter Http_Client Safe_Paths
begin

text \<open>
  The transfer of one file (\<open>ddl/download.py\<close>): resume or restart, byte accounting, the single
  retry without a usable length, the download-side verification (\<open>ddl/verify.py\<close>) and the
  generated file name. Also the fetch of a post page (\<open>ddl/queue.py\<close>), which goes through the same
  client.

  The partial file is its content, \<open>None\<close> when it does not exist; bytes are characters. Sizes up
  to \<open>2 ^ 50\<close> make the float products of the code exact, so they are written in integers. The
  parse of a URL by \<open>httpx\<close>, the archive listing and the text decoding are arguments.
\<close>

section \<open>Errors\<close>

datatype ddl_error =
    Download_error string
  | Outbound_not_allowed
  | Escaped http_error
  | Ddl_crash py_error

text \<open>The errors that are instances of \<open>DdlDownloadError\<close>: the queue fails over on these only.\<close>

fun is_download_error :: "ddl_error \<Rightarrow> bool" where
  "is_download_error (Download_error _) = True"
| "is_download_error Outbound_not_allowed = True"
| "is_download_error _ = False"

definition CHUNK_SIZE :: int where "CHUNK_SIZE = 64 * 1024"

section \<open>Accounting\<close>

definition content_range_offset :: "string option \<Rightarrow> int option" where
  "content_range_offset header =
     (case header of
        None \<Rightarrow> None
      | Some h \<Rightarrow>
          if h = [] then None
          else (let v = strip h;
                    v = (if startswith (str_lower v) ''bytes '' then drop 6 v else v)
                in py_int (strip (hd (split_on (CHR ''-'') (hd (split_on slash v)))))))"

definition int_or_none :: "string option \<Rightarrow> int option result" where
  "int_or_none value =
     (case value of
        None \<Rightarrow> Inr None
      | Some v \<Rightarrow>
          if isdigit_text (strip v) then result_bind (digit_int (strip v)) (\<lambda>n. Inr (Some (int n)))
          else Inr None)"

text \<open>\<open>int(n * 1.25)\<close>, which truncates towards zero.\<close>

definition with_tolerance :: "int \<Rightarrow> int" where
  "with_tolerance n = (if 0 \<le> n then 5 * n div 4 else - (5 * (- n) div 4))"

definition runaway_cap :: "int option \<Rightarrow> int option \<Rightarrow> int \<Rightarrow> int option" where
  "runaway_cap expected_total search_expected chunk_size =
     (case expected_total of
        Some n \<Rightarrow> Some (n + chunk_size)
      | None \<Rightarrow> map_option (\<lambda>n. with_tolerance n + chunk_size) search_expected)"

definition final_size_ok :: "int \<Rightarrow> int option \<Rightarrow> int \<Rightarrow> int option \<Rightarrow> bool" where
  "final_size_ok final content_length start search_expected =
     (case content_length of
        Some n \<Rightarrow> final = start + n
      | None \<Rightarrow> (case search_expected of None \<Rightarrow> True | Some n \<Rightarrow> 4 * \<bar>final - n\<bar> \<le> n))"

section \<open>One stream\<close>

definition resp_header :: "string \<Rightarrow> http_response \<Rightarrow> string option" where
  "resp_header n resp = map_of (rs_headers resp) n"

text \<open>Whether the body is appended, and the offset it starts at.\<close>

definition resume_decision :: "http_response \<Rightarrow> int \<Rightarrow> ddl_error + bool \<times> int" where
  "resume_decision resp existing =
     (if 0 < existing then
        (if rs_status resp = 206 \<and>
            content_range_offset (resp_header ''content-range'' resp) = Some existing
         then Inr (True, existing)
         else if rs_status resp \<in> {200, 206} then Inr (False, 0)
         else Inl (Download_error ''unexpected HTTP status on resume''))
      else if rs_status resp \<noteq> 200 then Inl (Download_error ''unexpected HTTP status for a fresh download'')
      else Inr (False, 0))"

text \<open>The writing loop: the chunk is written before it is counted.\<close>

fun write_chunks :: "int option \<Rightarrow> int \<Rightarrow> string list \<Rightarrow> string \<Rightarrow> string \<times> bool" where
  "write_chunks cap received [] file = (file, True)"
| "write_chunks cap received (c # cs) file =
     (let received' = received + int (length c); file' = file @ c
      in if (case cap of Some m \<Rightarrow> m < received' | None \<Rightarrow> False) then (file', False)
         else write_chunks cap received' cs file')"

record consumed =
  cn_content_length :: "int option"
  cn_start :: int
  cn_append :: bool

definition consume_stream ::
  "http_response \<Rightarrow> int \<Rightarrow> int option \<Rightarrow> int \<Rightarrow> string option \<Rightarrow> string option \<times> (ddl_error + consumed)" where
  "consume_stream resp existing search_expected chunk_size file =
     (case int_or_none (resp_header ''content-length'' resp) of
        Inl e \<Rightarrow> (file, Inl (Ddl_crash e))
      | Inr content_length \<Rightarrow>
          (case resume_decision resp existing of
             Inl e \<Rightarrow> (file, Inl e)
           | Inr (app, start) \<Rightarrow>
               (let cap = runaway_cap (map_option (\<lambda>n. start + n) content_length) search_expected chunk_size;
                    opened = (if app then (case file of Some f \<Rightarrow> f | None \<Rightarrow> []) else [])
                in case write_chunks cap start (rs_chunks resp) opened of
                     (file', False) \<Rightarrow> (Some file', Inl (Download_error ''download exceeded the expected size''))
                   | (file', True) \<Rightarrow>
                       (case rs_broken resp of
                          Some fault \<Rightarrow> (Some file', Inl (Escaped (Httpx_fault fault)))
                        | None \<Rightarrow>
                            (Some file', Inr \<lparr>cn_content_length = content_length, cn_start = start,
                                              cn_append = app\<rparr>)))))"

section \<open>One link\<close>

record ddl_net =
  dn_first :: network
  dn_retry :: network
  dn_cap :: nat
  dn_url :: "string \<Rightarrow> string + http_url"
  dn_ip6_bracket :: "string \<Rightarrow> bool"
  dn_chunk :: int

definition provider_hop :: "allow_list \<Rightarrow> http_url \<Rightarrow> bool" where
  "provider_hop al u = hop_allowed al (hu_scheme u) (hu_host u)"

text \<open>
  One pass of \<open>_stream_to_partial\<close>: requests, file, and either an error or the accounting with the
  response. \<open>_hop_check\<close> raises \<open>OutboundNotAllowedError\<close>, which passes through the client.
\<close>

definition stream_pass ::
  "network \<Rightarrow> ddl_net \<Rightarrow> allow_list \<Rightarrow> http_url \<Rightarrow> int \<Rightarrow> (string \<times> string) list \<Rightarrow> int option \<Rightarrow>
   string option \<Rightarrow> http_request list \<times> string option \<times> (ddl_error + consumed \<times> http_url)" where
  "stream_pass net dn al u existing headers search_expected file =
     (case open_final net (external_client (dn_cap dn)) (Some (provider_hop al)) headers ''GET'' None u of
        (sent, Inl Hop_refused) \<Rightarrow> (sent, file, Inl Outbound_not_allowed)
      | (sent, Inl e) \<Rightarrow> (sent, file, Inl (Escaped e))
      | (sent, Inr (resp, final)) \<Rightarrow>
          (case consume_stream resp existing search_expected (dn_chunk dn) file of
             (file', Inl e) \<Rightarrow> (sent, file', Inl e)
           | (file', Inr cn) \<Rightarrow> (sent, file', Inr (cn, final))))"

definition stream_to_partial ::
  "ddl_net \<Rightarrow> allow_list \<Rightarrow> http_url \<Rightarrow> int \<Rightarrow> (string \<times> string) list \<Rightarrow> int option \<Rightarrow> string option \<Rightarrow>
   http_request list \<times> string option \<times> (ddl_error + int \<times> http_url)" where
  "stream_to_partial dn al u existing headers search_expected file =
     (let finish = (\<lambda>sent file' cn final.
            let size = int (length (case file' of Some f \<Rightarrow> f | None \<Rightarrow> []))
            in (sent, file',
                if final_size_ok size (cn_content_length cn) (cn_start cn) search_expected
                then Inr (size, final) else Inl (Download_error ''size mismatch'')))
      in case stream_pass (dn_first dn) dn al u existing headers search_expected file of
           (sent, file', Inl e) \<Rightarrow> (sent, file', Inl e)
         | (sent, file', Inr (cn, final)) \<Rightarrow>
             if cn_content_length cn = None \<and> search_expected = None then
               (case stream_pass (dn_retry dn) dn al u 0 [] search_expected (Some []) of
                  (sent', file'', Inl e) \<Rightarrow> (sent @ sent', file'', Inl e)
                | (sent', file'', Inr (cn', final')) \<Rightarrow>
                    if cn_content_length cn' = None
                    then (sent @ sent', file'', Inl (Download_error ''no usable Content-Length after retry''))
                    else finish (sent @ sent') file'' cn' final')
             else finish sent file' cn final)"

definition link_error :: "ddl_error \<Rightarrow> ddl_error" where
  "link_error e = (case e of
     Escaped he \<Rightarrow> if is_outbound_http_error he then Download_error ''download transport/egress refused'' else e
   | _ \<Rightarrow> e)"

definition range_header :: "int \<Rightarrow> (string \<times> string) list" where
  "range_header existing =
     (if 0 < existing then [(''range'', ''bytes='' @ show_int existing @ ''-'')] else [])"

definition download_link ::
  "ddl_net \<Rightarrow> allow_list \<Rightarrow> string \<Rightarrow> int option \<Rightarrow> string option \<Rightarrow>
   http_request list \<times> string option \<times> (ddl_error + int \<times> http_url)" where
  "download_link dn al url search_expected file =
     (case allows_url (dn_ip6_bracket dn) al url of
        Inl e \<Rightarrow> ([], file, Inl (Ddl_crash e))
      | Inr False \<Rightarrow> ([], file, Inl Outbound_not_allowed)
      | Inr True \<Rightarrow>
          (let existing = (case file of Some f \<Rightarrow> int (length f) | None \<Rightarrow> 0)
           in case dn_url dn url of
                Inl fault \<Rightarrow> ([], file, Inl (Escaped (Httpx_fault fault)))
              | Inr u \<Rightarrow>
                  (case stream_to_partial dn al u existing (range_header existing) search_expected file of
                     (sent, file', Inl e) \<Rightarrow> (sent, file', Inl (link_error e))
                   | (sent, file', Inr r) \<Rightarrow> (sent, file', Inr r))))"

section \<open>Verification and the final name\<close>

definition SIZE_FLOOR_BYTES :: nat where "SIZE_FLOOR_BYTES = 10240"

definition IMAGE_EXTS :: "string list" where
  "IMAGE_EXTS = [''.jpg'', ''.jpeg'', ''.png'', ''.gif'', ''.webp'', ''.bmp'']"

datatype archive_kind = Zip_archive | Rar_archive | Pdf_document

fun archive_ext :: "archive_kind \<Rightarrow> string" where
  "archive_ext Zip_archive = ''.cbz''"
| "archive_ext Rar_archive = ''.cbr''"
| "archive_ext Pdf_document = ''.pdf''"

definition ZIP_MAGIC :: string where "ZIP_MAGIC = ''PK'' @ [CHR 0x03, CHR 0x04]"
definition ZIP_EMPTY_MAGIC :: string where "ZIP_EMPTY_MAGIC = ''PK'' @ [CHR 0x05, CHR 0x06]"
definition RAR4_MAGIC :: string where "RAR4_MAGIC = ''Rar!'' @ [CHR 0x1A, CHR 0x07, CHR 0x00]"
definition RAR5_MAGIC :: string where "RAR5_MAGIC = ''Rar!'' @ [CHR 0x1A, CHR 0x07, CHR 0x01, CHR 0x00]"
definition PDF_MAGIC :: string where "PDF_MAGIC = ''%PDF''"

text \<open>\<open>Path(name).suffix\<close>, lower-cased.\<close>

definition path_suffix :: "string \<Rightarrow> string" where
  "path_suffix p =
     (let n = path_name p; ext = takeWhile (\<lambda>c. c \<noteq> CHR ''.'') (rev n)
      in if CHR ''.'' \<in> set n \<and> ext \<noteq> [] \<and> Suc (length ext) < length n
         then str_lower (CHR ''.'' # rev ext) else [])"

datatype zip_listing = Zip_names "string list" | Bad_zip | Zip_crash py_error

definition verify_file :: "(string \<Rightarrow> zip_listing) \<Rightarrow> string option \<Rightarrow> ddl_error + archive_kind" where
  "verify_file listing file =
     (case file of
        None \<Rightarrow> Inl (Download_error ''verify: cannot stat file'')
      | Some f \<Rightarrow>
          if length f < SIZE_FLOOR_BYTES then Inl (Download_error ''verify: below the size floor'')
          else if startswith f ZIP_MAGIC \<or> startswith f ZIP_EMPTY_MAGIC then
            (case listing f of
               Bad_zip \<Rightarrow> Inl (Download_error ''verify: not a valid zip archive'')
             | Zip_crash e \<Rightarrow> Inl (Ddl_crash e)
             | Zip_names ns \<Rightarrow>
                 if list_ex (\<lambda>n. path_suffix n \<in> set IMAGE_EXTS) ns then Inr Zip_archive
                 else Inl (Download_error ''verify: zip contains no image entries''))
          else if startswith f RAR4_MAGIC \<or> startswith f RAR5_MAGIC then Inr Rar_archive
          else if startswith f PDF_MAGIC then Inr Pdf_document
          else Inl (Download_error ''verify: no supported comic container''))"

definition safe_output_name ::
  "string option \<Rightarrow> string option \<Rightarrow> int option \<Rightarrow> int \<Rightarrow> string \<Rightarrow> string option \<Rightarrow> string" where
  "safe_output_name series_title issue_number issue_id queue_id ext fallback_title =
     (let series = safe_path_component
            (case series_title of Some t \<Rightarrow> if t = [] then fallback_title else Some t | None \<Rightarrow> fallback_title)
            ''series'';
          issue = safe_path_component issue_number ''issue'';
          tag = (case issue_id of Some i \<Rightarrow> show_int i | None \<Rightarrow> CHR ''q'' # show_int queue_id)
      in series @ '' '' @ issue @ '' [__'' @ tag @ ''__]'' @ ext)"

definition resolve_output_path :: "(string \<Rightarrow> string) \<Rightarrow> string \<Rightarrow> string \<Rightarrow> ddl_error + string" where
  "resolve_output_path rp staging name =
     (let base = rp staging; candidate = rp (path_join base name)
      in if path_lead candidate = path_lead base \<and> prefix (path_parts base) (path_parts candidate)
         then Inr candidate else Inl (Download_error ''generated name escaped the staging dir''))"

definition partial_path_for :: "string \<Rightarrow> int \<Rightarrow> string" where
  "partial_path_for staging queue_id = path_join staging (show_int queue_id @ ''.partial'')"

section \<open>The post page\<close>

definition POST_PAGE_MAX_BYTES :: nat where "POST_PAGE_MAX_BYTES = 4000000"

definition fetch_post_page ::
  "ddl_net \<Rightarrow> network \<Rightarrow> (string \<Rightarrow> string) \<Rightarrow> allow_list \<Rightarrow> string \<Rightarrow> http_request list \<times> (ddl_error + string)" where
  "fetch_post_page dn net decode al post_url =
     (case dn_url dn post_url of
        Inl _ \<Rightarrow> ([], Inl (Download_error ''post page fetch failed''))
      | Inr u \<Rightarrow>
          (case http_get net (external_client (dn_cap dn)) (Some (provider_hop al)) (Some POST_PAGE_MAX_BYTES) u of
             (sent, Inl e) \<Rightarrow>
               (sent, Inl (Download_error (if is_outbound_http_error e then ''post page fetch refused''
                                           else ''post page fetch failed'')))
           | (sent, Inr res) \<Rightarrow>
               (sent, if fr_status res \<noteq> 200 then Inl (Download_error ''post page HTTP status'')
                      else Inr (decode (fr_content res)))))"

section \<open>Facts\<close>

lemma write_chunks_complete: "write_chunks cap n cs f = (f', True) \<Longrightarrow> f' = f @ concat cs"
  by (induction cap n cs f rule: write_chunks.induct) (auto simp: Let_def split: if_splits)

lemma consume_stream_Inr:
  assumes "consume_stream resp existing expected chunk file = (file', Inr cn)"
  shows "\<exists>old. file' = Some (old @ concat (rs_chunks resp)) \<and> rs_broken resp = None \<and>
    int_or_none (resp_header ''content-length'' resp) = Inr (cn_content_length cn) \<and>
    resume_decision resp existing = Inr (cn_append cn, cn_start cn) \<and>
    old = (if cn_append cn then (case file of Some f \<Rightarrow> f | None \<Rightarrow> []) else [])"
  using assms
  by (auto simp: consume_stream_def Let_def split: sum.splits prod.splits bool.splits option.splits if_splits
      dest!: write_chunks_complete)

text \<open>What a finished pass leaves: the body of the response it got, on its own or behind the part
  already on disk, and in the second case the server confirmed the offset.\<close>

definition faithful_file :: "http_response \<Rightarrow> string option \<Rightarrow> string \<Rightarrow> bool" where
  "faithful_file resp file f \<longleftrightarrow>
     rs_broken resp = None \<and>
     (f = concat (rs_chunks resp) \<and> rs_status resp \<in> {200, 206} \<or>
      (\<exists>old. file = Some old \<and> f = old @ concat (rs_chunks resp) \<and> rs_status resp = 206 \<and>
         content_range_offset (resp_header ''content-range'' resp) = Some (int (length old))))"

lemma stream_pass_Inr:
  assumes "stream_pass net dn al u existing headers expected file = (sent, file', Inr (cn, final))"
    and "existing = (case file of Some f \<Rightarrow> int (length f) | None \<Rightarrow> 0)"
  shows "\<exists>resp f. open_final net (external_client (dn_cap dn)) (Some (provider_hop al)) headers ''GET'' None u =
      (sent, Inr (resp, final)) \<and> file' = Some f \<and> faithful_file resp file f \<and>
    int_or_none (resp_header ''content-length'' resp) = Inr (cn_content_length cn) \<and>
    int (length f) = cn_start cn + int (length (concat (rs_chunks resp)))"
proof -
  obtain resp where o: "open_final net (external_client (dn_cap dn)) (Some (provider_hop al)) headers ''GET'' None u =
      (sent, Inr (resp, final))"
    and c: "consume_stream resp existing expected (dn_chunk dn) file = (file', Inr cn)"
    using assms(1) by (auto simp: stream_pass_def split: sum.splits prod.splits http_error.splits)
  note c = consume_stream_Inr [OF c]
  show ?thesis
    using o c assms(2)
    by (auto simp: faithful_file_def resume_decision_def split: if_splits option.splits)
qed

definition size_confirmed :: "http_response \<Rightarrow> int option \<Rightarrow> int \<Rightarrow> bool" where
  "size_confirmed resp expected n \<longleftrightarrow>
     (case int_or_none (resp_header ''content-length'' resp) of
        Inr (Some len) \<Rightarrow> int (length (concat (rs_chunks resp))) = len
      | Inr None \<Rightarrow> (case expected of Some e \<Rightarrow> 4 * \<bar>n - e\<bar> \<le> e | None \<Rightarrow> False)
      | Inl _ \<Rightarrow> False)"

lemma final_size_confirmed:
  assumes "final_size_ok n len start expected"
    and "int_or_none (resp_header ''content-length'' resp) = Inr len"
    and "n = start + int (length (concat (rs_chunks resp)))"
    and "len \<noteq> None \<or> expected \<noteq> None"
  shows "size_confirmed resp expected n"
  using assms by (auto simp: final_size_ok_def size_confirmed_def split: option.splits)

definition delivered :: "ddl_net \<Rightarrow> allow_list \<Rightarrow> network \<Rightarrow> http_url \<Rightarrow> http_response \<Rightarrow> bool" where
  "delivered dn al net final resp \<longleftrightarrow>
     (\<exists>u headers sent. open_final net (external_client (dn_cap dn)) (Some (provider_hop al)) headers ''GET'' None u =
        (sent, Inr (resp, final)))"

lemma finished_pass:
  assumes "stream_pass net dn al u existing headers expected file = (sent, file', Inr (cn, final))"
    and "existing = (case file of Some f \<Rightarrow> int (length f) | None \<Rightarrow> 0)"
    and "final_size_ok n (cn_content_length cn) (cn_start cn) expected"
    and "n = int (length (case file' of Some f \<Rightarrow> f | None \<Rightarrow> []))"
    and "cn_content_length cn \<noteq> None \<or> expected \<noteq> None"
  shows "\<exists>resp f. delivered dn al net final resp \<and> file' = Some f \<and> n = int (length f) \<and>
    faithful_file resp file f \<and> size_confirmed resp expected n"
proof -
  obtain resp f where p: "open_final net (external_client (dn_cap dn)) (Some (provider_hop al)) headers ''GET'' None u =
      (sent, Inr (resp, final))" "file' = Some f" "faithful_file resp file f"
      "int_or_none (resp_header ''content-length'' resp) = Inr (cn_content_length cn)"
      "int (length f) = cn_start cn + int (length (concat (rs_chunks resp)))"
    using stream_pass_Inr [OF assms(1,2)] by blast
  have n: "n = cn_start cn + int (length (concat (rs_chunks resp)))" using assms(4) p(2,5) by simp
  have "size_confirmed resp expected n" by (rule final_size_confirmed [OF assms(3) p(4) n assms(5)])
  moreover have "delivered dn al net final resp" using p(1) by (auto simp: delivered_def)
  ultimately show ?thesis using p(2,3) assms(4) by auto
qed

text \<open>The two ways to success: the first pass, or the retry from an empty file.\<close>

lemma stream_to_partial_Inr:
  assumes "stream_to_partial dn al u existing headers expected file = (sent, file', Inr (n, final))"
  obtains (first) s1 cn where "stream_pass (dn_first dn) dn al u existing headers expected file = (s1, file', Inr (cn, final))"
      and "final_size_ok n (cn_content_length cn) (cn_start cn) expected"
      and "n = int (length (case file' of Some f \<Rightarrow> f | None \<Rightarrow> []))"
      and "cn_content_length cn \<noteq> None \<or> expected \<noteq> None"
  | (retry) s1 cn where "stream_pass (dn_retry dn) dn al u 0 [] expected (Some []) = (s1, file', Inr (cn, final))"
      and "final_size_ok n (cn_content_length cn) (cn_start cn) expected"
      and "n = int (length (case file' of Some f \<Rightarrow> f | None \<Rightarrow> []))"
      and "cn_content_length cn \<noteq> None \<or> expected \<noteq> None"
proof (cases "stream_pass (dn_first dn) dn al u existing headers expected file")
  case p1: (fields s1 f1 r1)
  show ?thesis
  proof (cases r1)
    case (Inl e)
    with assms p1 show ?thesis by (simp add: stream_to_partial_def)
  next
    case r1: (Inr p)
    obtain cn fin where p: "p = (cn, fin)" by (cases p)
    show ?thesis
    proof (cases "cn_content_length cn = None \<and> expected = None")
      case False
      with assms p1 r1 p show ?thesis
        by (intro first [of s1 cn]) (auto simp: stream_to_partial_def Let_def split: if_splits)
    next
      case True
      show ?thesis
      proof (cases "stream_pass (dn_retry dn) dn al u 0 [] expected (Some [])")
        case p2: (fields s2 f2 r2)
        show ?thesis
        proof (cases r2)
          case (Inl e)
          with assms p1 r1 p p2 True show ?thesis by (simp add: stream_to_partial_def)
        next
          case r2: (Inr q)
          obtain cn2 fin2 where q: "q = (cn2, fin2)" by (cases q)
          from assms p1 r1 p p2 r2 q True show ?thesis
            by (intro retry [of s2 cn2]) (auto simp: stream_to_partial_def Let_def split: if_splits)
        qed
      qed
    qed
  qed
qed

lemma download_link_Inr:
  assumes "download_link dn al url expected file = (sent, file', Inr (n, final))"
  shows "\<exists>net \<in> {dn_first dn, dn_retry dn}. \<exists>resp f. delivered dn al net final resp \<and>
    file' = Some f \<and> n = int (length f) \<and> faithful_file resp file f \<and> size_confirmed resp expected n"
proof -
  obtain u existing where u: "stream_to_partial dn al u existing (range_header existing) expected file =
      (sent, file', Inr (n, final))" "existing = (case file of Some f \<Rightarrow> int (length f) | None \<Rightarrow> 0)"
    using assms by (auto simp: download_link_def Let_def split: sum.splits prod.splits bool.splits)
  from u(1) show ?thesis
  proof (cases rule: stream_to_partial_Inr)
    case (first s1 cn)
    from finished_pass [OF first(1) u(2) first(2-4)] show ?thesis by blast
  next
    case (retry s1 cn)
    have "\<exists>resp f. delivered dn al (dn_retry dn) final resp \<and> file' = Some f \<and> n = int (length f) \<and>
        faithful_file resp (Some []) f \<and> size_confirmed resp expected n"
      by (rule finished_pass [OF retry(1) _ retry(2-4)]) simp
    moreover have "faithful_file resp (Some []) f \<Longrightarrow> faithful_file resp file f" for resp f
      by (auto simp: faithful_file_def)
    ultimately show ?thesis by blast
  qed
qed

text \<open>C9: A download that succeeds is the file the server sent: the whole body of one response that did
  not break off, or that body behind the bytes already on disk, and the second only on a 206 whose
  Content-Range starts exactly where the partial file ends. Its size is the announced one, or,
  when the server announces none, within a quarter of the size the search reported.\<close>

theorem download_is_faithful:
  assumes "download_link dn al url expected file = (sent, file', Inr (n, final))"
  shows "\<exists>net \<in> {dn_first dn, dn_retry dn}. \<exists>resp f. delivered dn al net final resp \<and>
    file' = Some f \<and> n = int (length f) \<and> faithful_file resp file f \<and> size_confirmed resp expected n"
  using assms by (rule download_link_Inr)

text \<open>A server that resumes at byte 3 of a six-byte file.\<close>

definition resuming_net :: network where
  "resuming_net = sample_net
     \<lparr>nt_send := (\<lambda>_ _. Inr \<lparr>rs_status = 206, rs_headers = [(''content-length'', ''3''), (''content-range'', ''bytes 3-5/6'')],
        rs_chunks = [''DE'', ''F''], rs_broken = None\<rparr>)\<rparr>"

definition sample_dn :: "network \<Rightarrow> ddl_net" where
  "sample_dn net = \<lparr>dn_first = net, dn_retry = net, dn_cap = 100, dn_url = (\<lambda>_. Inr (sample_url ''getcomics.org'')),
     dn_ip6_bracket = (\<lambda>_. False), dn_chunk = CHUNK_SIZE\<rparr>"

definition sample_allow :: allow_list where
  "sample_allow = \<lparr>al_hosts = set KNOWN_DDL_HOSTS, al_scheme = ''https''\<rparr>"

lemma sample_allowed:
  "allows_url (\<lambda>_. False) sample_allow ''https://getcomics.org/f'' = Inr True"
  "provider_hop sample_allow (sample_url ''getcomics.org'')"
  by code_simp+

lemma sample_host_text:
  "ipv4_text ''getcomics.org'' = None" "digits_of ''getcomics.org'' = False" "hex_host ''getcomics.org'' = False"
  "str_upper ''GET'' = ''GET''"
  by (simp_all add: ipv4_text_def split_on.simps octet_def digits_of_def hex_host_def is_digit_def code_def
      base_value_def digit_of_def Let_def str_upper_def is_lower_def)

lemma sample_open:
  assumes "nt_ip6 net = (\<lambda>_. None)" and "nt_test_allow net = (\<lambda>_. False)"
    and "nt_resolve net = (\<lambda>_ _. Resolved [''93.184.216.34''])"
    and "\<And>k req. nt_send net k req = Inr resp" and "redirect_location resp = None"
  shows "open_final net (external_client cap) (Some (provider_hop sample_allow)) headers ''GET'' None
      (sample_url ''getcomics.org'') =
    ([\<lparr>rq_method = ''GET'', rq_url = sample_url ''getcomics.org'',
       rq_headers = hop_headers headers (sample_url ''getcomics.org'') (str_lower ''getcomics.org''), rq_body = None\<rparr>],
     Inr (resp, sample_url ''getcomics.org''))"
proof -
  have u: "hu_host (sample_url ''getcomics.org'') = ''getcomics.org''" "hu_scheme (sample_url ''getcomics.org'') = ''https''"
    by (simp_all add: sample_url_def)
  have "host_addresses (nt_ip6 net) (nt_resolve net 5) ''getcomics.org'' = Inr [V4 (v4 93 184 216 34)]"
    by (simp add: assms host_addresses_def interpret_host_as_ip_def sample_host_text ip_text_def sample_addresses)
  then have "validate (nt_ip6 net) (nt_test_allow net) (nt_resolve net 5) External (sample_url ''getcomics.org'') = Inr ()"
    by (simp add: assms(2) validate_def ALLOWED_SCHEMES_def u sample_verdicts)
  then show ?thesis
    by (simp add: open_final_def external_client_def MAX_REDIRECTS_def walk.simps [where left = 5] sample_host_text
        sample_allowed assms(4,5) Let_def u)
qed

lemma resumed_download:
  "download_link (sample_dn resuming_net) sample_allow ''https://getcomics.org/f'' None (Some ''ABC'') =
   ([\<lparr>rq_method = ''GET'', rq_url = sample_url ''getcomics.org'', rq_headers = [(''range'', ''bytes=3-'')], rq_body = None\<rparr>],
    Some ''ABCDEF'', Inr (6, sample_url ''getcomics.org''))"
proof -
  define resp where "resp = \<lparr>rs_status = 206, rs_headers = [(''content-length'', ''3''), (''content-range'', ''bytes 3-5/6'')],
    rs_chunks = [''DE'', ''F''], rs_broken = None\<rparr>"
  have consumed: "consume_stream resp 3 None CHUNK_SIZE (Some ''ABC'') =
      (Some ''ABCDEF'', Inr \<lparr>cn_content_length = Some 3, cn_start = 3, cn_append = True\<rparr>)"
    unfolding resp_def by code_simp
  have range: "hop_headers (range_header 3) (sample_url ''getcomics.org'') (str_lower ''getcomics.org'') =
      [(''range'', ''bytes=3-'')]" by code_simp
  have "open_final resuming_net (external_client 100) (Some (provider_hop sample_allow)) (range_header 3) ''GET'' None
      (sample_url ''getcomics.org'') =
    ([\<lparr>rq_method = ''GET'', rq_url = sample_url ''getcomics.org'', rq_headers = [(''range'', ''bytes=3-'')], rq_body = None\<rparr>],
     Inr (resp, sample_url ''getcomics.org''))"
    unfolding range [symmetric]
    by (rule sample_open) (simp_all add: resuming_net_def sample_net_def resp_def redirect_location_def)
  then show ?thesis
    by (simp add: download_link_def sample_dn_def sample_allowed stream_to_partial_def stream_pass_def
        consumed final_size_ok_def)
qed

theorem download_is_faithful_witness:
  "\<exists>resp. faithful_file resp (Some ''ABC'') ''ABCDEF''"
  using download_is_faithful [OF resumed_download] by blast

lemma stream_to_partial_sent:
  assumes "stream_to_partial dn al u existing headers expected file = (sent, file', r)" and "req \<in> set sent"
  shows "\<exists>net \<in> {dn_first dn, dn_retry dn}. \<exists>k h. guarded_request net External (Some (provider_hop al)) h k req"
proof -
  have pass: "\<exists>k h. guarded_request net External (Some (provider_hop al)) h k q"
    if "stream_pass net dn al u existing headers expected part = (s, f, x)" and "q \<in> set s"
    for net existing headers expected part s f x q
  proof -
    obtain s' y where o: "open_final net (external_client (dn_cap dn)) (Some (provider_hop al)) headers ''GET'' None u = (s', y)"
      by (cases "open_final net (external_client (dn_cap dn)) (Some (provider_hop al)) headers ''GET'' None u")
    then have "s' = s"
      using that(1) by (auto simp: stream_pass_def split: sum.splits prod.splits http_error.splits)
    then have "q \<in> set s'" using that(2) by simp
    with open_final_guarded [OF o] show ?thesis by (simp add: external_client_def) blast
  qed
  obtain s1 f1 x1 where p1: "stream_pass (dn_first dn) dn al u existing headers expected file = (s1, f1, x1)"
    by (cases "stream_pass (dn_first dn) dn al u existing headers expected file")
  obtain s2 f2 x2 where p2: "stream_pass (dn_retry dn) dn al u 0 [] expected (Some []) = (s2, f2, x2)"
    by (cases "stream_pass (dn_retry dn) dn al u 0 [] expected (Some [])")
  have "set sent \<subseteq> set s1 \<union> set s2"
    using assms(1) p1 p2
    by (auto simp: stream_to_partial_def Let_def split: sum.splits prod.splits if_splits)
  then show ?thesis using assms(2) pass [OF p1] pass [OF p2] by auto
qed

text \<open>C13: No request of a direct download leaves the provider: whatever the links and the redirects say,
  each one goes over https to the provider's host, a known download host or a subdomain of one,
  none of whose addresses is loopback, link-local or private.\<close>

theorem ddl_requests_confined:
  assumes "build_allowlist ip6 base = Inr al"
    and "download_link dn al url expected file = (sent, file', r)" and "req \<in> set sent"
  shows "hu_scheme (rq_url req) = ''https'' \<and>
    (\<exists>h. (h \<in> set KNOWN_DDL_HOSTS \<or> url_host ip6 base = Inr h) \<and>
       (str_lower (hu_host (rq_url req)) = h \<or> (\<exists>sub. str_lower (hu_host (rq_url req)) = sub @ CHR ''.'' # h))) \<and>
    (\<exists>net \<in> {dn_first dn, dn_retry dn}. \<exists>k. reachable_address net k (hu_host (rq_url req)))"
proof -
  have "\<exists>u existing headers f x. stream_to_partial dn al u existing headers expected file = (sent, f, x)"
    using assms(2,3)
    by (auto simp: download_link_def Let_def split: sum.splits prod.splits bool.splits) blast+
  then obtain u existing headers f x
    where run: "stream_to_partial dn al u existing headers expected file = (sent, f, x)" by blast
  obtain net k h where g: "net \<in> {dn_first dn, dn_retry dn}"
      "guarded_request net External (Some (provider_hop al)) h k req"
    using stream_to_partial_sent [OF run assms(3)] by (elim bexE exE)
  then have "allows_pair al (hu_scheme (rq_url req)) (str_lower (hu_host (rq_url req)))"
    by (simp add: guarded_request_def provider_hop_def hop_allowed_def)
  note conf = allowlist_hosts [OF assms(1) this]
  have "reachable_address net k (hu_host (rq_url req))" using g(2) by (simp add: guarded_request_def)
  then have reach: "\<exists>net \<in> {dn_first dn, dn_retry dn}. \<exists>k. reachable_address net k (hu_host (rq_url req))"
    using g(1) by metis
  show ?thesis using conf reach by (intro conjI) (erule conjunct1, erule conjunct2, assumption)
qed

theorem ddl_requests_confined_witness:
  "\<exists>k. reachable_address resuming_net k ''getcomics.org''"
proof -
  have b: "build_allowlist (\<lambda>_. False) ''https://getcomics.org'' = Inr sample_allow"
  proof -
    have "url_host (\<lambda>_. False) ''https://getcomics.org'' = Inr ''getcomics.org''" by code_simp
    then show ?thesis by (simp add: build_allowlist_def sample_allow_def KNOWN_DDL_HOSTS_def insert_commute)
  qed
  let ?req = "\<lparr>rq_method = ''GET'', rq_url = sample_url ''getcomics.org'', rq_headers = [(''range'', ''bytes=3-'')],
    rq_body = None\<rparr>"
  have "?req \<in> set [?req]" by simp
  from ddl_requests_confined [OF b resumed_download this, THEN conjunct2, THEN conjunct2]
  show ?thesis by (simp add: sample_dn_def sample_url_def)
qed

end
