(* ===== verification/Ddl_Queue.thy ===== *)
theory Ddl_Queue
  imports Ddl_Fetch Grab "HOL-Library.Char_ord" "HOL-Library.List_Lexorder"
begin

text \<open>
  The persistent queue of the direct-download client (\<open>ddl/queue.py\<close>) and its projection into the
  shared download view (\<open>ddl/client.py\<close>).

  A queue operation is one transaction. The processing of an item awaits between its
  transactions, so it is a datatype of program points: \<open>work_step\<close> runs from one await to the
  next, and an operation of the API may come between any two steps. Every step gets its own
  environment, because the network, the library and the clock change. The staging directory is a
  map from path text to content; disk errors are not modelled. \<open>failed_hosts_json\<close> is the list
  it encodes.
\<close>

section \<open>Rows\<close>

datatype ddl_status = Dq_queued | Dq_downloading | Dq_completed | Dq_failed | Dq_aborted

record ddl_row =
  dq_id :: int
  dq_download_id :: string
  dq_status :: ddl_status
  dq_series_id :: "int option"
  dq_issue_id :: "int option"
  dq_provider_id :: "int option"
  dq_post_url :: string
  dq_title :: "string option"
  dq_expected_size :: "int option"
  dq_bytes_received :: int
  dq_current_host :: "string option"
  dq_current_link :: "string option"
  dq_selected_link_type :: "string option"
  dq_failed_hosts :: "string list"
  dq_output_path :: "string option"
  dq_attempts :: int
  dq_last_error :: "string option"
  dq_created_at :: datetime
  dq_updated_at :: datetime

record ddl_state =
  ds_rows :: "ddl_row list"
  ds_files :: "string \<Rightarrow> string option"

record enqueue_request =
  eq_download_id :: string
  eq_post_url :: string
  eq_title :: string
  eq_series_id :: "int option"
  eq_issue_id :: "int option"
  eq_provider_id :: "int option"
  eq_expected_size :: "int option"

definition by_download_id :: "string \<Rightarrow> ddl_row list \<Rightarrow> ddl_row option" where
  "by_download_id did rows = find (\<lambda>r. dq_download_id r = did) rows"

text \<open>SQLite's rowid of an insert into a table without AUTOINCREMENT.\<close>

definition next_ddl_id :: "ddl_row list \<Rightarrow> int" where
  "next_ddl_id rows = (if rows = [] then 1 else Max (dq_id ` set rows) + 1)"

definition new_ddl_row :: "datetime \<Rightarrow> int \<Rightarrow> enqueue_request \<Rightarrow> ddl_row" where
  "new_ddl_row now i req =
     \<lparr>dq_id = i, dq_download_id = eq_download_id req, dq_status = Dq_queued, dq_series_id = eq_series_id req,
      dq_issue_id = eq_issue_id req, dq_provider_id = eq_provider_id req, dq_post_url = eq_post_url req,
      dq_title = Some (eq_title req), dq_expected_size = eq_expected_size req, dq_bytes_received = 0,
      dq_current_host = None, dq_current_link = None, dq_selected_link_type = None, dq_failed_hosts = [],
      dq_output_path = None, dq_attempts = 0, dq_last_error = None, dq_created_at = now, dq_updated_at = now\<rparr>"

definition ddl_enqueue :: "datetime \<Rightarrow> enqueue_request \<Rightarrow> ddl_state \<Rightarrow> ddl_state \<times> int" where
  "ddl_enqueue now req st =
     (case by_download_id (eq_download_id req) (ds_rows st) of
        Some r \<Rightarrow> (st, dq_id r)
      | None \<Rightarrow>
          (let r = new_ddl_row now (next_ddl_id (ds_rows st)) req
           in (st\<lparr>ds_rows := ds_rows st @ [r]\<rparr>, dq_id r)))"

definition reconcile_orphans :: "datetime \<Rightarrow> ddl_state \<Rightarrow> ddl_state" where
  "reconcile_orphans now st =
     st\<lparr>ds_rows := map (\<lambda>r. if dq_status r = Dq_downloading
                            then r\<lparr>dq_status := Dq_queued, dq_updated_at := now\<rparr> else r) (ds_rows st)\<rparr>"

text \<open>The oldest queued row: the first in the table's primary-key order.\<close>

definition oldest_queued :: "ddl_row list \<Rightarrow> ddl_row option" where
  "oldest_queued rows =
     (case sort_key dq_id (filter (\<lambda>r. dq_status r = Dq_queued) rows) of [] \<Rightarrow> None | r # _ \<Rightarrow> Some r)"

definition put_row :: "ddl_row \<Rightarrow> ddl_state \<Rightarrow> ddl_state" where
  "put_row r st = st\<lparr>ds_rows := row_put dq_id r (ds_rows st)\<rparr>"

definition claim_ddl_next :: "datetime \<Rightarrow> ddl_state \<Rightarrow> ddl_state \<times> int option" where
  "claim_ddl_next now st =
     (case oldest_queued (ds_rows st) of
        None \<Rightarrow> (st, None)
      | Some r \<Rightarrow> (put_row (r\<lparr>dq_status := Dq_downloading, dq_updated_at := now\<rparr>) st, Some (dq_id r)))"

definition is_downloading :: "int \<Rightarrow> ddl_state \<Rightarrow> bool" where
  "is_downloading i st = (map_option dq_status (row_get dq_id i (ds_rows st)) = Some Dq_downloading)"

section \<open>Operator actions\<close>

definition ddl_transition ::
  "datetime \<Rightarrow> string \<Rightarrow> ddl_status \<Rightarrow> bool \<Rightarrow> ddl_status list \<Rightarrow> ddl_state \<Rightarrow> ddl_state \<times> bool" where
  "ddl_transition now did to_state reset_failures from_states st =
     (case by_download_id did (ds_rows st) of
        None \<Rightarrow> (st, False)
      | Some r \<Rightarrow>
          if dq_status r \<notin> set from_states then (st, False)
          else (let r = r\<lparr>dq_status := to_state, dq_updated_at := now\<rparr>;
                    r = (if reset_failures then r\<lparr>dq_failed_hosts := [], dq_last_error := None\<rparr> else r)
                in (put_row r st, True)))"

definition ddl_retry :: "datetime \<Rightarrow> string \<Rightarrow> ddl_state \<Rightarrow> ddl_state \<times> bool" where
  "ddl_retry now did = ddl_transition now did Dq_queued True [Dq_failed, Dq_aborted]"

definition ddl_resume :: "datetime \<Rightarrow> string \<Rightarrow> ddl_state \<Rightarrow> ddl_state \<times> bool" where
  "ddl_resume now did = ddl_transition now did Dq_queued False [Dq_failed]"

definition ddl_abort :: "datetime \<Rightarrow> string \<Rightarrow> ddl_state \<Rightarrow> ddl_state \<times> bool" where
  "ddl_abort now did = ddl_transition now did Dq_aborted False [Dq_queued, Dq_downloading]"

definition delete_files :: "string \<Rightarrow> int \<Rightarrow> string option \<Rightarrow> ddl_state \<Rightarrow> ddl_state" where
  "delete_files staging i out st =
     (let f = (ds_files st)(partial_path_for staging i := None)
      in st\<lparr>ds_files := (case out of None \<Rightarrow> f | Some p \<Rightarrow> f(p := None))\<rparr>)"

definition ddl_remove :: "string \<Rightarrow> string \<Rightarrow> bool \<Rightarrow> ddl_state \<Rightarrow> ddl_state \<times> bool" where
  "ddl_remove staging did delete_data st =
     (case by_download_id did (ds_rows st) of
        None \<Rightarrow> (st, False)
      | Some r \<Rightarrow>
          (let st' = st\<lparr>ds_rows := row_del dq_id (dq_id r) (ds_rows st)\<rparr>
           in (if delete_data then delete_files staging (dq_id r) (dq_output_path r) st' else st', True)))"

section \<open>Transitions of the worker\<close>

definition upd_row :: "int \<Rightarrow> (ddl_row \<Rightarrow> ddl_row) \<Rightarrow> ddl_state \<Rightarrow> ddl_state" where
  "upd_row i f st = (case row_get dq_id i (ds_rows st) of None \<Rightarrow> st | Some r \<Rightarrow> put_row (f r) st)"

definition set_current :: "datetime \<Rightarrow> int \<Rightarrow> link_candidate \<Rightarrow> ddl_state \<Rightarrow> ddl_state" where
  "set_current now i c =
     upd_row i (\<lambda>r. r\<lparr>dq_current_host := Some (host_value (lc_host c)), dq_current_link := Some (lc_url c),
       dq_selected_link_type := Some (lc_link_type c), dq_attempts := dq_attempts r + 1, dq_updated_at := now\<rparr>)"

definition record_host_failure :: "datetime \<Rightarrow> string \<Rightarrow> int \<Rightarrow> string list \<Rightarrow> string \<Rightarrow> ddl_state \<Rightarrow> ddl_state" where
  "record_host_failure now staging i failed err st =
     upd_row i (\<lambda>r. r\<lparr>dq_failed_hosts := failed, dq_last_error := Some err, dq_updated_at := now\<rparr>)
       (st\<lparr>ds_files := (ds_files st)(partial_path_for staging i := None)\<rparr>)"

definition ddl_complete :: "datetime \<Rightarrow> int \<Rightarrow> link_candidate \<Rightarrow> string \<Rightarrow> int \<Rightarrow> ddl_state \<Rightarrow> ddl_state" where
  "ddl_complete now i c final received =
     upd_row i (\<lambda>r. r\<lparr>dq_status := Dq_completed, dq_output_path := Some final, dq_bytes_received := received,
       dq_current_host := Some (host_value (lc_host c)), dq_selected_link_type := Some (lc_link_type c),
       dq_last_error := None, dq_updated_at := now\<rparr>)"

definition ddl_mark_failed :: "datetime \<Rightarrow> int \<Rightarrow> string \<Rightarrow> ddl_state \<Rightarrow> ddl_state" where
  "ddl_mark_failed now i why =
     upd_row i (\<lambda>r. r\<lparr>dq_status := Dq_failed, dq_last_error := Some why, dq_updated_at := now\<rparr>)"

section \<open>Resolving and attempting\<close>

record ddl_env =
  qe_now :: datetime
  qe_staging :: string
  qe_priority :: "ddl_host list"
  qe_upscaled :: bool
  qe_dn :: ddl_net
  qe_page_net :: network
  qe_decode :: "string \<Rightarrow> string"
  qe_tokens :: "string \<Rightarrow> html_event list result"
  qe_join :: "string \<Rightarrow> string \<Rightarrow> string result"
  qe_realpath :: "string \<Rightarrow> string"
  qe_listing :: "string \<Rightarrow> zip_listing"
  qe_provider_base :: "int option \<Rightarrow> string"
  qe_series_title :: "int option \<Rightarrow> string option"
  qe_issue_number :: "int option \<Rightarrow> string option"

datatype resolve_error = Item_fails string | Item_raises ddl_error

definition resolve_candidates ::
  "ddl_env \<Rightarrow> string \<Rightarrow> string \<Rightarrow> string set \<Rightarrow> allow_list \<Rightarrow> resolve_error + link_candidate list" where
  "resolve_candidates e post_url base failed al =
     (case snd (fetch_post_page (qe_dn e) (qe_page_net e) (qe_decode e) al post_url) of
        Inl err \<Rightarrow> Inl (if is_download_error err then Item_fails ''post page unavailable'' else Item_raises err)
      | Inr html \<Rightarrow>
          (case parse_post_page (qe_tokens e) (qe_join e) base html of
             Inl (Adapter_drift _) \<Rightarrow> Inl (Item_fails ''post-page drift'')
           | Inl (Page_crash x) \<Rightarrow> Inl (Item_raises (Ddl_crash x))
           | Inr raws \<Rightarrow>
               (case enumerate_links (dn_ip6_bracket (qe_dn e)) failed raws of
                  Inl x \<Rightarrow> Inl (Item_raises (Ddl_crash x))
                | Inr cs \<Rightarrow> Inr (order_candidates cs (qe_priority e) (qe_upscaled e)))))"

definition attempt_download ::
  "ddl_env \<Rightarrow> ddl_row \<Rightarrow> link_candidate \<Rightarrow> allow_list \<Rightarrow> (string \<Rightarrow> string option) \<Rightarrow>
   (string \<Rightarrow> string option) \<times> (ddl_error + string \<times> int)" where
  "attempt_download e snap c al files =
     (if lc_strategy c = Unsupported then (files, Inl (Download_error ''host is not supported''))
      else
        (let partial = partial_path_for (qe_staging e) (dq_id snap)
         in case download_link (qe_dn e) al (lc_url c) (dq_expected_size snap) (files partial) of
              (_, part, Inl err) \<Rightarrow> (files(partial := part), Inl err)
            | (_, part, Inr (received, _)) \<Rightarrow>
                (case verify_file (qe_listing e) part of
                   Inl err \<Rightarrow> (files(partial := part), Inl err)
                 | Inr kind \<Rightarrow>
                     (let nm = safe_output_name (qe_series_title e (dq_series_id snap))
                            (qe_issue_number e (dq_issue_id snap)) (dq_issue_id snap) (dq_id snap)
                            (archive_ext kind) (dq_title snap)
                      in case resolve_output_path (qe_realpath e) (qe_staging e) nm of
                           Inl err \<Rightarrow> (files(partial := part), Inl err)
                         | Inr final \<Rightarrow> (files(partial := None, final := part), Inr (final, received))))))"

section \<open>The worker\<close>

record work_item =
  wi_row :: ddl_row
  wi_base :: string
  wi_allow :: allow_list

datatype work =
    Work_idle
  | Work_load int
  | Work_check work_item nat "string list"
  | Work_resolve work_item nat "string list"
  | Work_select work_item nat "string list" link_candidate
  | Work_attempt work_item nat "string list" link_candidate
  | Work_recheck work_item nat "string list" string
  | Work_record work_item nat "string list" string
  | Work_landed work_item link_candidate string int
  | Work_finish work_item link_candidate string int
  | Work_fail int string
  | Work_raised ddl_error

definition ddl_error_text :: "ddl_error \<Rightarrow> string" where
  "ddl_error_text e = (case e of Download_error m \<Rightarrow> m | _ \<Rightarrow> ''outbound host is outside the provider allowlist'')"

fun work_step :: "ddl_env \<Rightarrow> ddl_state \<times> work \<Rightarrow> ddl_state \<times> work" where
  "work_step e (st, Work_idle) = (st, Work_idle)"
| "work_step e (st, Work_raised err) = (st, Work_raised err)"
| "work_step e (st, Work_load i) =
     (case row_get dq_id i (ds_rows st) of
        None \<Rightarrow> (st, Work_idle)
      | Some r \<Rightarrow>
          (case build_allowlist (dn_ip6_bracket (qe_dn e)) (qe_provider_base e (dq_provider_id r)) of
             Inl x \<Rightarrow> (st, Work_raised (Ddl_crash x))
           | Inr al \<Rightarrow>
               (st, Work_check \<lparr>wi_row = r, wi_base = qe_provider_base e (dq_provider_id r), wi_allow = al\<rparr>
                      (Suc (length ALL_HOSTS)) (dq_failed_hosts r))))"
| "work_step e (st, Work_check w 0 failed) = (st, Work_fail (dq_id (wi_row w)) ''all hosts exhausted'')"
| "work_step e (st, Work_check w (Suc n) failed) =
     (st, if is_downloading (dq_id (wi_row w)) st then Work_resolve w n failed else Work_idle)"
| "work_step e (st, Work_resolve w n failed) =
     (st, case resolve_candidates e (dq_post_url (wi_row w)) (wi_base w) (set failed) (wi_allow w) of
            Inl (Item_fails why) \<Rightarrow> Work_fail (dq_id (wi_row w)) why
          | Inl (Item_raises err) \<Rightarrow> Work_raised err
          | Inr [] \<Rightarrow> Work_fail (dq_id (wi_row w)) (if failed = [] then ''no usable links'' else ''all hosts exhausted'')
          | Inr (c # _) \<Rightarrow> Work_select w n failed c)"
| "work_step e (st, Work_select w n failed c) =
     (set_current (qe_now e) (dq_id (wi_row w)) c st, Work_attempt w n failed c)"
| "work_step e (st, Work_attempt w n failed c) =
     (case attempt_download e (wi_row w) c (wi_allow w) (ds_files st) of
        (files, r) \<Rightarrow>
          (st\<lparr>ds_files := files\<rparr>,
           case r of
             Inr (final, received) \<Rightarrow> Work_landed w c final received
           | Inl err \<Rightarrow>
               if is_download_error err
               then Work_recheck w n (sort (remdups (lc_link_type c # failed))) (ddl_error_text err)
               else Work_raised err))"
| "work_step e (st, Work_recheck w n failed err) =
     (st, if is_downloading (dq_id (wi_row w)) st then Work_record w n failed err else Work_idle)"
| "work_step e (st, Work_record w n failed err) =
     (record_host_failure (qe_now e) (qe_staging e) (dq_id (wi_row w)) failed err st, Work_check w n failed)"
| "work_step e (st, Work_landed w c final received) =
     (st, if is_downloading (dq_id (wi_row w)) st then Work_finish w c final received else Work_idle)"
| "work_step e (st, Work_finish w c final received) =
     (ddl_complete (qe_now e) (dq_id (wi_row w)) c final received st, Work_idle)"
| "work_step e (st, Work_fail i why) = (ddl_mark_failed (qe_now e) i why st, Work_idle)"

text \<open>\<open>process_next\<close> claims a row and starts the worker on it.\<close>

definition start_next :: "datetime \<Rightarrow> ddl_state \<Rightarrow> ddl_state \<times> work" where
  "start_next now st =
     (case claim_ddl_next now st of (st', None) \<Rightarrow> (st', Work_idle) | (st', Some i) \<Rightarrow> (st', Work_load i))"

text \<open>
  \<open>process_all\<close>: one entry of the list per item, with the time of its claim and the environments of
  its steps. An error that escapes from an item ends the command.
\<close>

definition run_work :: "(ddl_env \<times> (ddl_state \<Rightarrow> ddl_state)) list \<Rightarrow> ddl_state \<times> work \<Rightarrow> ddl_state \<times> work" where
  "run_work es s = fold (\<lambda>(e, op) (st, w). work_step e (op st, w)) es s"

fun process_all ::
  "nat \<Rightarrow> nat \<Rightarrow> (datetime \<times> (ddl_env \<times> (ddl_state \<Rightarrow> ddl_state)) list) list \<Rightarrow> ddl_state \<Rightarrow>
   ddl_state \<times> (ddl_error + nat)" where
  "process_all limit processed [] st = (st, Inr processed)"
| "process_all limit processed ((now, es) # runs) st =
     (if limit \<le> processed then (st, Inr processed)
      else case claim_ddl_next now st of
             (st', None) \<Rightarrow> (st', Inr processed)
           | (st', Some i) \<Rightarrow>
               (case run_work es (st', Work_load i) of
                  (st'', Work_raised err) \<Rightarrow> (st'', Inl err)
                | (st'', _) \<Rightarrow> process_all limit (processed + 1) runs st''))"

section \<open>The common download view\<close>

fun ddl_item_status :: "ddl_status \<Rightarrow> item_status" where
  "ddl_item_status Dq_queued = Item_queued"
| "ddl_item_status Dq_downloading = Item_downloading"
| "ddl_item_status Dq_completed = Item_completed"
| "ddl_item_status Dq_failed = Item_failed"
| "ddl_item_status Dq_aborted = Item_failed"

definition or_zero :: "int option \<Rightarrow> int \<Rightarrow> int" where
  "or_zero a b = (case a of Some n \<Rightarrow> if n = 0 then b else n | None \<Rightarrow> b)"

definition ddl_client_item :: "ddl_row \<Rightarrow> client_item" where
  "ddl_client_item r =
     (let st = ddl_item_status (dq_status r);
          tot = or_zero (dq_expected_size r) (dq_bytes_received r);
          remaining = (if tot \<noteq> 0 then max 0 (tot - dq_bytes_received r) else 0)
      in \<lparr>it_download_id = dq_download_id r,
          it_title = (case dq_title r of Some t \<Rightarrow> if t = [] then dq_download_id r else t | None \<Rightarrow> dq_download_id r),
          it_category = ''ddl'', it_total_size = tot,
          it_remaining_size = (if st = Item_completed then 0 else remaining),
          it_estimated_time = None,
          it_output_path = (if st = Item_completed then dq_output_path r else None),
          it_status = st, it_encrypted = False,
          it_reason = (if dq_status r = Dq_aborted
             then Some (case dq_last_error r of Some m \<Rightarrow> if m = [] then ''aborted by user'' else m
                        | None \<Rightarrow> ''aborted by user'')
             else dq_last_error r)\<rparr>)"

definition ddl_client_download :: "datetime \<Rightarrow> string \<Rightarrow> grab_handoff \<Rightarrow> ddl_state \<Rightarrow> ddl_state \<times> string" where
  "ddl_client_download now hex h st =
     (let did = ''ddl-'' @ hex
      in (fst (ddl_enqueue now \<lparr>eq_download_id = did, eq_post_url = gh_link h, eq_title = gh_title h,
             eq_series_id = gh_series_id h, eq_issue_id = gh_issue_id h, eq_provider_id = Some (gh_indexer_id h),
             eq_expected_size = gh_size h\<rparr> st), did))"

definition ddl_client_remove :: "string \<Rightarrow> client_item \<Rightarrow> bool \<Rightarrow> ddl_state \<Rightarrow> ddl_state" where
  "ddl_client_remove staging it delete_data st = fst (ddl_remove staging (it_download_id it) delete_data st)"

definition ddl_client_mark_imported :: "string \<Rightarrow> client_item \<Rightarrow> ddl_state \<Rightarrow> ddl_state" where
  "ddl_client_mark_imported staging it st = fst (ddl_remove staging (it_download_id it) True st)"

definition ddl_get_items :: "ddl_state \<Rightarrow> client_item list" where
  "ddl_get_items st = map ddl_client_item (ds_rows st)"

section \<open>Termination\<close>

fun halted :: "work \<Rightarrow> bool" where
  "halted Work_idle = True"
| "halted (Work_raised _) = True"
| "halted _ = False"

text \<open>Six program points for each round of the host loop.\<close>

fun work_size :: "work \<Rightarrow> nat" where
  "work_size (Work_load _) = 39"
| "work_size (Work_check _ n _) = 6 * n + 2"
| "work_size (Work_resolve _ n _) = 6 * n + 7"
| "work_size (Work_select _ n _ _) = 6 * n + 6"
| "work_size (Work_attempt _ n _ _) = 6 * n + 5"
| "work_size (Work_recheck _ n _ _) = 6 * n + 4"
| "work_size (Work_record _ n _ _) = 6 * n + 3"
| "work_size (Work_landed _ _ _ _) = 2"
| "work_size (Work_finish _ _ _ _) = 1"
| "work_size (Work_fail _ _) = 1"
| "work_size _ = 0"

lemma halted_size: "halted w \<longleftrightarrow> work_size w = 0"
  by (cases w) simp_all

lemma work_step_halted: "halted w \<Longrightarrow> work_step e (st, w) = (st, w)"
  by (cases w) simp_all

lemma work_step_size: "work_size (snd (work_step e (st, w))) \<le> work_size w - 1"
proof (cases w)
  case (Work_check wi n failed)
  then show ?thesis by (cases n) simp_all
qed (auto simp: ALL_HOSTS_def split: option.splits sum.splits resolve_error.splits list.splits prod.splits)

text \<open>
  A run of the worker: before each of its steps the world may change (\<open>op\<close>, an operation of the
  API), and every step has its own environment.
\<close>

lemma run_work_Cons:
  "run_work ((e, op) # es) (st, w) = run_work es (work_step e (op st, w))"
  by (simp add: run_work_def)

lemma run_work_size: "work_size (snd (run_work es (st, w))) \<le> work_size w - length es"
proof (induction es arbitrary: st w)
  case (Cons x es)
  obtain e op where x: "x = (e, op)" by (cases x)
  obtain st' w' where s: "work_step e (op st, w) = (st', w')" by (cases "work_step e (op st, w)")
  have "work_size w' \<le> work_size w - 1" using work_step_size [of e "op st" w] s by simp
  then show ?case using Cons.IH [of st' w'] by (simp add: x run_work_Cons s)
qed (simp add: run_work_def)

text \<open>C18: Processing an item always ends: within 39 steps the worker has returned or raised, whatever
  the network answers and whatever the operator does to the queue in between.\<close>

theorem ddl_worker_terminates:
  assumes "39 \<le> length es"
  shows "halted (snd (run_work es (st, Work_load i)))"
  using run_work_size [of es st "Work_load i"] assms by (simp add: halted_size)

section \<open>Failover\<close>

fun tried_now :: "work \<Rightarrow> string list" where
  "tried_now (Work_attempt _ _ _ c) = [lc_link_type c]"
| "tried_now _ = []"

fun tried_log :: "(ddl_env \<times> (ddl_state \<Rightarrow> ddl_state)) list \<Rightarrow> ddl_state \<times> work \<Rightarrow> string list" where
  "tried_log [] s = []"
| "tried_log ((e, op) # es) (st, w) = tried_now w @ tried_log es (work_step e (op st, w))"

text \<open>The link types a program point has ruled out, and the choice it carries.\<close>

fun ruled_out :: "work \<Rightarrow> string set option" where
  "ruled_out (Work_check _ _ failed) = Some (set failed)"
| "ruled_out (Work_resolve _ _ failed) = Some (set failed)"
| "ruled_out (Work_select _ _ failed _) = Some (set failed)"
| "ruled_out (Work_attempt _ _ failed _) = Some (set failed)"
| "ruled_out (Work_recheck _ _ failed _) = Some (set failed)"
| "ruled_out (Work_record _ _ failed _) = Some (set failed)"
| "ruled_out _ = None"

fun good_choice :: "work \<Rightarrow> bool" where
  "good_choice (Work_select _ _ failed c) = (lc_link_type c \<notin> set failed \<and> lc_link_type c \<in> set LINK_TYPES)"
| "good_choice (Work_attempt _ _ failed c) = (lc_link_type c \<notin> set failed \<and> lc_link_type c \<in> set LINK_TYPES)"
| "good_choice (Work_load _) = False"
| "good_choice _ = True"

lemma resolve_candidates_untried:
  assumes "resolve_candidates e url base failed al = Inr cs" and "c \<in> set cs"
  shows "lc_link_type c \<notin> failed \<and> lc_link_type c \<in> set LINK_TYPES"
proof -
  obtain raws cs' where r: "enumerate_links (dn_ip6_bracket (qe_dn e)) failed raws = Inr cs'"
      "cs = order_candidates cs' (qe_priority e) (qe_upscaled e)"
    using assms(1) by (auto simp: resolve_candidates_def split: sum.splits page_error.splits if_splits)
  then have "c \<in> set cs'" using assms(2) by (simp add: order_candidates_def)
  from enumerate_links_sound [OF r(1) this] show ?thesis using link_type_listed by auto
qed

lemma work_step_choice:
  assumes "good_choice w" and "work_step e (st, w) = (st', w')"
  shows "good_choice w' \<and>
    (\<forall>F. ruled_out w' = Some F \<longrightarrow> (\<exists>G. ruled_out w = Some G \<and> G \<union> set (tried_now w) \<subseteq> F))"
proof (cases w)
  case (Work_check wi n failed)
  with assms show ?thesis by (cases n) (auto split: if_splits)
next
  case (Work_resolve wi n failed)
  with assms show ?thesis
    using resolve_candidates_untried [of e "dq_post_url (wi_row wi)" "wi_base wi" "set failed" "wi_allow wi"]
    by (auto split: sum.splits resolve_error.splits list.splits)
qed (use assms in \<open>auto simp: set_insort_key split: sum.splits prod.splits if_splits\<close>)

lemma tried_log_good:
  "good_choice w \<Longrightarrow>
   distinct (tried_log es (st, w)) \<and> set (tried_log es (st, w)) \<subseteq> set LINK_TYPES \<and>
   (case ruled_out w of None \<Rightarrow> tried_log es (st, w) = [] | Some F \<Rightarrow> set (tried_log es (st, w)) \<inter> F = {})"
proof (induction es arbitrary: st w)
  case (Cons x es)
  obtain e op where x: "x = (e, op)" by (cases x)
  obtain st' w' where s: "work_step e (op st, w) = (st', w')" by (cases "work_step e (op st, w)")
  let ?rest = "tried_log es (st', w')"
  note step = work_step_choice [OF Cons.prems s]
  then have IH: "distinct ?rest" "set ?rest \<subseteq> set LINK_TYPES"
      "case ruled_out w' of None \<Rightarrow> ?rest = [] | Some F \<Rightarrow> set ?rest \<inter> F = {}"
    using Cons.IH [of w' st'] by blast+
  have now: "distinct (tried_now w) \<and> set (tried_now w) \<subseteq> set LINK_TYPES \<and>
      (case ruled_out w of None \<Rightarrow> tried_now w = [] | Some F \<Rightarrow> set (tried_now w) \<inter> F = {})"
    using Cons.prems by (cases w) simp_all
  show ?case
  proof (cases "ruled_out w'")
    case None
    with IH now show ?thesis by (simp add: x s split: option.splits)
  next
    case (Some F)
    then obtain G where "ruled_out w = Some G" "G \<union> set (tried_now w) \<subseteq> F" using step by blast
    with IH now Some show ?thesis by (auto simp: x s)
  qed
qed (simp split: option.splits)

text \<open>C16: Failover never goes back: in one run over an item every link type is tried at most once, only
  known ones are tried, at most five in all, and none that the row, as the run loads it, has on
  record as failed in an earlier run, whatever the operator does to the queue in between. A row
  that is gone when it is loaded is not tried at all.\<close>

theorem failover_never_repeats:
  "distinct (tried_log ((e, op) # es) (st, Work_load i)) \<and>
   set (tried_log ((e, op) # es) (st, Work_load i)) \<subseteq> set LINK_TYPES \<and>
   length (tried_log ((e, op) # es) (st, Work_load i)) \<le> 5 \<and>
   (case row_get dq_id i (ds_rows (op st)) of
      None \<Rightarrow> tried_log ((e, op) # es) (st, Work_load i) = []
    | Some r \<Rightarrow> set (tried_log ((e, op) # es) (st, Work_load i)) \<inter> set (dq_failed_hosts r) = {})"
proof -
  obtain st' w' where s: "work_step e (op st, Work_load i) = (st', w')"
    by (cases "work_step e (op st, Work_load i)")
  have "good_choice w'" using s by (auto split: option.splits sum.splits)
  note good = tried_log_good [OF this, of es st']
  have start: "case row_get dq_id i (ds_rows (op st)) of None \<Rightarrow> ruled_out w' = None
      | Some r \<Rightarrow> ruled_out w' = None \<or> ruled_out w' = Some (set (dq_failed_hosts r))"
    using s by (auto split: option.splits sum.splits)
  have log: "tried_log ((e, op) # es) (st, Work_load i) = tried_log es (st', w')"
    by (simp only: tried_log.simps s tried_now.simps append_Nil)
  have "length (tried_log es (st', w')) \<le> length LINK_TYPES"
    using good by (metis card_length card_mono distinct_card List.finite_set le_trans)
  then show ?thesis
    unfolding log using good start by (auto simp: LINK_TYPES_def DISPATCH_def split: option.splits)
qed

section \<open>Crashes\<close>

text \<open>
  Only \<open>DdlDownloadError\<close> fails over. The next run of the command first resets the rows left
  downloading, then claims the oldest queued one.
\<close>

lemma oldest_queued_least:
  assumes "r \<in> set rows" and "dq_status r = Dq_queued" and "unique_key dq_id rows"
    and "\<And>x. x \<in> set rows \<Longrightarrow> dq_status x = Dq_queued \<Longrightarrow> dq_id r \<le> dq_id x"
  shows "oldest_queued rows = Some r"
proof -
  let ?xs = "sort_key dq_id (filter (\<lambda>r. dq_status r = Dq_queued) rows)"
  have r: "r \<in> set ?xs" using assms(1,2) by simp
  then obtain x xs where xs: "?xs = x # xs" by (cases ?xs) auto
  have "sorted (map dq_id (x # xs))" using sorted_sort_key [of dq_id] by (metis xs)
  then have "dq_id x \<le> dq_id r" using r xs by auto
  moreover have x: "x \<in> set rows" "dq_status x = Dq_queued"
    using arg_cong [OF xs, of set] by auto
  ultimately have "x = r" using assms(4) [OF x] unique_key_eq [OF assms(3) x(1) assms(1)] by simp
  then show ?thesis by (simp add: oldest_queued_def xs)
qed

text \<open>A transport fault (a refused connection, a timeout, a reset) while a file is fetched is not an
  error the queue fails over on: it leaves the worker with no host recorded as failed and the row
  still downloading, and when that row is the oldest pending one, the next run claims it again
  before every other item.\<close>

theorem transport_fault_blocks_queue:
  assumes "unique_key dq_id (ds_rows st)" and "r \<in> set (ds_rows st)" and "dq_status r = Dq_downloading"
    and "\<And>x. x \<in> set (ds_rows st) \<Longrightarrow> dq_status x \<in> {Dq_queued, Dq_downloading} \<Longrightarrow> dq_id r \<le> dq_id x"
    and "lc_strategy c = Direct"
    and "download_link (qe_dn e) (wi_allow w) (lc_url c) (dq_expected_size (wi_row w))
        (ds_files st (partial_path_for (qe_staging e) (dq_id (wi_row w)))) = (sent, part, Inl (Escaped (Httpx_fault m)))"
  shows "\<exists>st'. work_step e (st, Work_attempt w n failed c) = (st', Work_raised (Escaped (Httpx_fault m))) \<and>
    ds_rows st' = ds_rows st \<and> snd (start_next now' (reconcile_orphans now st')) = Work_load (dq_id r)"
proof -
  obtain st' where st': "work_step e (st, Work_attempt w n failed c) = (st', Work_raised (Escaped (Httpx_fault m)))"
      "ds_rows st' = ds_rows st"
    using assms(5,6) by (simp add: attempt_download_def Let_def)
  let ?f = "\<lambda>r. if dq_status r = Dq_downloading then r\<lparr>dq_status := Dq_queued, dq_updated_at := now\<rparr> else r"
  have key: "dq_id (?f x) = dq_id x" for x by simp
  have "oldest_queued (map ?f (ds_rows st)) = Some (?f r)"
  proof (rule oldest_queued_least)
    show "?f r \<in> set (map ?f (ds_rows st))" using assms(2) by simp
    show "unique_key dq_id (map ?f (ds_rows st))" using assms(1) by (simp add: unique_key_map key)
    show "dq_id (?f r) \<le> dq_id x" if "x \<in> set (map ?f (ds_rows st))" "dq_status x = Dq_queued" for x
      using that assms(4) by (auto split: if_splits)
  qed (simp add: assms(3))
  then show ?thesis
    using st' by (simp add: start_next_def claim_ddl_next_def reconcile_orphans_def key)
qed

lemma next_id_after_removal:
  assumes "rows \<noteq> []" and "unique_key dq_id (rows @ [r])" and "dq_id r = Max (dq_id ` set rows) + 1"
  shows "next_ddl_id (row_del dq_id (dq_id r) (rows @ [r])) = dq_id r"
proof -
  have "row_del dq_id (dq_id r) (rows @ [r]) = rows"
    using assms(2) by (auto simp: row_del_def unique_key_def image_iff intro!: filter_True)
  then show ?thesis using assms(1,3) by (simp add: next_ddl_id_def)
qed

text \<open>A row removed without its data leaves its partial file, and SQLite gives the id of the newest
  row away again: the next item enqueued starts from the bytes of the removed one, which
  \<open>download_link\<close> then resumes.\<close>

theorem removed_partial_is_inherited:
  assumes "ds_rows st = rows @ [r]" and "rows \<noteq> []" and "unique_key dq_id (rows @ [r])"
    and "dq_id r = Max (dq_id ` set rows) + 1" and "dq_download_id r = did"
    and "did \<notin> dq_download_id ` set rows" and "eq_download_id req \<notin> dq_download_id ` set (ds_rows st)"
    and "ds_files st (partial_path_for staging (dq_id r)) = Some old"
    and st': "st' = fst (ddl_enqueue now req (fst (ddl_remove staging did False st)))"
  shows "\<exists>r'. by_download_id (eq_download_id req) (ds_rows st') = Some r' \<and> dq_status r' = Dq_queued \<and>
    ds_files st' (partial_path_for staging (dq_id r')) = Some old"
proof -
  have find_last: "find P (xs @ [y]) = Some y" if "\<forall>x \<in> set xs. \<not> P x" "P y" for P and xs :: "ddl_row list" and y
    using that by (induction xs) auto
  have "by_download_id did (ds_rows st) = Some r"
    unfolding by_download_id_def assms(1) using assms(5,6) by (intro find_last) (auto simp: image_iff)
  then have rem: "fst (ddl_remove staging did False st) = st\<lparr>ds_rows := row_del dq_id (dq_id r) (ds_rows st)\<rparr>"
    by (simp add: ddl_remove_def)
  let ?rest = "row_del dq_id (dq_id r) (ds_rows st)"
  have none: "by_download_id (eq_download_id req) ?rest = None"
    unfolding by_download_id_def using assms(7) by (force simp: find_None_iff)
  have nid: "next_ddl_id ?rest = dq_id r" unfolding assms(1) by (rule next_id_after_removal [OF assms(2-4)])
  have "st' = st\<lparr>ds_rows := ?rest @ [new_ddl_row now (dq_id r) req]\<rparr>"
    by (simp add: st' rem ddl_enqueue_def none nid Let_def)
  moreover have "by_download_id (eq_download_id req) (?rest @ [new_ddl_row now (dq_id r) req]) =
      Some (new_ddl_row now (dq_id r) req)"
    unfolding by_download_id_def using assms(7) by (intro find_last) (force simp: new_ddl_row_def)+
  ultimately show ?thesis using assms(8) by (simp add: new_ddl_row_def)
qed

section \<open>Abort\<close>

lemma row_get_put_row: "row_get dq_id k (ds_rows (put_row r st)) = (if dq_id r = k then Some r else row_get dq_id k (ds_rows st))"
  by (simp add: put_row_def row_get_put)

lemma row_get_upd_row:
  "(\<And>r. dq_id (f r) = dq_id r) \<Longrightarrow>
   row_get dq_id k (ds_rows (upd_row i f st)) =
     (if k = i then map_option f (row_get dq_id k (ds_rows st)) else row_get dq_id k (ds_rows st))"
  by (auto simp: upd_row_def row_get_put_row split: option.splits dest: row_get_SomeD)

lemma row_get_reconcile:
  "row_get dq_id k (ds_rows (reconcile_orphans now st)) =
     map_option (\<lambda>r. if dq_status r = Dq_downloading then r\<lparr>dq_status := Dq_queued, dq_updated_at := now\<rparr> else r)
       (row_get dq_id k (ds_rows st))"
  by (simp add: reconcile_orphans_def row_get_map)

definition row_status :: "int \<Rightarrow> ddl_state \<Rightarrow> ddl_status option" where
  "row_status k st = map_option dq_status (row_get dq_id k (ds_rows st))"

lemma is_downloading_status: "is_downloading k st \<longleftrightarrow> row_status k st = Some Dq_downloading"
  by (simp add: is_downloading_def row_status_def)

lemma row_status_upd_row:
  "(\<And>r. dq_id (f r) = dq_id r) \<Longrightarrow> (\<And>r. dq_status (f r) = g (dq_status r)) \<Longrightarrow>
   row_status k (upd_row i f st) = (if k = i then map_option g (row_status k st) else row_status k st)"
  by (simp add: row_status_def row_get_upd_row option.map_comp comp_def)

lemma worker_writes:
  "row_status k (set_current now i c st) = row_status k st"
  "row_status k (record_host_failure now staging i failed err st) = row_status k st"
  "row_status k (ddl_complete now i c p n st) =
     (if k = i then map_option (\<lambda>_. Dq_completed) (row_status k st) else row_status k st)"
  "row_status k (ddl_mark_failed now i why st) =
     (if k = i then map_option (\<lambda>_. Dq_failed) (row_status k st) else row_status k st)"
proof -
  have id: "map_option (\<lambda>x. x) y = y" for y :: "ddl_status option" by (cases y) simp_all
  have files: "row_status j (st\<lparr>ds_files := f\<rparr>) = row_status j st" for j f by (simp add: row_status_def)
  show "row_status k (set_current now i c st) = row_status k st"
    unfolding set_current_def by (subst row_status_upd_row [where g = "\<lambda>x. x"]) (simp_all add: id)
  show "row_status k (record_host_failure now staging i failed err st) = row_status k st"
    unfolding record_host_failure_def
    by (subst row_status_upd_row [where g = "\<lambda>x. x"]) (simp_all add: id files)
  show "row_status k (ddl_complete now i c p n st) =
     (if k = i then map_option (\<lambda>_. Dq_completed) (row_status k st) else row_status k st)"
    unfolding ddl_complete_def by (rule row_status_upd_row) simp_all
  show "row_status k (ddl_mark_failed now i why st) =
     (if k = i then map_option (\<lambda>_. Dq_failed) (row_status k st) else row_status k st)"
    unfolding ddl_mark_failed_def by (rule row_status_upd_row) simp_all
qed

lemma row_status_files: "row_status k (st\<lparr>ds_files := f\<rparr>) = row_status k st"
  by (simp add: row_status_def)

text \<open>The points of a transfer: from the start of the attempt to the check behind it.\<close>

fun in_transfer :: "work \<Rightarrow> work_item option" where
  "in_transfer (Work_attempt w _ _ _) = Some w"
| "in_transfer (Work_recheck w _ _ _) = Some w"
| "in_transfer (Work_landed w _ _ _) = Some w"
| "in_transfer _ = None"

lemma transfer_keeps_abort:
  assumes "in_transfer wk = Some w" and "row_status (dq_id (wi_row w)) st = Some Dq_aborted"
    and "work_step e (st, wk) = (st', wk')"
  shows "row_status (dq_id (wi_row w)) st' = Some Dq_aborted \<and>
    (in_transfer wk' = Some w \<and> work_size wk' < work_size wk \<or> halted wk')"
  using assms
  by (cases wk) (auto simp: is_downloading_status row_status_def split: sum.splits prod.splits if_splits)

lemma halted_run: "halted w \<Longrightarrow> run_work (map (\<lambda>e. (e, id)) es) (st, w) = (st, w)"
  by (induction es) (simp_all add: run_work_def work_step_halted)

lemma transfer_run_keeps_abort:
  "in_transfer wk = Some w \<or> halted wk \<Longrightarrow> row_status (dq_id (wi_row w)) st = Some Dq_aborted \<Longrightarrow>
   run_work (map (\<lambda>e. (e, id)) es) (st, wk) = (st', wk') \<Longrightarrow>
   row_status (dq_id (wi_row w)) st' = Some Dq_aborted"
proof (induction es arbitrary: st wk)
  case (Cons e es)
  show ?case
  proof (cases "halted wk")
    case True
    with Cons.prems(3) have "st' = st" by (simp only: halted_run prod.inject)
    with Cons.prems(2) show ?thesis by simp
  next
    case False
    obtain st1 wk1 where s: "work_step e (st, wk) = (st1, wk1)" by (cases "work_step e (st, wk)")
    have "in_transfer wk = Some w" using Cons.prems(1) False by blast
    from transfer_keeps_abort [OF this Cons.prems(2) s] Cons.IH [of wk1 st1] Cons.prems(3)
    show ?thesis by (auto simp: run_work_Cons s)
  qed
qed (simp add: run_work_def)

text \<open>An abort during the transfer of a file wins: whatever the transfer ends with, the row stays
  aborted. An abort while the post page is being fetched does not: when the page then fails, or
  offers no usable link, the worker marks the row failed without looking at it again.\<close>

theorem abort_wins_only_in_transfer:
  assumes "in_transfer wk = Some w" and "row_status (dq_id (wi_row w)) st = Some Dq_aborted"
    and "resolve_candidates e (dq_post_url (wi_row w)) (wi_base w) (set failed) (wi_allow w) = Inl (Item_fails m)"
  shows "row_status (dq_id (wi_row w)) (fst (run_work (map (\<lambda>e. (e, id)) es) (st, wk))) = Some Dq_aborted \<and>
    (case run_work [(e, id), (e, id)] (st, Work_resolve w n failed) of
       (st', wk') \<Rightarrow> wk' = Work_idle \<and> row_status (dq_id (wi_row w)) st' = Some Dq_failed)"
proof
  show "row_status (dq_id (wi_row w)) (fst (run_work (map (\<lambda>e. (e, id)) es) (st, wk))) = Some Dq_aborted"
    using transfer_run_keeps_abort [of wk w st es] assms(1,2)
    by (cases "run_work (map (\<lambda>e. (e, id)) es) (st, wk)") simp
  show "case run_work [(e, id), (e, id)] (st, Work_resolve w n failed) of
       (st', wk') \<Rightarrow> wk' = Work_idle \<and> row_status (dq_id (wi_row w)) st' = Some Dq_failed"
    using assms(2,3) by (simp add: run_work_def worker_writes)
qed

section \<open>Single flight\<close>

text \<open>
  The queue and its worker as one system: worker steps, a claim when the worker is idle, the
  operator's actions at any time, and a restart, which loses the worker and runs the orphan reset
  of the next command.
\<close>

inductive ddl_system :: "ddl_state \<times> work \<Rightarrow> ddl_state \<times> work \<Rightarrow> bool" where
  Sys_work: "ddl_system (st, w) (work_step e (st, w))"
| Sys_claim: "ddl_system (st, Work_idle) (start_next now st)"
| Sys_enqueue: "ddl_system (st, w) (fst (ddl_enqueue now req st), w)"
| Sys_retry: "ddl_system (st, w) (fst (ddl_retry now did st), w)"
| Sys_resume: "ddl_system (st, w) (fst (ddl_resume now did st), w)"
| Sys_abort: "ddl_system (st, w) (fst (ddl_abort now did st), w)"
| Sys_remove: "ddl_system (st, w) (fst (ddl_remove staging did del st), w)"
| Sys_restart: "ddl_system (st, w) (reconcile_orphans now st, Work_idle)"

text \<open>The row the worker holds; none when it is idle, and unknown after an escaped error.\<close>

fun work_id :: "work \<Rightarrow> int option" where
  "work_id (Work_load i) = Some i"
| "work_id (Work_check w _ _) = Some (dq_id (wi_row w))"
| "work_id (Work_resolve w _ _) = Some (dq_id (wi_row w))"
| "work_id (Work_select w _ _ _) = Some (dq_id (wi_row w))"
| "work_id (Work_attempt w _ _ _) = Some (dq_id (wi_row w))"
| "work_id (Work_recheck w _ _ _) = Some (dq_id (wi_row w))"
| "work_id (Work_record w _ _ _) = Some (dq_id (wi_row w))"
| "work_id (Work_landed w _ _ _) = Some (dq_id (wi_row w))"
| "work_id (Work_finish w _ _ _) = Some (dq_id (wi_row w))"
| "work_id (Work_fail i _) = Some i"
| "work_id _ = None"

definition downloading_ids :: "ddl_state \<Rightarrow> int set" where
  "downloading_ids st = {k. row_status k st = Some Dq_downloading}"

definition single_flight :: "ddl_state \<times> work \<Rightarrow> bool" where
  "single_flight s \<longleftrightarrow>
     (\<exists>k. downloading_ids (fst s) \<subseteq> {k}) \<and>
     (snd s = Work_idle \<longrightarrow> downloading_ids (fst s) = {}) \<and>
     (\<forall>k. work_id (snd s) = Some k \<longrightarrow> downloading_ids (fst s) \<subseteq> {k})"

lemma single_flight_fewer:
  "single_flight (st, w) \<Longrightarrow> downloading_ids st' \<subseteq> downloading_ids st \<Longrightarrow> single_flight (st', w)"
  unfolding single_flight_def fst_conv snd_conv by blast

lemma row_status_put:
  "row_status k (put_row r st) = (if dq_id r = k then Some (dq_status r) else row_status k st)"
  by (simp add: row_status_def row_get_put_row)

lemma by_download_id_SomeD: "by_download_id did rows = Some r \<Longrightarrow> r \<in> set rows \<and> dq_download_id r = did"
  by (auto simp: by_download_id_def find_Some_iff)

text \<open>No operator action makes a row downloading.\<close>

lemma transition_downloading:
  "to_state \<noteq> Dq_downloading \<Longrightarrow>
   downloading_ids (fst (ddl_transition now did to_state reset froms st)) \<subseteq> downloading_ids st"
  by (auto simp: ddl_transition_def downloading_ids_def row_status_put Let_def split: option.splits if_splits)

lemma enqueue_downloading: "downloading_ids (fst (ddl_enqueue now req st)) \<subseteq> downloading_ids st"
proof -
  have app: "row_get dq_id k (xs @ [y]) = (case row_get dq_id k xs of Some r \<Rightarrow> Some r
      | None \<Rightarrow> if dq_id y = k then Some y else None)" for k xs and y :: ddl_row
    by (induction xs) auto
  show ?thesis
    by (auto simp: ddl_enqueue_def Let_def downloading_ids_def row_status_def app new_ddl_row_def
        split: option.splits if_splits)
qed

lemma remove_downloading: "downloading_ids (fst (ddl_remove staging did del st)) \<subseteq> downloading_ids st"
  by (auto simp: ddl_remove_def delete_files_def Let_def downloading_ids_def row_status_def row_get_del
      split: option.splits if_splits)

lemma reconcile_downloading: "downloading_ids (reconcile_orphans now st) = {}"
  by (auto simp: downloading_ids_def row_status_def row_get_reconcile split: if_splits)

lemma claim_downloading:
  assumes "downloading_ids st = {}"
  shows "single_flight (start_next now st)"
proof (cases "oldest_queued (ds_rows st)")
  case None
  with assms show ?thesis by (simp add: single_flight_def start_next_def claim_ddl_next_def)
next
  case (Some r)
  have "downloading_ids (put_row (r\<lparr>dq_status := Dq_downloading, dq_updated_at := now\<rparr>) st) \<subseteq> {dq_id r}"
    using assms by (auto simp: downloading_ids_def row_status_put)
  with Some show ?thesis by (auto simp: single_flight_def start_next_def claim_ddl_next_def)
qed

text \<open>A worker step keeps to its row, and leaves it only when it is no longer downloading.\<close>

lemma work_step_downloading:
  assumes "work_step e (st, w) = (st', w')"
  shows "downloading_ids st' \<subseteq> downloading_ids st \<and>
    (\<forall>k. work_id w = Some k \<longrightarrow>
       (work_id w' = Some k \<or> (\<exists>err. w' = Work_raised err) \<or> w' = Work_idle \<and> k \<notin> downloading_ids st')) \<and>
    (work_id w = None \<longrightarrow> w' = w)"
proof (cases w)
  case (Work_load i)
  with assms show ?thesis
    by (auto simp: downloading_ids_def row_status_def split: option.splits sum.splits dest: row_get_SomeD)
next
  case (Work_check wi n failed)
  with assms show ?thesis
    by (cases n) (auto simp: downloading_ids_def is_downloading_status split: if_splits)
qed (use assms in \<open>auto simp: downloading_ids_def worker_writes is_downloading_status row_status_files
      split: sum.splits resolve_error.splits list.splits prod.splits if_splits\<close>)

lemma single_flight_work: "single_flight (st, w) \<Longrightarrow> single_flight (work_step e (st, w))"
proof -
  assume sf: "single_flight (st, w)"
  obtain st' w' where s: "work_step e (st, w) = (st', w')" by (cases "work_step e (st, w)")
  note step = work_step_downloading [OF s]
  show ?thesis
  proof (cases "work_id w")
    case None
    with step have "w' = w" by blast
    with single_flight_fewer [OF sf] step s show ?thesis by simp
  next
    case (Some k)
    then have "downloading_ids st' \<subseteq> {k}" using sf step by (auto simp: single_flight_def)
    moreover from step Some have "work_id w' = Some k \<or> (\<exists>err. w' = Work_raised err) \<or>
        w' = Work_idle \<and> k \<notin> downloading_ids st'" by blast
    ultimately show ?thesis by (auto simp: single_flight_def s)
  qed
qed

text \<open>C14: Downloads are single-flight: from any state without a downloading row, whatever the worker, the
  operator and restarts do in whatever order, at most one row is downloading, it is the one the
  worker holds, and none is when the worker is idle.\<close>

theorem ddl_single_flight:
  assumes "downloading_ids st0 = {}" and "ddl_system\<^sup>*\<^sup>* (st0, Work_idle) (st, w)"
  shows "single_flight (st, w)"
  using assms(2)
proof (induction "(st, w)" arbitrary: st w rule: rtranclp_induct)
  case base
  from assms(1) show ?case by (simp add: single_flight_def)
next
  case (step s)
  obtain st1 w1 where s: "s = (st1, w1)" by (cases s)
  have sf: "single_flight (st1, w1)" using step.hyps(3) s by blast
  from step.hyps(2)[unfolded s] show ?case
  proof (cases rule: ddl_system.cases)
    case (Sys_work e)
    then show ?thesis using single_flight_work [OF sf] by metis
  next
    case (Sys_claim now)
    have "downloading_ids st1 = {}" using sf Sys_claim by (simp add: single_flight_def)
    then show ?thesis using claim_downloading Sys_claim by metis
  next
    case (Sys_restart now)
    then show ?thesis by (auto simp: single_flight_def reconcile_downloading)
  qed (use single_flight_fewer [OF sf] transition_downloading enqueue_downloading remove_downloading in
      \<open>auto simp: ddl_retry_def ddl_resume_def ddl_abort_def\<close>)
qed

section \<open>Well-formed rows\<close>

definition ddl_row_ok :: "ddl_row \<Rightarrow> bool" where
  "ddl_row_ok r \<longleftrightarrow>
     (dq_status r = Dq_completed \<longrightarrow> dq_output_path r \<noteq> None) \<and> 0 \<le> dq_attempts r \<and>
     sorted (dq_failed_hosts r) \<and> distinct (dq_failed_hosts r) \<and> set (dq_failed_hosts r) \<subseteq> set LINK_TYPES"

definition ddl_table_ok :: "ddl_row list \<Rightarrow> bool" where
  "ddl_table_ok rows \<longleftrightarrow> unique_key dq_id rows \<and> unique_key dq_download_id rows \<and> list_all ddl_row_ok rows"

fun work_ok :: "work \<Rightarrow> bool" where
  "work_ok (Work_check _ _ failed) = (set failed \<subseteq> set LINK_TYPES)"
| "work_ok (Work_resolve _ _ failed) = (set failed \<subseteq> set LINK_TYPES)"
| "work_ok (Work_select _ _ failed c) = (set (lc_link_type c # failed) \<subseteq> set LINK_TYPES)"
| "work_ok (Work_attempt _ _ failed c) = (set (lc_link_type c # failed) \<subseteq> set LINK_TYPES)"
| "work_ok (Work_recheck _ _ failed _) = (set failed \<subseteq> set LINK_TYPES \<and> sorted failed \<and> distinct failed)"
| "work_ok (Work_record _ _ failed _) = (set failed \<subseteq> set LINK_TYPES \<and> sorted failed \<and> distinct failed)"
| "work_ok _ = True"

lemma map_row_put:
  "row_get key k t = Some r \<Longrightarrow> key r' = k \<Longrightarrow> g r' = g r \<Longrightarrow> map g (row_put key r' t) = map g t"
  by (induction t) (auto split: if_splits)

lemma put_row_ok:
  assumes "ddl_table_ok (ds_rows st)" and "row_get dq_id (dq_id r) (ds_rows st) = Some r"
    and "dq_id r' = dq_id r" and "dq_download_id r' = dq_download_id r" and "ddl_row_ok r'"
  shows "ddl_table_ok (ds_rows (put_row r' st))"
proof -
  have "map dq_download_id (row_put dq_id r' (ds_rows st)) = map dq_download_id (ds_rows st)"
    by (rule map_row_put [OF assms(2)]) (simp_all add: assms)
  moreover have "list_all ddl_row_ok (row_put dq_id r' (ds_rows st))"
    using set_row_put_subset [of dq_id r' "ds_rows st"] assms(1,5) by (auto simp: ddl_table_ok_def list_all_iff)
  ultimately show ?thesis
    using assms(1) by (auto simp: ddl_table_ok_def put_row_def unique_row_put) (simp add: unique_key_def)
qed

lemma upd_row_ok:
  assumes "ddl_table_ok (ds_rows st)" and "\<And>r. dq_id (f r) = dq_id r" and "\<And>r. dq_download_id (f r) = dq_download_id r"
    and "\<And>r. ddl_row_ok r \<Longrightarrow> ddl_row_ok (f r)"
  shows "ddl_table_ok (ds_rows (upd_row i f st))"
proof (cases "row_get dq_id i (ds_rows st)")
  case (Some r)
  then have r: "r \<in> set (ds_rows st)" "dq_id r = i" by (auto dest: row_get_SomeD)
  then have "ddl_row_ok r" using assms(1) by (auto simp: ddl_table_ok_def list_all_iff)
  then show ?thesis using Some r assms by (simp add: upd_row_def) (intro put_row_ok; simp)
qed (simp add: upd_row_def assms(1))

lemma transition_ok:
  assumes "ddl_table_ok (ds_rows st)" and "to_state \<noteq> Dq_completed"
  shows "ddl_table_ok (ds_rows (fst (ddl_transition now did to_state reset froms st)))"
proof (cases "by_download_id did (ds_rows st)")
  case (Some r)
  then have r: "r \<in> set (ds_rows st)" by (auto dest: by_download_id_SomeD)
  then have "row_get dq_id (dq_id r) (ds_rows st) = Some r" and "ddl_row_ok r"
    using assms(1) by (auto simp: ddl_table_ok_def list_all_iff row_get_unique)
  then show ?thesis
    using Some assms by (auto simp: ddl_transition_def Let_def ddl_row_ok_def intro!: put_row_ok)
qed (simp add: ddl_transition_def assms(1))

lemma enqueue_ok:
  assumes "ddl_table_ok (ds_rows st)"
  shows "ddl_table_ok (ds_rows (fst (ddl_enqueue now req st)))"
proof (cases "by_download_id (eq_download_id req) (ds_rows st)")
  case None
  have fresh: "dq_id r < next_ddl_id (ds_rows st)" if "r \<in> set (ds_rows st)" for r
    using that Max_ge [of "dq_id ` set (ds_rows st)" "dq_id r"] by (auto simp: next_ddl_id_def)
  have "eq_download_id req \<notin> dq_download_id ` set (ds_rows st)"
    using None by (auto simp: by_download_id_def find_None_iff)
  then show ?thesis
    using None assms fresh
    by (force simp: ddl_enqueue_def Let_def ddl_table_ok_def unique_key_def new_ddl_row_def ddl_row_ok_def)
qed (simp add: ddl_enqueue_def assms)

lemma remove_ok:
  "ddl_table_ok (ds_rows st) \<Longrightarrow> ddl_table_ok (ds_rows (fst (ddl_remove staging did del st)))"
  by (auto simp: ddl_remove_def delete_files_def Let_def ddl_table_ok_def unique_key_def row_del_def
      distinct_map_filter list_all_iff split: option.splits)

lemma reconcile_ok: "ddl_table_ok (ds_rows st) \<Longrightarrow> ddl_table_ok (ds_rows (reconcile_orphans now st))"
proof -
  define f where "f = (\<lambda>r :: ddl_row. if dq_status r = Dq_downloading then r\<lparr>dq_status := Dq_queued, dq_updated_at := now\<rparr> else r)"
  have f: "dq_id (f r) = dq_id r" "dq_download_id (f r) = dq_download_id r" "ddl_row_ok r \<Longrightarrow> ddl_row_ok (f r)" for r
    by (auto simp: ddl_row_ok_def f_def)
  assume "ddl_table_ok (ds_rows st)"
  then show ?thesis
    unfolding reconcile_orphans_def f_def [symmetric] by (simp add: ddl_table_ok_def unique_key_map f list_all_iff)
qed

lemma oldest_queued_SomeD: "oldest_queued rows = Some r \<Longrightarrow> r \<in> set rows"
proof -
  assume q: "oldest_queued rows = Some r"
  let ?xs = "sort_key dq_id (filter (\<lambda>r. dq_status r = Dq_queued) rows)"
  have "r \<in> set ?xs" using q unfolding oldest_queued_def by (cases ?xs) (simp_all del: set_sort)
  then show ?thesis by simp
qed

lemma work_step_ok:
  assumes "ddl_table_ok (ds_rows st)" and "work_ok w" and "work_step e (st, w) = (st', w')"
  shows "ddl_table_ok (ds_rows st') \<and> work_ok w'"
proof (cases w)
  case (Work_load i)
  with assms show ?thesis
    by (auto simp: ddl_table_ok_def ddl_row_ok_def list_all_iff split: option.splits sum.splits dest!: row_get_SomeD)
next
  case (Work_check wi n failed)
  with assms show ?thesis by (cases n) (auto split: if_splits)
next
  case (Work_resolve wi n failed)
  with assms show ?thesis
    using resolve_candidates_untried [of e "dq_post_url (wi_row wi)" "wi_base wi" "set failed" "wi_allow wi"]
    by (auto split: sum.splits resolve_error.splits list.splits)
next
  case (Work_select wi n failed c)
  with assms show ?thesis
    by (auto simp: set_current_def ddl_row_ok_def intro!: upd_row_ok)
next
  case (Work_attempt wi n failed c)
  with assms show ?thesis by (auto simp: set_insort_key distinct_insort sorted_insort split: sum.splits prod.splits if_splits)
next
  case (Work_record wi n failed err)
  with assms show ?thesis by (auto simp: record_host_failure_def ddl_row_ok_def intro!: upd_row_ok)
next
  case (Work_finish wi c final received)
  with assms show ?thesis by (auto simp: ddl_complete_def ddl_row_ok_def intro!: upd_row_ok)
next
  case (Work_fail i why)
  with assms show ?thesis by (auto simp: ddl_mark_failed_def ddl_row_ok_def intro!: upd_row_ok)
qed (use assms in \<open>auto split: if_splits\<close>)

text \<open>C31: The queue table is well typed at every moment: primary keys and download ids are unique, a
  completed row has its output path, the attempt counter is not negative, and the recorded failed
  hosts are a sorted set of known link types.\<close>

theorem ddl_table_well_typed:
  assumes "ddl_table_ok (ds_rows st0)" and "ddl_system\<^sup>*\<^sup>* (st0, Work_idle) (st, w)"
  shows "ddl_table_ok (ds_rows st) \<and> work_ok w"
  using assms(2)
proof (induction "(st, w)" arbitrary: st w rule: rtranclp_induct)
  case base
  from assms(1) show ?case by simp
next
  case (step s)
  obtain st1 w1 where s: "s = (st1, w1)" by (cases s)
  have ok: "ddl_table_ok (ds_rows st1)" "work_ok w1" using step.hyps(3) s by blast+
  from step.hyps(2)[unfolded s] show ?case
  proof (cases rule: ddl_system.cases)
    case (Sys_work e)
    then show ?thesis using work_step_ok [OF ok] by metis
  next
    case (Sys_claim now)
    have "ddl_table_ok (ds_rows (put_row (r\<lparr>dq_status := Dq_downloading, dq_updated_at := now\<rparr>) st1))"
      if "oldest_queued (ds_rows st1) = Some r" for r
      using oldest_queued_SomeD [OF that] ok(1)
      by (intro put_row_ok) (auto simp: ddl_table_ok_def list_all_iff row_get_unique ddl_row_ok_def)
    with Sys_claim ok show ?thesis
      by (auto simp: start_next_def claim_ddl_next_def split: option.splits)
  qed (use ok transition_ok enqueue_ok remove_ok reconcile_ok in
      \<open>auto simp: ddl_retry_def ddl_resume_def ddl_abort_def\<close>)
qed

section \<open>What a completed item is\<close>

text \<open>A transfer that lands has put a verified file at its final path, and removed the partial one.\<close>

theorem landed_file_is_verified:
  assumes "work_step e (st, Work_attempt w n failed c) = (st', Work_landed w c final received)"
    and "partial_path_for (qe_staging e) (dq_id (wi_row w)) \<noteq> final"
  shows "\<exists>f kind. ds_files st' final = Some f \<and> verify_file (qe_listing e) (Some f) = Inr kind \<and>
    received = int (length f) \<and> SIZE_FLOOR_BYTES \<le> length f \<and>
    ds_files st' (partial_path_for (qe_staging e) (dq_id (wi_row w))) = None"
proof -
  let ?p = "partial_path_for (qe_staging e) (dq_id (wi_row w))"
  obtain sent part u kind
    where d: "download_link (qe_dn e) (wi_allow w) (lc_url c) (dq_expected_size (wi_row w)) (ds_files st ?p) =
        (sent, part, Inr (received, u))"
      and v: "verify_file (qe_listing e) part = Inr kind"
      and st': "ds_files st' = (ds_files st)(?p := None, final := part)"
    using assms(1)
    by (auto simp: attempt_download_def Let_def split: if_splits sum.splits prod.splits)
  obtain f where f: "part = Some f" "received = int (length f)"
    using download_link_Inr [OF d] by blast
  have "SIZE_FLOOR_BYTES \<le> length f"
    using v by (auto simp: verify_file_def f split: if_splits)
  then show ?thesis using v st' f assms(2) by auto
qed

section \<open>Concrete runs\<close>

definition sample_ddl_row :: "int \<Rightarrow> string \<Rightarrow> ddl_status \<Rightarrow> ddl_row" where
  "sample_ddl_row i did st = (new_ddl_row 0 i \<lparr>eq_download_id = did, eq_post_url = ''https://getcomics.org/p'',
     eq_title = ''Saga 1'', eq_series_id = None, eq_issue_id = None, eq_provider_id = None,
     eq_expected_size = None\<rparr>)\<lparr>dq_status := st\<rparr>"

text \<open>A connection that is reset, and a post URL that the client cannot parse.\<close>

definition reset_net :: network where
  "reset_net = sample_net\<lparr>nt_send := (\<lambda>_ _. Inl ''connection reset'')\<rparr>"

definition sample_ddl_env :: ddl_env where
  "sample_ddl_env =
     \<lparr>qe_now = 7, qe_staging = ''/s'', qe_priority = parse_host_priority [], qe_upscaled = True,
      qe_dn = sample_dn reset_net, qe_page_net = reset_net, qe_decode = (\<lambda>x. x),
      qe_tokens = (\<lambda>_. Inr []), qe_join = (\<lambda>_ u. Inr u), qe_realpath = (\<lambda>x. x), qe_listing = (\<lambda>_. Bad_zip),
      qe_provider_base = (\<lambda>_. ''https://getcomics.org''), qe_series_title = (\<lambda>_. None),
      qe_issue_number = (\<lambda>_. None)\<rparr>"

definition sample_item :: work_item where
  "sample_item = \<lparr>wi_row = sample_ddl_row 1 ''ddl-1'' Dq_downloading, wi_base = ''https://getcomics.org'',
     wi_allow = sample_allow\<rparr>"

definition sample_direct :: link_candidate where
  "sample_direct = (sample_link Host_main Normal)\<lparr>lc_url := ''https://getcomics.org/f''\<rparr>"

lemma reset_open:
  "open_final reset_net (external_client cap) (Some (provider_hop sample_allow)) headers ''GET'' None
      (sample_url ''getcomics.org'') =
    ([\<lparr>rq_method = ''GET'', rq_url = sample_url ''getcomics.org'',
       rq_headers = hop_headers headers (sample_url ''getcomics.org'') (str_lower ''getcomics.org''), rq_body = None\<rparr>],
     Inl (Httpx_fault ''connection reset''))"
proof -
  have u: "hu_host (sample_url ''getcomics.org'') = ''getcomics.org''" "hu_scheme (sample_url ''getcomics.org'') = ''https''"
    by (simp_all add: sample_url_def)
  have "host_addresses (nt_ip6 reset_net) (nt_resolve reset_net 5) ''getcomics.org'' = Inr [V4 (v4 93 184 216 34)]"
    by (simp add: reset_net_def sample_net_def host_addresses_def interpret_host_as_ip_def sample_host_text
        ip_text_def sample_addresses)
  then have "validate (nt_ip6 reset_net) (nt_test_allow reset_net) (nt_resolve reset_net 5) External
      (sample_url ''getcomics.org'') = Inr ()"
    by (simp add: reset_net_def sample_net_def validate_def ALLOWED_SCHEMES_def u sample_verdicts)
  then show ?thesis
    by (simp add: open_final_def external_client_def MAX_REDIRECTS_def walk.simps [where left = 5] sample_host_text
        sample_allowed Let_def u) (simp add: reset_net_def)
qed

lemma reset_download:
  "\<exists>sent. download_link (sample_dn reset_net) sample_allow ''https://getcomics.org/f'' None None =
     (sent, None, Inl (Escaped (Httpx_fault ''connection reset'')))"
  by (simp add: download_link_def sample_dn_def sample_allowed stream_to_partial_def stream_pass_def reset_open
      link_error_def)

theorem transport_fault_blocks_queue_witness:
  "\<exists>st'. snd (start_next 9 (reconcile_orphans 8 st')) = Work_load 1"
proof -
  let ?r = "sample_ddl_row 1 ''ddl-1'' Dq_downloading"
  let ?st = "\<lparr>ds_rows = [?r, sample_ddl_row 2 ''ddl-2'' Dq_queued], ds_files = (\<lambda>_. None)\<rparr>"
  obtain sent where d: "download_link (sample_dn reset_net) sample_allow ''https://getcomics.org/f'' None None =
      (sent, None, Inl (Escaped (Httpx_fault ''connection reset'')))"
    using reset_download by blast
  have "\<exists>st'. work_step sample_ddl_env (?st, Work_attempt sample_item 5 [] sample_direct)
        = (st', Work_raised (Escaped (Httpx_fault ''connection reset''))) \<and>
      ds_rows st' = ds_rows ?st \<and> snd (start_next 9 (reconcile_orphans 8 st')) = Work_load (dq_id ?r)"
  proof (rule transport_fault_blocks_queue)
    show "download_link (qe_dn sample_ddl_env) (wi_allow sample_item) (lc_url sample_direct)
        (dq_expected_size (wi_row sample_item))
        (ds_files ?st (partial_path_for (qe_staging sample_ddl_env) (dq_id (wi_row sample_item)))) =
        (sent, None, Inl (Escaped (Httpx_fault ''connection reset'')))"
      using d by (simp add: sample_ddl_env_def sample_item_def sample_direct_def sample_ddl_row_def new_ddl_row_def)
  qed (auto simp: unique_key_def sample_ddl_row_def new_ddl_row_def sample_direct_def sample_link_def)
  then show ?thesis by (auto simp: sample_ddl_row_def new_ddl_row_def)
qed

theorem ddl_worker_terminates_witness:
  "halted (snd (run_work (replicate 39 (sample_ddl_env, id)) (\<lparr>ds_rows = [], ds_files = (\<lambda>_. None)\<rparr>, Work_load 1)))"
  by (rule ddl_worker_terminates) simp

theorem removed_partial_is_inherited_witness:
  "ds_files (fst (ddl_enqueue 9 \<lparr>eq_download_id = ''ddl-3'', eq_post_url = ''https://getcomics.org/q'', eq_title = ''Saga 2'',
       eq_series_id = None, eq_issue_id = None, eq_provider_id = None, eq_expected_size = None\<rparr>
     (fst (ddl_remove ''/s'' ''ddl-2'' False
       \<lparr>ds_rows = [sample_ddl_row 1 ''ddl-1'' Dq_queued, sample_ddl_row 2 ''ddl-2'' Dq_downloading],
        ds_files = [''/s/2.partial'' \<mapsto> ''ABC'']\<rparr>)))) (partial_path_for ''/s'' 2) = Some ''ABC''"
proof -
  let ?st = "\<lparr>ds_rows = [sample_ddl_row 1 ''ddl-1'' Dq_queued, sample_ddl_row 2 ''ddl-2'' Dq_downloading],
    ds_files = [''/s/2.partial'' \<mapsto> ''ABC'']\<rparr>"
  let ?req = "\<lparr>eq_download_id = ''ddl-3'', eq_post_url = ''https://getcomics.org/q'', eq_title = ''Saga 2'',
     eq_series_id = None, eq_issue_id = None, eq_provider_id = None, eq_expected_size = None\<rparr>"
  let ?st' = "fst (ddl_enqueue 9 ?req (fst (ddl_remove ''/s'' ''ddl-2'' False ?st)))"
  have path: "partial_path_for ''/s'' 2 = ''/s/2.partial''"
    by code_simp
  have "\<exists>r'. by_download_id (eq_download_id ?req) (ds_rows ?st') = Some r' \<and> dq_status r' = Dq_queued \<and>
      ds_files ?st' (partial_path_for ''/s'' (dq_id r')) = Some ''ABC''"
    by (rule removed_partial_is_inherited [where rows = "[sample_ddl_row 1 ''ddl-1'' Dq_queued]"
          and r = "sample_ddl_row 2 ''ddl-2'' Dq_downloading" and did = "''ddl-2''"])
      (auto simp: unique_key_def sample_ddl_row_def new_ddl_row_def path)
  then show ?thesis
    by (auto simp: by_download_id_def ddl_remove_def ddl_enqueue_def row_del_def next_ddl_id_def new_ddl_row_def
        sample_ddl_row_def Let_def)
qed

theorem abort_wins_only_in_transfer_witness:
  "row_status 1 (fst (run_work (map (\<lambda>e. (e, id)) [sample_ddl_env])
     (\<lparr>ds_rows = [sample_ddl_row 1 ''ddl-1'' Dq_aborted], ds_files = (\<lambda>_. None)\<rparr>,
      Work_recheck sample_item 5 [] ''size mismatch''))) = Some Dq_aborted"
proof -
  let ?env = "sample_ddl_env\<lparr>qe_dn := (sample_dn reset_net)\<lparr>dn_url := (\<lambda>_. Inl ''invalid URL'')\<rparr>\<rparr>"
  have i: "dq_id (wi_row sample_item) = 1"
    by (simp add: sample_item_def sample_ddl_row_def new_ddl_row_def)
  have r: "resolve_candidates ?env (dq_post_url (wi_row sample_item)) (wi_base sample_item) (set [])
      (wi_allow sample_item) = Inl (Item_fails ''post page unavailable'')"
    by (simp add: resolve_candidates_def fetch_post_page_def)
  show ?thesis
    using abort_wins_only_in_transfer [of "Work_recheck sample_item 5 [] ''size mismatch''" sample_item
        "\<lparr>ds_rows = [sample_ddl_row 1 ''ddl-1'' Dq_aborted], ds_files = (\<lambda>_. None)\<rparr>", OF _ _ r,
        of "[sample_ddl_env]" 5]
    by (simp add: i row_status_def) (simp add: sample_ddl_row_def new_ddl_row_def)
qed

theorem ddl_single_flight_witness:
  "single_flight (start_next 5 \<lparr>ds_rows = [sample_ddl_row 1 ''ddl-1'' Dq_queued], ds_files = (\<lambda>_. None)\<rparr>)"
proof -
  let ?st = "\<lparr>ds_rows = [sample_ddl_row 1 ''ddl-1'' Dq_queued], ds_files = (\<lambda>_. None)\<rparr>"
  have none: "downloading_ids ?st = {}"
    by (auto simp: downloading_ids_def row_status_def sample_ddl_row_def new_ddl_row_def)
  obtain st w where s: "start_next 5 ?st = (st, w)" by (cases "start_next 5 ?st")
  have "ddl_system\<^sup>*\<^sup>* (?st, Work_idle) (st, w)"
    unfolding s [symmetric] by (rule r_into_rtranclp) (rule Sys_claim)
  from ddl_single_flight [OF none this] show ?thesis by (simp only: s)
qed

theorem ddl_table_well_typed_witness:
  "ddl_table_ok (ds_rows (fst (ddl_enqueue 3 \<lparr>eq_download_id = ''ddl-2'', eq_post_url = ''https://getcomics.org/q'',
     eq_title = ''Saga 2'', eq_series_id = None, eq_issue_id = None, eq_provider_id = None, eq_expected_size = None\<rparr>
     \<lparr>ds_rows = [sample_ddl_row 1 ''ddl-1'' Dq_queued], ds_files = (\<lambda>_. None)\<rparr>)))"
proof -
  let ?st = "\<lparr>ds_rows = [sample_ddl_row 1 ''ddl-1'' Dq_queued], ds_files = (\<lambda>_. None)\<rparr>"
  let ?req = "\<lparr>eq_download_id = ''ddl-2'', eq_post_url = ''https://getcomics.org/q'',
     eq_title = ''Saga 2'', eq_series_id = None, eq_issue_id = None, eq_provider_id = None, eq_expected_size = None\<rparr>"
  have ok: "ddl_table_ok (ds_rows ?st)"
    by (simp add: ddl_table_ok_def unique_key_def ddl_row_ok_def sample_ddl_row_def new_ddl_row_def)
  have "ddl_system\<^sup>*\<^sup>* (?st, Work_idle) (fst (ddl_enqueue 3 ?req ?st), Work_idle)"
    by (rule r_into_rtranclp) (rule Sys_enqueue)
  from ddl_table_well_typed [OF ok this] show ?thesis by blast
qed

end
