(* ===== verification/Auth_Limit.thy ===== *)
theory Auth_Limit
  imports Window
begin

text \<open>
  Failed-authentication throttling (\<open>auth/ratelimit.py\<close>): the enforcing per-(IP, surface)
  windows, the observation-only per-surface windows and the set of seen API-key sources.

  Monotonic clock readings are reals. The in-memory state has no transaction: an operation
  that raises still leaves its earlier updates behind, so \<open>rl_retry_after\<close> returns the new
  state beside the error or the value. Constructor arguments \<open>threshold\<close> and \<open>capacity\<close>
  are non-negative.
\<close>

section \<open>State and operations\<close>

type_synonym auth_key = "string \<times> string"

record limiter =
  threshold :: nat
  window :: real
  backoff_base :: real
  capacity :: nat
  windows :: "(auth_key, real list) odict"
  global_windows :: "string \<rightharpoonup> real list"
  global_hot :: "string \<rightharpoonup> bool"

definition FAILURE_THRESHOLD :: nat where "FAILURE_THRESHOLD = 5"
definition WINDOW_SECONDS :: real where "WINDOW_SECONDS = 15 * 60"
definition BACKOFF_BASE_SECONDS :: real where "BACKOFF_BASE_SECONDS = 30"
definition REGISTRY_CAPACITY :: nat where "REGISTRY_CAPACITY = 1024"

definition new_limiter :: limiter where
  "new_limiter =
     \<lparr>threshold = FAILURE_THRESHOLD, window = WINDOW_SECONDS,
      backoff_base = BACKOFF_BASE_SECONDS, capacity = REGISTRY_CAPACITY,
      windows = [], global_windows = Map.empty, global_hot = Map.empty\<rparr>"

definition rl_prune :: "real \<Rightarrow> real \<Rightarrow> real list \<Rightarrow> real list" where
  "rl_prune w now dq = dropWhile (\<lambda>t. t \<le> now - w) dq"

text \<open>
  \<open>self._backoff_base * (2**excess)\<close> converts the integer to a double first, which raises
  for \<open>2 ** 1024\<close> and above; below that the product is at worst infinite and \<open>min\<close> takes
  the window.
\<close>

definition backoff_deadline :: "limiter \<Rightarrow> nat \<Rightarrow> real result" where
  "backoff_deadline L excess =
     (if 1024 \<le> excess then Inl OverflowError
      else Inr (min (backoff_base L * 2 ^ excess) (window L)))"

definition rl_retry_after ::
  "real \<Rightarrow> string \<Rightarrow> string \<Rightarrow> limiter \<Rightarrow> limiter \<times> real option result" where
  "rl_retry_after now ip surface L =
     (let key = (ip, surface)
      in case map_of (windows L) key of
           None \<Rightarrow> (L, Inr None)
         | Some dq0 \<Rightarrow>
             (let dq = rl_prune (window L) now dq0
              in if dq = [] then (L\<lparr>windows := od_pop key (windows L)\<rparr>, Inr None)
                 else
                   (let L' = L\<lparr>windows := od_move_to_end key (od_set key dq (windows L))\<rparr>
                    in if length dq < threshold L then (L', Inr None)
                       else (L', result_bind (backoff_deadline L (length dq - threshold L))
                               (\<lambda>deadline.
                                  let remaining = last dq + deadline - now
                                  in Inr (if 0 < remaining then Some remaining else None))))))"

definition rl_record_global :: "string \<Rightarrow> real \<Rightarrow> limiter \<Rightarrow> limiter \<times> bool" where
  "rl_record_global surface now L =
     (let dq0 = (case global_windows L surface of None \<Rightarrow> [] | Some d \<Rightarrow> d);
          dq = pop_while_longer (threshold L) (rl_prune (window L) now (dq0 @ [now]));
          hot = (threshold L \<le> length dq);
          was_hot = (case global_hot L surface of None \<Rightarrow> False | Some b \<Rightarrow> b)
      in (L\<lparr>global_windows := (global_windows L)(surface \<mapsto> dq),
            global_hot := (global_hot L)(surface \<mapsto> hot)\<rparr>, hot \<and> \<not> was_hot))"

definition rl_record_failure ::
  "real \<Rightarrow> string \<Rightarrow> string \<Rightarrow> limiter \<Rightarrow> limiter \<times> bool" where
  "rl_record_failure now ip surface L =
     (let key = (ip, surface);
          dq0 = (case map_of (windows L) key of None \<Rightarrow> [] | Some d \<Rightarrow> d);
          dq = rl_prune (window L) now (dq0 @ [now]);
          ws = od_move_to_end key (od_set key dq (windows L));
          L' = L\<lparr>windows := pop_while_longer (capacity L) ws\<rparr>
      in rl_record_global surface now L')"

definition rl_record_success :: "string \<Rightarrow> string \<Rightarrow> limiter \<Rightarrow> limiter" where
  "rl_record_success ip surface L = L\<lparr>windows := od_pop (ip, surface) (windows L)\<rparr>"

record seen_sources =
  ttl :: real
  seen_capacity :: nat
  seen :: "(string, real) odict"

definition seen_prune :: "real \<Rightarrow> (string, real) odict \<Rightarrow> (string, real) odict" where
  "seen_prune now d = dropWhile (\<lambda>(ip, expiry). expiry \<le> now) d"

definition seen_observe :: "real \<Rightarrow> string \<Rightarrow> seen_sources \<Rightarrow> seen_sources \<times> bool" where
  "seen_observe now ip S =
     (let d = seen_prune now (seen S);
          fresh = (map_of d ip = None)
      in (S\<lparr>seen := pop_while_longer (seen_capacity S)
                     (od_move_to_end ip (od_set ip (now + ttl S) d))\<rparr>, fresh))"

definition seen_clear :: "seen_sources \<Rightarrow> seen_sources" where
  "seen_clear S = S\<lparr>seen := []\<rparr>"

interpretation rl_window: sliding_window "\<lambda>t. t" w "rl_prune w" for w
  by unfold_locales (simp add: rl_prune_def dropWhile_eq_filter)

interpretation seen_window: sliding_window snd 0 seen_prune
  by unfold_locales
    (auto simp: seen_prune_def case_prod_beta intro!: dropWhile_eq_filter)

section \<open>The abstract limiter\<close>

text \<open>
  What the throttle promises, over the history of one key: the times of its failures since its
  last success. No windows, no eviction, no in-place pruning.
\<close>

datatype auth_event =
    Auth_failed real string string
  | Auth_ok string string
  | Auth_checked real string string

fun auth_step :: "auth_event \<Rightarrow> limiter \<Rightarrow> limiter" where
  "auth_step (Auth_failed t ip s) L = fst (rl_record_failure t ip s L)"
| "auth_step (Auth_ok ip s) L = rl_record_success ip s L"
| "auth_step (Auth_checked t ip s) L = fst (rl_retry_after t ip s L)"

fun history_step :: "auth_key \<Rightarrow> auth_event \<Rightarrow> real list \<Rightarrow> real list" where
  "history_step k (Auth_failed t ip s) h = (if (ip, s) = k then h @ [t] else h)"
| "history_step k (Auth_ok ip s) h = (if (ip, s) = k then [] else h)"
| "history_step k (Auth_checked t ip s) h = h"

definition throttle_spec :: "limiter \<Rightarrow> real \<Rightarrow> real list \<Rightarrow> real option result" where
  "throttle_spec L now h =
     (let live = filter (\<lambda>t. now - window L < t) h
      in if live = [] \<or> length live < threshold L then Inr None
         else result_bind (backoff_deadline L (length live - threshold L)) (\<lambda>deadline.
           let remaining = last live + deadline - now
           in Inr (if 0 < remaining then Some remaining else None)))"

fun event_time :: "auth_event \<Rightarrow> real option" where
  "event_time (Auth_failed t ip s) = Some t"
| "event_time (Auth_ok ip s) = None"
| "event_time (Auth_checked t ip s) = Some t"

fun in_time_order :: "real \<Rightarrow> auth_event list \<Rightarrow> bool" where
  "in_time_order t0 [] = True"
| "in_time_order t0 (e # es) =
     (case event_time e of None \<Rightarrow> in_time_order t0 es
      | Some t \<Rightarrow> t0 \<le> t \<and> in_time_order t es)"

fun last_time :: "real \<Rightarrow> auth_event list \<Rightarrow> real" where
  "last_time t0 [] = t0"
| "last_time t0 (e # es) = last_time (case event_time e of None \<Rightarrow> t0 | Some t \<Rightarrow> t) es"

definition failed_keys :: "auth_event list \<Rightarrow> auth_key list" where
  "failed_keys es = remdups (concat (map (\<lambda>e. case e of Auth_failed t ip s \<Rightarrow> [(ip, s)] | _ \<Rightarrow> []) es))"

section \<open>Frames and lookups\<close>

definition deque_of :: "limiter \<Rightarrow> auth_key \<Rightarrow> real list" where
  "deque_of L k = (case map_of (windows L) k of None \<Rightarrow> [] | Some d \<Rightarrow> d)"

lemma rl_prune_Nil [simp]: "rl_prune w now [] = []"
  by (simp add: rl_prune_def)

lemma auth_step_frame [simp]:
  "threshold (auth_step e L) = threshold L" "window (auth_step e L) = window L"
  "backoff_base (auth_step e L) = backoff_base L" "capacity (auth_step e L) = capacity L"
  by (cases e;
      simp add: rl_record_failure_def rl_record_global_def rl_record_success_def
        rl_retry_after_def Let_def split: option.splits)+

lemma deque_of_checked:
  "deque_of (fst (rl_retry_after now ip s L)) k =
    (if k = (ip, s) then rl_prune (window L) now (deque_of L k) else deque_of L k)"
  by (auto simp: rl_retry_after_def deque_of_def Let_def od_lookup split: option.splits)

lemma deque_of_ok:
  "deque_of (rl_record_success ip s L) k = (if k = (ip, s) then [] else deque_of L k)"
  by (simp add: rl_record_success_def deque_of_def od_lookup)

lemma windows_record_failure:
  "windows (fst (rl_record_failure now ip s L)) =
    pop_while_longer (capacity L) (od_move_to_end (ip, s)
      (od_set (ip, s) (rl_prune (window L) now (deque_of L (ip, s) @ [now])) (windows L)))"
  by (simp add: rl_record_failure_def rl_record_global_def deque_of_def Let_def)

lemma keys_move_to_end: "fst ` set (od_move_to_end k d) = fst ` set d"
proof -
  have "dom (map_of (od_move_to_end k d)) = dom (map_of d)"
    by (simp add: map_of_od_move_to_end)
  then show ?thesis by (simp add: dom_map_of_conv_image_fst)
qed

lemma length_distinct_keys:
  "distinct (map fst d) \<Longrightarrow> fst ` set d \<subseteq> K \<Longrightarrow> finite K \<Longrightarrow> length d \<le> card K"
  using card_mono [of K "fst ` set d"] distinct_card [of "map fst d"] by simp

lemma deque_of_failed:
  assumes "distinct (map fst (windows L))" and "fst ` set (windows L) \<subseteq> K" and "(ip, s) \<in> K"
    and "finite K" and "card K \<le> capacity L"
  shows "deque_of (fst (rl_record_failure now ip s L)) k =
    (if k = (ip, s) then rl_prune (window L) now (deque_of L k @ [now]) else deque_of L k)"
proof -
  let ?ws = "od_move_to_end (ip, s)
      (od_set (ip, s) (rl_prune (window L) now (deque_of L (ip, s) @ [now])) (windows L))"
  have "length ?ws \<le> card K"
    using assms by (intro length_distinct_keys) (auto simp: od_distinct keys_move_to_end keys_od_set)
  with assms(5) have "pop_while_longer (capacity L) ?ws = ?ws"
    by (simp add: pop_while_longer_short)
  then show ?thesis
    by (simp add: deque_of_def [of "fst (rl_record_failure now ip s L)"] windows_record_failure
        od_lookup) (simp add: deque_of_def)
qed

section \<open>The concrete windows represent the histories\<close>

definition shaped :: "auth_key set \<Rightarrow> limiter \<Rightarrow> bool" where
  "shaped K L \<longleftrightarrow> distinct (map fst (windows L)) \<and> fst ` set (windows L) \<subseteq> K"

definition tracks :: "real \<Rightarrow> real \<Rightarrow> real list \<Rightarrow> real list \<Rightarrow> bool" where
  "tracks w t d h \<longleftrightarrow> sorted h \<and> (\<forall>x \<in> set h. x \<le> t) \<and> (\<exists>u \<le> t. d = filter (\<lambda>x. u - w < x) h)"

definition represents :: "auth_key set \<Rightarrow> limiter \<Rightarrow> real \<Rightarrow> (auth_key \<Rightarrow> real list) \<Rightarrow> bool" where
  "represents K L t H \<longleftrightarrow> shaped K L \<and> (\<forall>k. tracks (window L) t (deque_of L k) (H k))"

lemma tracks_prune:
  assumes "tracks w t d h" and "t \<le> now"
  shows "rl_prune w now d = filter (\<lambda>x. now - w < x) h"
proof -
  from assms(1) obtain u where "u \<le> t" "d = filter (\<lambda>x. u - w < x) h" "sorted h"
    by (auto simp: tracks_def)
  with assms(2) show ?thesis
    using rl_window.prune_later [of h u now w] by (simp add: rl_window.prune_in_order)
qed

lemma tracks_later: "tracks w t d h \<Longrightarrow> t \<le> t' \<Longrightarrow> tracks w t' d h"
proof -
  assume "tracks w t d h" and le: "t \<le> t'"
  then obtain u where "sorted h" "\<forall>x \<in> set h. x \<le> t" and u: "u \<le> t" "d = filter (\<lambda>x. u - w < x) h"
    by (auto simp: tracks_def)
  moreover from u(1) le have "u \<le> t'" by simp
  ultimately show ?thesis using le u(2) unfolding tracks_def by fastforce
qed

lemma tracks_pruned:
  assumes "tracks w t d h" and "t \<le> t'"
  shows "tracks w t' (rl_prune w t' d) h"
proof -
  from tracks_later [OF assms] have "sorted h \<and> (\<forall>x \<in> set h. x \<le> t')" by (auto simp: tracks_def)
  then show ?thesis unfolding tracks_prune [OF assms] tracks_def by blast
qed

lemma tracks_snoc:
  assumes "tracks w t d h" and "t \<le> now"
  shows "tracks w now (rl_prune w now (d @ [now])) (h @ [now])"
proof -
  from assms(1) have srt: "sorted h" and bnd: "\<And>x. x \<in> set h \<Longrightarrow> x \<le> t"
    by (auto simp: tracks_def)
  have d: "sorted d" "\<And>x. x \<in> set d \<Longrightarrow> x \<le> now"
    using assms by (fastforce simp: tracks_def sorted_filter [where f = "\<lambda>x. x", simplified])+
  have "rl_prune w now (d @ [now]) = filter (\<lambda>x. now - w < x) (h @ [now])"
    using rl_window.prune_snoc [where xs = d and y = now and now = now and w = w] d tracks_prune [OF assms] by simp
  moreover have "sorted (h @ [now])" using srt bnd assms(2) by (fastforce simp: sorted_append)
  ultimately show ?thesis using bnd assms(2) by (fastforce simp: tracks_def)
qed

lemma retry_after_spec:
  assumes "represents K L t H" and "t \<le> now"
  shows "snd (rl_retry_after now ip s L) = throttle_spec L now (H (ip, s))"
proof -
  have p: "rl_prune (window L) now (deque_of L (ip, s)) = filter (\<lambda>x. now - window L < x) (H (ip, s))"
    using assms by (auto simp: represents_def intro: tracks_prune)
  show ?thesis
  proof (cases "map_of (windows L) (ip, s)")
    case None
    with p show ?thesis
      by (simp add: rl_retry_after_def throttle_spec_def deque_of_def)
  next
    case (Some d)
    with p show ?thesis
      by (simp add: rl_retry_after_def throttle_spec_def deque_of_def Let_def)
  qed
qed

lemma shaped_step:
  assumes "shaped K L" and "\<And>u ip s. e = Auth_failed u ip s \<Longrightarrow> (ip, s) \<in> K"
  shows "shaped K (auth_step e L)"
proof (cases e)
  case (Auth_failed u ip s)
  define ws where "ws = od_move_to_end (ip, s)
      (od_set (ip, s) (rl_prune (window L) u (deque_of L (ip, s) @ [u])) (windows L))"
  have "distinct (map fst ws)" "fst ` set ws \<subseteq> K"
    using assms Auth_failed by (auto simp: ws_def shaped_def od_distinct keys_move_to_end keys_od_set)
  moreover have "windows (auth_step e L) = drop (length ws - capacity L) ws"
    by (simp add: Auth_failed windows_record_failure ws_def pop_while_longer_eq)
  ultimately show ?thesis
    using set_drop_subset [of "length ws - capacity L" ws] by (auto simp: shaped_def drop_map [symmetric])
next
  case (Auth_ok ip s)
  with assms show ?thesis
    by (auto simp: shaped_def rl_record_success_def od_pop_def distinct_map_filter)
next
  case (Auth_checked u ip s)
  with assms show ?thesis
    by (auto simp: shaped_def rl_retry_after_def Let_def od_distinct keys_move_to_end keys_od_set
        distinct_od_pop set_od_pop split: option.splits dest: map_of_SomeD intro: rev_image_eqI)
qed

lemma represents_step:
  assumes rep: "represents K L t H" and K: "finite K" "card K \<le> capacity L"
    and inK: "\<And>u ip s. e = Auth_failed u ip s \<Longrightarrow> (ip, s) \<in> K"
    and t': "t' = (case event_time e of None \<Rightarrow> t | Some u \<Rightarrow> u)" and le: "t \<le> t'"
  shows "represents K (auth_step e L) t' (\<lambda>k. history_step k e (H k))"
proof -
  from rep have sh: "shaped K L" and tr: "\<And>k. tracks (window L) t (deque_of L k) (H k)"
    by (auto simp: represents_def)
  have "tracks (window L) t' (deque_of (auth_step e L) k) (history_step k e (H k))" for k
  proof (cases e)
    case (Auth_failed u ip s)
    with sh inK K have "deque_of (auth_step e L) k =
        (if k = (ip, s) then rl_prune (window L) u (deque_of L k @ [u]) else deque_of L k)"
      using deque_of_failed [where K = K and L = L and ip = ip and s = s and now = u and k = k]
      by (simp add: shaped_def)
    then show ?thesis using tracks_snoc [OF tr] tracks_later [OF tr le] le t' Auth_failed by auto
  next
    case (Auth_ok ip s)
    then show ?thesis using tracks_later [OF tr le] by (auto simp: deque_of_ok tracks_def)
  next
    case (Auth_checked u ip s)
    then show ?thesis using tracks_later [OF tr le] tracks_pruned [OF tr le] t'
      by (auto simp: deque_of_checked)
  qed
  then show ?thesis using shaped_step [OF sh inK] by (simp add: represents_def)
qed

lemma represents_run:
  assumes "represents K L t H" and "finite K" and "card K \<le> capacity L"
    and "set (failed_keys es) \<subseteq> K" and "in_time_order t es"
  shows "represents K (fold auth_step es L) (last_time t es) (\<lambda>k. fold (history_step k) es (H k))"
  using assms
proof (induction es arbitrary: L t H)
  case Nil
  then show ?case by simp
next
  case (Cons e es)
  define t' where "t' = (case event_time e of None \<Rightarrow> t | Some u \<Rightarrow> u)"
  have "t \<le> t'" and ord: "in_time_order t' es"
    using Cons.prems(5) by (auto simp: t'_def split: option.splits)
  moreover have "e = Auth_failed u ip s \<Longrightarrow> (ip, s) \<in> K" for u ip s
    using Cons.prems(4) by (auto simp: failed_keys_def)
  ultimately have "represents K (auth_step e L) t' (\<lambda>k. history_step k e (H k))"
    using Cons.prems(1-3) by (intro represents_step [OF _ _ _ _ t'_def])
  moreover have "set (failed_keys es) \<subseteq> K"
    using Cons.prems(4) by (auto simp: failed_keys_def)
  ultimately show ?case
    using Cons.IH [OF _ Cons.prems(2) _ _ ord] Cons.prems(3) by (simp flip: t'_def)
qed

lemma represents_new: "represents K new_limiter t (\<lambda>k. [])"
  by (auto simp: represents_def shaped_def tracks_def new_limiter_def deque_of_def)

lemma represents_run_new:
  assumes "in_time_order t es" and "length (failed_keys es) \<le> REGISTRY_CAPACITY"
  shows "represents (set (failed_keys es)) (fold auth_step es new_limiter) (last_time t es)
    (\<lambda>k. fold (history_step k) es [])"
proof -
  have "distinct (failed_keys es)" by (simp add: failed_keys_def)
  then have "card (set (failed_keys es)) \<le> capacity new_limiter"
    using assms(2) distinct_card [of "failed_keys es"] by (simp add: new_limiter_def)
  then show ?thesis
    using represents_run [OF represents_new _ _ subset_refl assms(1)] by simp
qed

lemma auth_run_frame [simp]:
  "threshold (fold auth_step es L) = threshold L" "window (fold auth_step es L) = window L"
  "backoff_base (fold auth_step es L) = backoff_base L"
  "capacity (fold auth_step es L) = capacity L"
  by (induction es arbitrary: L) simp_all

lemma throttle_spec_run [simp]:
  "throttle_spec (fold auth_step es L) now h = throttle_spec L now h"
  by (simp add: throttle_spec_def backoff_deadline_def Let_def)

section \<open>Bounded memory\<close>

definition bounded_memory :: "limiter \<Rightarrow> bool" where
  "bounded_memory L \<longleftrightarrow> length (windows L) \<le> capacity L \<and>
     (\<forall>s d. global_windows L s = Some d \<longrightarrow> length d \<le> threshold L)"

lemma length_move_to_end: "distinct (map fst d) \<Longrightarrow> length (od_move_to_end k d) = length d"
proof -
  assume dist: "distinct (map fst d)"
  have "length (od_move_to_end k d) = card (fst ` set (od_move_to_end k d))"
    using distinct_card [OF distinct_od_move_to_end [OF dist, of k]] by simp
  also have "\<dots> = length d" using distinct_card [OF dist] by (simp add: keys_move_to_end)
  finally show ?thesis .
qed

lemma auth_step_distinct:
  "distinct (map fst (windows L)) \<Longrightarrow> distinct (map fst (windows (auth_step e L)))"
  using shaped_step [of UNIV L e] by (simp add: shaped_def)

lemma auth_step_bounded:
  assumes "distinct (map fst (windows L))" and "bounded_memory L"
  shows "bounded_memory (auth_step e L)"
proof (cases e)
  case (Auth_failed u ip s)
  then show ?thesis using assms
    by (auto simp: bounded_memory_def windows_record_failure length_pop_while_longer
        rl_record_failure_def rl_record_global_def Let_def)
next
  case (Auth_ok ip s)
  then show ?thesis using assms length_od_pop_le [of "(ip, s)" "windows L"]
    by (auto simp: bounded_memory_def rl_record_success_def)
next
  case (Auth_checked u ip s)
  have "length (windows (fst (rl_retry_after u ip s L))) \<le> length (windows L)"
    using assms(1) length_od_pop_le [of "(ip, s)" "windows L"]
    by (auto simp: rl_retry_after_def Let_def length_move_to_end distinct_od_set length_od_set
        split: option.splits)
  moreover have "global_windows (fst (rl_retry_after u ip s L)) = global_windows L"
    by (simp add: rl_retry_after_def Let_def split: option.splits)
  ultimately show ?thesis using assms(2) Auth_checked
    auth_step_frame(1) [of e L] auth_step_frame(4) [of e L]
    by (auto simp: bounded_memory_def)
qed

lemma auth_run_bounded:
  "distinct (map fst (windows L)) \<Longrightarrow> bounded_memory L \<Longrightarrow> bounded_memory (fold auth_step es L)"
  by (induction es arbitrary: L) (simp_all add: auth_step_bounded auth_step_distinct)

lemma run_throttle_spec:
  assumes "in_time_order t es" and "length (failed_keys es) \<le> REGISTRY_CAPACITY"
    and "last_time t es \<le> now"
  shows "snd (rl_retry_after now ip s (fold auth_step es new_limiter)) =
    throttle_spec new_limiter now (fold (history_step (ip, s)) es [])"
  using retry_after_spec [OF represents_run_new [OF assms(1,2)] assms(3)] by simp

section \<open>Properties of the throttle\<close>

text \<open>C26: The throttle decision is the abstract one: for any time-ordered run over at most the
  registry's capacity of failing keys, retry_after answers from the failures of that key since
  its last success that are still inside the sliding window, and from nothing else.\<close>

theorem throttle_refines_history:
  assumes "in_time_order t es" and "length (failed_keys es) \<le> REGISTRY_CAPACITY"
    and "last_time t es \<le> now"
  shows "snd (rl_retry_after now ip s (fold auth_step es new_limiter)) =
    throttle_spec new_limiter now (fold (history_step (ip, s)) es [])"
  by (rule run_throttle_spec [OF assms])

theorem throttle_refines_history_witness:
  "snd (rl_retry_after 6 ''a'' ''login''
      (fold auth_step (map (\<lambda>i. Auth_failed (real i) ''a'' ''login'') [0..<6]) new_limiter))
    = Inr (Some 59)"
proof -
  let ?es = "map (\<lambda>i. Auth_failed (real i) ''a'' ''login'') [0..<6]"
  have es: "?es = [Auth_failed 0 ''a'' ''login'', Auth_failed 1 ''a'' ''login'',
      Auth_failed 2 ''a'' ''login'', Auth_failed 3 ''a'' ''login'',
      Auth_failed 4 ''a'' ''login'', Auth_failed 5 ''a'' ''login'']"
    by (simp add: upt_rec)
  show ?thesis
    by (subst throttle_refines_history [where t = 0])
      (simp_all add: es failed_keys_def REGISTRY_CAPACITY_def throttle_spec_def new_limiter_def
        WINDOW_SECONDS_def FAILURE_THRESHOLD_def BACKOFF_BASE_SECONDS_def backoff_deadline_def)
qed

text \<open>A refusal is temporary and bounded: it never exceeds the window, and once the announced
  delay has passed the same key may attempt again, whatever it did before.\<close>

theorem throttle_refusal_temporary:
  assumes "in_time_order t es" and "length (failed_keys es) \<le> REGISTRY_CAPACITY"
    and "last_time t es \<le> now"
    and "snd (rl_retry_after now ip s (fold auth_step es new_limiter)) = Inr (Some r)"
  shows "0 < r \<and> r \<le> WINDOW_SECONDS \<and>
    snd (rl_retry_after (now + r) ip s (fold auth_step es new_limiter)) = Inr None"
proof -
  let ?h = "fold (history_step (ip, s)) es []"
  let ?live = "\<lambda>u. filter (\<lambda>t. u - WINDOW_SECONDS < t) ?h"
  have tr: "sorted ?h" "\<And>x. x \<in> set ?h \<Longrightarrow> x \<le> now"
    using represents_run_new [OF assms(1,2)] assms(3)
    by (fastforce simp: represents_def tracks_def)+
  have spec: "throttle_spec new_limiter now ?h = Inr (Some r)"
    using run_throttle_spec [OF assms(1-3), of ip s] assms(4) by simp
  then have ne: "?live now \<noteq> []" and thr: "FAILURE_THRESHOLD \<le> length (?live now)"
    and ex: "length (?live now) - FAILURE_THRESHOLD < 1024" and r0: "0 < r"
    and r: "r = last (?live now)
      + min (BACKOFF_BASE_SECONDS * 2 ^ (length (?live now) - FAILURE_THRESHOLD)) WINDOW_SECONDS
      - now"
    by (auto simp: throttle_spec_def backoff_deadline_def Let_def new_limiter_def
        result_bind_eq_Inr split: if_splits)
  have last_le: "last (?live now) \<le> now" using ne tr(2) last_in_set [OF ne] by auto
  have later: "?live (now + r) = filter (\<lambda>t. now + r - WINDOW_SECONDS < t) (?live now)"
    using r0 by (auto intro: filter_cong)
  have "throttle_spec new_limiter (now + r) ?h = Inr None"
  proof (cases "?live (now + r) = [] \<or> length (?live (now + r)) < FAILURE_THRESHOLD")
    case True
    then show ?thesis by (auto simp: throttle_spec_def new_limiter_def)
  next
    case False
    have len: "length (?live (now + r)) \<le> length (?live now)"
      unfolding later by (rule length_filter_le)
    have "last (?live (now + r)) \<in> set (?live now)"
      using False last_in_set [of "?live (now + r)"] r0 by auto
    then have lst: "last (?live (now + r)) \<le> last (?live now)"
      using tr(1) by (intro le_last_in_order) (simp_all add: sorted_wrt_filter)
    have "min (BACKOFF_BASE_SECONDS * 2 ^ (length (?live (now + r)) - FAILURE_THRESHOLD))
          WINDOW_SECONDS
        \<le> min (BACKOFF_BASE_SECONDS * 2 ^ (length (?live now) - FAILURE_THRESHOLD)) WINDOW_SECONDS"
      using len by (intro min.mono mult_left_mono power_increasing)
        (auto simp: BACKOFF_BASE_SECONDS_def)
    with lst r have "last (?live (now + r)) + min (BACKOFF_BASE_SECONDS *
        2 ^ (length (?live (now + r)) - FAILURE_THRESHOLD)) WINDOW_SECONDS - (now + r) \<le> 0"
      by linarith
    then show ?thesis using False ex len
      by (simp add: throttle_spec_def backoff_deadline_def Let_def new_limiter_def)
  qed
  moreover have "snd (rl_retry_after (now + r) ip s (fold auth_step es new_limiter)) =
      throttle_spec new_limiter (now + r) ?h"
    using assms(3) r0 by (intro run_throttle_spec [OF assms(1,2)]) simp
  ultimately show ?thesis using r0 r last_le by simp
qed

theorem throttle_refusal_temporary_witness:
  "snd (rl_retry_after (0 + 30) ''a'' ''basic''
      (fold auth_step (replicate 5 (Auth_failed 0 ''a'' ''basic'')) new_limiter)) = Inr None"
proof -
  let ?es = "replicate 5 (Auth_failed 0 ''a'' ''basic'')"
  have es: "?es = [Auth_failed 0 ''a'' ''basic'', Auth_failed 0 ''a'' ''basic'',
      Auth_failed 0 ''a'' ''basic'', Auth_failed 0 ''a'' ''basic'', Auth_failed 0 ''a'' ''basic'']"
    by (simp add: eval_nat_numeral)
  have ord: "in_time_order 0 ?es" and few: "length (failed_keys ?es) \<le> REGISTRY_CAPACITY"
    and lst: "last_time 0 ?es \<le> 0"
    by (simp_all add: es failed_keys_def REGISTRY_CAPACITY_def)
  have "fold (history_step (''a'', ''basic'')) ?es [] = [0, 0, 0, 0, 0]" by (simp add: es)
  then have "throttle_spec new_limiter 0 (fold (history_step (''a'', ''basic'')) ?es []) = Inr (Some 30)"
    by (simp add: throttle_spec_def new_limiter_def WINDOW_SECONDS_def FAILURE_THRESHOLD_def
        BACKOFF_BASE_SECONDS_def backoff_deadline_def del: fold_replicate)
  then have "snd (rl_retry_after 0 ''a'' ''basic'' (fold auth_step ?es new_limiter)) = Inr (Some 30)"
    by (simp only: run_throttle_spec [OF ord few lst])
  from throttle_refusal_temporary [OF ord few lst this] show ?thesis by simp
qed

text \<open>Memory is bounded whatever the traffic: the registry never holds more keys than its
  capacity and no observation window grows past the threshold.\<close>

theorem throttle_memory_bounded:
  "length (windows (fold auth_step es new_limiter)) \<le> REGISTRY_CAPACITY \<and>
   (\<forall>s. case global_windows (fold auth_step es new_limiter) s of
      None \<Rightarrow> True | Some d \<Rightarrow> length d \<le> FAILURE_THRESHOLD)"
  using auth_run_bounded [of new_limiter es]
  by (simp add: bounded_memory_def split: option.split) (simp add: new_limiter_def)

text \<open>A burst of 1029 or more failures of one key (attempts that were all in flight before the
  first of them was counted) makes every later throttle check of that key raise OverflowError
  until the burst leaves the window, instead of refusing with a delay.\<close>

theorem burst_overflows:
  assumes "FAILURE_THRESHOLD + 1024 \<le> n" and "t \<le> now" and "now < t + WINDOW_SECONDS"
  shows "snd (rl_retry_after now ip s (fold auth_step (replicate n (Auth_failed t ip s)) new_limiter))
    = Inl OverflowError"
proof -
  let ?es = "replicate n (Auth_failed t ip s)"
  have "in_time_order t ?es" by (induction n) simp_all
  moreover have "set (failed_keys ?es) \<subseteq> {(ip, s)}" by (auto simp: failed_keys_def)
  then have "length (failed_keys ?es) \<le> card {(ip, s)}"
    using card_mono [of "{(ip, s)}" "set (failed_keys ?es)"] distinct_card [of "failed_keys ?es"]
    by (simp add: failed_keys_def)
  moreover have "last_time t ?es = t" by (induction n) simp_all
  moreover have "fold (history_step (ip, s)) ?es h = h @ replicate n t" for h
    by (induction n arbitrary: h) (simp_all add: replicate_app_Cons_same)
  then have "throttle_spec new_limiter now (fold (history_step (ip, s)) ?es []) = Inl OverflowError"
    using assms by (simp add: throttle_spec_def new_limiter_def backoff_deadline_def)
  ultimately show ?thesis
    using run_throttle_spec [of t ?es now ip s] assms(2)
    by (simp add: REGISTRY_CAPACITY_def del: fold_replicate)
qed

theorem burst_overflows_witness:
  "snd (rl_retry_after 1 ''a'' ''login''
      (fold auth_step (replicate 1029 (Auth_failed 0 ''a'' ''login'')) new_limiter))
    = Inl OverflowError"
  by (rule burst_overflows) (simp_all add: FAILURE_THRESHOLD_def WINDOW_SECONDS_def)

section \<open>Seen API-key sources\<close>

definition seen_run :: "(real \<times> string) list \<Rightarrow> seen_sources \<Rightarrow> seen_sources" where
  "seen_run obs S = fold (\<lambda>(t, ip) S. fst (seen_observe t ip S)) obs S"

definition recently_observed :: "real \<Rightarrow> string \<Rightarrow> real \<Rightarrow> (real \<times> string) list \<Rightarrow> bool" where
  "recently_observed d ip now obs \<longleftrightarrow> (\<exists>t. (t, ip) \<in> set obs \<and> now < t + d)"

text \<open>The registry after the observations \<open>obs\<close>, the last of them at \<open>u\<close> or earlier.\<close>

definition seen_inv :: "string set \<Rightarrow> real \<Rightarrow> (real \<times> string) list \<Rightarrow> seen_sources \<Rightarrow> bool" where
  "seen_inv K u obs S \<longleftrightarrow>
     distinct (map fst (seen S)) \<and> fst ` set (seen S) \<subseteq> K \<and> sorted (map snd (seen S)) \<and>
     (\<forall>(t, ip) \<in> set obs. t \<le> u) \<and>
     (\<forall>ip e. map_of (seen S) ip = Some e \<longrightarrow>
        (\<exists>t. (t, ip) \<in> set obs \<and> e = t + ttl S) \<and> (\<forall>t. (t, ip) \<in> set obs \<longrightarrow> t + ttl S \<le> e)) \<and>
     (\<forall>ip t. map_of (seen S) ip = None \<longrightarrow> (t, ip) \<in> set obs \<longrightarrow> t + ttl S \<le> u)"

lemma map_of_filter_distinct:
  "distinct (map fst d) \<Longrightarrow>
   map_of (filter P d) k = (case map_of d k of None \<Rightarrow> None | Some v \<Rightarrow> if P (k, v) then Some v else None)"
proof (induction d)
  case (Cons p d)
  obtain a b where [simp]: "p = (a, b)" by (cases p)
  have "map_of d a = None" using Cons.prems by (simp add: map_of_eq_None_iff)
  with Cons show ?case by (auto split: option.splits)
qed simp

lemma seen_prune_lookup:
  assumes "distinct (map fst d)" and "sorted (map snd d)"
  shows "map_of (seen_prune now d) ip =
    (case map_of d ip of None \<Rightarrow> None | Some e \<Rightarrow> if now < e then Some e else None)"
  using seen_window.prune_in_order [OF assms(2), of now] map_of_filter_distinct [OF assms(1)]
  by (simp split: option.splits)

lemma seen_fresh:
  assumes "seen_inv K u obs S" and "u \<le> now"
  shows "snd (seen_observe now ip S) \<longleftrightarrow> \<not> recently_observed (ttl S) ip now obs"
proof -
  have d: "distinct (map fst (seen S))" "sorted (map snd (seen S))"
    using assms(1) by (auto simp: seen_inv_def)
  show ?thesis
  proof (cases "map_of (seen S) ip")
    case None
    with assms have "(t, ip) \<in> set obs \<Longrightarrow> t + ttl S \<le> now" for t
      by (force simp: seen_inv_def)
    with None show ?thesis
      by (force simp: seen_observe_def Let_def seen_prune_lookup [OF d] recently_observed_def)
  next
    case (Some e)
    with assms(1) have "\<exists>t. (t, ip) \<in> set obs \<and> e = t + ttl S"
      "\<And>t. (t, ip) \<in> set obs \<Longrightarrow> t + ttl S \<le> e"
      by (auto simp: seen_inv_def)
    with Some show ?thesis
      by (force simp: seen_observe_def Let_def seen_prune_lookup [OF d] recently_observed_def)
  qed
qed

lemma seen_observe_inv:
  assumes inv: "seen_inv K u obs S" and "u \<le> now" and "ip \<in> K" and "finite K"
    and "card K \<le> seen_capacity S"
  shows "seen_inv K now (obs @ [(now, ip)]) (fst (seen_observe now ip S))"
proof -
  define d where "d = seen_prune now (seen S)"
  define d' where "d' = od_move_to_end ip (od_set ip (now + ttl S) d)"
  have S: "distinct (map fst (seen S))" "sorted (map snd (seen S))" "fst ` set (seen S) \<subseteq> K"
    using inv by (auto simp: seen_inv_def)
  have look: "map_of d k = (case map_of (seen S) k of None \<Rightarrow> None
      | Some e \<Rightarrow> if now < e then Some e else None)" for k
    unfolding d_def by (rule seen_prune_lookup [OF S(1,2)])
  have d: "d = filter (\<lambda>p. now < snd p) (seen S)"
    using seen_window.prune_in_order [OF S(2), of now] by (simp add: d_def)
  have dd: "distinct (map fst d)" "fst ` set d \<subseteq> K" using S by (auto simp: d distinct_map_filter)
  have dK: "distinct (map fst d')" "fst ` set d' \<subseteq> K"
    using dd assms(3) by (auto simp: d'_def od_distinct keys_move_to_end keys_od_set)
  then have "length d' \<le> seen_capacity S"
    using length_distinct_keys [OF dK assms(4)] assms(5) by simp
  then have S': "fst (seen_observe now ip S) = S\<lparr>seen := d'\<rparr>"
    by (simp add: seen_observe_def Let_def d'_def d_def pop_while_longer_short)
  have look': "map_of d' k = (if k = ip then Some (now + ttl S) else map_of d k)" for k
    by (simp add: d'_def od_lookup)
  have old: "e \<le> now + ttl S" if "(k, e) \<in> set d" for k e
  proof -
    from that S(1) have "map_of (seen S) k = Some e" by (auto simp: d)
    then obtain t where "(t, k) \<in> set obs" "e = t + ttl S"
      using inv unfolding seen_inv_def by blast
    with inv assms(2) show ?thesis by (fastforce simp: seen_inv_def)
  qed
  have pop: "od_pop ip (od_set ip v d) = od_pop ip d" for v
    by (induction d) (auto simp: od_pop_def)
  have d'_eq: "d' = od_pop ip d @ [(ip, now + ttl S)]"
    by (simp add: d'_def od_move_to_end_def map_of_od_set pop)
  have "sorted (map snd d)" using S(2) by (simp add: d sorted_filter)
  then have "sorted (map snd d')"
    using old by (auto simp: d'_eq od_pop_def sorted_append sorted_filter)
  moreover have "\<forall>(t, k) \<in> set (obs @ [(now, ip)]). t \<le> now"
    using inv assms(2) by (fastforce simp: seen_inv_def)
  moreover have "(\<exists>t. (t, k) \<in> set (obs @ [(now, ip)]) \<and> e = t + ttl S) \<and>
      (\<forall>t. (t, k) \<in> set (obs @ [(now, ip)]) \<longrightarrow> t + ttl S \<le> e)"
    if "map_of d' k = Some e" for k e
    using that inv assms(2)
    by (fastforce simp: seen_inv_def look' look split: if_splits option.splits)
  moreover have "t + ttl S \<le> now" if "map_of d' k = None" "(t, k) \<in> set (obs @ [(now, ip)])" for k t
    using that inv assms(2)
    by (fastforce simp: seen_inv_def look' look split: if_splits option.splits)
  ultimately show ?thesis using dK by (simp add: seen_inv_def S')
qed

definition new_seen :: "real \<Rightarrow> nat \<Rightarrow> seen_sources" where
  "new_seen d c = \<lparr>ttl = d, seen_capacity = c, seen = []\<rparr>"

lemma seen_run_snoc:
  "seen_run (obs @ [(t, ip)]) S = fst (seen_observe t ip (seen_run obs S))"
  by (simp add: seen_run_def)

lemma seen_observe_frame [simp]:
  "ttl (fst (seen_observe t ip S)) = ttl S"
  "seen_capacity (fst (seen_observe t ip S)) = seen_capacity S"
  by (simp_all add: seen_observe_def Let_def)

lemma seen_inv_later:
  assumes "seen_inv K t obs S" and "t \<le> u"
  shows "seen_inv K u obs S"
proof -
  have "\<forall>(v, i) \<in> set obs. v \<le> u"
    using assms by (fastforce simp: seen_inv_def)
  moreover have "v + ttl S \<le> u" if "map_of (seen S) i = None" "(v, i) \<in> set obs" for i v
    using assms that order_trans [of "v + ttl S" t u] unfolding seen_inv_def by blast
  ultimately show ?thesis using assms(1) unfolding seen_inv_def by blast
qed

lemma seen_run_inv:
  assumes "sorted (map fst obs)" and "snd ` set obs \<subseteq> K" and "finite K" and "card K \<le> c"
    and "\<forall>(t, ip) \<in> set obs. t \<le> u"
  shows "seen_inv K u obs (seen_run obs (new_seen d c)) \<and>
    ttl (seen_run obs (new_seen d c)) = d \<and> seen_capacity (seen_run obs (new_seen d c)) = c"
  using assms
proof (induction obs arbitrary: u rule: rev_induct)
  case Nil
  then show ?case by (simp add: seen_run_def seen_inv_def new_seen_def)
next
  case (snoc x obs)
  obtain t ip where x: "x = (t, ip)" by (cases x)
  have before: "\<forall>(v, i) \<in> set obs. v \<le> t"
    using snoc.prems(1) by (auto simp: x sorted_append)
  have ih: "seen_inv K t obs (seen_run obs (new_seen d c))"
    "ttl (seen_run obs (new_seen d c)) = d" "seen_capacity (seen_run obs (new_seen d c)) = c"
    using snoc.IH [of t] snoc.prems before by (auto simp: sorted_append)
  have "seen_inv K t (obs @ [x]) (seen_run (obs @ [x]) (new_seen d c))"
    unfolding x seen_run_snoc
    using ih snoc.prems by (intro seen_observe_inv) (auto simp: x)
  moreover have "t \<le> u" using snoc.prems(5) x by simp
  ultimately have "seen_inv K u (obs @ [x]) (seen_run (obs @ [x]) (new_seen d c))"
    by (rule seen_inv_later)
  then show ?case using ih by (simp add: x seen_run_snoc)
qed

text \<open>Within the registry's capacity, observing a key use reports the source as new exactly
  when no use from that address happened inside the last time-to-live, whatever was observed
  in between: one audit event per source per window.\<close>

theorem seen_source_once_per_window:
  assumes "sorted (map fst obs)" and "\<forall>(t, i) \<in> set obs. t \<le> now"
    and "length (remdups (map snd obs)) \<le> c"
  shows "snd (seen_observe now ip (seen_run obs (new_seen d c)))
    \<longleftrightarrow> \<not> recently_observed d ip now obs"
proof -
  let ?K = "snd ` set obs"
  have "card ?K \<le> c" using assms(3) by (simp add: length_remdups_card_conv)
  then show ?thesis
    using seen_run_inv [OF assms(1) subset_refl _ _ assms(2), of c d] seen_fresh by fastforce
qed

theorem seen_source_once_per_window_witness:
  "\<not> snd (seen_observe 800 ''b'' (seen_run [(0, ''a''), (10, ''b'')] (new_seen 900 1024)))"
  by (subst seen_source_once_per_window) (auto simp: recently_observed_def)

end
