(* ===== verification/Sessions.thy ===== *)
theory Sessions
  imports Prelude
begin

text \<open>
  Login sessions (\<open>auth/sessions.py\<close>, the row of \<open>auth/models.py\<close>).

  The table is the state; the token digest (SHA-256) is the argument \<open>digest\<close>, fresh tokens come
  from outside. \<open>authenticate\<close> is two sessions, a read and a throttled write, and any other
  operation may run between them: \<open>session_step\<close> has the write as a step of its own, with
  whatever a stale read left it. The empty token, which every operation refuses, is the empty string.
\<close>

section \<open>Operations\<close>

datatype session_tier = Session_tier | Remember_tier

record session_row =
  ss_digest :: string
  ss_principal :: int
  ss_tier :: session_tier
  ss_created_at :: datetime
  ss_last_seen_at :: datetime
  ss_expires_at :: datetime

record session_settings =
  session_timeout_seconds :: int
  remember_timeout_seconds :: int

definition TOUCH_THROTTLE_SECONDS :: int where "TOUCH_THROTTLE_SECONDS = 60"

definition tier_seconds :: "session_tier \<Rightarrow> session_settings \<Rightarrow> int" where
  "tier_seconds tier st =
     (case tier of Remember_tier \<Rightarrow> remember_timeout_seconds st | Session_tier \<Rightarrow> session_timeout_seconds st)"

type_synonym session_table = "session_row list"

definition create_session ::
  "(string \<Rightarrow> string) \<Rightarrow> session_settings \<Rightarrow> string \<Rightarrow> int \<Rightarrow> session_tier \<Rightarrow> datetime \<Rightarrow> session_table \<Rightarrow> session_table" where
  "create_session digest st token who tier now t =
     t @ [\<lparr>ss_digest = digest token, ss_principal = who, ss_tier = tier, ss_created_at = now,
           ss_last_seen_at = now, ss_expires_at = now + seconds (tier_seconds tier st)\<rparr>]"

text \<open>The read of \<open>authenticate\<close>: the live row of the token.\<close>

definition session_lookup :: "(string \<Rightarrow> string) \<Rightarrow> string \<Rightarrow> datetime \<Rightarrow> session_table \<Rightarrow> session_row option" where
  "session_lookup digest token now t =
     (if token = [] then None
      else
        (case row_get ss_digest (digest token) t of
           None \<Rightarrow> None
         | Some r \<Rightarrow> if ss_expires_at r \<le> now then None else Some r))"

definition touch_due :: "datetime \<Rightarrow> session_row \<Rightarrow> bool" where
  "touch_due now r \<longleftrightarrow> seconds TOUCH_THROTTLE_SECONDS \<le> now - ss_last_seen_at r"

text \<open>Its write: the row is read again, and only a live one slides.\<close>

definition session_touch :: "string \<Rightarrow> datetime \<Rightarrow> datetime \<Rightarrow> session_table \<Rightarrow> session_table" where
  "session_touch dg now new_expiry t =
     (case row_get ss_digest dg t of
        None \<Rightarrow> t
      | Some r \<Rightarrow>
          if now < ss_expires_at r then row_put ss_digest (r\<lparr>ss_last_seen_at := now, ss_expires_at := new_expiry\<rparr>) t
          else t)"

definition authenticate ::
  "(string \<Rightarrow> string) \<Rightarrow> session_settings \<Rightarrow> string \<Rightarrow> datetime \<Rightarrow> session_table \<Rightarrow>
   session_table \<times> (int \<times> session_tier) option" where
  "authenticate digest st token now t =
     (case session_lookup digest token now t of
        None \<Rightarrow> (t, None)
      | Some r \<Rightarrow>
          (if touch_due now r
           then session_touch (digest token) now (now + seconds (tier_seconds (ss_tier r) st)) t else t,
           Some (ss_principal r, ss_tier r)))"

definition logout :: "(string \<Rightarrow> string) \<Rightarrow> string \<Rightarrow> session_table \<Rightarrow> session_table \<times> bool" where
  "logout digest token t =
     (if token = [] then (t, False)
      else (row_del ss_digest (digest token) t, row_get ss_digest (digest token) t \<noteq> None))"

definition invalidate_all :: "int \<Rightarrow> session_table \<Rightarrow> session_table" where
  "invalidate_all who t = filter (\<lambda>r. ss_principal r \<noteq> who) t"

definition invalidate_others :: "(string \<Rightarrow> string) \<Rightarrow> int \<Rightarrow> string \<Rightarrow> session_table \<Rightarrow> session_table" where
  "invalidate_others digest who acting t =
     filter (\<lambda>r. \<not> (ss_principal r = who \<and> (acting = [] \<or> ss_digest r \<noteq> digest acting))) t"

definition prune_expired_sessions :: "datetime \<Rightarrow> session_table \<Rightarrow> session_table \<times> nat" where
  "prune_expired_sessions now t =
     (let kept = filter (\<lambda>r. \<not> ss_expires_at r \<le> now) t in (kept, length t - length kept))"

interpretation session_store: keyed_store ss_digest "row_get ss_digest" "row_put ss_digest" "row_del ss_digest"
  "unique_key ss_digest"
  by (rule keyed_store_rows)

section \<open>Concurrent requests\<close>

text \<open>
  One write of any request. A touch carries the digest and expiry of some earlier read, which
  may be out of date by now.
\<close>

inductive session_step :: "(string \<Rightarrow> string) \<Rightarrow> session_settings \<Rightarrow> string set \<Rightarrow> session_table \<Rightarrow> session_table \<Rightarrow> bool"
  for digest :: "string \<Rightarrow> string" and st :: session_settings and minted :: "string set" where
  step_create: "token \<in> minted \<Longrightarrow> session_step digest st minted t (create_session digest st token p tier now t)"
| step_touch: "session_step digest st minted t (session_touch dg now new_expiry t)"
| step_logout: "session_step digest st minted t (fst (logout digest token t))"
| step_invalidate_all: "session_step digest st minted t (invalidate_all p t)"
| step_invalidate_others: "session_step digest st minted t (invalidate_others digest p acting t)"
| step_prune: "session_step digest st minted t (fst (prune_expired_sessions now t))"

inductive_cases session_stepE: "session_step digest st minted t t'"

lemma digests_touch: "ss_digest ` set (session_touch dg now e t) = ss_digest ` set t"
proof (cases "row_get ss_digest dg t")
  case (Some r)
  then have "ss_digest r \<in> ss_digest ` set t" by (auto dest: row_get_SomeD)
  then show ?thesis using Some by (auto simp: session_touch_def keys_row_put)
qed (simp add: session_touch_def)

lemma session_step_digests:
  "session_step digest st minted t t' \<Longrightarrow> ss_digest ` set t' \<subseteq> ss_digest ` set t \<union> digest ` minted"
  by (induction rule: session_step.induct)
    (auto simp: create_session_def digests_touch logout_def invalidate_all_def invalidate_others_def
      prune_expired_sessions_def Let_def)

lemma session_steps_digests:
  assumes "(session_step digest st minted)\<^sup>*\<^sup>* t t'"
  shows "ss_digest ` set t' \<subseteq> ss_digest ` set t \<union> digest ` minted"
  using assms
proof (induction rule: rtranclp_induct)
  case (step t1 t2)
  from session_step_digests [OF step.hyps(2)] step.IH show ?case by (meson Un_upper2 le_sup_iff order_trans)
qed simp

text \<open>After a logout no interleaving of other requests, late sliding writes of the same session included,
  ever makes the token valid again, as long as no newly minted token has its digest.\<close>

lemma logged_out_token:
  assumes "(session_step digest st minted)\<^sup>*\<^sup>* (fst (logout digest token t)) t'"
    and "digest token \<notin> digest ` minted"
  shows "snd (authenticate digest st token now t') = None"
proof (cases "token = []")
  case True
  then show ?thesis by (simp add: authenticate_def session_lookup_def)
next
  case False
  then have "digest token \<notin> ss_digest ` set (fst (logout digest token t))"
    by (auto simp: logout_def)
  then have "digest token \<notin> ss_digest ` set t'"
    using session_steps_digests [OF assms(1)] assms(2) by blast
  then show ?thesis
    by (simp add: authenticate_def session_lookup_def row_get_None [THEN iffD2])
qed

section \<open>Sliding expiry\<close>

fun authenticated_all ::
  "(string \<Rightarrow> string) \<Rightarrow> session_settings \<Rightarrow> string \<Rightarrow> datetime list \<Rightarrow> session_table \<Rightarrow> session_table \<times> bool" where
  "authenticated_all digest st token [] t = (t, True)"
| "authenticated_all digest st token (now # ts) t =
     (case authenticate digest st token now t of
        (t', None) \<Rightarrow> (t', False)
      | (t', Some _) \<Rightarrow> authenticated_all digest st token ts t')"

fun gaps_within :: "datetime \<Rightarrow> int \<Rightarrow> datetime list \<Rightarrow> bool" where
  "gaps_within a g [] = True"
| "gaps_within a g (n # ns) = (a \<le> n \<and> n < a + g \<and> gaps_within n g ns)"

text \<open>
  A live row after a use at \<open>a\<close>: its last write is less than the throttle old, and its expiry is a
  full timeout after that write.
\<close>

definition live_at :: "session_settings \<Rightarrow> string \<Rightarrow> datetime \<Rightarrow> int \<Rightarrow> session_tier \<Rightarrow> session_table \<Rightarrow> bool" where
  "live_at st dg a p tier t \<longleftrightarrow>
     (case row_get ss_digest dg t of
        None \<Rightarrow> False
      | Some r \<Rightarrow> ss_principal r = p \<and> ss_tier r = tier \<and> ss_last_seen_at r \<le> a \<and>
          a < ss_last_seen_at r + seconds TOUCH_THROTTLE_SECONDS \<and>
          ss_expires_at r = ss_last_seen_at r + seconds (tier_seconds tier st))"

lemma live_created:
  assumes "row_get ss_digest (digest token) t = None"
  shows "live_at st (digest token) now p tier (create_session digest st token p tier now t)"
proof -
  have "row_get ss_digest (digest token) (t @ xs) = row_get ss_digest (digest token) xs" for xs
    using assms by (induction t) (auto split: if_splits)
  then show ?thesis
    by (simp add: live_at_def create_session_def TOUCH_THROTTLE_SECONDS_def seconds_def us_per_second_def)
qed

lemma live_authenticate:
  assumes live: "live_at st (digest token) a p tier t" and "token \<noteq> []"
    and n: "a \<le> n" "n < a + seconds (tier_seconds tier st - TOUCH_THROTTLE_SECONDS)"
  shows "\<exists>t'. authenticate digest st token n t = (t', Some (p, tier)) \<and> live_at st (digest token) n p tier t'"
proof -
  obtain r where r: "row_get ss_digest (digest token) t = Some r"
    and f: "ss_principal r = p" "ss_tier r = tier" "ss_last_seen_at r \<le> a"
      "a < ss_last_seen_at r + seconds TOUCH_THROTTLE_SECONDS"
      "ss_expires_at r = ss_last_seen_at r + seconds (tier_seconds tier st)"
    using live by (auto simp: live_at_def split: option.splits)
  have e: "n < ss_expires_at r"
    using n f by (simp add: seconds_def algebra_simps)
  then have l: "session_lookup digest token n t = Some r"
    using r assms(2) by (simp add: session_lookup_def)
  have dg: "ss_digest r = digest token" using r by (auto dest: row_get_SomeD)
  show ?thesis
  proof (cases "touch_due n r")
    case True
    then show ?thesis
      using r e f dg by (simp add: authenticate_def l session_touch_def live_at_def session_store.get_put
          TOUCH_THROTTLE_SECONDS_def seconds_def us_per_second_def)
  next
    case False
    then show ?thesis
      using r f n by (simp add: authenticate_def l live_at_def touch_due_def)
  qed
qed

text \<open>A session slides: a new session used at intervals shorter than its timeout less the write
  throttle is accepted every time, however long it lasts, and after its last use it is refused
  once the full timeout has passed.\<close>

theorem active_session_survives:
  assumes "row_get ss_digest (digest token) t = None" and "token \<noteq> []"
    and "gaps_within t0 (seconds (tier_seconds tier st - TOUCH_THROTTLE_SECONDS)) uses"
    and "last (t0 # uses) + seconds (tier_seconds tier st) \<le> late"
  shows "case authenticated_all digest st token uses (create_session digest st token p tier t0 t) of
      (t', ok) \<Rightarrow> ok \<and> snd (authenticate digest st token late t') = None"
proof -
  let ?g = "seconds (tier_seconds tier st - TOUCH_THROTTLE_SECONDS)"
  have step: "\<exists>t'. authenticated_all digest st token uses t1 = (t', True) \<and>
      live_at st (digest token) (last (a # uses)) p tier t'"
    if "live_at st (digest token) a p tier t1" "gaps_within a ?g uses" for a t1 uses
    using that
  proof (induction uses arbitrary: a t1)
    case (Cons n ns)
    from live_authenticate [where digest = digest and token = token, OF Cons.prems(1) assms(2)] Cons.prems(2) obtain t2
      where "authenticate digest st token n t1 = (t2, Some (p, tier))" and "live_at st (digest token) n p tier t2"
      by auto
    with Cons.IH [of n t2] Cons.prems(2) show ?case by simp
  qed simp
  from step [OF live_created [where digest = digest and token = token, OF assms(1)] assms(3)] obtain t'
    where a: "authenticated_all digest st token uses (create_session digest st token p tier t0 t) = (t', True)"
      and l: "live_at st (digest token) (last (t0 # uses)) p tier t'" by blast
  from l obtain r where "row_get ss_digest (digest token) t' = Some r" and "ss_expires_at r \<le> late"
    using assms(4) by (auto simp: live_at_def split: option.splits)
  then have "snd (authenticate digest st token late t') = None"
    by (simp add: authenticate_def session_lookup_def)
  with a show ?thesis by simp
qed

lemma active_session_survives_witness:
  "case authenticated_all id \<lparr>session_timeout_seconds = 100, remember_timeout_seconds = 1000\<rparr> ''tok''
     [30000000, 65000000, 100000000]
     (create_session id \<lparr>session_timeout_seconds = 100, remember_timeout_seconds = 1000\<rparr> ''tok'' 1 Session_tier 0 []) of
     (t', ok) \<Rightarrow> ok \<and> snd (authenticate id \<lparr>session_timeout_seconds = 100, remember_timeout_seconds = 1000\<rparr> ''tok''
       200000000 t') = None"
  by (rule active_session_survives)
    (simp_all add: tier_seconds_def TOUCH_THROTTLE_SECONDS_def seconds_def us_per_second_def)

text \<open>A password change ends every other session of the account and no other's.\<close>

lemma invalidate_others_keeps:
  assumes "acting \<noteq> []"
  shows "filter (\<lambda>r. ss_principal r = p) (invalidate_others digest p acting t) =
      filter (\<lambda>r. ss_principal r = p \<and> ss_digest r = digest acting) t \<and>
    filter (\<lambda>r. ss_principal r \<noteq> p) (invalidate_others digest p acting t) = filter (\<lambda>r. ss_principal r \<noteq> p) t"
  using assms by (auto simp: invalidate_others_def intro: filter_cong)

end
