(* ===== verification/Credentials.thy ===== *)
theory Credentials
  imports Text Safe_Paths
begin

text \<open>
  Stored password hashes (\<open>auth/passwords.py\<close>) and the audit line of the authentication events
  (\<open>auth/audit.py\<close>). The key derivation and base64 are arguments; \<open>None\<close> is an exception of
  theirs. Bytes are characters.
\<close>

unbundle bit_operations_syntax

section \<open>Password hashes\<close>

record kdf =
  kd_derive :: "string \<Rightarrow> string \<Rightarrow> int \<Rightarrow> int \<Rightarrow> int \<Rightarrow> string option"
  kd_b64e :: "string \<Rightarrow> string"
  kd_b64d :: "string \<Rightarrow> string option"

definition SCRYPT_N :: int where "SCRYPT_N = 2 ^ 17"
definition SCRYPT_R :: int where "SCRYPT_R = 8"
definition SCRYPT_P :: int where "SCRYPT_P = 1"
definition SCHEME :: string where "SCHEME = ''scrypt''"

abbreviation dollar :: char where "dollar \<equiv> CHR ''$''"

definition hash_password :: "kdf \<Rightarrow> string \<Rightarrow> string \<Rightarrow> string option" where
  "hash_password K salt password =
     (case kd_derive K password salt SCRYPT_N SCRYPT_R SCRYPT_P of
        None \<Rightarrow> None
      | Some key \<Rightarrow> Some (str_join [dollar]
          [SCHEME, show_int SCRYPT_N, show_int SCRYPT_R, show_int SCRYPT_P, kd_b64e K salt, kd_b64e K key]))"

text \<open>The fields of a stored hash; a malformed one has none.\<close>

definition stored_profile :: "kdf \<Rightarrow> string \<Rightarrow> (int \<times> int \<times> int \<times> string \<times> string) option" where
  "stored_profile K stored =
     (case split_on dollar stored of
        [scheme, n_s, r_s, p_s, salt_b64, hash_b64] \<Rightarrow>
          if scheme \<noteq> SCHEME then None
          else (case (py_int n_s, py_int r_s, py_int p_s) of
                  (Some n, Some r, Some p) \<Rightarrow>
                    (if \<not> is_ascii salt_b64 \<or> \<not> is_ascii hash_b64 then None
                     else case (kd_b64d K salt_b64, kd_b64d K hash_b64) of
                            (Some salt, Some expected) \<Rightarrow> Some (n, r, p, salt, expected)
                          | _ \<Rightarrow> None)
                | _ \<Rightarrow> None)
      | _ \<Rightarrow> None)"

definition verify_password :: "kdf \<Rightarrow> string \<Rightarrow> string \<Rightarrow> bool" where
  "verify_password K password stored =
     (case stored_profile K stored of
        None \<Rightarrow> False
      | Some (n, r, p, salt, expected) \<Rightarrow>
          if n \<le> 1 \<or> n AND (n - 1) \<noteq> 0 \<or> r \<le> 0 \<or> p \<le> 0 \<or> length expected = 0 then False
          else (case kd_derive K password salt n r p of
                  None \<Rightarrow> False
                | Some candidate \<Rightarrow> candidate = expected))"

text \<open>Base64 as the hashes need it: a round trip over the dollar-free ASCII alphabet.\<close>

definition base64_ok :: "kdf \<Rightarrow> bool" where
  "base64_ok K \<longleftrightarrow> (\<forall>x. kd_b64d K (kd_b64e K x) = Some x \<and> dollar \<notin> set (kd_b64e K x) \<and> is_ascii (kd_b64e K x))"

lemma split_six:
  assumes "list_all (\<lambda>x. dollar \<notin> set x) [a, b, c, d, e, f]"
  shows "split_on dollar (str_join [dollar] [a, b, c, d, e, f]) = [a, b, c, d, e, f]"
  using assms by (simp add: str_join_def split_on_Cons split_on_no)

lemma show_scrypt:
  "show_int SCRYPT_N = ''131072''" "show_int SCRYPT_R = ''8''" "show_int SCRYPT_P = ''1''"
  by (simp_all add: SCRYPT_N_def SCRYPT_R_def SCRYPT_P_def show_int_def show_nat.simps digit_char_def char_of_def
      bit_Suc_0_iff)

lemma int_scrypt:
  "py_int ''131072'' = Some SCRYPT_N" "py_int ''8'' = Some SCRYPT_R" "py_int ''1'' = Some SCRYPT_P"
  unfolding SCRYPT_N_def SCRYPT_R_def SCRYPT_P_def
  by (simp_all add: py_int_def strip_def is_space_def is_digit_def code_def)

lemma power_of_two: "SCRYPT_N AND (SCRYPT_N - 1) = 0"
  by (simp add: SCRYPT_N_def)

lemma verify_hashed:
  assumes "base64_ok K" and "hash_password K salt password = Some stored"
    and "\<forall>k. kd_derive K password salt SCRYPT_N SCRYPT_R SCRYPT_P = Some k \<longrightarrow> k \<noteq> []"
  shows "verify_password K attempt stored \<longleftrightarrow>
    kd_derive K attempt salt SCRYPT_N SCRYPT_R SCRYPT_P = kd_derive K password salt SCRYPT_N SCRYPT_R SCRYPT_P"
proof -
  obtain key where key: "kd_derive K password salt SCRYPT_N SCRYPT_R SCRYPT_P = Some key"
    and stored: "stored = str_join [dollar]
      [SCHEME, ''131072'', ''8'', ''1'', kd_b64e K salt, kd_b64e K key]"
    using assms(2) by (auto simp: hash_password_def show_scrypt split: option.splits)
  have "stored_profile K stored = Some (SCRYPT_N, SCRYPT_R, SCRYPT_P, salt, key)"
    using assms(1) by (simp add: stored split_six SCHEME_def base64_ok_def stored_profile_def int_scrypt)
  then show ?thesis
    using assms(3) key
    by (auto simp: verify_password_def power_of_two SCRYPT_R_def SCRYPT_P_def split: option.splits)
      (simp_all add: SCRYPT_N_def)
qed

text \<open>A stored hash verifies exactly the passwords that derive the same key from its salt: writing and
  checking a hash are inverse, whatever the salt.\<close>

theorem hash_verifies_its_password:
  assumes "base64_ok K" and "hash_password K salt password = Some stored"
    and "\<forall>k. kd_derive K password salt SCRYPT_N SCRYPT_R SCRYPT_P = Some k \<longrightarrow> k \<noteq> []"
  shows "verify_password K attempt stored \<longleftrightarrow>
    kd_derive K attempt salt SCRYPT_N SCRYPT_R SCRYPT_P = kd_derive K password salt SCRYPT_N SCRYPT_R SCRYPT_P"
  using assms by (rule verify_hashed)

section \<open>The audit line\<close>

definition MAX_FIELD_LENGTH :: nat where "MAX_FIELD_LENGTH = 64"

text \<open>\<open>str.isprintable\<close> on Latin-1.\<close>

definition is_printable :: "char \<Rightarrow> bool" where
  "is_printable c \<longleftrightarrow> 32 \<le> code c \<and> code c \<le> 126 \<or> 161 \<le> code c \<and> code c \<noteq> 173"

definition sanitize :: "string \<Rightarrow> string" where
  "sanitize s = take MAX_FIELD_LENGTH (filter (\<lambda>c. is_printable c \<or> c = CHR '' '') s)"

definition replace_char :: "char \<Rightarrow> string \<Rightarrow> string \<Rightarrow> string" where
  "replace_char c t s = concat (map (\<lambda>x. if x = c then t else [x]) s)"

datatype audit_value = Text_value string | Plain_value string

abbreviation quote :: char where "quote \<equiv> CHR 0x22"
abbreviation bslash :: char where "bslash \<equiv> CHR 0x5C"

definition audit_field :: "string \<Rightarrow> audit_value \<Rightarrow> string" where
  "audit_field key v =
     (case v of
        Plain_value s \<Rightarrow> key @ ''='' @ s
      | Text_value s \<Rightarrow>
          (let rendered = sanitize s
           in if list_ex (\<lambda>c. c \<in> {CHR '' '', CHR ''='', quote}) rendered then
                key @ ''='' @ [quote]
                  @ replace_char quote [bslash, quote] (replace_char bslash [bslash, bslash] rendered) @ [quote]
              else key @ ''='' @ rendered))"

definition audit_line :: "string \<Rightarrow> string \<Rightarrow> string option \<Rightarrow> (string \<times> audit_value) list \<Rightarrow> string" where
  "audit_line event ip surface values =
     event @ '' '' @ str_join '' ''
       (((''ip='' @ ip) # (case surface of None \<Rightarrow> [] | Some x \<Rightarrow> [''surface='' @ x]))
        @ map (\<lambda>(k, v). audit_field k v) values)"

text \<open>A reader of such lines: \<open>key=value\<close> tokens between spaces, a quoted value up to its closing quote.\<close>

fun read_quoted :: "string \<Rightarrow> (string \<times> string) option" where
  "read_quoted [] = None"
| "read_quoted (c # cs) =
     (if c = quote then Some ([], cs)
      else if c = bslash then
        (case cs of [] \<Rightarrow> None | d # ds \<Rightarrow> map_option (apfst ((#) d)) (read_quoted ds))
      else map_option (apfst ((#) c)) (read_quoted cs))"

lemma read_quoted_shorter: "read_quoted s = Some (v, r) \<Longrightarrow> length r < length s"
proof (induction s arbitrary: v rule: read_quoted.induct)
  case (2 c cs)
  then show ?case by (cases cs) (fastforce split: if_splits)+
qed simp

definition value_of_token :: "string \<Rightarrow> (string \<times> string) option" where
  "value_of_token r =
     (case r of
        c # q \<Rightarrow> if c = quote then read_quoted q
                 else Some (takeWhile (\<lambda>x. x \<noteq> CHR '' '') r, dropWhile (\<lambda>x. x \<noteq> CHR '' '') r)
      | [] \<Rightarrow> Some ([], []))"

lemma value_of_token_shorter: "value_of_token r = Some (v, rest) \<Longrightarrow> length rest \<le> length r"
  using read_quoted_shorter
  by (fastforce simp: value_of_token_def length_dropWhile_le le_SucI split: list.splits if_splits)

function read_fields :: "string \<Rightarrow> (string \<times> string) list option" where
  "read_fields s =
     (if s = [] then Some []
      else case value_of_token (drop 1 (dropWhile (\<lambda>x. x \<noteq> CHR ''='') s)) of
             None \<Rightarrow> None
           | Some (v, rest) \<Rightarrow>
               map_option ((#) (takeWhile (\<lambda>x. x \<noteq> CHR ''='') s, v)) (read_fields (drop 1 rest)))"
  by pat_completeness auto
termination
proof (relation "measure length")
  fix s x v rest
  assume "s \<noteq> []" and "value_of_token (drop 1 (dropWhile (\<lambda>x. x \<noteq> CHR ''='') s)) = Some x" and "(v, rest) = x"
  then have "length rest \<le> length (drop 1 (dropWhile (\<lambda>x. x \<noteq> CHR ''='') s))"
    using value_of_token_shorter by metis
  then show "(drop 1 rest, s) \<in> measure length"
    using \<open>s \<noteq> []\<close> length_dropWhile_le [of "\<lambda>x. x \<noteq> CHR ''=''" s] by (cases s) auto
qed simp

declare read_fields.simps [simp del]

text \<open>What the reader should find for a logged value.\<close>

definition shown_value :: "audit_value \<Rightarrow> string" where
  "shown_value v = (case v of Plain_value s \<Rightarrow> s | Text_value s \<Rightarrow> sanitize s)"

definition bare :: "string \<Rightarrow> bool" where
  "bare s \<longleftrightarrow> CHR '' '' \<notin> set s \<and> (s = [] \<or> hd s \<noteq> quote)"

text \<open>A plain value (a count, a boolean) never needs quotes.\<close>

definition loggable :: "string \<times> audit_value \<Rightarrow> bool" where
  "loggable p \<longleftrightarrow> CHR ''='' \<notin> set (fst p) \<and> (case snd p of Plain_value s \<Rightarrow> bare s | Text_value s \<Rightarrow> True)"

abbreviation at_gap :: "string \<Rightarrow> bool" where
  "at_gap r \<equiv> r = [] \<or> hd r = CHR '' ''"

lemma escaped_chars:
  "replace_char quote [bslash, quote] (replace_char bslash [bslash, bslash] (c # s)) =
     (if c = quote \<or> c = bslash then [bslash, c] else [c])
       @ replace_char quote [bslash, quote] (replace_char bslash [bslash, bslash] s)"
  by (simp add: replace_char_def)

lemma read_quoted_escaped:
  "read_quoted (replace_char quote [bslash, quote] (replace_char bslash [bslash, bslash] s) @ quote # r) = Some (s, r)"
proof (induction s)
  case Nil
  then show ?case by (simp add: replace_char_def)
next
  case (Cons c s)
  then show ?case by (simp add: escaped_chars)
qed

lemma value_of_bare: "bare s \<Longrightarrow> at_gap r \<Longrightarrow> value_of_token (s @ r) = Some (s, r)"
proof -
  assume s: "bare s" and r: "at_gap r"
  have w: "takeWhile (\<lambda>x. x \<noteq> CHR '' '') (s @ r) = s" "dropWhile (\<lambda>x. x \<noteq> CHR '' '') (s @ r) = r"
    using s r by (cases r; auto simp: bare_def takeWhile_append dropWhile_append)+
  show ?thesis
    using s r w by (cases s; cases r) (auto simp: value_of_token_def bare_def)
qed

lemma audit_field_token:
  assumes "loggable (k, v)" and "at_gap r"
  obtains e where "audit_field k v = k @ CHR ''='' # e" and "value_of_token (e @ r) = Some (shown_value v, r)"
proof (cases v)
  case (Plain_value s)
  with assms show ?thesis by (intro that [of s]) (auto simp: audit_field_def shown_value_def loggable_def value_of_bare)
next
  case (Text_value s)
  show ?thesis
  proof (cases "list_ex (\<lambda>c. c \<in> {CHR '' '', CHR ''='', quote}) (sanitize s)")
    case True
    with Text_value show ?thesis
      by (intro that [of "quote # replace_char quote [bslash, quote]
            (replace_char bslash [bslash, bslash] (sanitize s)) @ [quote]"])
        (simp_all add: audit_field_def shown_value_def value_of_token_def read_quoted_escaped)
  next
    case False
    then have "bare (sanitize s)" by (cases "sanitize s") (auto simp: bare_def list_ex_iff)
    with False Text_value assms(2) show ?thesis
      by (intro that [of "sanitize s"]) (simp_all add: audit_field_def shown_value_def value_of_bare)
  qed
qed

lemma read_fields_step:
  assumes "CHR ''='' \<notin> set k" and "value_of_token (e @ r) = Some (v, r)"
  shows "read_fields (k @ CHR ''='' # e @ r) = map_option ((#) (k, v)) (read_fields (drop 1 r))"
proof -
  have "takeWhile (\<lambda>x. x \<noteq> CHR ''='') (k @ CHR ''='' # e @ r) = k"
    "dropWhile (\<lambda>x. x \<noteq> CHR ''='') (k @ CHR ''='' # e @ r) = CHR ''='' # e @ r"
    using assms(1) by (auto simp: takeWhile_append dropWhile_append)
  then show ?thesis using assms(2) by (subst read_fields.simps) simp
qed

lemma read_joined:
  "list_all loggable ps \<Longrightarrow>
   read_fields (str_join '' '' (map (\<lambda>(k, v). audit_field k v) ps)) = Some (map (apsnd shown_value) ps)"
proof (induction ps)
  case Nil
  then show ?case by (simp add: str_join_def read_fields.simps)
next
  case (Cons p ps)
  obtain k v where p: "p = (k, v)" by (cases p)
  define r where "r = (if ps = [] then [] else '' '' @ str_join '' '' (map (\<lambda>(k, v). audit_field k v) ps))"
  have "loggable (k, v)" "at_gap r" using Cons.prems p by (simp_all add: r_def)
  then obtain e where e: "audit_field k v = k @ CHR ''='' # e" "value_of_token (e @ r) = Some (shown_value v, r)"
    by (rule audit_field_token)
  have "str_join '' '' (map (\<lambda>(k, v). audit_field k v) (p # ps)) = k @ CHR ''='' # e @ r"
  proof (cases "ps = []")
    case True
    with e show ?thesis by (simp add: p r_def str_join_def)
  next
    case False
    with e show ?thesis by (simp add: p r_def str_join_Cons)
  qed
  moreover have "CHR ''='' \<notin> set k" using Cons.prems p by (simp add: loggable_def)
  moreover have "read_fields (drop 1 r) = Some (map (apsnd shown_value) ps)"
    using Cons by (cases "ps = []") (simp_all add: r_def read_fields.simps)
  ultimately show ?case using read_fields_step [OF _ e(2)] by (simp add: p)
qed

definition line_fields :: "string \<Rightarrow> string option \<Rightarrow> (string \<times> audit_value) list \<Rightarrow> (string \<times> audit_value) list" where
  "line_fields ip surface values =
     (''ip'', Plain_value ip) # (case surface of None \<Rightarrow> [] | Some x \<Rightarrow> [(''surface'', Plain_value x)]) @ values"

lemma audit_line_fields:
  "audit_line event ip surface values =
     event @ '' '' @ str_join '' '' (map (\<lambda>(k, v). audit_field k v) (line_fields ip surface values))"
  by (simp add: audit_line_def line_fields_def audit_field_def split: option.splits)

text \<open>C32: The audit line cannot be forged: whatever text a client supplies for a field, a reader that splits the line at
  its spaces and quotes finds the address, the surface and exactly the fields that were logged, each
  with its sanitized value.\<close>

theorem audit_line_unforgeable:
  assumes "CHR '' '' \<notin> set event" and "list_all loggable (line_fields ip surface values)"
  shows "read_fields (drop 1 (dropWhile (\<lambda>c. c \<noteq> CHR '' '') (audit_line event ip surface values))) =
    Some (map (apsnd shown_value) (line_fields ip surface values))"
proof -
  have "dropWhile (\<lambda>c. c \<noteq> CHR '' '') (event @ '' '' @ x) = CHR '' '' # x" for x
    using assms(1) by (auto simp: dropWhile_append)
  then show ?thesis using read_joined [OF assms(2)] by (simp add: audit_line_fields)
qed

lemma audit_line_unforgeable_witness:
  "read_fields (drop 1 (dropWhile (\<lambda>c. c \<noteq> CHR '' '')
     (audit_line ''auth.login.failure'' ''10.0.0.9'' (Some ''login'') [(''username'', Text_value ''bob ip=1'')]))) =
   Some (map (apsnd shown_value)
     (line_fields ''10.0.0.9'' (Some ''login'') [(''username'', Text_value ''bob ip=1'')]))"
  by (rule audit_line_unforgeable) (simp_all add: line_fields_def loggable_def bare_def)

text \<open>A key derivation and an encoding to run the hashes with.\<close>

fun hex_bytes :: "string \<Rightarrow> string" where
  "hex_bytes [] = []"
| "hex_bytes (c # cs) = char_of (97 + code c div 16) # char_of (97 + code c mod 16) # hex_bytes cs"

fun bytes_hex :: "string \<Rightarrow> string option" where
  "bytes_hex [] = Some []"
| "bytes_hex [c] = None"
| "bytes_hex (c # d # cs) = map_option ((#) (char_of (16 * (code c - 97) + (code d - 97)))) (bytes_hex cs)"

definition demo_kdf :: kdf where
  "demo_kdf = \<lparr>kd_derive = (\<lambda>password salt n r p. Some (CHR ''k'' # salt @ password)), kd_b64e = hex_bytes, kd_b64d = bytes_hex\<rparr>"

lemma char_of_code [simp]: "char_of (code c) = c"
  by (simp add: code_def)

lemma hex_digits:
  "code (char_of (97 + code c div 16)) = 97 + code c div 16" "code (char_of (97 + code c mod 16)) = 97 + code c mod 16"
  "97 + code c div 16 < 128" "97 + code c mod 16 < 128"
  using code_less [of c] by (simp_all add: less_mult_imp_div_less)

lemma bytes_hex_bytes: "bytes_hex (hex_bytes s) = Some s"
  by (induction s) (simp_all add: hex_digits)

lemma hex_bytes_ascii: "c \<in> set (hex_bytes s) \<Longrightarrow> 97 \<le> code c \<and> code c < 128"
  by (induction s) (auto simp: hex_digits)

lemma base64_demo: "base64_ok demo_kdf"
proof -
  have "dollar \<notin> set (hex_bytes x)" for x
    using hex_bytes_ascii [of dollar x] by (auto simp: code_def)
  then show ?thesis
    using hex_bytes_ascii by (auto simp: base64_ok_def demo_kdf_def bytes_hex_bytes is_ascii_def list_all_iff)
qed

lemma hash_verifies_its_password_witness:
  "verify_password demo_kdf ''pw'' (the (hash_password demo_kdf ''salt'' ''pw'')) \<longleftrightarrow>
    kd_derive demo_kdf ''pw'' ''salt'' SCRYPT_N SCRYPT_R SCRYPT_P = kd_derive demo_kdf ''pw'' ''salt'' SCRYPT_N SCRYPT_R SCRYPT_P"
  by (rule hash_verifies_its_password [OF base64_demo]) (simp_all add: hash_password_def demo_kdf_def)
end
