(* ===== verification/Perimeter.thy ===== *)
theory Perimeter
  imports Auth_Limit Sessions Url Credentials
begin

text \<open>
  The default-deny perimeter (\<open>auth/perimeter.py\<close>) over the login throttle and the sessions: the
  credential check of a request, the cache of verified reader passwords, the cross-site check and
  the WebSocket handshake.

  The digest, the key derivation and base64 are arguments. The reader check awaits the principal and
  then the key derivation: it is \<open>basic_start\<close>, \<open>basic_read\<close> and \<open>basic_finish\<close>, and whatever runs in
  between is a function on the state. The principal table holds at most one row (its check
  constraint), so it is an option. Times of the throttle and the cache are monotonic seconds, those
  of the sessions UTC.
\<close>

section \<open>The verify cache\<close>

definition OPDS_VERIFY_TTL_SECONDS :: real where "OPDS_VERIFY_TTL_SECONDS = 60"
definition OPDS_VERIFY_CAPACITY :: nat where "OPDS_VERIFY_CAPACITY = 8"

record verify_cache =
  vc_ttl :: real
  vc_capacity :: nat
  vc_entries :: "(string, int \<times> real) odict"
  vc_generation :: nat

definition new_verify_cache :: verify_cache where
  "new_verify_cache = \<lparr>vc_ttl = OPDS_VERIFY_TTL_SECONDS, vc_capacity = OPDS_VERIFY_CAPACITY, vc_entries = [],
     vc_generation = 0\<rparr>"

definition cache_key_of :: "(string \<Rightarrow> string) \<Rightarrow> string \<Rightarrow> string \<Rightarrow> string" where
  "cache_key_of sha user password = sha (sha user @ sha password)"

definition vc_get :: "(string \<Rightarrow> string) \<Rightarrow> real \<Rightarrow> string \<Rightarrow> string \<Rightarrow> verify_cache \<Rightarrow> verify_cache \<times> int option" where
  "vc_get sha now user password c =
     (let k = cache_key_of sha user password
      in case map_of (vc_entries c) k of
           None \<Rightarrow> (c, None)
         | Some (who, expires_at) \<Rightarrow>
             if expires_at \<le> now then (c\<lparr>vc_entries := od_pop k (vc_entries c)\<rparr>, None) else (c, Some who))"

definition vc_put ::
  "(string \<Rightarrow> string) \<Rightarrow> real \<Rightarrow> string \<Rightarrow> string \<Rightarrow> int \<Rightarrow> nat \<Rightarrow> verify_cache \<Rightarrow> verify_cache" where
  "vc_put sha now user password who gen c =
     (if gen \<noteq> vc_generation c then c
      else (let k = cache_key_of sha user password;
                d = od_move_to_end k (od_set k (who, now + vc_ttl c) (vc_entries c))
            in c\<lparr>vc_entries := pop_while_longer (vc_capacity c) d\<rparr>))"

definition vc_clear :: "verify_cache \<Rightarrow> verify_cache" where
  "vc_clear c = c\<lparr>vc_generation := vc_generation c + 1, vc_entries := []\<rparr>"

section \<open>State and requests\<close>

record principal_row =
  pr_id :: int
  pr_username :: string
  pr_password_hash :: string
  pr_opds_password_hash :: string
  pr_api_key_sha256 :: string
  pr_env_password_hash :: "string option"
  pr_env_opds_password_hash :: "string option"
  pr_updated_at :: datetime

record auth_state =
  as_sessions :: session_table
  as_principal :: "principal_row option"
  as_limiter :: "limiter option"
  as_sources :: "seen_sources option"
  as_cache :: "verify_cache option"

record auth_config =
  ac_sessions :: session_settings
  ac_opds_base :: string
  ac_extra_origins :: "string set"
  ac_digest :: "string \<Rightarrow> string"
  ac_kdf :: kdf
  ac_b64 :: "string \<Rightarrow> string option"
  ac_ip6 :: "string \<Rightarrow> bool"

record connection =
  cx_type :: string
  cx_path :: string
  cx_method :: string
  cx_token :: "string option"
  cx_api_key :: "string option"
  cx_authorization :: string
  cx_origin :: "string option"
  cx_referer :: "string option"
  cx_host :: "string option"
  cx_ip :: string
  cx_utc :: datetime
  cx_clock :: real

datatype auth_via = Via_cookie | Via_api_key | Via_basic

datatype auth_answer =
    Authed int auth_via
  | Not_authed
  | Throttled real
  | Auth_raises py_error

definition SURFACE_API_KEY :: string where "SURFACE_API_KEY = ''api_key''"
definition SURFACE_BASIC :: string where "SURFACE_BASIC = ''basic''"

definition EXEMPT_PATHS :: "string list" where
  "EXEMPT_PATHS = [''/health'', ''/api/v1/auth/login'']"

definition is_exempt :: "string \<Rightarrow> bool" where
  "is_exempt path \<longleftrightarrow> path \<in> set EXEMPT_PATHS"

definition is_opds :: "string \<Rightarrow> string \<Rightarrow> bool" where
  "is_opds path opds_base \<longleftrightarrow> path = opds_base \<or> startswith path (opds_base @ [slash])"

definition find_by_api_key :: "(string \<Rightarrow> string) \<Rightarrow> string \<Rightarrow> principal_row option \<Rightarrow> principal_row option" where
  "find_by_api_key digest raw t =
     (if raw = [] then None
      else case t of None \<Rightarrow> None | Some p \<Rightarrow> if pr_api_key_sha256 p = digest raw then Some p else None)"

section \<open>Credentials\<close>

definition decode_basic :: "(string \<Rightarrow> string option) \<Rightarrow> string \<Rightarrow> (string \<times> string) option" where
  "decode_basic b64 header =
     (if \<not> startswith (str_lower header) ''basic '' then None
      else case b64 (strip (drop 6 header)) of
             None \<Rightarrow> None
           | Some raw \<Rightarrow>
               if CHR '':'' \<notin> set raw then None
               else Some (takeWhile (\<lambda>c. c \<noteq> CHR '':'') raw, drop 1 (dropWhile (\<lambda>c. c \<noteq> CHR '':'') raw)))"

definition throttle_check :: "real \<Rightarrow> string \<Rightarrow> string \<Rightarrow> auth_state \<Rightarrow> auth_state \<times> auth_answer option" where
  "throttle_check now ip surface s =
     (case as_limiter s of
        None \<Rightarrow> (s, None)
      | Some L \<Rightarrow>
          (case rl_retry_after now ip surface L of
             (L', Inl e) \<Rightarrow> (s\<lparr>as_limiter := Some L'\<rparr>, Some (Auth_raises e))
           | (L', Inr None) \<Rightarrow> (s\<lparr>as_limiter := Some L'\<rparr>, None)
           | (L', Inr (Some wait)) \<Rightarrow> (s\<lparr>as_limiter := Some L'\<rparr>, Some (Throttled wait))))"

definition note_success :: "string \<Rightarrow> string \<Rightarrow> auth_state \<Rightarrow> auth_state" where
  "note_success ip surface s = s\<lparr>as_limiter := map_option (rl_record_success ip surface) (as_limiter s)\<rparr>"

definition note_failure :: "real \<Rightarrow> string \<Rightarrow> string \<Rightarrow> auth_state \<Rightarrow> auth_state" where
  "note_failure now ip surface s =
     s\<lparr>as_limiter := map_option (\<lambda>L. fst (rl_record_failure now ip surface L)) (as_limiter s)\<rparr>"

definition observe_source :: "real \<Rightarrow> string \<Rightarrow> auth_state \<Rightarrow> auth_state" where
  "observe_source now ip s = s\<lparr>as_sources := map_option (\<lambda>S. fst (seen_observe now ip S)) (as_sources s)\<rparr>"

definition cookie_auth :: "auth_config \<Rightarrow> connection \<Rightarrow> auth_state \<Rightarrow> auth_state \<times> int option" where
  "cookie_auth cfg cx s =
     (case cx_token cx of
        None \<Rightarrow> (s, None)
      | Some tok \<Rightarrow>
          if tok = [] then (s, None)
          else (case authenticate (ac_digest cfg) (ac_sessions cfg) tok (cx_utc cx) (as_sessions s) of
                  (t, None) \<Rightarrow> (s\<lparr>as_sessions := t\<rparr>, None)
                | (t, Some (who, _)) \<Rightarrow> (s\<lparr>as_sessions := t\<rparr>, Some who)))"

text \<open>The X-Api-Key header: no answer yet when it is absent or wrong.\<close>

definition api_key_auth :: "auth_config \<Rightarrow> connection \<Rightarrow> auth_state \<Rightarrow> auth_state \<times> auth_answer option" where
  "api_key_auth cfg cx s =
     (case cx_api_key cx of
        None \<Rightarrow> (s, None)
      | Some key \<Rightarrow>
          if key = [] then (s, None)
          else (case throttle_check (cx_clock cx) (cx_ip cx) SURFACE_API_KEY s of
                  (s, Some a) \<Rightarrow> (s, Some a)
                | (s, None) \<Rightarrow>
                    (case find_by_api_key (ac_digest cfg) key (as_principal s) of
                       Some p \<Rightarrow>
                         (observe_source (cx_clock cx) (cx_ip cx) (note_success (cx_ip cx) SURFACE_API_KEY s),
                          Some (Authed (pr_id p) Via_api_key))
                     | None \<Rightarrow> (note_failure (cx_clock cx) (cx_ip cx) SURFACE_API_KEY s, None))))"

text \<open>
  HTTP Basic on the reader feed: an answer, or the credentials to verify with the generation of
  the cache captured before the principal is read.
\<close>

type_synonym basic_pending = "(string \<times> string) \<times> nat"

definition basic_start ::
  "auth_config \<Rightarrow> connection \<Rightarrow> auth_state \<Rightarrow> auth_state \<times> (auth_answer + basic_pending)" where
  "basic_start cfg cx s =
     (if \<not> is_opds (cx_path cx) (ac_opds_base cfg) then (s, Inl Not_authed)
      else case decode_basic (ac_b64 cfg) (cx_authorization cx) of
             None \<Rightarrow> (s, Inl Not_authed)
           | Some (user, password) \<Rightarrow>
               (case throttle_check (cx_clock cx) (cx_ip cx) SURFACE_BASIC s of
                  (s, Some a) \<Rightarrow> (s, Inl a)
                | (s, None) \<Rightarrow>
                    (case as_cache s of
                       None \<Rightarrow> (s, Inr ((user, password), 0))
                     | Some c \<Rightarrow>
                         (case vc_get (ac_digest cfg) (cx_clock cx) user password c of
                            (c', Some who) \<Rightarrow>
                              (note_success (cx_ip cx) SURFACE_BASIC (s\<lparr>as_cache := Some c'\<rparr>), Inl (Authed who Via_basic))
                          | (c', None) \<Rightarrow>
                              (s\<lparr>as_cache := Some c'\<rparr>, Inr ((user, password), vc_generation c))))))"

definition basic_ok :: "auth_config \<Rightarrow> string \<Rightarrow> string \<Rightarrow> principal_row \<Rightarrow> bool" where
  "basic_ok cfg user password r \<longleftrightarrow>
     user = pr_username r \<and> verify_password (ac_kdf cfg) password (pr_opds_password_hash r)"

definition basic_finish ::
  "auth_config \<Rightarrow> connection \<Rightarrow> real \<Rightarrow> basic_pending \<Rightarrow> principal_row option \<Rightarrow> auth_state \<Rightarrow>
   auth_state \<times> auth_answer" where
  "basic_finish cfg cx now pend p s =
     (case pend of ((user, password), gen) \<Rightarrow>
      case p of
        Some r \<Rightarrow>
          if basic_ok cfg user password r then
            (note_success (cx_ip cx) SURFACE_BASIC
               (s\<lparr>as_cache := map_option (vc_put (ac_digest cfg) now user password (pr_id r) gen) (as_cache s)\<rparr>),
             Authed (pr_id r) Via_basic)
          else (note_failure now (cx_ip cx) SURFACE_BASIC s, Not_authed)
      | None \<Rightarrow> (note_failure now (cx_ip cx) SURFACE_BASIC s, Not_authed))"

text \<open>
  \<open>before_read\<close> and \<open>before_finish\<close> are what runs while the reader check waits for the principal and
  for the key derivation; \<open>later\<close> is the clock at its end.
\<close>

definition authenticate_request ::
  "auth_config \<Rightarrow> connection \<Rightarrow> (auth_state \<Rightarrow> auth_state) \<Rightarrow> (auth_state \<Rightarrow> auth_state) \<Rightarrow> real \<Rightarrow> auth_state \<Rightarrow>
   auth_state \<times> auth_answer" where
  "authenticate_request cfg cx before_read before_finish later s =
     (case cookie_auth cfg cx s of
        (s, Some who) \<Rightarrow> (s, Authed who Via_cookie)
      | (s, None) \<Rightarrow>
          (case api_key_auth cfg cx s of
             (s, Some a) \<Rightarrow> (s, a)
           | (s, None) \<Rightarrow>
               (case basic_start cfg cx s of
                  (s, Inl a) \<Rightarrow> (s, a)
                | (s, Inr pend) \<Rightarrow>
                    (let s = before_read s; p = as_principal s
                     in basic_finish cfg cx later pend p (before_finish s)))))"

section \<open>Origins\<close>

definition SAFE_METHODS :: "string list" where
  "SAFE_METHODS = [''GET'', ''HEAD'', ''OPTIONS'']"

definition own_origins :: "string option \<Rightarrow> string set" where
  "own_origins host =
     (case host of None \<Rightarrow> {} | Some h \<Rightarrow> if h = [] then {} else {''http://'' @ h, ''https://'' @ h})"

definition allowed_origins :: "auth_config \<Rightarrow> connection \<Rightarrow> string set" where
  "allowed_origins cfg cx = own_origins (cx_host cx) \<union> ac_extra_origins cfg"

definition csrf_ok :: "auth_config \<Rightarrow> connection \<Rightarrow> bool result" where
  "csrf_ok cfg cx =
     (case cx_origin cx of
        Some orig \<Rightarrow> Inr (orig \<in> allowed_origins cfg cx)
      | None \<Rightarrow>
          (case cx_referer cx of
             None \<Rightarrow> Inr False
           | Some ref \<Rightarrow>
               if ref = [] then Inr False
               else result_bind (url_split (ac_ip6 cfg) ref) (\<lambda>(scheme, netloc).
                 Inr (scheme \<noteq> [] \<and> netloc \<noteq> [] \<and> scheme @ ''://'' @ netloc \<in> allowed_origins cfg cx))))"

section \<open>The perimeter\<close>

datatype gate_answer =
    Gate_open
  | Gate_pass int auth_via
  | Gate_unauthorized bool
  | Gate_forbidden
  | Gate_throttled int
  | Gate_error py_error

definition perimeter ::
  "auth_config \<Rightarrow> connection \<Rightarrow> (auth_state \<Rightarrow> auth_state) \<Rightarrow> (auth_state \<Rightarrow> auth_state) \<Rightarrow> real \<Rightarrow> auth_state \<Rightarrow>
   auth_state \<times> gate_answer" where
  "perimeter cfg cx before_read before_finish later s =
     (if cx_type cx \<noteq> ''http'' \<or> is_exempt (cx_path cx) then (s, Gate_open)
      else case authenticate_request cfg cx before_read before_finish later s of
             (s, Not_authed) \<Rightarrow> (s, Gate_unauthorized (is_opds (cx_path cx) (ac_opds_base cfg)))
           | (s, Throttled wait) \<Rightarrow> (s, Gate_throttled \<lceil>wait\<rceil>)
           | (s, Auth_raises e) \<Rightarrow> (s, Gate_error e)
           | (s, Authed who via) \<Rightarrow>
               if via = Via_cookie \<and> cx_method cx \<notin> set SAFE_METHODS then
                 (case csrf_ok cfg cx of
                    Inl e \<Rightarrow> (s, Gate_error e)
                  | Inr True \<Rightarrow> (s, Gate_pass who via)
                  | Inr False \<Rightarrow> (s, Gate_forbidden))
               else (s, Gate_pass who via))"

definition ws_origin_ok :: "auth_config \<Rightarrow> connection \<Rightarrow> bool" where
  "ws_origin_ok cfg cx = (case cx_origin cx of None \<Rightarrow> True | Some orig \<Rightarrow> orig \<in> allowed_origins cfg cx)"

definition authenticate_ws :: "auth_config \<Rightarrow> connection \<Rightarrow> auth_state \<Rightarrow> auth_state \<times> int option" where
  "authenticate_ws cfg cx s =
     (case cookie_auth cfg cx s of
        (s, Some who) \<Rightarrow> (s, Some who)
      | (s, None) \<Rightarrow>
          (case cx_api_key cx of
             None \<Rightarrow> (s, None)
           | Some key \<Rightarrow>
               if key = [] then (s, None)
               else (case find_by_api_key (ac_digest cfg) key (as_principal s) of
                       None \<Rightarrow> (s, None)
                     | Some p \<Rightarrow> (observe_source (cx_clock cx) (cx_ip cx) s, Some (pr_id p)))))"

section \<open>Default deny\<close>

text \<open>
  What a caller must hold, said over the tables and not over the code's lookups: a row of the session
  table, the stored key, an entry of the reader cache or the stored reader password.
\<close>

definition surface_open :: "connection \<Rightarrow> string \<Rightarrow> auth_state \<Rightarrow> bool" where
  "surface_open cx surface s \<longleftrightarrow>
     (case as_limiter s of None \<Rightarrow> True
      | Some L \<Rightarrow> snd (rl_retry_after (cx_clock cx) (cx_ip cx) surface L) = Inr None)"

definition cookie_credential :: "auth_config \<Rightarrow> connection \<Rightarrow> auth_state \<Rightarrow> int \<Rightarrow> bool" where
  "cookie_credential cfg cx s who \<longleftrightarrow>
     (\<exists>tok r. cx_token cx = Some tok \<and> tok \<noteq> [] \<and> r \<in> set (as_sessions s) \<and> ss_digest r = ac_digest cfg tok \<and>
        cx_utc cx < ss_expires_at r \<and> who = ss_principal r)"

definition key_credential :: "auth_config \<Rightarrow> connection \<Rightarrow> auth_state \<Rightarrow> int \<Rightarrow> bool" where
  "key_credential cfg cx s who \<longleftrightarrow>
     (\<exists>key p. cx_api_key cx = Some key \<and> key \<noteq> [] \<and> as_principal s = Some p \<and>
        pr_api_key_sha256 p = ac_digest cfg key \<and> who = pr_id p) \<and>
     surface_open cx SURFACE_API_KEY s"

text \<open>The state in which a request reaches the reader check, and the one in which it waits for the principal.\<close>

definition reader_asks :: "auth_config \<Rightarrow> connection \<Rightarrow> auth_state \<Rightarrow> auth_state" where
  "reader_asks cfg cx s = fst (api_key_auth cfg cx (fst (cookie_auth cfg cx s)))"

definition reader_waits :: "auth_config \<Rightarrow> connection \<Rightarrow> auth_state \<Rightarrow> auth_state" where
  "reader_waits cfg cx s = fst (basic_start cfg cx (reader_asks cfg cx s))"

definition reader_credential ::
  "auth_config \<Rightarrow> connection \<Rightarrow> (auth_state \<Rightarrow> auth_state) \<Rightarrow> auth_state \<Rightarrow> int \<Rightarrow> bool" where
  "reader_credential cfg cx before_read s who \<longleftrightarrow>
     (cx_path cx = ac_opds_base cfg \<or> (\<exists>rest. cx_path cx = ac_opds_base cfg @ ''/'' @ rest)) \<and>
     surface_open cx SURFACE_BASIC (reader_asks cfg cx s) \<and>
     (\<exists>user password. decode_basic (ac_b64 cfg) (cx_authorization cx) = Some (user, password) \<and>
        ((\<exists>c expires. as_cache s = Some c \<and>
            map_of (vc_entries c) (cache_key_of (ac_digest cfg) user password) = Some (who, expires) \<and>
            cx_clock cx < expires) \<or>
         (\<exists>r. as_principal (before_read (reader_waits cfg cx s)) = Some r \<and> user = pr_username r \<and>
            verify_password (ac_kdf cfg) password (pr_opds_password_hash r) \<and> who = pr_id r)))"

definition trusted_origin :: "auth_config \<Rightarrow> connection \<Rightarrow> string \<Rightarrow> bool" where
  "trusted_origin cfg cx orig \<longleftrightarrow>
     orig \<in> ac_extra_origins cfg \<or>
     (\<exists>h. cx_host cx = Some h \<and> h \<noteq> [] \<and> (orig = ''http://'' @ h \<or> orig = ''https://'' @ h))"

definition trusted_request :: "auth_config \<Rightarrow> connection \<Rightarrow> bool" where
  "trusted_request cfg cx \<longleftrightarrow>
     (case cx_origin cx of
        Some orig \<Rightarrow> trusted_origin cfg cx orig
      | None \<Rightarrow> \<exists>ref scheme netloc. cx_referer cx = Some ref \<and> url_split (ac_ip6 cfg) ref = Inr (scheme, netloc) \<and>
          trusted_origin cfg cx (scheme @ ''://'' @ netloc))"

lemma csrf_ok_trusted: "csrf_ok cfg cx = Inr True \<Longrightarrow> trusted_request cfg cx"
  by (auto simp: csrf_ok_def trusted_request_def trusted_origin_def allowed_origins_def own_origins_def
      result_bind_eq_Inr split: option.splits if_splits)

lemma session_lookup_live:
  "session_lookup digest tok now t = Some r \<Longrightarrow>
   tok \<noteq> [] \<and> r \<in> set t \<and> ss_digest r = digest tok \<and> now < ss_expires_at r"
  by (auto simp: session_lookup_def split: if_splits option.splits dest: row_get_SomeD)

lemma is_opds_cases: "is_opds path base \<Longrightarrow> path = base \<or> (\<exists>rest. path = base @ ''/'' @ rest)"
  by (auto simp: is_opds_def startswith_def slash_def) (metis append.assoc append_Cons append_Nil append_take_drop_id)

lemma vc_get_live:
  "snd (vc_get sha now user password c) = Some who \<Longrightarrow>
   \<exists>expires. map_of (vc_entries c) (cache_key_of sha user password) = Some (who, expires) \<and> now < expires"
  by (auto simp: vc_get_def Let_def split: option.splits if_splits)

lemma surface_open_same: "as_limiter s' = as_limiter s \<Longrightarrow> surface_open cx x s' = surface_open cx x s"
  by (simp add: surface_open_def)

lemma cookie_auth_Some: "cookie_auth cfg cx s = (s', Some who) \<Longrightarrow> cookie_credential cfg cx s who"
  by (auto simp: cookie_auth_def cookie_credential_def authenticate_def split: option.splits if_splits
      dest!: session_lookup_live)

lemma cookie_auth_frame:
  "cookie_auth cfg cx s = (s', r) \<Longrightarrow>
   as_principal s' = as_principal s \<and> as_limiter s' = as_limiter s \<and> as_cache s' = as_cache s"
  by (auto simp: cookie_auth_def split: option.splits if_splits prod.splits)

lemma throttle_check_frame:
  "throttle_check now ip x s = (s', a) \<Longrightarrow>
   as_principal s' = as_principal s \<and> as_cache s' = as_cache s \<and> as_sessions s' = as_sessions s"
  by (auto simp: throttle_check_def split: option.splits prod.splits sum.splits)

lemma throttle_check_not_authed: "throttle_check now ip x s = (s', Some a) \<Longrightarrow> a \<noteq> Authed who via \<and> a \<noteq> Not_authed"
  by (auto simp: throttle_check_def split: option.splits prod.splits sum.splits)

lemma throttle_check_open: "throttle_check (cx_clock cx) (cx_ip cx) x s = (s', None) \<Longrightarrow> surface_open cx x s"
  by (auto simp: throttle_check_def surface_open_def split: option.splits prod.splits sum.splits)

lemma throttle_check_pass:
  "throttle_check (cx_clock cx) (cx_ip cx) x s = (s', None) \<Longrightarrow>
   surface_open cx x s \<and> as_principal s' = as_principal s \<and> as_cache s' = as_cache s"
  using throttle_check_open throttle_check_frame by blast

lemma note_frame [simp]:
  "as_principal (note_success ip x s) = as_principal s" "as_principal (note_failure now ip x s) = as_principal s"
  "as_cache (note_success ip x s) = as_cache s" "as_cache (note_failure now ip x s) = as_cache s"
  "as_sessions (note_success ip x s) = as_sessions s" "as_sessions (note_failure now ip x s) = as_sessions s"
  by (simp_all add: note_success_def note_failure_def)

lemma api_key_auth_Authed:
  "api_key_auth cfg cx s = (s', Some (Authed who via)) \<Longrightarrow> via = Via_api_key \<and> key_credential cfg cx s who"
  by (auto simp: api_key_auth_def key_credential_def find_by_api_key_def
      split: option.splits if_splits prod.splits dest: throttle_check_pass throttle_check_not_authed)

lemma api_key_auth_None:
  "api_key_auth cfg cx s = (s', None) \<Longrightarrow> as_principal s' = as_principal s \<and> as_cache s' = as_cache s"
  by (auto simp: api_key_auth_def split: option.splits if_splits prod.splits dest!: throttle_check_frame)

lemma basic_start_Authed:
  assumes "basic_start cfg cx s = (s', Inl (Authed who via))"
  obtains user password c where "via = Via_basic" and "is_opds (cx_path cx) (ac_opds_base cfg)"
    and "decode_basic (ac_b64 cfg) (cx_authorization cx) = Some (user, password)" and "as_cache s = Some c"
    and "snd (vc_get (ac_digest cfg) (cx_clock cx) user password c) = Some who" and "surface_open cx SURFACE_BASIC s"
  using assms
  by (auto simp: basic_start_def split: option.splits if_splits prod.splits
      dest: throttle_check_pass throttle_check_not_authed)

lemma basic_start_pending:
  assumes "basic_start cfg cx s = (s', Inr ((user, password), gen))"
  shows "is_opds (cx_path cx) (ac_opds_base cfg) \<and> surface_open cx SURFACE_BASIC s \<and>
    decode_basic (ac_b64 cfg) (cx_authorization cx) = Some (user, password)"
  using assms by (auto simp: basic_start_def split: option.splits if_splits prod.splits dest: throttle_check_open)

lemma basic_finish_Authed:
  "basic_finish cfg cx now ((user, password), gen) p s = (s', Authed who via) \<Longrightarrow>
   via = Via_basic \<and> (\<exists>r. p = Some r \<and> basic_ok cfg user password r \<and> who = pr_id r)"
  by (auto simp: basic_finish_def split: option.splits if_splits)

lemma authenticate_request_Authed:
  assumes "authenticate_request cfg cx f g later s = (s', Authed who via)"
  shows "(via = Via_cookie \<and> cookie_credential cfg cx s who) \<or>
    (via = Via_api_key \<and> key_credential cfg cx s who) \<or> (via = Via_basic \<and> reader_credential cfg cx f s who)"
proof -
  obtain s1 c where 1: "cookie_auth cfg cx s = (s1, c)" by (cases "cookie_auth cfg cx s")
  show ?thesis
  proof (cases c)
    case (Some p)
    with assms 1 show ?thesis by (auto simp: authenticate_request_def dest: cookie_auth_Some)
  next
    case None
    note f1 = cookie_auth_frame [OF 1]
    obtain s2 k where 2: "api_key_auth cfg cx s1 = (s2, k)" by (cases "api_key_auth cfg cx s1")
    show ?thesis
    proof (cases k)
      case (Some a)
      with assms 1 2 None have "api_key_auth cfg cx s1 = (s2, Some (Authed who via))"
        by (simp add: authenticate_request_def)
      then show ?thesis
        using f1 surface_open_same [of s1 s] by (auto simp: key_credential_def dest!: api_key_auth_Authed)
    next
      case k: None
      note f2 = api_key_auth_None [OF 2 [unfolded k]]
      obtain s3 b where 3: "basic_start cfg cx s2 = (s3, b)" by (cases "basic_start cfg cx s2")
      have asks: "reader_asks cfg cx s = s2" and waits: "reader_waits cfg cx s = s3"
        using 1 2 3 by (simp_all add: reader_asks_def reader_waits_def)
      show ?thesis
      proof (cases b)
        case (Inl a)
        with assms 1 2 3 None k have "basic_start cfg cx s2 = (s3, Inl (Authed who via))"
          by (simp add: authenticate_request_def)
        then obtain user password ca where "via = Via_basic" "is_opds (cx_path cx) (ac_opds_base cfg)"
          "decode_basic (ac_b64 cfg) (cx_authorization cx) = Some (user, password)" "as_cache s2 = Some ca"
          "snd (vc_get (ac_digest cfg) (cx_clock cx) user password ca) = Some who" "surface_open cx SURFACE_BASIC s2"
          by (rule basic_start_Authed)
        with f1 f2 show ?thesis
          using is_opds_cases vc_get_live unfolding reader_credential_def asks by metis
      next
        case (Inr pend)
        obtain user password gen where p: "pend = ((user, password), gen)" by (metis surj_pair)
        have "basic_finish cfg cx later ((user, password), gen) (as_principal (f s3)) (g (f s3)) = (s', Authed who via)"
          using assms 1 2 3 None k Inr p by (simp add: authenticate_request_def Let_def)
        note fin = basic_finish_Authed [OF this]
        note st = basic_start_pending [OF 3 [unfolded Inr p]]
        from fin obtain r where "as_principal (f s3) = Some r" "basic_ok cfg user password r" "who = pr_id r"
          by blast
        with fin st show ?thesis
          using is_opds_cases unfolding reader_credential_def asks waits basic_ok_def by blast
      qed
    qed
  qed
qed

text \<open>C2: The perimeter denies by default. The only connections it lets through unasked are those that
  are not HTTP (the WebSocket handshake has its own check) and the two paths \<open>/health\<close> and
  \<open>/api/v1/auth/login\<close>. Any other request passes only as the principal of a live session of its
  cookie, of the stored API key, or, on the reader feed alone, of a live entry of the reader cache
  or of a user name and password that verify against the principal read at that point, the last
  two with the throttle of their surface open; and a request that rides on a cookie with any
  method but GET, HEAD and OPTIONS passes only if its origin, or its referrer's, is the
  deployment's own or a configured one.\<close>

theorem perimeter_denies_by_default:
  shows "case snd (perimeter cfg cx before_read before_finish later s) of
      Gate_open \<Rightarrow> cx_type cx \<noteq> ''http'' \<or> cx_path cx \<in> {''/health'', ''/api/v1/auth/login''}
    | Gate_pass who via \<Rightarrow>
        (case via of
           Via_cookie \<Rightarrow> cookie_credential cfg cx s who \<and>
             (cx_method cx \<in> {''GET'', ''HEAD'', ''OPTIONS''} \<or> trusted_request cfg cx)
         | Via_api_key \<Rightarrow> key_credential cfg cx s who
         | Via_basic \<Rightarrow> reader_credential cfg cx before_read s who)
    | _ \<Rightarrow> True"
proof (cases "snd (perimeter cfg cx before_read before_finish later s)")
  case Gate_open
  then show ?thesis
    by (auto simp: perimeter_def is_exempt_def EXEMPT_PATHS_def
        split: if_splits prod.splits auth_answer.splits sum.splits bool.splits)
next
  case (Gate_pass who via)
  then obtain s' where "authenticate_request cfg cx before_read before_finish later s = (s', Authed who via)"
    and "via = Via_cookie \<and> cx_method cx \<notin> set SAFE_METHODS \<longrightarrow> csrf_ok cfg cx = Inr True"
    by (auto simp: perimeter_def split: if_splits prod.splits auth_answer.splits sum.splits bool.splits)
  then show ?thesis
    using authenticate_request_Authed [of cfg cx before_read before_finish later s s' who via]
      csrf_ok_trusted [of cfg cx] Gate_pass
    by (cases via) (auto simp: SAFE_METHODS_def)
qed simp_all

text \<open>A deployment to run: a prefix-free digest, the toy key derivation, a reader with the password \<open>p\<close>.\<close>

definition demo_digest :: "string \<Rightarrow> string" where
  "demo_digest s = concat (map (\<lambda>c. [CHR ''a'', c]) s) @ ''b''"

definition demo_account :: principal_row where
  "demo_account = \<lparr>pr_id = 1, pr_username = ''u'', pr_password_hash = [],
     pr_opds_password_hash = the (hash_password demo_kdf ''s'' ''p''), pr_api_key_sha256 = demo_digest ''k'',
     pr_env_password_hash = None, pr_env_opds_password_hash = None, pr_updated_at = 0\<rparr>"

definition demo_cfg :: auth_config where
  "demo_cfg = \<lparr>ac_sessions = \<lparr>session_timeout_seconds = 100, remember_timeout_seconds = 1000\<rparr>,
     ac_opds_base = ''/opds'', ac_extra_origins = {}, ac_digest = demo_digest, ac_kdf = demo_kdf, ac_b64 = Some,
     ac_ip6 = (\<lambda>_. False)\<rparr>"

definition demo_cx :: connection where
  "demo_cx = \<lparr>cx_type = ''http'', cx_path = ''/opds'', cx_method = ''GET'', cx_token = None, cx_api_key = Some ''k'',
     cx_authorization = ''basic u:p'', cx_origin = None, cx_referer = None, cx_host = None, cx_ip = ''10.0.0.9'',
     cx_utc = 0, cx_clock = 0\<rparr>"

definition demo_auth :: auth_state where
  "demo_auth = \<lparr>as_sessions = [], as_principal = Some demo_account, as_limiter = None, as_sources = None,
     as_cache = Some new_verify_cache\<rparr>"

lemma perimeter_denies_by_default_witness: "key_credential demo_cfg demo_cx demo_auth 1"
  using perimeter_denies_by_default [where cfg = demo_cfg and cx = demo_cx and before_read = id and before_finish = id and
      later = 0 and s = demo_auth]
  by (simp add: perimeter_def demo_cx_def is_exempt_def EXEMPT_PATHS_def authenticate_request_def cookie_auth_def
      api_key_auth_def throttle_check_def demo_auth_def find_by_api_key_def demo_account_def demo_cfg_def
      note_success_def observe_source_def)

end
