(* ===== verification/Accounts.thy ===== *)
theory Accounts
  imports Perimeter
begin

text \<open>
  The account: login, logout and the credential routes (\<open>auth/routes.py\<close>) and its bootstrap from the
  environment (\<open>auth/bootstrap.py\<close>).

  A route that derives a key awaits in the middle: login is \<open>login_start\<close> and \<open>login_finish\<close>, with the
  account as the first half read it. Salts, tokens and API keys are arguments, as is a failed
  hash (\<open>None\<close> of the derivation). A reply is the status of the response.
\<close>

section \<open>Replies\<close>

datatype reply =
    Reply_user string
  | Reply_key string
  | Reply_no_content
  | Reply_status nat
  | Reply_throttled int
  | Reply_raises

definition MAX_PASSWORD_LENGTH :: nat where "MAX_PASSWORD_LENGTH = 1024"
definition SURFACE_LOGIN :: string where "SURFACE_LOGIN = ''login''"

record account_app =
  ap_auth :: auth_state
  ap_bootstrap_key :: "string option"

abbreviation on_auth :: "(auth_state \<Rightarrow> auth_state) \<Rightarrow> account_app \<Rightarrow> account_app" where
  "on_auth f a \<equiv> a\<lparr>ap_auth := f (ap_auth a)\<rparr>"

section \<open>Login and logout\<close>

record login_body =
  lb_username :: string
  lb_password :: string
  lb_remember :: bool

definition login_start :: "connection \<Rightarrow> auth_state \<Rightarrow> auth_state \<times> (reply + principal_row option)" where
  "login_start cx s =
     (case throttle_check (cx_clock cx) (cx_ip cx) SURFACE_LOGIN s of
        (s, Some (Throttled wait)) \<Rightarrow> (s, Inl (Reply_throttled \<lceil>wait\<rceil>))
      | (s, Some _) \<Rightarrow> (s, Inl Reply_raises)
      | (s, None) \<Rightarrow> (s, Inr (as_principal s)))"

text \<open>\<open>dummy_hashed\<close>: the hash of an unknown user's password did not raise.\<close>

definition login_finish ::
  "auth_config \<Rightarrow> connection \<Rightarrow> login_body \<Rightarrow> bool \<Rightarrow> string \<Rightarrow> principal_row option \<Rightarrow> auth_state \<Rightarrow>
   auth_state \<times> reply" where
  "login_finish cfg cx body dummy_hashed token p s =
     (case p of
        None \<Rightarrow>
          if dummy_hashed then (note_failure (cx_clock cx) (cx_ip cx) SURFACE_LOGIN s, Reply_status 401)
          else (s, Reply_raises)
      | Some r \<Rightarrow>
          if \<not> (pr_username r = lb_username body
               \<and> verify_password (ac_kdf cfg) (lb_password body) (pr_password_hash r)) then
            (note_failure (cx_clock cx) (cx_ip cx) SURFACE_LOGIN s, Reply_status 401)
          else
            (let t = (case cx_token cx of
                        None \<Rightarrow> as_sessions s
                      | Some presented \<Rightarrow> fst (logout (ac_digest cfg) presented (as_sessions s)));
                 tier = (if lb_remember body then Remember_tier else Session_tier);
                 t = create_session (ac_digest cfg) (ac_sessions cfg) token (pr_id r) tier (cx_utc cx) t
             in (note_success (cx_ip cx) SURFACE_LOGIN (s\<lparr>as_sessions := t\<rparr>), Reply_user (pr_username r))))"

definition logout_route :: "auth_config \<Rightarrow> string option \<Rightarrow> auth_state \<Rightarrow> auth_state \<times> reply" where
  "logout_route cfg token s =
     (case token of
        None \<Rightarrow> (s, Reply_no_content)
      | Some tok \<Rightarrow> (s\<lparr>as_sessions := fst (logout (ac_digest cfg) tok (as_sessions s))\<rparr>, Reply_no_content))"

definition me_route :: "auth_state \<Rightarrow> reply" where
  "me_route s = (case as_principal s of None \<Rightarrow> Reply_status 401 | Some r \<Rightarrow> Reply_user (pr_username r))"

definition logout_all_route :: "auth_state \<Rightarrow> auth_state \<times> reply" where
  "logout_all_route s =
     (case as_principal s of
        None \<Rightarrow> (s, Reply_no_content)
      | Some r \<Rightarrow> (s\<lparr>as_sessions := invalidate_all (pr_id r) (as_sessions s)\<rparr>, Reply_no_content))"

definition bootstrap_key_route :: "account_app \<Rightarrow> account_app \<times> reply" where
  "bootstrap_key_route a =
     (case ap_bootstrap_key a of
        None \<Rightarrow> (a, Reply_status 404)
      | Some key \<Rightarrow> if key = [] then (a, Reply_status 404) else (a\<lparr>ap_bootstrap_key := None\<rparr>, Reply_key key))"

section \<open>Credential changes\<close>

text \<open>The checks before a change, on the account read first: the status that refuses it, if any.\<close>

definition reauth_admin :: "auth_config \<Rightarrow> string \<Rightarrow> principal_row option \<Rightarrow> (nat + principal_row)" where
  "reauth_admin cfg current p =
     (case p of
        None \<Rightarrow> Inl 403
      | Some r \<Rightarrow>
          if MAX_PASSWORD_LENGTH < length current \<or> \<not> verify_password (ac_kdf cfg) current (pr_password_hash r)
          then Inl 403 else Inr r)"

definition validate_new_password :: "string \<Rightarrow> nat option" where
  "validate_new_password candidate =
     (if candidate = [] then Some 422 else if MAX_PASSWORD_LENGTH < length candidate then Some 422 else None)"

text \<open>The write session of a change: the row of the identity is read again and rewritten.\<close>

definition write_principal :: "int \<Rightarrow> (principal_row \<Rightarrow> principal_row) \<Rightarrow> auth_state \<Rightarrow> auth_state option" where
  "write_principal who f s =
     (case as_principal s of
        Some r \<Rightarrow> if pr_id r = who then Some (s\<lparr>as_principal := Some (f r)\<rparr>) else None
      | None \<Rightarrow> None)"

definition clear_opds_verify_cache :: "auth_state \<Rightarrow> auth_state" where
  "clear_opds_verify_cache s = s\<lparr>as_cache := map_option vc_clear (as_cache s)\<rparr>"

text \<open>Both password routes up to their write.\<close>

definition new_credential ::
  "auth_config \<Rightarrow> string \<Rightarrow> string \<Rightarrow> string \<Rightarrow> principal_row option \<Rightarrow> (reply + principal_row \<times> string)" where
  "new_credential cfg current new salt p =
     (case reauth_admin cfg current p of
        Inl e \<Rightarrow> Inl (Reply_status e)
      | Inr r \<Rightarrow>
          (case validate_new_password new of
             Some e \<Rightarrow> Inl (Reply_status e)
           | None \<Rightarrow>
               (case hash_password (ac_kdf cfg) salt new of
                  None \<Rightarrow> Inl Reply_raises
                | Some h \<Rightarrow> Inr (r, h))))"

definition change_password ::
  "auth_config \<Rightarrow> string \<Rightarrow> string \<Rightarrow> string \<Rightarrow> string \<Rightarrow> datetime \<Rightarrow> auth_state \<Rightarrow> auth_state \<times> reply" where
  "change_password cfg current new salt acting now s =
     (case new_credential cfg current new salt (as_principal s) of
        Inl e \<Rightarrow> (s, e)
      | Inr (r, h) \<Rightarrow>
          (case write_principal (pr_id r) (\<lambda>row. row\<lparr>pr_password_hash := h, pr_updated_at := now\<rparr>) s of
             None \<Rightarrow> (s, Reply_raises)
           | Some s' \<Rightarrow>
               (clear_opds_verify_cache
                  (s'\<lparr>as_sessions := invalidate_others (ac_digest cfg) (pr_id r) acting (as_sessions s')\<rparr>),
                Reply_no_content)))"

definition change_opds_password ::
  "auth_config \<Rightarrow> string \<Rightarrow> string \<Rightarrow> string \<Rightarrow> datetime \<Rightarrow> auth_state \<Rightarrow> auth_state \<times> reply" where
  "change_opds_password cfg current new salt now s =
     (case new_credential cfg current new salt (as_principal s) of
        Inl e \<Rightarrow> (s, e)
      | Inr (r, h) \<Rightarrow>
          (case write_principal (pr_id r) (\<lambda>row. row\<lparr>pr_opds_password_hash := h, pr_updated_at := now\<rparr>) s of
             None \<Rightarrow> (s, Reply_raises)
           | Some s' \<Rightarrow> (clear_opds_verify_cache s', Reply_no_content)))"

definition rotate_api_key ::
  "auth_config \<Rightarrow> string \<Rightarrow> string \<Rightarrow> datetime \<Rightarrow> account_app \<Rightarrow> account_app \<times> reply" where
  "rotate_api_key cfg current raw_key now a =
     (case reauth_admin cfg current (as_principal (ap_auth a)) of
        Inl e \<Rightarrow> (a, Reply_status e)
      | Inr r \<Rightarrow>
          (case write_principal (pr_id r)
                 (\<lambda>row. row\<lparr>pr_api_key_sha256 := ac_digest cfg raw_key, pr_updated_at := now\<rparr>) (ap_auth a) of
             None \<Rightarrow> (a, Reply_raises)
           | Some s' \<Rightarrow>
               (\<lparr>ap_auth = s'\<lparr>as_sources := map_option seen_clear (as_sources s')\<rparr>, ap_bootstrap_key = None\<rparr>,
                Reply_key raw_key)))"

section \<open>Bootstrap\<close>

record env_credentials =
  en_admin_user :: string
  en_admin_password :: string
  en_opds_password :: string

definition bootstrap_present :: "bool \<Rightarrow> env_credentials \<Rightarrow> bool" where
  "bootstrap_present principal_exists en \<longleftrightarrow>
     principal_exists \<or> strip (en_admin_user en) \<noteq> [] \<and> en_admin_password en \<noteq> []"

text \<open>
  A write hashes with a fresh salt each time it hashes; \<open>salts\<close> are the ones a boot draws. A hash
  that raises ends the boot (\<open>None\<close>).
\<close>

definition seed_principal ::
  "auth_config \<Rightarrow> env_credentials \<Rightarrow> string \<times> string \<times> string \<times> string \<Rightarrow> string \<Rightarrow> datetime \<Rightarrow> account_app \<Rightarrow> account_app option" where
  "seed_principal cfg en salts raw_key now a =
     (case salts of (s1, s2, s3, s4) \<Rightarrow>
      (let K = ac_kdf cfg;
           admin = en_admin_password en;
           opds = (if en_opds_password en \<noteq> [] then en_opds_password en else admin)
       in case (hash_password K s1 admin, hash_password K s2 opds, hash_password K s3 admin,
                if en_opds_password en \<noteq> [] then map_option Some (hash_password K s4 (en_opds_password en))
                else Some None) of
            (Some h1, Some h2, Some h3, Some h4) \<Rightarrow>
              Some \<lparr>ap_auth = (ap_auth a)\<lparr>as_principal := Some
                       \<lparr>pr_id = 1, pr_username = strip (en_admin_user en), pr_password_hash = h1,
                        pr_opds_password_hash = h2, pr_api_key_sha256 = ac_digest cfg raw_key,
                        pr_env_password_hash = Some h3, pr_env_opds_password_hash = h4, pr_updated_at = now\<rparr>\<rparr>,
                    ap_bootstrap_key = Some raw_key\<rparr>
          | _ \<Rightarrow> None))"

definition maybe_reseed_admin ::
  "auth_config \<Rightarrow> env_credentials \<Rightarrow> string \<times> string \<Rightarrow> datetime \<Rightarrow> principal_row \<Rightarrow> auth_state \<Rightarrow> auth_state option" where
  "maybe_reseed_admin cfg en salts now p s =
     (let K = ac_kdf cfg; user = strip (en_admin_user en); pw = en_admin_password en
      in if user = [] \<or> pw = [] then Some s
         else
           (let fingerprint = pr_env_password_hash p;
                matches = verify_password K pw (case fingerprint of None \<Rightarrow> pr_password_hash p | Some h \<Rightarrow> h)
            in if pr_username p = user \<and> matches then
                 (if fingerprint = None then
                    Option.bind (hash_password K (fst salts) pw) (\<lambda>h.
                      write_principal (pr_id p) (\<lambda>row. row\<lparr>pr_env_password_hash := Some h, pr_updated_at := now\<rparr>) s)
                  else Some s)
               else
                 Option.bind (hash_password K (fst salts) pw) (\<lambda>h1.
                 Option.bind (hash_password K (snd salts) pw) (\<lambda>h2.
                 Option.bind (write_principal (pr_id p) (\<lambda>row. row\<lparr>pr_username := user, pr_password_hash := h1,
                     pr_env_password_hash := Some h2, pr_updated_at := now\<rparr>) s) (\<lambda>s'.
                 Some (clear_opds_verify_cache
                   (s'\<lparr>as_sessions := invalidate_all (pr_id p) (as_sessions s')\<rparr>)))))))"

definition maybe_reseed_opds ::
  "auth_config \<Rightarrow> env_credentials \<Rightarrow> string \<times> string \<Rightarrow> datetime \<Rightarrow> principal_row \<Rightarrow> auth_state \<Rightarrow> auth_state option" where
  "maybe_reseed_opds cfg en salts now p s =
     (let K = ac_kdf cfg; pw = en_opds_password en
      in if pw = [] then Some s
         else
           (let fingerprint = pr_env_opds_password_hash p;
                matches = verify_password K pw (case fingerprint of None \<Rightarrow> pr_opds_password_hash p | Some h \<Rightarrow> h)
            in if matches then
                 (if fingerprint = None then
                    Option.bind (hash_password K (fst salts) pw) (\<lambda>h.
                      write_principal (pr_id p) (\<lambda>row. row\<lparr>pr_env_opds_password_hash := Some h, pr_updated_at := now\<rparr>) s)
                  else Some s)
               else
                 Option.bind (hash_password K (fst salts) pw) (\<lambda>h1.
                 Option.bind (hash_password K (snd salts) pw) (\<lambda>h2.
                 Option.bind (write_principal (pr_id p) (\<lambda>row. row\<lparr>pr_opds_password_hash := h1,
                     pr_env_opds_password_hash := Some h2, pr_updated_at := now\<rparr>) s) (\<lambda>s'.
                 Some (clear_opds_verify_cache s'))))))"

definition seed_principal_startup_hook ::
  "auth_config \<Rightarrow> env_credentials \<Rightarrow> string \<times> string \<times> string \<times> string \<Rightarrow> string \<Rightarrow> datetime \<Rightarrow> account_app \<Rightarrow> account_app option" where
  "seed_principal_startup_hook cfg en salts raw_key now a =
     (case as_principal (ap_auth a) of
        None \<Rightarrow> seed_principal cfg en salts raw_key now a
      | Some p \<Rightarrow>
          (case salts of (s1, s2, s3, s4) \<Rightarrow>
           Option.bind (maybe_reseed_admin cfg en (s1, s2) now p (ap_auth a)) (\<lambda>s.
           Option.bind (maybe_reseed_opds cfg en (s3, s4) now p s) (\<lambda>s'.
           Some (a\<lparr>ap_auth := s'\<rparr>)))))"

section \<open>Sessions at the gate\<close>

text \<open>C12: Revocation holds at the gate: once a session is logged out, a request that carries only its cookie is
  refused, on every path and method outside the exempt list and the reader feed, whatever other
  session traffic ran in between, late sliding writes of the same session included.\<close>

theorem logged_out_cookie_is_refused:
  assumes "(session_step (ac_digest cfg) (ac_sessions cfg) minted)\<^sup>*\<^sup>*
      (fst (logout (ac_digest cfg) tok (as_sessions s))) (as_sessions s')"
    and "ac_digest cfg tok \<notin> ac_digest cfg ` minted"
    and "cx_token cx = Some tok" and "cx_api_key cx = None"
    and "cx_type cx = ''http''" and "\<not> is_exempt (cx_path cx)" and "\<not> is_opds (cx_path cx) (ac_opds_base cfg)"
  shows "snd (perimeter cfg cx before_read before_finish later s') = Gate_unauthorized False"
proof -
  have "snd (authenticate (ac_digest cfg) (ac_sessions cfg) tok (cx_utc cx) (as_sessions s')) = None"
    using assms(1,2) by (rule logged_out_token)
  then have "snd (cookie_auth cfg cx s') = None"
    using assms(3) by (auto simp: cookie_auth_def split: option.splits prod.splits)
  then obtain t where "cookie_auth cfg cx s' = (t, None)" by (cases "cookie_auth cfg cx s'") simp
  then show ?thesis
    using assms(4-) by (simp add: perimeter_def authenticate_request_def api_key_auth_def basic_start_def)
qed

section \<open>Password changes\<close>

lemma lookup_create:
  assumes "digest token \<notin> ss_digest ` set t" and "token \<noteq> []" and "0 < tier_seconds tier st"
  shows "session_lookup digest token now (create_session digest st token who tier now t) =
    Some \<lparr>ss_digest = digest token, ss_principal = who, ss_tier = tier, ss_created_at = now,
      ss_last_seen_at = now, ss_expires_at = now + seconds (tier_seconds tier st)\<rparr>"
proof -
  have "row_get ss_digest (digest token) (t @ xs) = row_get ss_digest (digest token) xs" for xs
    using assms(1) by (induction t) auto
  then show ?thesis
    using assms(2,3) by (simp add: session_lookup_def create_session_def seconds_def us_per_second_def)
qed

lemma change_password_done:
  assumes "change_password cfg current new salt acting now s = (s', Reply_no_content)"
  obtains r h where "as_principal s = Some r" and "verify_password (ac_kdf cfg) current (pr_password_hash r)"
    and "hash_password (ac_kdf cfg) salt new = Some h"
    and "as_principal s' = Some (r\<lparr>pr_password_hash := h, pr_updated_at := now\<rparr>)"
    and "as_sessions s' = invalidate_others (ac_digest cfg) (pr_id r) acting (as_sessions s)"
    and "as_cache s' = map_option vc_clear (as_cache s)"
proof -
  obtain r h s1 where n: "new_credential cfg current new salt (as_principal s) = Inr (r, h)"
    and w: "write_principal (pr_id r) (\<lambda>row. row\<lparr>pr_password_hash := h, pr_updated_at := now\<rparr>) s = Some s1"
    and s': "s' = clear_opds_verify_cache
        (s1\<lparr>as_sessions := invalidate_others (ac_digest cfg) (pr_id r) acting (as_sessions s1)\<rparr>)"
    using assms by (auto simp: change_password_def new_credential_def split: sum.splits option.splits)
  have r: "as_principal s = Some r" "verify_password (ac_kdf cfg) current (pr_password_hash r)"
    "hash_password (ac_kdf cfg) salt new = Some h"
    using n by (auto simp: new_credential_def reauth_admin_def split: sum.splits option.splits if_splits)
  moreover have "s1 = s\<lparr>as_principal := Some (r\<lparr>pr_password_hash := h, pr_updated_at := now\<rparr>)\<rparr>"
    using w r(1) by (simp add: write_principal_def)
  ultimately show ?thesis by (intro that) (simp_all add: s' clear_opds_verify_cache_def)
qed

text \<open>A completed password change leaves the account with a hash that accepts exactly the keys of the new
  password, ends every session of the account but the acting one, and empties the reader cache.\<close>

theorem password_change_takes_effect:
  assumes "change_password cfg current new salt acting now s = (s', Reply_no_content)"
    and "base64_ok (ac_kdf cfg)"
    and "\<And>k. kd_derive (ac_kdf cfg) new salt SCRYPT_N SCRYPT_R SCRYPT_P = Some k \<Longrightarrow> k \<noteq> []"
  shows "\<exists>r. as_principal s' = Some r \<and>
    (\<forall>attempt. verify_password (ac_kdf cfg) attempt (pr_password_hash r) \<longleftrightarrow>
       kd_derive (ac_kdf cfg) attempt salt SCRYPT_N SCRYPT_R SCRYPT_P =
       kd_derive (ac_kdf cfg) new salt SCRYPT_N SCRYPT_R SCRYPT_P) \<and>
    (\<forall>row \<in> set (as_sessions s'). ss_principal row = pr_id r \<longrightarrow> acting \<noteq> [] \<and> ss_digest row = ac_digest cfg acting) \<and>
    (\<forall>c. as_cache s' = Some c \<longrightarrow> vc_entries c = [])"
proof -
  obtain r h where h: "hash_password (ac_kdf cfg) salt new = Some h"
    and p: "as_principal s' = Some (r\<lparr>pr_password_hash := h, pr_updated_at := now\<rparr>)"
    and t: "as_sessions s' = invalidate_others (ac_digest cfg) (pr_id r) acting (as_sessions s)"
    and c: "as_cache s' = map_option vc_clear (as_cache s)"
    using assms(1) by (rule change_password_done)
  show ?thesis
  proof (intro exI conjI)
    show "\<forall>attempt. verify_password (ac_kdf cfg) attempt
        (pr_password_hash (r\<lparr>pr_password_hash := h, pr_updated_at := now\<rparr>)) \<longleftrightarrow>
       kd_derive (ac_kdf cfg) attempt salt SCRYPT_N SCRYPT_R SCRYPT_P =
       kd_derive (ac_kdf cfg) new salt SCRYPT_N SCRYPT_R SCRYPT_P"
      using verify_hashed [OF assms(2) h] assms(3) by simp
  qed (use p t c in \<open>auto simp: invalidate_others_def vc_clear_def\<close>)
qed

text \<open>A login that read the account before a password change and finishes after it still opens a session: the
  old password, which the account no longer accepts, leaves a live token behind the sweep of the
  sessions.\<close>

theorem login_outlives_password_change:
  assumes "login_start cx s = (sa, Inr (Some r))"
    and "pr_username r = lb_username body"
    and "verify_password (ac_kdf cfg) (lb_password body) (pr_password_hash r)"
    and "change_password cfg (lb_password body) new salt acting now sa = (sb, Reply_no_content)"
    and "login_finish cfg cx body ok token (Some r) sb = (sc, answer)"
    and "token \<noteq> []" and "ac_digest cfg token \<notin> ss_digest ` set (as_sessions s)"
    and "0 < session_timeout_seconds (ac_sessions cfg)" and "0 < remember_timeout_seconds (ac_sessions cfg)"
  shows "answer = Reply_user (pr_username r) \<and> as_principal sc = as_principal sb \<and>
    (\<exists>row. session_lookup (ac_digest cfg) token (cx_utc cx) (as_sessions sc) = Some row \<and> ss_principal row = pr_id r)"
proof -
  have sa: "as_sessions sa = as_sessions s"
    using assms(1) throttle_check_frame [of "cx_clock cx" "cx_ip cx" SURFACE_LOGIN s]
    by (auto simp: login_start_def split: prod.splits option.splits auth_answer.splits)
  from assms(4) have "set (as_sessions sb) \<subseteq> set (as_sessions sa)"
    by (rule change_password_done) (auto simp: invalidate_others_def)
  then have sub: "set (as_sessions sb) \<subseteq> set (as_sessions s)" by (simp add: sa)
  define t where "t = (case cx_token cx of None \<Rightarrow> as_sessions sb
      | Some presented \<Rightarrow> fst (logout (ac_digest cfg) presented (as_sessions sb)))"
  have "set t \<subseteq> set (as_sessions sb)" by (auto simp: t_def logout_def split: option.splits if_splits)
  with sub assms(7) have fresh: "ac_digest cfg token \<notin> ss_digest ` set t" by blast
  have pos: "0 < tier_seconds (if lb_remember body then Remember_tier else Session_tier) (ac_sessions cfg)"
    using assms(8,9) by (simp add: tier_seconds_def)
  show ?thesis
    using assms(2,3,5) lookup_create [of "ac_digest cfg" token t, OF fresh assms(6) pos, of "cx_utc cx" "pr_id r"]
    by (auto simp: login_finish_def t_def Let_def)
qed

section \<open>Bootstrap\<close>

datatype account_edit =
    Edit_password string string string string datetime
  | Edit_opds_password string string string datetime
  | Edit_api_key string string datetime

fun apply_edit :: "auth_config \<Rightarrow> account_edit \<Rightarrow> account_app \<Rightarrow> account_app" where
  "apply_edit cfg (Edit_password current new salt acting now) a = on_auth (\<lambda>s. fst (change_password cfg current new salt acting now s)) a"
| "apply_edit cfg (Edit_opds_password current new salt now) a = on_auth (\<lambda>s. fst (change_opds_password cfg current new salt now s)) a"
| "apply_edit cfg (Edit_api_key current raw now) a = fst (rotate_api_key cfg current raw now a)"

text \<open>What the next boot looks at.\<close>

definition seeded_identity :: "account_app \<Rightarrow> (string \<times> string option \<times> string option) option" where
  "seeded_identity a = map_option (\<lambda>r. (pr_username r, pr_env_password_hash r, pr_env_opds_password_hash r)) (as_principal (ap_auth a))"

lemma apply_edit_identity: "seeded_identity (apply_edit cfg e a) = seeded_identity a"
proof (cases e)
  case (Edit_password cur new salt acting now)
  then show ?thesis
    by (auto simp: seeded_identity_def change_password_def write_principal_def clear_opds_verify_cache_def
        split: sum.splits option.splits)
next
  case (Edit_opds_password cur new salt now)
  then show ?thesis
    by (auto simp: seeded_identity_def change_opds_password_def write_principal_def clear_opds_verify_cache_def
        split: sum.splits option.splits)
next
  case (Edit_api_key cur raw now)
  then show ?thesis
    by (auto simp: seeded_identity_def rotate_api_key_def write_principal_def split: sum.splits option.splits)
qed

lemma fold_edit_identity: "seeded_identity (fold (apply_edit cfg) es a) = seeded_identity a"
  by (induction es arbitrary: a) (simp_all add: apply_edit_identity)

lemma seed_principal_identity:
  assumes "seed_principal cfg en salts raw now a = Some a1"
  shows "\<exists>s1 s2 h1 h2. seeded_identity a1 = Some (strip (en_admin_user en), Some h1, h2) \<and>
    hash_password (ac_kdf cfg) s1 (en_admin_password en) = Some h1 \<and>
    (if en_opds_password en = [] then h2 = None
     else \<exists>h. h2 = Some h \<and> hash_password (ac_kdf cfg) s2 (en_opds_password en) = Some h)"
proof -
  obtain x1 x2 x3 x4 where s: "salts = (x1, x2, x3, x4)" by (cases salts)
  show ?thesis
    using assms
    by - (rule exI [of _ x3], rule exI [of _ x4], auto simp: seed_principal_def s seeded_identity_def Let_def split: option.splits if_splits)
qed

text \<open>A stale environment never undoes a change made in the application: after the account is seeded from an
  environment and any sequence of password, reader-password and key changes follows, the next boot
  with that same environment leaves the account, its sessions and its cache as they are.\<close>

theorem stale_environment_is_ignored:
  assumes "seed_principal cfg en salts raw now a = Some a1"
    and "base64_ok (ac_kdf cfg)"
    and "\<And>pw salt k. kd_derive (ac_kdf cfg) pw salt SCRYPT_N SCRYPT_R SCRYPT_P = Some k \<Longrightarrow> k \<noteq> []"
  shows "seed_principal_startup_hook cfg en salts' raw' now' (fold (apply_edit cfg) edits a1) =
    Some (fold (apply_edit cfg) edits a1)"
proof -
  let ?a = "fold (apply_edit cfg) edits a1"
  obtain s1 s2 h1 h2 where sid: "seeded_identity a1 = Some (strip (en_admin_user en), Some h1, h2)"
    and h1: "hash_password (ac_kdf cfg) s1 (en_admin_password en) = Some h1"
    and h2: "if en_opds_password en = [] then h2 = None
      else \<exists>h. h2 = Some h \<and> hash_password (ac_kdf cfg) s2 (en_opds_password en) = Some h"
    using seed_principal_identity [OF assms(1)] by blast
  from sid obtain p where p: "as_principal (ap_auth ?a) = Some p" and f: "pr_username p = strip (en_admin_user en)"
      "pr_env_password_hash p = Some h1" "pr_env_opds_password_hash p = h2"
    using fold_edit_identity [of cfg edits a1] by (auto simp: seeded_identity_def)
  have v: "verify_password (ac_kdf cfg) pw h" if "hash_password (ac_kdf cfg) salt pw = Some h" for pw salt h
    using verify_hashed [OF assms(2) that] assms(3) by blast
  obtain x1 x2 x3 x4 where s: "salts' = (x1, x2, x3, x4)" by (cases salts')
  have "maybe_reseed_admin cfg en (x1, x2) now' p (ap_auth ?a) = Some (ap_auth ?a)"
    using f v [OF h1] by (simp add: maybe_reseed_admin_def Let_def)
  moreover have "maybe_reseed_opds cfg en (x3, x4) now' p (ap_auth ?a) = Some (ap_auth ?a)"
    using f h2 v by (auto simp: maybe_reseed_opds_def Let_def split: if_splits)
  ultimately show ?thesis by (simp add: seed_principal_startup_hook_def p s)
qed


definition demo_admin :: auth_state where
  "demo_admin = demo_auth\<lparr>as_principal := Some (demo_account\<lparr>pr_password_hash := the (hash_password demo_kdf ''s'' ''old'')\<rparr>)\<rparr>"

definition demo_web :: connection where
  "demo_web = demo_cx\<lparr>cx_path := ''/api/v1/series'', cx_token := Some ''tok'', cx_api_key := None\<rparr>"

lemma logged_out_cookie_is_refused_witness:
  "snd (perimeter demo_cfg demo_web id id 0 (demo_auth\<lparr>as_sessions :=
     session_touch (demo_digest ''tok'') 5 900 (fst (logout demo_digest ''tok''
       (create_session demo_digest (ac_sessions demo_cfg) ''tok'' 1 Session_tier 0 [])))\<rparr>)) = Gate_unauthorized False"
  by (rule logged_out_cookie_is_refused [where minted = "{}" and tok = "''tok''" and
        s = "demo_auth\<lparr>as_sessions := create_session demo_digest (ac_sessions demo_cfg) ''tok'' 1 Session_tier 0 []\<rparr>"])
    (auto simp: demo_cfg_def demo_web_def demo_cx_def is_exempt_def EXEMPT_PATHS_def is_opds_def startswith_def
      intro: step_touch)

lemma demo_hash_ok: "verify_password demo_kdf pw (the (hash_password demo_kdf ''s'' pw))"
  using verify_hashed [of demo_kdf "''s''" pw _ pw, OF base64_demo] by (simp add: hash_password_def demo_kdf_def)

lemma demo_changed:
  "change_password demo_cfg ''old'' ''new'' ''t'' [] 9 demo_admin =
    (clear_opds_verify_cache (demo_admin\<lparr>as_principal := Some (demo_account\<lparr>
       pr_password_hash := the (hash_password demo_kdf ''t'' ''new''), pr_updated_at := 9\<rparr>)\<rparr>), Reply_no_content)"
proof -
  have "\<exists>h. hash_password demo_kdf ''t'' ''new'' = Some h" by (simp add: hash_password_def demo_kdf_def)
  then show ?thesis
    using demo_hash_ok [of "''old''"]
    by (auto simp: change_password_def new_credential_def reauth_admin_def demo_admin_def demo_auth_def demo_cfg_def
        MAX_PASSWORD_LENGTH_def validate_new_password_def write_principal_def demo_account_def invalidate_others_def)
qed

lemma demo_kdf_nonempty: "kd_derive demo_kdf pw salt n r p = Some k \<Longrightarrow> k \<noteq> []"
  by (auto simp: demo_kdf_def)

lemma password_change_takes_effect_witness:
  "\<exists>r. as_principal (fst (change_password demo_cfg ''old'' ''new'' ''t'' [] 9 demo_admin)) = Some r \<and>
    verify_password demo_kdf ''new'' (pr_password_hash r) \<and> \<not> verify_password demo_kdf ''old'' (pr_password_hash r)"
proof -
  have k: "ac_kdf demo_cfg = demo_kdf" by (simp add: demo_cfg_def)
  have n: "\<And>x. kd_derive demo_kdf ''new'' ''t'' SCRYPT_N SCRYPT_R SCRYPT_P = Some x \<Longrightarrow> x \<noteq> []"
    by (rule demo_kdf_nonempty)
  from password_change_takes_effect [OF demo_changed, unfolded k, OF base64_demo n] obtain r
    where r: "as_principal (fst (change_password demo_cfg ''old'' ''new'' ''t'' [] 9 demo_admin)) = Some r"
      and v: "\<And>pw. verify_password demo_kdf pw (pr_password_hash r) \<longleftrightarrow>
        kd_derive demo_kdf pw ''t'' SCRYPT_N SCRYPT_R SCRYPT_P = kd_derive demo_kdf ''new'' ''t'' SCRYPT_N SCRYPT_R SCRYPT_P"
    unfolding demo_changed fst_conv by auto
  show ?thesis by (rule exI [of _ r]) (simp add: r v, simp add: demo_kdf_def)
qed

lemma login_outlives_password_change_witness:
  "\<exists>row. session_lookup demo_digest ''tok'' 0 (as_sessions (fst (login_finish demo_cfg demo_cx
     \<lparr>lb_username = ''u'', lb_password = ''old'', lb_remember = False\<rparr> True ''tok'' (as_principal demo_admin)
     (fst (change_password demo_cfg ''old'' ''new'' ''t'' [] 9 demo_admin))))) = Some row \<and> ss_principal row = 1"
proof -
  let ?body = "\<lparr>lb_username = ''u'', lb_password = ''old'', lb_remember = False\<rparr>"
  let ?r = "demo_account\<lparr>pr_password_hash := the (hash_password demo_kdf ''s'' ''old'')\<rparr>"
  obtain s3 answer where f: "login_finish demo_cfg demo_cx ?body True ''tok'' (Some ?r)
      (fst (change_password demo_cfg ''old'' ''new'' ''t'' [] 9 demo_admin)) = (s3, answer)"
    by (cases "login_finish demo_cfg demo_cx ?body True ''tok'' (Some ?r)
      (fst (change_password demo_cfg ''old'' ''new'' ''t'' [] 9 demo_admin))")
  have start: "login_start demo_cx demo_admin = (demo_admin, Inr (Some ?r))"
    by (simp add: login_start_def throttle_check_def demo_admin_def demo_auth_def)
  have ok: "verify_password (ac_kdf demo_cfg) (lb_password ?body) (pr_password_hash ?r)"
    using demo_hash_ok by (simp add: demo_cfg_def)
  have change: "change_password demo_cfg (lb_password ?body) ''new'' ''t'' [] 9 demo_admin =
      (fst (change_password demo_cfg ''old'' ''new'' ''t'' [] 9 demo_admin), Reply_no_content)"
    by (simp add: demo_changed)
  have "\<exists>row. session_lookup (ac_digest demo_cfg) ''tok'' (cx_utc demo_cx) (as_sessions s3) = Some row \<and>
      ss_principal row = pr_id ?r"
    using login_outlives_password_change [OF start _ ok change f]
    by (simp add: demo_admin_def demo_auth_def demo_account_def demo_cfg_def)
  then show ?thesis using f by (simp add: demo_admin_def demo_account_def demo_cfg_def demo_cx_def)
qed

definition demo_env :: env_credentials where
  "demo_env = \<lparr>en_admin_user = ''u'', en_admin_password = ''old'', en_opds_password = []\<rparr>"

definition demo_seeded :: account_app where
  "demo_seeded = the (seed_principal demo_cfg demo_env (''1'', ''2'', ''3'', ''4'') ''key'' 0
     \<lparr>ap_auth = demo_auth\<lparr>as_principal := None\<rparr>, ap_bootstrap_key = None\<rparr>)"

lemma stale_environment_is_ignored_witness:
  "seed_principal_startup_hook demo_cfg demo_env (''5'', ''6'', ''7'', ''8'') ''other'' 20
     (fold (apply_edit demo_cfg) [Edit_password ''old'' ''new'' ''t'' [] 9] demo_seeded) =
   Some (fold (apply_edit demo_cfg) [Edit_password ''old'' ''new'' ''t'' [] 9] demo_seeded)"
  by (rule stale_environment_is_ignored [of _ _ "(''1'', ''2'', ''3'', ''4'')" "''key''" 0
        "\<lparr>ap_auth = demo_auth\<lparr>as_principal := None\<rparr>, ap_bootstrap_key = None\<rparr>"])
    (auto simp: demo_seeded_def demo_cfg_def base64_demo seed_principal_def demo_env_def hash_password_def demo_kdf_nonempty,
      simp add: demo_kdf_def)

end
