(* ===== verification/Reader_Cache.thy ===== *)
theory Reader_Cache
  imports Perimeter
begin

text \<open>
  The cache of verified reader passwords under concurrency: reader checks, credential changes and
  the clears that follow them as the steps of \<open>reader_step\<close>, in any interleaving, and the invariant
  that makes a cache hit as good as a verification.
\<close>

section \<open>The verify cache under concurrent credential changes\<close>

text \<open>
  The requests in flight: those that captured a generation, and those that have read the
  principal too. \<open>rw_writers\<close> counts the credential changes that have committed and not yet
  cleared the cache.
\<close>

record reader_world =
  rw_state :: auth_state
  rw_started :: "basic_pending list"
  rw_reading :: "(basic_pending \<times> principal_row option) list"
  rw_writers :: nat

definition same_reader :: "principal_row option \<Rightarrow> principal_row option \<Rightarrow> bool" where
  "same_reader p q \<longleftrightarrow>
     map_option (\<lambda>r. (pr_id r, pr_username r, pr_opds_password_hash r)) p =
     map_option (\<lambda>r. (pr_id r, pr_username r, pr_opds_password_hash r)) q"

inductive reader_step :: "auth_config \<Rightarrow> reader_world \<Rightarrow> reader_world \<Rightarrow> bool" for cfg :: auth_config where
  reader_answered: "basic_start cfg cx (rw_state w) = (s, Inl a) \<Longrightarrow> reader_step cfg w (w\<lparr>rw_state := s\<rparr>)"
| reader_started: "basic_start cfg cx (rw_state w) = (s, Inr pend) \<Longrightarrow>
    reader_step cfg w (w\<lparr>rw_state := s, rw_started := pend # rw_started w\<rparr>)"
| reader_reads: "pend \<in> set (rw_started w) \<Longrightarrow>
    reader_step cfg w (w\<lparr>rw_started := remove1 pend (rw_started w),
      rw_reading := (pend, as_principal (rw_state w)) # rw_reading w\<rparr>)"
| reader_finishes: "(pend, p) \<in> set (rw_reading w) \<Longrightarrow> basic_finish cfg cx now pend p (rw_state w) = (s, a) \<Longrightarrow>
    reader_step cfg w (w\<lparr>rw_state := s, rw_reading := remove1 (pend, p) (rw_reading w)\<rparr>)"
| change_commits: "reader_step cfg w (w\<lparr>rw_state := (rw_state w)\<lparr>as_principal := p\<rparr>, rw_writers := rw_writers w + 1\<rparr>)"
| change_clears: "0 < rw_writers w \<Longrightarrow>
    reader_step cfg w (w\<lparr>rw_state := (rw_state w)\<lparr>as_cache := map_option vc_clear (as_cache (rw_state w))\<rparr>,
      rw_writers := rw_writers w - 1\<rparr>)"
| other_write: "same_reader (as_principal s) (as_principal (rw_state w)) \<Longrightarrow> as_cache s = as_cache (rw_state w) \<Longrightarrow>
    reader_step cfg w (w\<lparr>rw_state := s\<rparr>)"

definition current_reader :: "auth_config \<Rightarrow> principal_row option \<Rightarrow> string \<Rightarrow> string \<Rightarrow> int \<Rightarrow> bool" where
  "current_reader cfg p user password who \<longleftrightarrow>
     (case p of None \<Rightarrow> False | Some r \<Rightarrow> basic_ok cfg user password r \<and> who = pr_id r)"

definition cache_faithful :: "auth_config \<Rightarrow> principal_row option \<Rightarrow> verify_cache \<Rightarrow> bool" where
  "cache_faithful cfg p c \<longleftrightarrow>
     (\<forall>e \<in> set (vc_entries c).
        \<exists>user password. fst e = cache_key_of (ac_digest cfg) user password \<and> current_reader cfg p user password (fst (snd e)))"

definition reading_faithful ::
  "auth_config \<Rightarrow> principal_row option \<Rightarrow> nat \<Rightarrow> (basic_pending \<times> principal_row option) list \<Rightarrow> bool" where
  "reading_faithful cfg p gen rs \<longleftrightarrow> (\<forall>e \<in> set rs. snd (fst e) = gen \<longrightarrow> same_reader (snd e) p)"

definition inv_at ::
  "auth_config \<Rightarrow> principal_row option \<Rightarrow> basic_pending list \<Rightarrow> (basic_pending \<times> principal_row option) list \<Rightarrow> nat \<Rightarrow>
   verify_cache \<Rightarrow> bool" where
  "inv_at cfg p started reading writers c \<longleftrightarrow>
     (\<forall>e \<in> set started. snd e \<le> vc_generation c) \<and>
     (\<forall>e \<in> set reading. snd (fst e) \<le> vc_generation c) \<and>
     (writers = 0 \<longrightarrow> cache_faithful cfg p c \<and> reading_faithful cfg p (vc_generation c) reading)"

definition reader_inv :: "auth_config \<Rightarrow> reader_world \<Rightarrow> bool" where
  "reader_inv cfg w \<longleftrightarrow>
     (\<forall>c. as_cache (rw_state w) = Some c \<longrightarrow>
        inv_at cfg (as_principal (rw_state w)) (rw_started w) (rw_reading w) (rw_writers w) c)"

lemma current_same: "same_reader q p \<Longrightarrow> current_reader cfg q user password who = current_reader cfg p user password who"
  by (auto simp: same_reader_def current_reader_def basic_ok_def split: option.splits)

lemma same_reader_trans: "same_reader p q \<Longrightarrow> same_reader q r \<Longrightarrow> same_reader p r"
  by (simp add: same_reader_def)

lemma same_reader_sym: "same_reader p q \<Longrightarrow> same_reader q p"
  by (simp add: same_reader_def)

lemma vc_get_entries:
  "vc_get sha now user password c = (c', r) \<Longrightarrow>
   set (vc_entries c') \<subseteq> set (vc_entries c) \<and> vc_generation c' = vc_generation c"
  by (auto simp: vc_get_def od_pop_def Let_def split: option.splits if_splits)

lemma vc_get_Some:
  "vc_get sha now user password c = (c', Some who) \<Longrightarrow>
   \<exists>e. (cache_key_of sha user password, (who, e)) \<in> set (vc_entries c)"
  by (auto simp: vc_get_def Let_def split: option.splits if_splits dest!: map_of_SomeD)

lemma set_od_set_subset: "set (od_set k v d) \<subseteq> insert (k, v) (set d)"
  by (induction d) (auto split: if_splits)

lemma set_od_move_to_end_subset: "set (od_move_to_end k d) \<subseteq> set d"
  by (auto simp: od_move_to_end_def od_pop_def split: option.splits dest: map_of_SomeD)

lemma vc_put_entries:
  "set (vc_entries (vc_put sha now user password who gen c)) \<subseteq>
     (if gen = vc_generation c then insert (cache_key_of sha user password, (who, now + vc_ttl c)) (set (vc_entries c))
      else set (vc_entries c))"
proof (cases "gen = vc_generation c")
  case True
  let ?k = "cache_key_of sha user password"
  have "set (vc_entries (vc_put sha now user password who gen c)) \<subseteq>
      set (od_move_to_end ?k (od_set ?k (who, now + vc_ttl c) (vc_entries c)))"
    using True by (auto simp: vc_put_def Let_def pop_while_longer_eq dest: in_set_dropD)
  also have "\<dots> \<subseteq> set (od_set ?k (who, now + vc_ttl c) (vc_entries c))" by (rule set_od_move_to_end_subset)
  also have "\<dots> \<subseteq> insert (?k, (who, now + vc_ttl c)) (set (vc_entries c))" by (rule set_od_set_subset)
  finally show ?thesis using True by simp
qed (simp add: vc_put_def)

lemma vc_put_generation [simp]: "vc_generation (vc_put sha now user password who gen c) = vc_generation c"
  by (simp add: vc_put_def Let_def)

lemma cache_faithful_subset: "cache_faithful cfg p c \<Longrightarrow> set (vc_entries c') \<subseteq> set (vc_entries c) \<Longrightarrow> cache_faithful cfg p c'"
  unfolding cache_faithful_def by blast

lemma cache_faithful_same: "same_reader q p \<Longrightarrow> cache_faithful cfg q c = cache_faithful cfg p c"
  by (simp add: cache_faithful_def current_same)


lemma inv_at_subset:
  assumes "inv_at cfg p st rd n c" and "set st' \<subseteq> set st" and "set rd' \<subseteq> set rd"
    and "set (vc_entries c') \<subseteq> set (vc_entries c)" and "vc_generation c' = vc_generation c"
  shows "inv_at cfg p st' rd' n c'"
  using assms cache_faithful_subset [of cfg p c c'] unfolding inv_at_def reading_faithful_def by (auto simp: subset_iff)

lemma inv_at_start: "inv_at cfg p st rd n c \<Longrightarrow> snd e = vc_generation c \<Longrightarrow> inv_at cfg p (e # st) rd n c"
  by (auto simp: inv_at_def)

lemma inv_at_read: "inv_at cfg p st rd n c \<Longrightarrow> e \<in> set st \<Longrightarrow> inv_at cfg p st ((e, p) # rd) n c"
  by (auto simp: inv_at_def reading_faithful_def same_reader_def)

lemma inv_at_commit: "inv_at cfg p st rd n c \<Longrightarrow> inv_at cfg p' st rd (Suc n) c"
  by (auto simp: inv_at_def)

lemma inv_at_clear: "inv_at cfg p st rd n c \<Longrightarrow> inv_at cfg p st rd n' (vc_clear c)"
proof -
  assume inv: "inv_at cfg p st rd n c"
  then show ?thesis
    by (fastforce simp: inv_at_def vc_clear_def cache_faithful_def reading_faithful_def)
qed

lemma inv_at_same:
  assumes "inv_at cfg p st rd n c" and "same_reader p' p"
  shows "inv_at cfg p' st rd n c"
  using assms same_reader_trans [OF _ same_reader_sym [OF assms(2)]] cache_faithful_same [OF assms(2), of cfg c]
  by (auto simp: inv_at_def reading_faithful_def)

lemma inv_at_put:
  assumes inv: "inv_at cfg p st rd n c" and r: "(((user, password), g), Some r) \<in> set rd"
    and ok: "basic_ok cfg user password r"
  shows "inv_at cfg p st rd n (vc_put (ac_digest cfg) now user password (pr_id r) g c)"
proof (cases "g = vc_generation c")
  case True
  have "cache_faithful cfg p (vc_put (ac_digest cfg) now user password (pr_id r) g c)"
    if "n = 0"
  proof -
    have f: "cache_faithful cfg p c" and q: "same_reader (Some r) p"
      using inv that r True by (auto simp: inv_at_def reading_faithful_def)
    have "current_reader cfg (Some r) user password (pr_id r)" using ok by (simp add: current_reader_def)
    then have "current_reader cfg p user password (pr_id r)" by (simp only: current_same [OF q])
    then show ?thesis
      using f vc_put_entries [of "ac_digest cfg" now user password "pr_id r" g c] True
      unfolding cache_faithful_def by (fastforce simp: subset_iff)
  qed
  with inv show ?thesis by (auto simp: inv_at_def)
next
  case False
  then have "vc_put (ac_digest cfg) now user password (pr_id r) g c = c" by (simp add: vc_put_def)
  with inv show ?thesis by simp
qed

lemma basic_start_cache:
  assumes "basic_start cfg cx s = (s', r)"
  shows "as_principal s' = as_principal s \<and>
    (case as_cache s of
       None \<Rightarrow> as_cache s' = None
     | Some c \<Rightarrow> (\<exists>c'. as_cache s' = Some c' \<and> set (vc_entries c') \<subseteq> set (vc_entries c) \<and>
         vc_generation c' = vc_generation c \<and> (\<forall>e. r = Inr e \<longrightarrow> snd e = vc_generation c)))"
proof (cases "is_opds (cx_path cx) (ac_opds_base cfg)")
  case False
  then show ?thesis using assms by (auto simp: basic_start_def split: option.splits)
next
  case opds: True
  show ?thesis
  proof (cases "decode_basic (ac_b64 cfg) (cx_authorization cx)")
    case None
    then show ?thesis using assms by (auto simp: basic_start_def split: option.splits)
  next
    case (Some up)
    obtain user password where up: "up = (user, password)" by (cases up)
    obtain s1 a where t: "throttle_check (cx_clock cx) (cx_ip cx) SURFACE_BASIC s = (s1, a)"
      by (cases "throttle_check (cx_clock cx) (cx_ip cx) SURFACE_BASIC s")
    note fr = throttle_check_frame [OF t]
    show ?thesis
    proof (cases a)
      case None
      show ?thesis
      proof (cases "as_cache s")
        case N: None
        with opds Some up t None fr assms show ?thesis by (auto simp: basic_start_def)
      next
        case (Some c)
        obtain c' h where g: "vc_get (ac_digest cfg) (cx_clock cx) user password c = (c', h)"
          by (cases "vc_get (ac_digest cfg) (cx_clock cx) user password c")
        note e = vc_get_entries [OF g]
        show ?thesis
          using opds \<open>decode_basic _ _ = _\<close> up t None fr assms Some g e
          by (cases h) (auto simp: basic_start_def)
      qed
    next
      case (Some x)
      with opds \<open>decode_basic _ _ = _\<close> up t fr assms show ?thesis
        by (auto simp: basic_start_def split: option.splits)
    qed
  qed
qed

lemma basic_finish_cache:
  "basic_finish cfg cx now ((user, password), g) p s = (s', a) \<Longrightarrow> as_principal s' = as_principal s \<and>
   (as_cache s' = as_cache s \<or>
    (\<exists>r. p = Some r \<and> basic_ok cfg user password r \<and>
       as_cache s' = map_option (vc_put (ac_digest cfg) now user password (pr_id r) g) (as_cache s)))"
  by (auto simp: basic_finish_def split: option.splits if_splits)

lemma reader_step_inv:
  assumes "reader_step cfg w w'" and inv: "reader_inv cfg w"
  shows "reader_inv cfg w'"
  using assms(1)
proof (cases rule: reader_step.cases)
  case (reader_answered cx s a)
  show ?thesis
    using basic_start_cache [OF reader_answered(2)] inv reader_answered(1)
    by (auto simp: reader_inv_def split: option.splits intro: inv_at_subset [OF _ order_refl order_refl])
next
  case (reader_started cx s pend)
  have *: "inv_at cfg p (pend # st) rd n c'"
    if "inv_at cfg p st rd n c" "set (vc_entries c') \<subseteq> set (vc_entries c)" "vc_generation c' = vc_generation c"
      "snd pend = vc_generation c" for p st rd n c c'
    using inv_at_start [of cfg p st rd n c' pend] inv_at_subset [OF that(1) order_refl order_refl that(2,3)] that(3,4)
    by simp
  show ?thesis
    using basic_start_cache [OF reader_started(2)] inv reader_started(1)
    by (auto simp: reader_inv_def split: option.splits intro: *)
next
  case (reader_reads pend)
  have "inv_at cfg q (remove1 pend st) ((pend, q) # rd) n c" if "inv_at cfg q st rd n c" "pend \<in> set st" for q st rd n c
    by (rule inv_at_subset [OF inv_at_read [OF that] set_remove1_subset order_refl order_refl refl])
  then show ?thesis using reader_reads inv by (simp add: reader_inv_def)
next
  case (reader_finishes pend p cx now s a)
  obtain user password g where pend: "pend = ((user, password), g)" by (metis surj_pair)
  have fin: "basic_finish cfg cx now ((user, password), g) p (rw_state w) = (s, a)" and
    e: "(((user, password), g), p) \<in> set (rw_reading w)"
    using reader_finishes(3,2) unfolding pend .
  have "inv_at cfg (as_principal s) (rw_started w) (rw_reading w) (rw_writers w) c" if c: "as_cache s = Some c" for c
    using basic_finish_cache [OF fin]
  proof (elim conjE disjE exE)
    assume "as_principal s = as_principal (rw_state w)" "as_cache s = as_cache (rw_state w)"
    then show ?thesis using c inv by (simp add: reader_inv_def)
  next
    fix r
    assume ps: "as_principal s = as_principal (rw_state w)" and r: "p = Some r" "basic_ok cfg user password r"
      and "as_cache s = map_option (vc_put (ac_digest cfg) now user password (pr_id r) g) (as_cache (rw_state w))"
    then obtain c0 where c0: "as_cache (rw_state w) = Some c0"
      and p: "c = vc_put (ac_digest cfg) now user password (pr_id r) g c0"
      using c by (cases "as_cache (rw_state w)") auto
    have "inv_at cfg (as_principal (rw_state w)) (rw_started w) (rw_reading w) (rw_writers w) c0"
      using inv c0 by (simp add: reader_inv_def)
    then show ?thesis unfolding p ps by (rule inv_at_put [OF _ e [unfolded r(1)] r(2)])
  qed
  then show ?thesis
    using reader_finishes(1) inv_at_subset [OF _ order_refl set_remove1_subset order_refl refl]
    by (simp add: reader_inv_def)
next
  case (change_commits p)
  then show ?thesis using inv by (auto simp: reader_inv_def intro: inv_at_commit)
next
  case change_clears
  then show ?thesis using inv by (auto simp: reader_inv_def intro: inv_at_clear)
next
  case (other_write s)
  then show ?thesis using inv by (auto simp: reader_inv_def intro: inv_at_same)
qed

lemma reader_reach_inv: "(reader_step cfg)\<^sup>*\<^sup>* w w' \<Longrightarrow> reader_inv cfg w \<Longrightarrow> reader_inv cfg w'"
  by (induction rule: rtranclp_induct) (auto intro: reader_step_inv)

definition fresh_reader_world :: "auth_state \<Rightarrow> reader_world" where
  "fresh_reader_world s =
     \<lparr>rw_state = s\<lparr>as_cache := Some new_verify_cache\<rparr>, rw_started = [], rw_reading = [], rw_writers = 0\<rparr>"

text \<open>C3: A rotated reader password is dead: however verifications, credential changes and the clears that follow
  them interleave, once no change is between its commit and its clear, a request answered from the
  cache carries credentials that the account of this moment verifies, and is let in as that
  account. The digest of the cache key is taken to be free of collisions.\<close>

theorem cached_reader_is_current:
  assumes "(reader_step cfg)\<^sup>*\<^sup>* (fresh_reader_world s0) w" and "rw_writers w = 0"
    and "\<And>u p u' p'. cache_key_of (ac_digest cfg) u p = cache_key_of (ac_digest cfg) u' p' \<Longrightarrow> u = u' \<and> p = p'"
    and "basic_start cfg cx (rw_state w) = (s', Inl (Authed who Via_basic))"
  shows "\<exists>user password. decode_basic (ac_b64 cfg) (cx_authorization cx) = Some (user, password) \<and>
    current_reader cfg (as_principal (rw_state w)) user password who"
proof -
  have "reader_inv cfg w"
    using reader_reach_inv [OF assms(1)]
    by (simp add: fresh_reader_world_def reader_inv_def inv_at_def new_verify_cache_def cache_faithful_def
        reading_faithful_def)
  moreover obtain user password c where d: "decode_basic (ac_b64 cfg) (cx_authorization cx) = Some (user, password)"
    and c: "as_cache (rw_state w) = Some c"
    and hit: "snd (vc_get (ac_digest cfg) (cx_clock cx) user password c) = Some who"
    using assms(4) by (rule basic_start_Authed)
  ultimately have "cache_faithful cfg (as_principal (rw_state w)) c"
    using assms(2) by (simp add: reader_inv_def inv_at_def)
  moreover obtain e where "(cache_key_of (ac_digest cfg) user password, (who, e)) \<in> set (vc_entries c)"
    using hit vc_get_Some by (metis prod.collapse)
  ultimately obtain u p where "cache_key_of (ac_digest cfg) user password = cache_key_of (ac_digest cfg) u p"
    and cur: "current_reader cfg (as_principal (rw_state w)) u p who"
    unfolding cache_faithful_def by force
  with assms(3) have "u = user" "p = password" by blast+
  with cur d show ?thesis by blast
qed


lemma demo_digest_prefix_free: "demo_digest x @ r = demo_digest y @ r' \<Longrightarrow> x = y \<and> r = r'"
proof (induction x arbitrary: y)
  case Nil
  then show ?case by (cases y) (simp_all add: demo_digest_def)
next
  case (Cons c x)
  then show ?case by (cases y) (simp_all add: demo_digest_def)
qed

lemma demo_key_injective:
  "cache_key_of demo_digest u p = cache_key_of demo_digest u' p' \<Longrightarrow> u = u' \<and> p = p'"
  using demo_digest_prefix_free [of "demo_digest u @ demo_digest p" "[]" "demo_digest u' @ demo_digest p'" "[]"]
    demo_digest_prefix_free [of u "demo_digest p" u' "demo_digest p'"] demo_digest_prefix_free [of p "[]" p' "[]"]
  by (simp add: cache_key_of_def)

lemma demo_reader_ok: "basic_ok demo_cfg ''u'' ''p'' demo_account"
  using verify_hashed [of demo_kdf "''s''" "''p''" _ "''p''", OF base64_demo]
  by (simp add: basic_ok_def demo_cfg_def demo_account_def hash_password_def demo_kdf_def)

lemma demo_decoded: "decode_basic Some ''basic u:p'' = Some (''u'', ''p'')"
  by (simp add: decode_basic_def startswith_def str_lower_def is_upper_def code_def strip_def is_space_def)

lemma demo_started:
  "basic_start demo_cfg demo_cx demo_auth = (demo_auth, Inr ((''u'', ''p''), 0))"
  by (simp add: basic_start_def demo_cfg_def demo_cx_def is_opds_def demo_decoded demo_auth_def throttle_check_def
      vc_get_def new_verify_cache_def)

definition demo_cached :: auth_state where
  "demo_cached = demo_auth\<lparr>as_cache := Some (new_verify_cache\<lparr>vc_entries :=
     [(cache_key_of demo_digest ''u'' ''p'', (1, 60))]\<rparr>)\<rparr>"

lemma demo_finished:
  "basic_finish demo_cfg demo_cx 0 ((''u'', ''p''), 0) (Some demo_account) demo_auth = (demo_cached, Authed 1 Via_basic)"
  using demo_reader_ok
  by (simp add: basic_finish_def demo_cached_def demo_auth_def new_verify_cache_def vc_put_def note_success_def
      demo_account_def demo_cfg_def od_move_to_end_def od_pop_def pop_while_longer_eq OPDS_VERIFY_CAPACITY_def
      OPDS_VERIFY_TTL_SECONDS_def)

lemma demo_hit: "basic_start demo_cfg demo_cx demo_cached = (demo_cached, Inl (Authed 1 Via_basic))"
  by (simp add: basic_start_def demo_cfg_def demo_cx_def is_opds_def demo_decoded demo_auth_def throttle_check_def
      vc_get_def new_verify_cache_def demo_cached_def note_success_def)

lemma cached_reader_is_current_witness:
  "\<exists>user password. decode_basic (ac_b64 demo_cfg) (cx_authorization demo_cx) = Some (user, password) \<and>
    current_reader demo_cfg (as_principal (rw_state ((fresh_reader_world demo_auth)\<lparr>rw_state := demo_cached\<rparr>)))
      user password 1"
proof (rule cached_reader_is_current)
  let ?w = "fresh_reader_world demo_auth" and ?e = "((''u'', ''p''), 0 :: nat)"
  have s: "rw_state ?w = demo_auth" by (simp add: fresh_reader_world_def demo_auth_def)
  let ?w1 = "?w\<lparr>rw_started := [?e]\<rparr>" and ?w2 = "?w\<lparr>rw_reading := [(?e, Some demo_account)]\<rparr>"
  have "reader_step demo_cfg ?w (?w\<lparr>rw_state := demo_auth, rw_started := ?e # rw_started ?w\<rparr>)"
    by (rule reader_started [where cx = demo_cx]) (simp only: s demo_started)
  then have 1: "reader_step demo_cfg ?w ?w1"
    by (simp add: fresh_reader_world_def demo_auth_def)
  have "reader_step demo_cfg ?w1 (?w1\<lparr>rw_started := remove1 ?e (rw_started ?w1),
      rw_reading := (?e, as_principal (rw_state ?w1)) # rw_reading ?w1\<rparr>)"
    by (rule reader_reads) simp
  then have 2: "reader_step demo_cfg ?w1 ?w2"
    by (simp add: fresh_reader_world_def demo_auth_def)
  have "reader_step demo_cfg ?w2 (?w2\<lparr>rw_state := demo_cached, rw_reading := remove1 (?e, Some demo_account) (rw_reading ?w2)\<rparr>)"
    by (rule reader_finishes [where cx = demo_cx and now = 0 and a = "Authed 1 Via_basic"])
      (simp, simp add: s demo_finished)
  then have 3: "reader_step demo_cfg ?w2 (?w\<lparr>rw_state := demo_cached\<rparr>)"
    by (simp add: fresh_reader_world_def)
  from 1 2 3 show "(reader_step demo_cfg)\<^sup>*\<^sup>* ?w (?w\<lparr>rw_state := demo_cached\<rparr>)"
    by (meson converse_rtranclp_into_rtranclp r_into_rtranclp)
  show "basic_start demo_cfg demo_cx (rw_state (?w\<lparr>rw_state := demo_cached\<rparr>)) = (demo_cached, Inl (Authed 1 Via_basic))"
    using demo_hit by simp
  fix u p u' p'
  assume "cache_key_of (ac_digest demo_cfg) u p = cache_key_of (ac_digest demo_cfg) u' p'"
  then have "cache_key_of demo_digest u p = cache_key_of demo_digest u' p'" by (simp only: demo_cfg_def auth_config.simps)
  then show "u = u' \<and> p = p'" by (rule demo_key_injective)
qed (simp add: fresh_reader_world_def)

end
