(* ===== verification/Naming.thy ===== *)
theory Naming
  imports Safe_Paths
begin

text \<open>
  The token-based naming engine (\<open>naming.py\<close>): templates of literal text, tokens and optional groups,
  rendered to file names within a byte limit and to folder segments.

  Text is Latin-1, so a character is one or two bytes of UTF-8. The regular expressions of the
  lexer are scanners: \<open>next_group\<close> finds a bracketed span, \<open>token_at\<close> reads a token.
\<close>

section \<open>Fields and tokens\<close>

definition DEFAULT_FOLDER_TEMPLATE :: string where
  "DEFAULT_FOLDER_TEMPLATE = ''{Series Title} ({Year})''"

definition FOLDER_TEMPLATE_NO_YEAR :: string where
  "FOLDER_TEMPLATE_NO_YEAR = ''{Series Title}''"

definition DEFAULT_FILE_TEMPLATE :: string where
  "DEFAULT_FILE_TEMPLATE = ''{Series Title} {Issue Number:000} ({Year})''"

definition DEFAULT_MAX_FILENAME_BYTES :: int where "DEFAULT_MAX_FILENAME_BYTES = 255"

datatype field_key =
    Series_title_key | Series_cleantitle_key | Volume_key | Year_key | Issue_key | Issue_title_key
  | Classification_key | Booktype_key | Release_group_key | Issue_id_key | Cv_issue_id_key | Publisher_key

definition TOKEN_ALIASES :: "(string \<times> field_key) list" where
  "TOKEN_ALIASES =
     [(''series title'', Series_title_key), (''series cleantitle'', Series_cleantitle_key),
      (''cleantitle'', Series_cleantitle_key), (''volume'', Volume_key), (''year'', Year_key), (''issue'', Issue_key),
      (''issue number'', Issue_key), (''issue title'', Issue_title_key), (''classification'', Classification_key),
      (''booktype'', Booktype_key), (''release group'', Release_group_key), (''issueid'', Issue_id_key),
      (''issue id'', Issue_id_key), (''cvissueid'', Cv_issue_id_key), (''cv issue id'', Cv_issue_id_key),
      (''publisher'', Publisher_key)]"

record rename_fields =
  rf_series_title :: "string option"
  rf_series_cleantitle :: "string option"
  rf_volume :: "string option"
  rf_year :: "string option"
  rf_issue :: "string option"
  rf_issue_title :: "string option"
  rf_classification :: "string option"
  rf_booktype :: "string option"
  rf_release_group :: "string option"
  rf_issue_id :: "string option"
  rf_cv_issue_id :: "string option"
  rf_publisher :: "string option"

definition no_fields :: rename_fields where
  "no_fields = \<lparr>rf_series_title = None, rf_series_cleantitle = None, rf_volume = None, rf_year = None, rf_issue = None,
     rf_issue_title = None, rf_classification = None, rf_booktype = None, rf_release_group = None, rf_issue_id = None,
     rf_cv_issue_id = None, rf_publisher = None\<rparr>"

fun field_value :: "rename_fields \<Rightarrow> field_key \<Rightarrow> string option" where
  "field_value f Series_title_key = rf_series_title f"
| "field_value f Series_cleantitle_key = rf_series_cleantitle f"
| "field_value f Volume_key = rf_volume f"
| "field_value f Year_key = rf_year f"
| "field_value f Issue_key = rf_issue f"
| "field_value f Issue_title_key = rf_issue_title f"
| "field_value f Classification_key = rf_classification f"
| "field_value f Booktype_key = rf_booktype f"
| "field_value f Release_group_key = rf_release_group f"
| "field_value f Issue_id_key = rf_issue_id f"
| "field_value f Cv_issue_id_key = rf_cv_issue_id f"
| "field_value f Publisher_key = rf_publisher f"

definition canonical :: "string \<Rightarrow> string" where
  "canonical name = casefold (str_join '' '' (pieces is_space (strip name)))"

text \<open>Letters of Latin-1 and their case; the upper case of sharp s is two letters.\<close>

definition is_alpha :: "char \<Rightarrow> bool" where
  "is_alpha c \<longleftrightarrow> is_upper c \<or> is_lower c \<or> code c \<in> {170, 181, 186} \<or>
     192 \<le> code c \<and> code c \<noteq> 215 \<and> code c \<noteq> 247"

definition upper_letter :: "char \<Rightarrow> bool" where
  "upper_letter c \<longleftrightarrow> is_upper c \<or> 192 \<le> code c \<and> code c \<le> 222 \<and> code c \<noteq> 215"

definition lower_letter :: "char \<Rightarrow> bool" where
  "lower_letter c \<longleftrightarrow> is_alpha c \<and> \<not> upper_letter c"

definition upper_text :: "string \<Rightarrow> string" where
  "upper_text s = concat (map (\<lambda>c. if code c = 223 then ''SS'' else str_upper [c]) s)"

definition apply_case :: "string \<Rightarrow> string \<Rightarrow> string" where
  "apply_case raw_name v =
     (if v = [] then v
      else (let letters = filter is_alpha raw_name
            in if letters = [] then v
               else if list_all upper_letter letters then upper_text v
               else if list_all lower_letter letters then str_lower v
               else v))"

definition apply_pad :: "string \<Rightarrow> string \<Rightarrow> string" where
  "apply_pad v pad =
     (let width = length pad
      in if width = 0 then v
         else (let neg = startswith v ''-'';
                   core = (if neg then tl v else v);
                   int_part = takeWhile (\<lambda>c. c \<noteq> CHR ''.'') core;
                   rest = dropWhile (\<lambda>c. c \<noteq> CHR ''.'') core
               in if \<not> isdigit_text int_part then v
                  else (if neg then ''-'' else []) @ zfill width int_part @ rest))"

text \<open>One token match: the text it renders to.\<close>

definition token_text :: "rename_fields \<Rightarrow> string \<Rightarrow> string option \<Rightarrow> string" where
  "token_text f name pad =
     (let key = map_of TOKEN_ALIASES (canonical name);
          val = (case Option.bind key (field_value f) of None \<Rightarrow> [] | Some v \<Rightarrow> v)
      in if key = Some Cv_issue_id_key then (if val = [] then [] else ''[cvid-'' @ val @ '']'')
         else apply_case name (case pad of None \<Rightarrow> val | Some p \<Rightarrow> if val = [] then val else apply_pad val p))"

section \<open>Lexing\<close>

definition name_char :: "char \<Rightarrow> bool" where
  "name_char c \<longleftrightarrow> c \<notin> {CHR ''{'', CHR ''}'', CHR '':''}"

definition pad_char :: "char \<Rightarrow> bool" where
  "pad_char c \<longleftrightarrow> c \<notin> {CHR ''{'', CHR ''}''}"

text \<open>The token that starts at the head of the text, with its pad and the text behind it.\<close>

definition token_at :: "string \<Rightarrow> (string \<times> string option \<times> string) option" where
  "token_at s =
     (case s of
        [] \<Rightarrow> None
      | c # r \<Rightarrow>
          (let name = takeWhile name_char r
           in if c \<noteq> CHR ''{'' \<or> name = [] then None
              else case dropWhile name_char r of
                     [] \<Rightarrow> None
                   | d # r' \<Rightarrow>
                       if d = CHR ''}'' then Some (name, None, r')
                       else if d = CHR '':'' then
                         (case dropWhile pad_char r' of
                            [] \<Rightarrow> None
                          | e # r'' \<Rightarrow> if e = CHR ''}'' then Some (name, Some (takeWhile pad_char r'), r'') else None)
                       else None))"

lemma token_at_shorter: "token_at s = Some (name, pad, r) \<Longrightarrow> length r < length s"
proof -
  have d: "length (dropWhile P xs) = Suc n \<Longrightarrow> n < length xs" for P :: "char \<Rightarrow> bool" and xs n
    using length_dropWhile_le [of P xs] by simp
  have e: "dropWhile P xs = y # ys \<Longrightarrow> length ys < length xs" for P :: "char \<Rightarrow> bool" and xs y ys
    using length_dropWhile_le [of P xs] by simp
  show "token_at s = Some (name, pad, r) \<Longrightarrow> length r < length s"
    by (auto simp: token_at_def Let_def split: list.splits if_splits dest!: e)
qed

text \<open>A segment rendered: its text and which of its tokens were empty.\<close>

function render_segment :: "rename_fields \<Rightarrow> string \<Rightarrow> string \<times> bool list" where
  "render_segment f [] = ([], [])"
| "render_segment f (c # cs) =
     (case token_at (c # cs) of
        None \<Rightarrow> apfst ((#) c) (render_segment f cs)
      | Some (name, pad, r) \<Rightarrow>
          (let v = token_text f name pad in map_prod ((@) v) ((#) (v = [])) (render_segment f r)))"
  by pat_completeness auto
termination
proof (relation "measure (length \<circ> snd)")
  fix f c cs x name y pad r
  assume "token_at (c # cs) = Some x" and "(name, y) = x" and "(pad, r) = y"
  then have "token_at (c # cs) = Some (name, pad, r)" by simp
  from token_at_shorter [OF this] show "((f, r), f, c # cs) \<in> measure (length \<circ> snd)" for f by simp
qed auto

definition group_char :: "char \<Rightarrow> bool" where
  "group_char c \<longleftrightarrow> c \<notin> {CHR ''['', CHR '']''}"

text \<open>The first bracketed span: the text before it, its inside, the text after it.\<close>

fun next_group :: "string \<Rightarrow> (string \<times> string \<times> string) option" where
  "next_group [] = None"
| "next_group (c # cs) =
     (case (if c = CHR ''['' then dropWhile group_char cs else []) of
        d # r \<Rightarrow> if d = CHR '']'' then Some ([], takeWhile group_char cs, r) else map_option (apfst ((#) c)) (next_group cs)
      | [] \<Rightarrow> map_option (apfst ((#) c)) (next_group cs))"

lemma next_group_shorter: "next_group s = Some (a, b, r) \<Longrightarrow> length r < length s"
proof (induction s arbitrary: a)
  case (Cons c cs)
  have e: "dropWhile P xs = y # ys \<Longrightarrow> length ys < length xs" for P :: "char \<Rightarrow> bool" and xs y ys
    using length_dropWhile_le [of P xs] by simp
  from Cons show ?case by (fastforce split: list.splits if_splits dest!: e)
qed simp

function render :: "rename_fields \<Rightarrow> string \<Rightarrow> string" where
  "render f template =
     (case next_group template of
        None \<Rightarrow> fst (render_segment f template)
      | Some (before, inside, rest) \<Rightarrow>
          (let (inner, empties) = render_segment f inside
           in fst (render_segment f before)
              @ (if empties \<noteq> [] \<and> list_all id empties then [] else ''['' @ inner @ '']'')
              @ render f rest))"
  by pat_completeness auto
termination
  by (relation "measure (length \<circ> snd)") (auto dest: next_group_shorter)

declare render.simps [simp del]

section \<open>File names\<close>

definition normalize_ext :: "string option \<Rightarrow> string" where
  "normalize_ext ext =
     (case ext of None \<Rightarrow> [] | Some e \<Rightarrow> if e = [] then [] else if startswith e ''.'' then e else CHR ''.'' # e)"

text \<open>The characters whose encoding lies whole within the first bytes.\<close>

fun utf8_take :: "int \<Rightarrow> string \<Rightarrow> string" where
  "utf8_take n [] = []"
| "utf8_take n (c # cs) = (let w = (if code c < 128 then 1 else 2) in if n < w then [] else c # utf8_take (n - w) cs)"

definition rstrip_set :: "char list \<Rightarrow> string \<Rightarrow> string" where
  "rstrip_set cs s = rev (dropWhile (\<lambda>c. c \<in> set cs) (rev s))"

definition truncate_bytes :: "string \<Rightarrow> int \<Rightarrow> string" where
  "truncate_bytes s max_bytes =
     (if max_bytes \<le> 0 then []
      else if utf8_len s \<le> max_bytes then s
      else rstrip_set '' .'' (utf8_take max_bytes s))"

definition is_illegal :: "char \<Rightarrow> bool" where
  "is_illegal c \<longleftrightarrow> c \<in> set ''<>:/|?*'' \<or> code c \<in> {34, 92, 127} \<or> code c < 32"

definition is_blank :: "char \<Rightarrow> bool" where
  "is_blank c \<longleftrightarrow> code c \<in> {9, 32}"

definition render_body :: "string \<Rightarrow> rename_fields \<Rightarrow> bool \<Rightarrow> string" where
  "render_body template f replace_illegal =
     (let body = render f template;
          body = (if replace_illegal then map (\<lambda>c. if is_illegal c then CHR '' '' else c) body else body)
      in strip_set '' .'' (strip (sub_runs is_blank body)))"

definition rstrip :: "string \<Rightarrow> string" where
  "rstrip s = rev (dropWhile is_space (rev s))"

definition with_title :: "rename_fields \<Rightarrow> string \<Rightarrow> rename_fields" where
  "with_title f t = f\<lparr>rf_series_title := Some t\<rparr>"

text \<open>The binary search for the longest title that fits, over an inclusive range of lengths.\<close>

function shrink_search :: "(string \<Rightarrow> bool) \<Rightarrow> string \<Rightarrow> int \<Rightarrow> int \<Rightarrow> string \<Rightarrow> string" where
  "shrink_search fits title lo hi best =
     (if lo \<le> hi then
        (let mid = (lo + hi) div 2; trial = rstrip (take (nat mid) title)
         in if fits trial then shrink_search fits title (mid + 1) hi trial
            else shrink_search fits title lo (mid - 1) best)
      else best)"
  by pat_completeness auto
termination by (relation "measure (\<lambda>(_, _, lo, hi, _). nat (hi + 1 - lo))") auto

declare shrink_search.simps [simp del]

definition shrink_series_title_to_fit :: "rename_fields \<Rightarrow> string \<Rightarrow> bool \<Rightarrow> int \<Rightarrow> rename_fields" where
  "shrink_series_title_to_fit f template replace_illegal budget =
     (let title = (case rf_series_title f of None \<Rightarrow> [] | Some t \<Rightarrow> t);
          fits = (\<lambda>trial. utf8_len (render_body template (with_title f trial) replace_illegal) \<le> budget)
      in with_title f (shrink_search fits title 0 (int (length title)) []))"

definition render_filename ::
  "rename_fields \<Rightarrow> string \<Rightarrow> string option \<Rightarrow> bool \<Rightarrow> string option \<Rightarrow> int \<Rightarrow> bool \<Rightarrow> string result" where
  "render_filename f template ext enabled original max_bytes replace_illegal =
     (if \<not> enabled then (case original of None \<Rightarrow> Inl ValueError | Some n \<Rightarrow> Inr n)
      else
        (let ext_str = normalize_ext ext;
             budget = max_bytes - utf8_len ext_str;
             body = render_body template f replace_illegal
         in if utf8_len body > budget then
              (let body = render_body template (shrink_series_title_to_fit f template replace_illegal budget) replace_illegal;
                   body = (if utf8_len body > budget then truncate_bytes body budget else body)
               in Inr (body @ ext_str))
            else Inr (body @ ext_str)))"

section \<open>Folders\<close>

definition render_folder_segments :: "rename_fields \<Rightarrow> string \<Rightarrow> string list" where
  "render_folder_segments f template =
     map strip (filter (\<lambda>seg. strip seg \<noteq> []) (split_on slash (sub_runs is_blank (render f template))))"

definition render_series_folder :: "string \<Rightarrow> int option \<Rightarrow> string" where
  "render_series_folder title start_year =
     (let f = no_fields\<lparr>rf_series_title := Some (safe_path_component (Some title) UNTITLED),
                rf_year := map_option show_int start_year\<rparr>;
          template = (if start_year \<noteq> None then DEFAULT_FOLDER_TEMPLATE else FOLDER_TEMPLATE_NO_YEAR)
      in strip (sub_runs is_blank (render f template)))"

section \<open>Facts about text\<close>

lemma utf8_len_simps [simp]:
  "utf8_len [] = 0" "utf8_len (c # s) = (if code c < 128 then 1 else 2) + utf8_len s"
  "utf8_len (s @ t) = utf8_len s + utf8_len t"
  by (simp_all add: utf8_len_def)

lemma utf8_len_nonneg [simp]: "0 \<le> utf8_len s"
  by (induction s) simp_all

lemma utf8_len_prefix: "prefix t s \<Longrightarrow> utf8_len t \<le> utf8_len s"
  by (auto simp: prefix_def)

lemma utf8_take_prefix: "prefix (utf8_take n s) s"
  by (induction s arbitrary: n) (auto simp: Let_def)

lemma utf8_take_len: "0 \<le> n \<Longrightarrow> utf8_len (utf8_take n s) \<le> n"
proof (induction s arbitrary: n)
  case (Cons c s)
  show ?case
  proof (cases "code c < 128")
    case True
    then show ?thesis using Cons.IH [of "n - 1"] Cons.prems by (auto simp: Let_def)
  next
    case False
    then show ?thesis using Cons.IH [of "n - 2"] Cons.prems by (auto simp: Let_def)
  qed
qed simp

lemma rstrip_set_prefix: "prefix (rstrip_set cs s) s"
  using suffix_dropWhile [of "\<lambda>c. c \<in> set cs" "rev s"] by (simp add: rstrip_set_def suffix_to_prefix)

lemma truncate_bytes_fits: "0 \<le> n \<Longrightarrow> utf8_len (truncate_bytes s n) \<le> n"
  using utf8_len_prefix [OF rstrip_set_prefix, of "'' .''" "utf8_take n s"] utf8_take_len [of n s]
  by (auto simp: truncate_bytes_def)

lemma truncate_bytes_prefix: "prefix (truncate_bytes s n) s"
  using prefix_order.trans [OF rstrip_set_prefix utf8_take_prefix] by (auto simp: truncate_bytes_def)

definition well_named :: "string \<Rightarrow> bool" where
  "well_named body \<longleftrightarrow> list_all (\<lambda>c. \<not> is_illegal c) body"

lemma set_strip_set: "set (strip_set cs s) \<subseteq> set s"
  by (auto simp: strip_set_def dest!: set_dropWhileD)

lemma render_body_well_named: "well_named (render_body template f True)"
proof -
  define b where "b = map (\<lambda>c. if is_illegal c then CHR '' '' else c) (render f template)"
  have sp: "\<not> is_illegal (CHR '' '')" by (simp add: is_illegal_def code_def)
  then have "\<not> is_illegal c" if "c \<in> set b" for c using that by (auto simp: b_def)
  then have "\<not> is_illegal c" if "c \<in> set (sub_runs is_blank b)" for c
    using set_sub_runs [OF that] sp by auto
  then show ?thesis
    using set_strip_set [of "'' .''" "strip (sub_runs is_blank b)"] set_strip [of "sub_runs is_blank b"]
    by (auto simp: well_named_def render_body_def b_def list_all_iff)
qed

lemma well_named_prefix: "prefix t s \<Longrightarrow> well_named s \<Longrightarrow> well_named t"
  by (auto simp: well_named_def prefix_def)

text \<open>C33: A rendered file name always fits: as long as the extension alone does not exceed the limit, the name is a
  stem and the normalised extension, of at most \<open>max_bytes\<close> bytes, and with the replacement on no
  character of the stem is a separator, a control character or otherwise illegal.\<close>

theorem rendered_name_fits:
  assumes "utf8_len (normalize_ext ext) \<le> max_bytes"
  shows "\<exists>body. render_filename f template ext True original max_bytes replace_illegal = Inr (body @ normalize_ext ext) \<and>
    utf8_len (body @ normalize_ext ext) \<le> max_bytes \<and> (replace_illegal \<longrightarrow> well_named body)"
proof -
  let ?b = "max_bytes - utf8_len (normalize_ext ext)"
  let ?body = "render_body template f replace_illegal"
  let ?short = "render_body template (shrink_series_title_to_fit f template replace_illegal ?b) replace_illegal"
  define body where "body = (if utf8_len ?body > ?b then
      if utf8_len ?short > ?b then truncate_bytes ?short ?b else ?short else ?body)"
  have "render_filename f template ext True original max_bytes replace_illegal = Inr (body @ normalize_ext ext)"
    by (simp add: render_filename_def body_def Let_def)
  moreover have "utf8_len body \<le> ?b"
    using truncate_bytes_fits [of ?b ?short] assms by (auto simp: body_def)
  moreover have "well_named body" if replace_illegal
    using that render_body_well_named well_named_prefix [OF truncate_bytes_prefix] by (auto simp: body_def)
  ultimately show ?thesis by auto
qed

section \<open>Shrinking the title\<close>

lemma shrink_search_result:
  "best = [] \<or> fits best \<Longrightarrow>
   shrink_search fits title lo hi best = [] \<or> fits (shrink_search fits title lo hi best)"
proof (induction fits title lo hi best rule: shrink_search.induct)
  case (1 fits title lo hi best)
  show ?case
  proof (cases "lo \<le> hi")
    case True
    with 1 show ?thesis by (subst (1 2) shrink_search.simps) (auto simp: Let_def)
  next
    case False
    with 1 show ?thesis by (subst (1 2) shrink_search.simps) simp
  qed
qed

lemma shrink_search_prefix:
  "best = [] \<or> (\<exists>n. best = rstrip (take n title)) \<Longrightarrow>
   shrink_search fits title lo hi best = [] \<or> (\<exists>n. shrink_search fits title lo hi best = rstrip (take n title))"
proof (induction fits title lo hi best rule: shrink_search.induct)
  case (1 fits title lo hi best)
  show ?case
  proof (cases "lo \<le> hi")
    case True
    with 1 show ?thesis by (subst (1 2) shrink_search.simps) (auto simp: Let_def)
  next
    case False
    with 1 show ?thesis by (subst (1 2) shrink_search.simps) simp
  qed
qed

text \<open>When lengths that fit are exactly the ones up to a bound, the search finds the longest.\<close>

lemma shrink_search_longest:
  assumes "\<And>n. n \<le> length title \<Longrightarrow> fits (rstrip (take n title)) \<longleftrightarrow> n \<le> m"
    and "0 \<le> lo" and "lo \<le> int m + 1" and "int m \<le> hi" and "hi \<le> int (length title)" and "m \<le> length title"
    and "best = rstrip (take (nat (lo - 1)) title) \<or> lo = 0"
  shows "shrink_search fits title lo hi best = rstrip (take m title)"
  using assms(2-)
proof (induction "nat (hi + 1 - lo)" arbitrary: lo hi best rule: less_induct)
  case less
  show ?case
  proof (cases "lo \<le> hi")
    case True
    let ?mid = "(lo + hi) div 2"
    have mid: "lo \<le> ?mid" "?mid \<le> hi" using True by auto
    then have n: "nat ?mid \<le> length title" using less.prems by linarith
    show ?thesis
    proof (cases "nat ?mid \<le> m")
      case True
      then have "shrink_search fits title lo hi best =
          shrink_search fits title (?mid + 1) hi (rstrip (take (nat ?mid) title))"
        using \<open>lo \<le> hi\<close> assms(1) [OF n] by (subst shrink_search.simps) (simp add: Let_def)
      also have "\<dots> = rstrip (take m title)"
        using mid True less.prems by (intro less.hyps) auto
      finally show ?thesis .
    next
      case False
      then have "shrink_search fits title lo hi best = shrink_search fits title lo (?mid - 1) best"
        using \<open>lo \<le> hi\<close> assms(1) [OF n] by (subst shrink_search.simps) (simp add: Let_def)
      also have "\<dots> = rstrip (take m title)"
        using mid False less.prems by (intro less.hyps) auto
      finally show ?thesis .
    qed
  next
    case False
    with less.prems have "lo = int m + 1" by linarith
    with less.prems False show ?thesis by (subst shrink_search.simps) auto
  qed
qed

text \<open>Only the title is sacrificed to the limit: if the template fits without a title, the name is the template
  rendered with a shortened title, whole, so that the issue number and an identity tag at the end
  always survive; a name that fits is not shortened at all.\<close>

theorem only_the_title_is_trimmed:
  assumes "utf8_len (render_body template (with_title f []) replace_illegal) \<le> max_bytes - utf8_len (normalize_ext ext)"
  shows "\<exists>t. render_filename f template ext True original max_bytes replace_illegal =
      Inr (render_body template t replace_illegal @ normalize_ext ext) \<and>
    (if utf8_len (render_body template f replace_illegal) \<le> max_bytes - utf8_len (normalize_ext ext) then t = f
     else t = with_title f [] \<or> (\<exists>n title. rf_series_title f = Some title \<and> t = with_title f (rstrip (take n title))))"
proof (cases "utf8_len (render_body template f replace_illegal) \<le> max_bytes - utf8_len (normalize_ext ext)")
  case True
  then show ?thesis by (intro exI [of _ f]) (simp add: render_filename_def Let_def)
next
  case False
  let ?b = "max_bytes - utf8_len (normalize_ext ext)"
  define title where "title = (case rf_series_title f of None \<Rightarrow> [] | Some t \<Rightarrow> t)"
  define fits where "fits trial \<longleftrightarrow> utf8_len (render_body template (with_title f trial) replace_illegal) \<le> ?b" for trial
  define t where "t = shrink_search fits title 0 (int (length title)) []"
  have s: "shrink_series_title_to_fit f template replace_illegal ?b = with_title f t"
    by (simp add: shrink_series_title_to_fit_def t_def title_def fits_def [abs_def] Let_def)
  have "fits t"
    using shrink_search_result [of "[]" fits title 0 "int (length title)"] assms by (auto simp: t_def fits_def)
  then have "render_filename f template ext True original max_bytes replace_illegal =
      Inr (render_body template (with_title f t) replace_illegal @ normalize_ext ext)"
    using False by (simp add: render_filename_def Let_def s fits_def)
  moreover have "t = [] \<or> (\<exists>n u. rf_series_title f = Some u \<and> t = rstrip (take n u))"
    using shrink_search_prefix [of "[]" title fits 0 "int (length title)"]
    by (cases "rf_series_title f") (auto simp: t_def title_def rstrip_def)
  ultimately show ?thesis using False by (intro exI [of _ "with_title f t"]) auto
qed


section \<open>Series folders\<close>

lemma sub_runs_single_spaced: "single_spaced s \<Longrightarrow> sub_runs is_blank s = s"
proof (induction s rule: single_spaced.induct)
  case (3 c d cs)
  have b: "is_blank x \<Longrightarrow> is_space x" for x by (auto simp: is_blank_def is_space_def)
  from 3 b [of c] b [of d] show ?case by auto
qed (auto simp: is_blank_def is_space_def code_def)

lemma single_spaced_join:
  "single_spaced s \<Longrightarrow> s \<noteq> [] \<Longrightarrow> \<not> is_space (last s) \<Longrightarrow> single_spaced t \<Longrightarrow> t \<noteq> [] \<Longrightarrow> \<not> is_space (hd t) \<Longrightarrow>
   single_spaced (s @ CHR '' '' # t)"
proof (induction s rule: single_spaced.induct)
  case (2 c)
  then show ?case by (cases t) (auto simp: is_space_blank)
qed auto

lemma strip_id: "s \<noteq> [] \<Longrightarrow> \<not> is_space (hd s) \<Longrightarrow> \<not> is_space (last s) \<Longrightarrow> strip s = s"
proof -
  assume s: "s \<noteq> []" "\<not> is_space (hd s)" "\<not> is_space (last s)"
  have "dropWhile is_space s = s" using s by (cases s) auto
  moreover have "dropWhile is_space (rev s) = rev s" using s by (cases "rev s") (auto simp flip: hd_rev)
  ultimately show ?thesis by (simp add: strip_def)
qed

lemma clean_segment_edges: "clean_segment s \<Longrightarrow> s \<noteq> [] \<Longrightarrow> \<not> is_space (hd s) \<and> \<not> is_space (last s)"
proof -
  assume s: "clean_segment s" "s \<noteq> []"
  have "is_space c \<Longrightarrow> c \<in> set s \<Longrightarrow> c = CHR '' ''" for c
    using s(1)[unfolded clean_segment_def, THEN conjunct1] by (induction s rule: single_spaced.induct) auto
  then show ?thesis using s by (auto simp: clean_segment_def)
qed

lemma show_int_nonspace: "list_all (\<lambda>c. \<not> is_space c) (show_int y)"
proof -
  have "\<not> is_space c" if "c \<in> set (show_nat n)" for c n
    using set_show_nat [OF that] by (auto simp: is_space_def code_def)
  then show ?thesis by (auto simp: show_int_def list_all_iff is_space_def code_def)
qed

lemma folder_lexing:
  "next_group DEFAULT_FOLDER_TEMPLATE = None" "next_group FOLDER_TEMPLATE_NO_YEAR = None"
  "token_at ''{Series Title} ({Year})'' = Some (''Series Title'', None, '' ({Year})'')"
  "token_at ''{Series Title}'' = Some (''Series Title'', None, [])"
  "token_at '' ({Year})'' = None" "token_at ''({Year})'' = None" "token_at ''{Year})'' = Some (''Year'', None, '')'')"
  "token_at '')'' = None"
  "map_of TOKEN_ALIASES (canonical ''Series Title'') = Some Series_title_key"
  "map_of TOKEN_ALIASES (canonical ''Year'') = Some Year_key"
  "filter is_alpha ''Series Title'' = ''SeriesTitle''" "filter is_alpha ''Year'' = ''Year''"
  "\<not> list_all upper_letter ''SeriesTitle''" "\<not> list_all lower_letter ''SeriesTitle''"
  "\<not> list_all upper_letter ''Year''" "\<not> list_all lower_letter ''Year''"
  by code_simp+

lemma folder_token_text:
  "rf_series_title f = Some t \<Longrightarrow> token_text f ''Series Title'' None = t"
  "rf_year f = Some y \<Longrightarrow> token_text f ''Year'' None = y"
  by (simp_all add: token_text_def folder_lexing apply_case_def del: filter.simps list.pred_inject)

lemma render_year_folder:
  "render (no_fields\<lparr>rf_series_title := Some t, rf_year := Some y\<rparr>) DEFAULT_FOLDER_TEMPLATE = t @ '' ('' @ y @ '')''"
  using folder_lexing(1)
  by (subst render.simps) (simp add: DEFAULT_FOLDER_TEMPLATE_def folder_lexing folder_token_text Let_def)

lemma render_plain_folder:
  "render (no_fields\<lparr>rf_series_title := Some t, rf_year := None\<rparr>) FOLDER_TEMPLATE_NO_YEAR = t"
  using folder_lexing(2)
  by (subst render.simps) (simp add: FOLDER_TEMPLATE_NO_YEAR_def folder_lexing folder_token_text Let_def)

text \<open>The series folder of the template engine is the fixed name it replaced: the sanitised title, with the year
  in parentheses behind it when there is one, character for character, so existing rows keep their
  folder.\<close>

theorem series_folder_is_fixed_template:
  "render_series_folder title start_year =
     safe_path_component (Some title) UNTITLED @ (case start_year of None \<Rightarrow> [] | Some y \<Rightarrow> '' ('' @ show_int y @ '')'')"
proof -
  define t where "t = safe_path_component (Some title) UNTITLED"
  have "clean_segment UNTITLED" "UNTITLED \<noteq> []" by code_simp+
  then have t: "clean_segment t" "t \<noteq> []" unfolding t_def by (rule safe_component_clean)+
  note e = clean_segment_edges [OF t]
  have s: "single_spaced t" using t(1) by (simp add: clean_segment_def)
  show ?thesis
  proof (cases start_year)
    case None
    then show ?thesis
      using e t s by (simp add: render_series_folder_def Let_def render_plain_folder sub_runs_single_spaced strip_id flip: t_def)
  next
    case (Some y)
    have "single_spaced (CHR ''('' # show_int y @ '')'')"
      using show_int_nonspace [of y] by (intro single_spaced_nonspace) (simp add: list_all_iff is_space_def code_def)
    then have "single_spaced (t @ CHR '' '' # CHR ''('' # show_int y @ '')'')"
      using e t s by (intro single_spaced_join) (simp_all add: is_space_def code_def)
    then have "sub_runs is_blank (t @ '' ('' @ show_int y @ '')'') = t @ '' ('' @ show_int y @ '')''"
      by (simp add: sub_runs_single_spaced)
    moreover have "strip (t @ '' ('' @ show_int y @ '')'') = t @ '' ('' @ show_int y @ '')''"
      using e t by (intro strip_id) (simp_all add: is_space_def code_def)
    ultimately show ?thesis
      using Some by (simp add: render_series_folder_def Let_def render_year_folder flip: t_def)
  qed
qed

definition demo_fields :: rename_fields where
  "demo_fields = no_fields\<lparr>rf_series_title := Some ''Saga of the Swamp'', rf_issue := Some ''15.5'', rf_cv_issue_id := Some ''7''\<rparr>"

lemma rendered_name_fits_witness:
  "\<exists>body. render_filename demo_fields DEFAULT_FILE_TEMPLATE (Some ''cbz'') True None 12 True = Inr (body @ normalize_ext (Some ''cbz'')) \<and>
    utf8_len (body @ normalize_ext (Some ''cbz'')) \<le> 12 \<and> (True \<longrightarrow> well_named body)"
  by (rule rendered_name_fits) (simp add: normalize_ext_def startswith_def code_def)

lemma demo_render:
  "render_body ''{Series Title} {Issue:000} {CvIssueId}'' (with_title demo_fields []) True = ''015.5 [cvid-7]''"
  by code_simp

lemma only_the_title_is_trimmed_witness:
  "\<exists>t. render_filename demo_fields ''{Series Title} {Issue:000} {CvIssueId}'' (Some ''cbz'') True None 24 True =
      Inr (render_body ''{Series Title} {Issue:000} {CvIssueId}'' t True @ ''.cbz'')"
proof -
  have e: "normalize_ext (Some ''cbz'') = ''.cbz''" by (simp add: normalize_ext_def startswith_def)
  show ?thesis
    using only_the_title_is_trimmed [of "''{Series Title} {Issue:000} {CvIssueId}''" demo_fields True 24 "Some ''cbz''" None]
    by (auto simp: e demo_render code_def)
qed

end
