(* ===== verification/Calendar.thy ===== *)
theory Calendar
  imports Text
begin

text \<open>
  Dates and ISO weeks, as the weekly pull uses them (\<open>pull/projection.py\<close>, \<open>pull/commands.py\<close>).

  A \<open>date\<close> is the number of days since 0001-01-01, a Monday; \<open>isocalendar\<close> and \<open>fromisocalendar\<close> are
  the algorithms of Python's \<open>datetime\<close>. Leaving the range of dates raises \<open>OverflowError\<close>.
\<close>

section \<open>Dates\<close>

type_synonym date = int

definition date_max :: date where "date_max = 3652058"

definition jan1 :: "int \<Rightarrow> date" where
  "jan1 y = 365 * (y - 1) + (y - 1) div 4 - (y - 1) div 100 + (y - 1) div 400"

definition is_leap :: "int \<Rightarrow> bool" where
  "is_leap y \<longleftrightarrow> y mod 4 = 0 \<and> (y mod 100 \<noteq> 0 \<or> y mod 400 = 0)"

definition month_lengths :: "int \<Rightarrow> int list" where
  "month_lengths y = [31, if is_leap y then 29 else 28, 31, 30, 31, 30, 31, 31, 30, 31, 30, 31]"

definition year_of_date :: "date \<Rightarrow> int" where
  "year_of_date d = year_of (d * us_per_day)"

definition date_add :: "date \<Rightarrow> int \<Rightarrow> date result" where
  "date_add d days = (if 0 \<le> d + days \<and> d + days \<le> date_max then Inr (d + days) else Inl OverflowError)"

text \<open>The Monday that starts the first ISO week of a year.\<close>

definition iso_monday :: "int \<Rightarrow> date" where
  "iso_monday y =
     (let first = jan1 y; wd = first mod 7; m = first - wd in if 3 < wd then m + 7 else m)"

definition isocalendar :: "date \<Rightarrow> int \<times> int" where
  "isocalendar d =
     (let y = year_of_date d; w = (d - iso_monday y) div 7
      in if w < 0 then (y - 1, (d - iso_monday (y - 1)) div 7 + 1)
         else if 52 \<le> w \<and> iso_monday (y + 1) \<le> d then (y + 1, 1)
         else (y, w + 1))"

text \<open>The Monday of a week; \<open>None\<close> is the \<open>ValueError\<close> of \<open>date.fromisocalendar\<close>.\<close>

definition week_exists :: "int \<Rightarrow> int \<Rightarrow> bool" where
  "week_exists y w \<longleftrightarrow> 0 < w \<and> w < 53 \<or>
     w = 53 \<and> (jan1 y mod 7 = 3 \<or> jan1 y mod 7 = 2 \<and> is_leap y)"

definition from_isocalendar :: "int \<Rightarrow> int \<Rightarrow> date option" where
  "from_isocalendar y w =
     (if 1 \<le> y \<and> y \<le> 9999 \<and> week_exists y w \<and> iso_monday y + (w - 1) * 7 \<le> date_max
      then Some (iso_monday y + (w - 1) * 7) else None)"

section \<open>Week keys\<close>

definition week_key :: "int \<Rightarrow> int \<Rightarrow> string" where
  "week_key y w = show_int y @ ''-W'' @ zfill 2 (show_int w)"

definition current_week :: "date \<Rightarrow> string" where
  "current_week d = (case isocalendar d of (y, w) \<Rightarrow> week_key y w)"

datatype week_error = Malformed_week | Week_overflow

definition parse_week :: "string \<Rightarrow> (int \<times> int) option" where
  "parse_week s =
     (if (length s = 8 \<or> length s = 9 \<and> s ! 8 = CHR 0x0A) \<and>
         list_all is_digit (take 4 s) \<and> take 2 (drop 4 s) = ''-W'' \<and> list_all is_digit (take 2 (drop 6 s))
      then Some (int (base_value 10 (take 4 s)), int (base_value 10 (take 2 (drop 6 s))))
      else None)"

definition week_date_range :: "string \<Rightarrow> week_error + date \<times> date" where
  "week_date_range week =
     (case parse_week week of
        None \<Rightarrow> Inl Malformed_week
      | Some (y, w) \<Rightarrow>
          (case from_isocalendar y w of
             None \<Rightarrow> Inl Malformed_week
           | Some monday \<Rightarrow>
               (case date_add monday 6 of Inl _ \<Rightarrow> Inl Week_overflow | Inr sunday \<Rightarrow> Inr (monday, sunday))))"

text \<open>The weeks a refresh asks for, as week and year: this one, the last, the next.\<close>

definition iso_pair :: "date \<Rightarrow> int \<times> int" where
  "iso_pair d = (case isocalendar d of (y, w) \<Rightarrow> (w, y))"

definition add_pair :: "'a \<Rightarrow> 'a list \<Rightarrow> 'a list" where
  "add_pair p ps = (if p \<in> set ps then ps else ps @ [p])"

definition fetch_window :: "date \<Rightarrow> (int \<times> int) list" where
  "fetch_window d = fold (\<lambda>x. add_pair (iso_pair x)) [d, d - 7, d + 7] []"

section \<open>The year of a date\<close>

lemma div_step:
  fixes y k :: int
  assumes "0 < k"
  shows "y div k = (y - 1) div k + (if y mod k = 0 then 1 else 0)"
proof (cases "y mod k = 0")
  case True
  have "y = k * (y div k) + y mod k" by simp
  with True have "y = k * (y div k)" by simp
  moreover have "k * (y div k - 1) = k * (y div k) - k" by (simp add: right_diff_distrib)
  ultimately have "y - 1 = k * (y div k - 1) + (k - 1)" by linarith
  then have "(y - 1) div k = y div k - 1" using assms by (intro int_div_pos_eq [where r = "k - 1"]) simp_all
  with True show ?thesis by simp
next
  case False
  have r: "0 \<le> y mod k" "y mod k < k" using assms by simp_all
  have "y - 1 = k * (y div k) + (y mod k - 1)" by simp
  then have "(y - 1) div k = y div k" using r False by (intro int_div_pos_eq [where r = "y mod k - 1"]) auto
  with False show ?thesis by simp
qed

lemma jan1_step: "jan1 (y + 1) = jan1 y + (if is_leap y then 366 else 365)"
proof -
  have "y mod 400 = 0 \<Longrightarrow> y mod 100 = 0" "y mod 100 = 0 \<Longrightarrow> y mod 4 = 0"
    using dvd_trans [of 100 400 y] dvd_trans [of 4 100 y] by (simp_all add: dvd_eq_mod_eq_0)
  then consider "y mod 4 \<noteq> 0" "y mod 100 \<noteq> 0" "y mod 400 \<noteq> 0" | "y mod 4 = 0" "y mod 100 \<noteq> 0" "y mod 400 \<noteq> 0"
    | "y mod 4 = 0" "y mod 100 = 0" "y mod 400 \<noteq> 0" | "y mod 4 = 0" "y mod 100 = 0" "y mod 400 = 0"
    by metis
  then show ?thesis
    using div_step [of 4 y] div_step [of 100 y] div_step [of 400 y]
    unfolding jan1_def is_leap_def add_diff_cancel_right' by cases (simp_all (no_asm_simp))
qed

lemma jan1_parts:
  assumes "0 \<le> c" "c < 4" "0 \<le> q" "q < 25" "0 \<le> r" "r < 4"
  shows "jan1 (400 * a + 100 * c + 4 * q + r + 1) = 146097 * a + 36524 * c + 1461 * q + 365 * r"
proof -
  have 4: "(400 * a + 100 * c + 4 * q + r) div 4 = 100 * a + 25 * c + q" using assms by linarith
  have 100: "(400 * a + 100 * c + 4 * q + r) div 100 = 4 * a + c" using assms by linarith
  have 400: "(400 * a + 100 * c + 4 * q + r) div 400 = a" using assms by linarith
  show ?thesis by (simp add: jan1_def 4 100 400)
qed


lemma jan1_carry:
  assumes "0 \<le> c" "c < 4" "0 \<le> q" "q < 25"
  shows "146097 * a + 36524 * c + 1461 * q + (if q = 24 then (if c = 3 then 1461 else 1460) else 1461) =
    jan1 (400 * a + 100 * c + 4 * q + 4 + 1)"
proof -
  have 4: "(400 * a + 100 * c + 4 * q + 4) div 4 = 100 * a + 25 * c + q + 1" using assms by linarith
  have 100: "(400 * a + 100 * c + 4 * q + 4) div 100 = (if q = 24 then 4 * a + c + 1 else 4 * a + c)"
    using assms by auto
  have 400: "(400 * a + 100 * c + 4 * q + 4) div 400 = (if q = 24 \<and> c = 3 then a + 1 else a)"
    using assms by auto
  have "400 * a + 100 * c + 4 * q + 4 + 1 - 1 = 400 * a + 100 * c + 4 * q + 4" by simp
  then show ?thesis using assms by (simp only: jan1_def 4 100 400) auto
qed

lemma year_of_date_bounds:
  assumes "0 \<le> d"
  shows "jan1 (year_of_date d) \<le> d \<and> d < jan1 (year_of_date d + 1)"
proof -
  define a where "a = d div 146097" define ra where "ra = d mod 146097"
  define c where "c = ra div 36524" define rc where "rc = ra mod 36524"
  define q where "q = rc div 1461" define rq where "rq = rc mod 1461"
  define r where "r = rq div 365"
  have d: "d = 146097 * a + ra" "0 \<le> ra" "ra < 146097" by (simp_all add: a_def ra_def)
  have ra: "ra = 36524 * c + rc" "0 \<le> rc" "rc < 36524" by (simp_all add: c_def rc_def)
  have rc: "rc = 1461 * q + rq" "0 \<le> rq" "rq < 1461" by (simp_all add: q_def rq_def)
  have rq: "365 * r \<le> rq" "rq < 365 * r + 365" by (simp_all add: r_def)
  have b: "0 \<le> c" "c \<le> 4" "0 \<le> q" "q < 25" "0 \<le> r" "r \<le> 4" using d ra rc rq by linarith+
  have day: "d * us_per_day div us_per_day = d" by (simp add: us_per_day_def us_per_second_def)
  have y: "year_of_date d = 400 * a + 100 * c + 4 * q + r + (if r = 4 \<or> c = 4 then 0 else 1)"
    unfolding year_of_date_def year_of_def Let_def day
    by (simp add: a_def ra_def c_def rc_def q_def rq_def r_def)
  show ?thesis
  proof (cases "c = 4")
    case True
    then have z: "rc = 0" "q = 0" "r = 0" using d ra rc rq b by linarith+
    have "jan1 (400 * a + 100 * 3 + 4 * 24 + 3 + 1) = 146097 * a + 36524 * 3 + 1461 * 24 + 365 * 3"
      by (rule jan1_parts) simp_all
    moreover have "jan1 (400 * a + 100 * 3 + 4 * 24 + 4 + 1) = 146097 * a + 36524 * 3 + 1461 * 24 + 1461"
      using jan1_carry [of 3 24 a] by simp
    moreover have "year_of_date d = 400 * a + 400" using y z True by simp
    moreover have "d = 146097 * a + 146096" using d ra z True by linarith
    ultimately show ?thesis by (simp add: add.commute)
  next
    case c: False
    then have c4: "c < 4" using b by simp
    show ?thesis
    proof (cases "r = 4")
      case True
      have "jan1 (400 * a + 100 * c + 4 * q + 3 + 1) = 146097 * a + 36524 * c + 1461 * q + 365 * 3"
        by (rule jan1_parts) (use b c4 in simp_all)
      then show ?thesis
        using jan1_carry [of c q a] b c4 y d ra rc rq True by (auto simp: add.commute add.left_commute split: if_splits)
    next
      case False
      then have r4: "r < 4" using b by simp
      have lo: "jan1 (400 * a + 100 * c + 4 * q + r + 1) = 146097 * a + 36524 * c + 1461 * q + 365 * r"
        by (rule jan1_parts) (use b c4 r4 in simp_all)
      have yy: "year_of_date d = 400 * a + 100 * c + 4 * q + r + 1" using y c False by simp
      show ?thesis
      proof (cases "r = 3")
        case True
        then show ?thesis
          using lo jan1_carry [of c q a] b c4 yy d ra rc rq by (auto simp: add.commute add.left_commute split: if_splits)
      next
        case r3: False
        have "jan1 (400 * a + 100 * c + 4 * q + (r + 1) + 1) = 146097 * a + 36524 * c + 1461 * q + 365 * (r + 1)"
          by (rule jan1_parts) (use b c4 r4 r3 in simp_all)
        then show ?thesis using lo yy d ra rc rq by (simp add: add.commute add.left_commute)
      qed
    qed
  qed
qed

section \<open>ISO weeks\<close>

lemma iso_monday_near: "jan1 y - 3 \<le> iso_monday y \<and> iso_monday y \<le> jan1 y + 3 \<and> iso_monday y mod 7 = 0"
proof -
  have "0 \<le> jan1 y mod 7" "jan1 y mod 7 < 7" by simp_all
  moreover have "(jan1 y - jan1 y mod 7) mod 7 = 0" "(jan1 y - jan1 y mod 7 + 7) mod 7 = 0"
    by (simp_all add: minus_mod_eq_mult_div)
  ultimately show ?thesis by (auto simp: iso_monday_def Let_def)
qed

lemma iso_monday_step:
  "iso_monday (y + 1) = iso_monday y + (if jan1 y mod 7 = 3 \<or> jan1 y mod 7 = 2 \<and> is_leap y then 371 else 364)"
proof -
  define j where "j = jan1 y"
  have j: "j = 7 * (j div 7) + j mod 7" by simp
  have "0 \<le> j mod 7" "j mod 7 < 7" by simp_all
  then consider "j mod 7 = 0" | "j mod 7 = 1" | "j mod 7 = 2" | "j mod 7 = 3" | "j mod 7 = 4" | "j mod 7 = 5" | "j mod 7 = 6"
    by linarith
  moreover have "(j + 366) mod 7 = (j mod 7 + 2) mod 7" "(j + 365) mod 7 = (j mod 7 + 1) mod 7"
    by presburger+
  ultimately show ?thesis
    unfolding iso_monday_def Let_def jan1_step [of y] j_def [symmetric]
    by cases (cases "is_leap y"; simp)+
qed

lemma isocalendar_week:
  assumes "0 \<le> d" and "isocalendar d = (y, w)"
  shows "iso_monday y + (w - 1) * 7 \<le> d \<and> d \<le> iso_monday y + (w - 1) * 7 + 6 \<and> week_exists y w"
proof -
  define z where "z = year_of_date d"
  note z = year_of_date_bounds [OF assms(1), folded z_def]
  have n: "jan1 z - 3 \<le> iso_monday z" "iso_monday z \<le> jan1 z + 3" using iso_monday_near [of z] by simp_all
  have n1: "jan1 (z + 1) - 3 \<le> iso_monday (z + 1)" using iso_monday_near [of "z + 1"] by simp
  have s: "iso_monday (z + 1) = iso_monday z + (if jan1 z mod 7 = 3 \<or> jan1 z mod 7 = 2 \<and> is_leap z then 371 else 364)"
    by (rule iso_monday_step)
  have p: "iso_monday z = iso_monday (z - 1) +
      (if jan1 (z - 1) mod 7 = 3 \<or> jan1 (z - 1) mod 7 = 2 \<and> is_leap (z - 1) then 371 else 364)"
    using iso_monday_step [of "z - 1"] by simp
  have e: "x div 7 * 7 \<le> x" "x \<le> x div 7 * 7 + 6" for x :: int by presburger+
  define x where "x = d - iso_monday z"
  show ?thesis
  proof (cases "x div 7 < 0")
    case True
    then have x: "x < 0" "- 3 \<le> x" using z n by (simp_all add: x_def div_neg_pos_less0 pos_imp_zdiv_neg_iff)
    have yw: "y = z - 1" "w = (d - iso_monday (z - 1)) div 7 + 1"
      using assms(2) True by (auto simp: isocalendar_def Let_def z_def x_def)
    have "w = (if jan1 (z - 1) mod 7 = 3 \<or> jan1 (z - 1) mod 7 = 2 \<and> is_leap (z - 1) then 53 else 52)"
      using x p unfolding yw x_def by (auto split: if_splits)
    then have "week_exists y w" using yw(1) by (auto simp: week_exists_def)
    then show ?thesis using e [of "d - iso_monday (z - 1)"] unfolding yw by simp
  next
    case False
    show ?thesis
    proof (cases "52 \<le> x div 7 \<and> iso_monday (z + 1) \<le> d")
      case True
      then have yw: "y = z + 1" "w = 1"
        using assms(2) False by (simp_all add: isocalendar_def Let_def z_def x_def)
      then show ?thesis using True z n1 by (simp add: week_exists_def)
    next
      case F: False
      then have yw: "y = z" "w = x div 7 + 1"
        using assms(2) False by (auto simp: isocalendar_def Let_def z_def x_def)
      have "week_exists y w"
      proof (cases "x div 7 < 52")
        case True
        then show ?thesis using yw False by (simp add: week_exists_def)
      next
        case x52: False
        then have "d < iso_monday (z + 1)" "iso_monday z + 364 \<le> d" using F by (auto simp: x_def)
        then have "jan1 z mod 7 = 3 \<or> jan1 z mod 7 = 2 \<and> is_leap z" and "x < 371"
          using s by (auto simp: x_def split: if_splits)
        moreover have "x div 7 = 52" using x52 \<open>x < 371\<close> by linarith
        ultimately show ?thesis using yw by (simp add: week_exists_def)
      qed
      then show ?thesis using e [of x] yw by (simp add: x_def)
    qed
  qed
qed


lemma isocalendar_range:
  assumes "0 \<le> d" and "isocalendar d = (y, w)"
  shows "0 < w \<and> w < 54"
  using isocalendar_week [OF assms] by (auto simp: week_exists_def)

section \<open>Reading a week key\<close>

lemma week_text:
  assumes "1000 \<le> y" "y < 10000" "0 \<le> w" "w < 100"
  shows "week_key y w = digits_of_width 4 (nat y) @ ''-W'' @ digits_of_width 2 (nat w)"
proof -
  have "show_nat (nat y) = digits_of_width 4 (nat y)" using show_nat_full [of 3 "nat y"] assms by simp
  moreover have "zfill 2 (show_nat (nat w)) = digits_of_width 2 (nat w)"
    using assms by (intro zfill_show_nat) simp_all
  ultimately show ?thesis using assms by (simp add: week_key_def show_int_def)
qed

lemma parse_week_key:
  assumes "1000 \<le> y" "y < 10000" "0 \<le> w" "w < 100"
  shows "parse_week (week_key y w) = Some (y, w)"
proof -
  have "base_value 10 (digits_of_width 4 (nat y)) = nat y" "base_value 10 (digits_of_width 2 (nat w)) = nat w"
    using assms by (intro base_value_digits_of_width; simp)+
  then show ?thesis unfolding week_text [OF assms] using assms by (simp add: parse_week_def)
qed

lemma jan1_late: "10000 \<le> y \<Longrightarrow> date_max < jan1 y"
proof (induction y rule: int_ge_induct)
  case base
  show ?case by (simp add: jan1_def date_max_def)
next
  case (step y)
  then show ?case by (simp add: jan1_step split: if_splits)
qed

lemma week_of_date:
  assumes "0 \<le> d" "1000 \<le> fst (isocalendar d)" "d + 6 \<le> date_max"
  shows "\<exists>monday. week_date_range (current_week d) = Inr (monday, monday + 6) \<and> monday \<le> d \<and> d \<le> monday + 6"
proof -
  obtain y w where c: "isocalendar d = (y, w)" by fastforce
  define monday where "monday = iso_monday y + (w - 1) * 7"
  have m: "monday \<le> d" "d \<le> monday + 6" "week_exists y w" and w: "0 < w" "w < 54"
    using isocalendar_week [OF assms(1) c] isocalendar_range [OF assms(1) c] by (simp_all add: monday_def)
  have "y \<le> 9999"
  proof (rule ccontr)
    assume "\<not> y \<le> 9999"
    then have "date_max < jan1 y" by (intro jan1_late) simp
    then show False using iso_monday_near [of y] m w assms(3) by (simp add: monday_def)
  qed
  then have p: "parse_week (current_week d) = Some (y, w)"
    unfolding current_week_def c prod.case using c w assms(2) by (intro parse_week_key) simp_all
  have i: "from_isocalendar y w = Some monday"
    using \<open>y \<le> 9999\<close> m assms c by (simp add: from_isocalendar_def monday_def)
  have "0 \<le> monday + 6 \<and> monday + 6 \<le> date_max" using m assms by simp
  then have "week_date_range (current_week d) = Inr (monday, monday + 6)"
    by (simp add: week_date_range_def p i date_add_def)
  with m show ?thesis by simp
qed



end
