(* ===== verification/Pull_Store.thy ===== *)
theory Pull_Store
  imports Calendar "HOL-Library.Char_ord" "HOL-Library.List_Lexorder"
begin

text \<open>
  The store of weekly pull entries (\<open>pull/models.py\<close>, \<open>pull/repo.py\<close>) and the column types it binds
  its texts through (\<open>db/base.py\<close>).

  A row of \<open>pull_entries\<close> is a parsed entry with the columns the store adds, so \<open>pull_row\<close> extends
  \<open>parsed_entry\<close>. The table is the list of its rows in key order. A bind that breaks a constraint of
  the table is the value \<open>Integrity_error\<close>; the caller's transaction then keeps nothing.
\<close>

section \<open>Entries and rows\<close>

record parsed_entry =
  pe_series_name :: string
  pe_issue_number :: string
  pe_release_date :: date
  pe_publisher :: "string option"
  pe_cv_series_id :: "int option"
  pe_cv_issue_id :: "int option"
  pe_cover_url :: "string option"
  pe_description :: "string option"
  pe_upc :: "string option"
  pe_creators :: "string option"
  pe_characters :: "string option"

datatype match_type = Match_id | Match_name_seq | Unmatched | New_series

record pull_row = parsed_entry +
  pr_id :: int
  pr_week :: string
  pr_entry_key :: string
  pr_matched_issue_id :: "int option"
  pr_match_type :: match_type
  pr_fetched_at :: datetime

definition opt_text :: "string option \<Rightarrow> string" where
  "opt_text t = (case t of None \<Rightarrow> [] | Some s \<Rightarrow> s)"

text \<open>The identity of an entry within its week.\<close>

definition entry_key :: "(string \<Rightarrow> string) \<Rightarrow> 'a parsed_entry_scheme \<Rightarrow> string" where
  "entry_key decompose e =
     (case pe_cv_issue_id e of
        Some i \<Rightarrow> ''cv:'' @ show_int i
      | None \<Rightarrow> ''name:'' @ matching_key decompose (pe_series_name e) @ ''|'' @
          casefold (strip (pe_issue_number e)) @ ''|'' @ casefold (strip (opt_text (pe_publisher e))))"

section \<open>Column types\<close>

definition SENTINEL_STRINGS :: "string list" where
  "SENTINEL_STRINGS = [''None'', ''none'', ''NULL'', ''null'', ''0000'', ''0000-00-00'']"

definition sentinel_free :: "string option \<Rightarrow> string option" where
  "sentinel_free v =
     (case v of None \<Rightarrow> None | Some s \<Rightarrow> if strip s \<in> set SENTINEL_STRINGS then None else Some s)"

datatype pull_error = Integrity_error | Week_error week_error | Lookup_error int

section \<open>Operations\<close>

definition next_pull_id :: "pull_row list \<Rightarrow> int" where
  "next_pull_id t = (if t = [] then 1 else Max (set (map pr_id t)) + 1)"

text \<open>Collapse the payload on the entry key: the first occurrence stays.\<close>

definition collapse_entries :: "(string \<Rightarrow> string) \<Rightarrow> parsed_entry list \<Rightarrow> (string \<times> parsed_entry) list" where
  "collapse_entries decompose es =
     foldl (\<lambda>d e. let k = entry_key decompose e in if k \<in> fst ` set d then d else d @ [(k, e)]) [] es"

text \<open>The row as bound to the table: a sentinel text becomes \<open>NULL\<close>, which \<open>series_name\<close> refuses.\<close>

definition bind_row ::
  "string \<Rightarrow> datetime \<Rightarrow> int \<Rightarrow> string \<Rightarrow> parsed_entry \<Rightarrow> pull_row option" where
  "bind_row week stamp i k e =
     (case sentinel_free (Some (pe_series_name e)) of
        None \<Rightarrow> None
      | Some name \<Rightarrow> Some
          \<lparr>pe_series_name = name, pe_issue_number = pe_issue_number e, pe_release_date = pe_release_date e,
           pe_publisher = sentinel_free (pe_publisher e), pe_cv_series_id = pe_cv_series_id e,
           pe_cv_issue_id = pe_cv_issue_id e, pe_cover_url = pe_cover_url e,
           pe_description = sentinel_free (pe_description e), pe_upc = sentinel_free (pe_upc e),
           pe_creators = pe_creators e, pe_characters = pe_characters e,
           pr_id = i, pr_week = week, pr_entry_key = k, pr_matched_issue_id = None,
           pr_match_type = Unmatched, pr_fetched_at = stamp\<rparr>)"

fun insert_rows ::
  "string \<Rightarrow> datetime \<Rightarrow> (string \<times> parsed_entry) list \<Rightarrow> pull_row list \<Rightarrow>
   pull_error + pull_row list \<times> pull_row list" where
  "insert_rows week stamp [] t = Inr (t, [])"
| "insert_rows week stamp ((k, e) # kes) t =
     (case bind_row week stamp (next_pull_id t) k e of
        None \<Rightarrow> Inl Integrity_error
      | Some r \<Rightarrow>
          (case insert_rows week stamp kes (t @ [r]) of
             Inl err \<Rightarrow> Inl err
           | Inr (t', rs) \<Rightarrow> Inr (t', r # rs)))"

text \<open>The table after the replacement, and the new rows.\<close>

definition replace_week ::
  "(string \<Rightarrow> string) \<Rightarrow> string \<Rightarrow> parsed_entry list \<Rightarrow> datetime \<Rightarrow> pull_row list \<Rightarrow>
   pull_error + pull_row list \<times> pull_row list" where
  "replace_week decompose week es stamp t =
     insert_rows week stamp (collapse_entries decompose es) (filter (\<lambda>r. pr_week r \<noteq> week) t)"

definition list_week :: "string \<Rightarrow> pull_row list \<Rightarrow> pull_row list" where
  "list_week week t = sort_key pr_id (filter (\<lambda>r. pr_week r = week) t)"

definition any_week_stored :: "pull_row list \<Rightarrow> bool" where
  "any_week_stored t \<longleftrightarrow> t \<noteq> []"

definition get_entry :: "int \<Rightarrow> pull_row list \<Rightarrow> pull_row option" where
  "get_entry i t = row_get pr_id i t"

definition update_match ::
  "int \<Rightarrow> int option \<Rightarrow> match_type \<Rightarrow> pull_row list \<Rightarrow> pull_error + pull_row list" where
  "update_match i issue mt t =
     (case get_entry i t of
        None \<Rightarrow> Inl (Lookup_error i)
      | Some r \<Rightarrow> Inr (row_put pr_id (r\<lparr>pr_matched_issue_id := issue, pr_match_type := mt\<rparr>) t))"

end
