(* ===== verification/Pull_Match.thy ===== *)
theory Pull_Match
  imports Pull_Store Issue_Order
begin

text \<open>
  The matcher of pull entries against the watched library (\<open>pull/matching.py\<close>).

  \<open>build_library_index\<close> reads the series and issue rows (\<open>library/models.py\<close>) into the index, and
  \<open>match_entry\<close> decides one entry on it. A series row carries its aliases decoded from their JSON
  column. An issue value is the one of \<open>Issue_Order.parse_issue_number\<close>. The week guard reads the
  week key of the entry, so \<open>match_entry\<close> can fail with the error of \<open>week_date_range\<close>.
\<close>

section \<open>The library index\<close>

record series_row =
  sr_id :: int
  sr_title :: string
  sr_matching_key :: string
  sr_publisher :: "string option"
  sr_cv_volume_id :: int
  sr_monitored :: bool
  sr_aliases :: "string list"
  sr_root_folder_id :: int

record issue_row =
  ir_id :: int
  ir_series_id :: int
  ir_cv_issue_id :: int
  ir_issue_number :: "string option"
  ir_cover_date :: "date option"
  ir_store_date :: "date option"
  ir_issue_type :: string
  ir_monitored :: bool

record series_library =
  lb_series :: "series_row list"
  lb_issues :: "issue_row list"

record lib_issue =
  li_issue_id :: int
  li_series_id :: int
  li_value :: "rat option"
  li_issue_type :: string
  li_date :: "date option"

record lib_series =
  sx_series_id :: int
  sx_keys :: "string list"
  sx_latest_value :: "rat option"
  sx_by_value :: "rat \<rightharpoonup> lib_issue"

record match_index =
  ix_by_cv_issue :: "int \<rightharpoonup> lib_issue"
  ix_series_by_key :: "string \<Rightarrow> lib_series list"

definition lib_issue_of :: "issue_row \<Rightarrow> lib_issue" where
  "lib_issue_of i =
     \<lparr>li_issue_id = ir_id i, li_series_id = ir_series_id i,
      li_value = in_value (parse_issue_number (ir_issue_number i) DEFAULT_OPTIONS),
      li_issue_type = ir_issue_type i,
      li_date = (case ir_store_date i of None \<Rightarrow> ir_cover_date i | Some d \<Rightarrow> Some d)\<rparr>"

definition first_by_value :: "lib_issue list \<Rightarrow> rat \<rightharpoonup> lib_issue" where
  "first_by_value is =
     foldl (\<lambda>m i. case li_value i of None \<Rightarrow> m
       | Some v \<Rightarrow> (case m v of None \<Rightarrow> m(v \<mapsto> i) | Some _ \<Rightarrow> m)) Map.empty is"

definition lib_series_of :: "(string \<Rightarrow> string) \<Rightarrow> lib_issue list \<Rightarrow> series_row \<Rightarrow> lib_series" where
  "lib_series_of decompose issues s =
     (let own = filter (\<lambda>i. li_series_id i = sr_id s) issues;
          vals = List.map_filter li_value own;
          keys = sr_matching_key s # map (matching_key decompose) (sr_aliases s)
      in \<lparr>sx_series_id = sr_id s, sx_keys = remdups (filter (\<lambda>k. k \<noteq> []) keys),
          sx_latest_value = (if vals = [] then None else Some (Max (set vals))),
          sx_by_value = first_by_value own\<rparr>)"

text \<open>Only monitored series are indexed; every issue is, so that a later row of an id wins.\<close>

definition build_library_index :: "(string \<Rightarrow> string) \<Rightarrow> series_library \<Rightarrow> match_index" where
  "build_library_index decompose lib =
     (let issues = map lib_issue_of (lb_issues lib);
          series = map (lib_series_of decompose issues) (filter sr_monitored (lb_series lib))
      in \<lparr>ix_by_cv_issue = foldl (\<lambda>m i. m(ir_cv_issue_id i \<mapsto> lib_issue_of i)) Map.empty (lb_issues lib),
          ix_series_by_key = (\<lambda>k. filter (\<lambda>s. k \<in> set (sx_keys s)) series)\<rparr>)"

section \<open>The guards\<close>

definition MAX_SEQ_DELTA :: rat where "MAX_SEQ_DELTA = 3"

definition DATE_WINDOW_DAYS :: int where "DATE_WINDOW_DAYS = 2"

definition ANNUAL_MARKERS :: "(string \<times> issue_class) list" where
  "ANNUAL_MARKERS =
     [(''annual'', Annual), (''biannual'', Biannual), (''bi-annual'', Biannual), (''special'', Special)]"

definition BOOKTYPE_MARKERS :: "(string \<times> string) list" where
  "BOOKTYPE_MARKERS = map (\<lambda>(m, c). (casefold m, class_value c)) ANNUAL_MARKERS"

definition entry_tokens :: "'a parsed_entry_scheme \<Rightarrow> string list" where
  "entry_tokens e =
     pieces (\<lambda>c. is_space c \<or> c = CHR ''-'') (casefold (pe_series_name e @ '' '' @ pe_issue_number e))"

definition entry_book_type :: "'a parsed_entry_scheme \<Rightarrow> string" where
  "entry_book_type e =
     (case find (\<lambda>(m, _). m \<in> set (entry_tokens e)) BOOKTYPE_MARKERS of
        None \<Rightarrow> class_value Regular | Some (_, t) \<Rightarrow> t)"

definition series_matches_entry :: "(string \<Rightarrow> string) \<Rightarrow> 'a parsed_entry_scheme \<Rightarrow> match_index \<Rightarrow> lib_series list" where
  "series_matches_entry decompose e ix = ix_series_by_key ix (matching_key decompose (pe_series_name e))"

record match_result =
  mr_entry_id :: int
  mr_match_type :: match_type
  mr_matched_issue_id :: "int option"
  mr_matched_series_id :: "int option"

definition try_id_match :: "(string \<Rightarrow> string) \<Rightarrow> pull_row \<Rightarrow> match_index \<Rightarrow> match_result option" where
  "try_id_match decompose e ix =
     (case pe_cv_issue_id e of
        None \<Rightarrow> None
      | Some cv \<Rightarrow>
          (case ix_by_cv_issue ix cv of
             None \<Rightarrow> None
           | Some li \<Rightarrow>
               if li_series_id li \<notin> set (map sx_series_id (series_matches_entry decompose e ix)) then None
               else if li_issue_type li \<noteq> entry_book_type e then None
               else Some \<lparr>mr_entry_id = pr_id e, mr_match_type = Match_id,
                          mr_matched_issue_id = Some (li_issue_id li),
                          mr_matched_series_id = Some (li_series_id li)\<rparr>))"

definition entry_value :: "'a parsed_entry_scheme \<Rightarrow> rat option" where
  "entry_value e = in_value (parse_issue_number (Some (pe_issue_number e)) DEFAULT_OPTIONS)"

definition try_name_match ::
  "(string \<Rightarrow> string) \<Rightarrow> pull_row \<Rightarrow> match_index \<Rightarrow> week_error + match_result option" where
  "try_name_match decompose e ix =
     (case series_matches_entry decompose e ix of
        [s] \<Rightarrow>
          (case entry_value e of
             None \<Rightarrow> Inr None
           | Some v \<Rightarrow>
               (let delta = v - (case sx_latest_value s of None \<Rightarrow> 0 | Some b \<Rightarrow> b) in
                if \<not> (0 \<le> delta \<and> delta < MAX_SEQ_DELTA) then Inr None
                else case week_date_range (pr_week e) of
                       Inl err \<Rightarrow> Inl err
                     | Inr (start, finish) \<Rightarrow>
                         if \<not> (start - DATE_WINDOW_DAYS \<le> pe_release_date e \<and>
                                pe_release_date e \<le> finish + DATE_WINDOW_DAYS) then Inr None
                         else (let existing = sx_by_value s v in
                           if (case Option.bind existing li_date of None \<Rightarrow> False
                               | Some d \<Rightarrow> DATE_WINDOW_DAYS < \<bar>d - pe_release_date e\<bar>) then Inr None
                           else Inr (Some \<lparr>mr_entry_id = pr_id e, mr_match_type = Match_name_seq,
                                  mr_matched_issue_id = map_option li_issue_id existing,
                                  mr_matched_series_id = Some (sx_series_id s)\<rparr>))))
      | _ \<Rightarrow> Inr None)"

definition is_new_series_number :: "'a parsed_entry_scheme \<Rightarrow> bool" where
  "is_new_series_number e \<longleftrightarrow> entry_value e = Some 0 \<or> entry_value e = Some 1"

definition match_entry ::
  "(string \<Rightarrow> string) \<Rightarrow> match_index \<Rightarrow> pull_row \<Rightarrow> week_error + match_result" where
  "match_entry decompose ix e =
     (case try_id_match decompose e ix of
        Some r \<Rightarrow> Inr r
      | None \<Rightarrow>
          (case try_name_match decompose e ix of
             Inl err \<Rightarrow> Inl err
           | Inr (Some r) \<Rightarrow> Inr r
           | Inr None \<Rightarrow> Inr
               \<lparr>mr_entry_id = pr_id e,
                mr_match_type = (if series_matches_entry decompose e ix = [] \<and> is_new_series_number e
                                 then New_series else Unmatched),
                mr_matched_issue_id = None, mr_matched_series_id = None\<rparr>))"

section \<open>A week of entries\<close>

fun match_all ::
  "(string \<Rightarrow> string) \<Rightarrow> match_index \<Rightarrow> pull_row list \<Rightarrow> week_error + match_result list" where
  "match_all decompose ix [] = Inr []"
| "match_all decompose ix (e # es) =
     (case match_entry decompose ix e of
        Inl err \<Rightarrow> Inl err
      | Inr r \<Rightarrow> (case match_all decompose ix es of Inl err \<Rightarrow> Inl err | Inr rs \<Rightarrow> Inr (r # rs)))"

fun update_matches :: "match_result list \<Rightarrow> pull_row list \<Rightarrow> pull_error + pull_row list" where
  "update_matches [] t = Inr t"
| "update_matches (r # rs) t =
     (case update_match (mr_entry_id r) (mr_matched_issue_id r) (mr_match_type r) t of
        Inl err \<Rightarrow> Inl err | Inr t' \<Rightarrow> update_matches rs t')"

definition match_week ::
  "(string \<Rightarrow> string) \<Rightarrow> series_library \<Rightarrow> pull_row list \<Rightarrow> pull_row list \<Rightarrow>
   pull_error + pull_row list \<times> match_result list" where
  "match_week decompose lib rows t =
     (case match_all decompose (build_library_index decompose lib) rows of
        Inl err \<Rightarrow> Inl (Week_error err)
      | Inr rs \<Rightarrow> (case update_matches rs t of Inl err \<Rightarrow> Inl err | Inr t' \<Rightarrow> Inr (t', rs)))"

section \<open>What a match rests on\<close>

lemma first_by_value_Some: "first_by_value is v = Some i \<Longrightarrow> i \<in> set is \<and> li_value i = Some v"
  unfolding first_by_value_def
proof (induction "is" rule: rev_induct)
  case (snoc x xs)
  then show ?case by (auto split: option.splits if_splits)
qed simp

lemma by_cv_issue_Some:
  "foldl (\<lambda>m i. m(ir_cv_issue_id i \<mapsto> lib_issue_of i)) Map.empty is cv = Some li \<Longrightarrow>
   \<exists>i \<in> set is. ir_cv_issue_id i = cv \<and> li = lib_issue_of i"
proof (induction "is" rule: rev_induct)
  case (snoc x xs)
  then show ?case by (auto split: if_splits)
qed simp

definition series_keys :: "(string \<Rightarrow> string) \<Rightarrow> series_row \<Rightarrow> string set" where
  "series_keys decompose s =
     insert (sr_matching_key s) (set (map (matching_key decompose) (sr_aliases s))) - {[]}"

definition watched :: "(string \<Rightarrow> string) \<Rightarrow> series_library \<Rightarrow> string \<Rightarrow> series_row list" where
  "watched decompose lib k = filter (\<lambda>s. sr_monitored s \<and> k \<in> series_keys decompose s) (lb_series lib)"

lemma sx_series_id_of [simp]: "sx_series_id (lib_series_of decompose issues s) = sr_id s"
  by (simp add: lib_series_of_def Let_def)

lemma series_by_key_watched:
  "ix_series_by_key (build_library_index decompose lib) k =
     map (lib_series_of decompose (map lib_issue_of (lb_issues lib))) (watched decompose lib k)"
proof -
  have "k \<in> set (sx_keys (lib_series_of decompose is s)) \<longleftrightarrow> k \<in> series_keys decompose s" for s "is"
    by (auto simp: lib_series_of_def Let_def series_keys_def)
  then show ?thesis
    by (simp add: build_library_index_def Let_def watched_def filter_map comp_def conj_commute)
qed

lemma by_value_library:
  assumes "sx_by_value (lib_series_of decompose (map lib_issue_of issues) s) v = Some li"
  shows "\<exists>i \<in> set issues. ir_series_id i = sr_id s \<and> li = lib_issue_of i \<and> li_value li = Some v"
proof -
  have "li \<in> set (filter (\<lambda>i. li_series_id i = sr_id s) (map lib_issue_of issues)) \<and> li_value li = Some v"
    using assms by (intro first_by_value_Some) (simp add: lib_series_of_def Let_def)
  then show ?thesis by (auto simp: lib_issue_of_def)
qed

lemma try_id_match_Some:
  assumes "try_id_match decompose e (build_library_index decompose lib) = Some r"
  shows "\<exists>s \<in> set (watched decompose lib (matching_key decompose (pe_series_name e))).
    \<exists>i \<in> set (lb_issues lib). mr_matched_series_id r = Some (sr_id s) \<and> mr_matched_issue_id r = Some (ir_id i) \<and>
      ir_series_id i = sr_id s \<and> pe_cv_issue_id e = Some (ir_cv_issue_id i) \<and>
      ir_issue_type i = entry_book_type e \<and> mr_match_type r = Match_id"
proof -
  let ?ix = "build_library_index decompose lib"
  obtain cv li where c: "pe_cv_issue_id e = Some cv" "ix_by_cv_issue ?ix cv = Some li"
    and n: "li_series_id li \<in> set (map sx_series_id (series_matches_entry decompose e ?ix))"
    and b: "li_issue_type li = entry_book_type e"
    and r: "mr_matched_series_id r = Some (li_series_id li)" "mr_matched_issue_id r = Some (li_issue_id li)"
      "mr_match_type r = Match_id"
    using assms by (auto simp: try_id_match_def split: option.splits if_splits)
  obtain i where i: "i \<in> set (lb_issues lib)" "ir_cv_issue_id i = cv" "li = lib_issue_of i"
    using c(2) by_cv_issue_Some [of "lb_issues lib" cv li] by (auto simp: build_library_index_def Let_def)
  obtain s where "s \<in> set (watched decompose lib (matching_key decompose (pe_series_name e)))" "sr_id s = li_series_id li"
    using n by (auto simp: series_matches_entry_def series_by_key_watched)
  then show ?thesis using i c(1) b r by (intro bexI [of _ s] bexI [of _ i]) (auto simp: lib_issue_of_def)
qed

definition issue_values :: "series_library \<Rightarrow> series_row \<Rightarrow> rat set" where
  "issue_values lib s =
     {u. \<exists>i \<in> set (lb_issues lib). ir_series_id i = sr_id s \<and> li_value (lib_issue_of i) = Some u}"

lemma latest_value_upper:
  assumes "0 \<le> v - (case sx_latest_value (lib_series_of decompose (map lib_issue_of (lb_issues lib)) s) of
      None \<Rightarrow> 0 | Some b \<Rightarrow> b)"
  shows "\<forall>u \<in> issue_values lib s. u \<le> v"
proof
  fix u assume u: "u \<in> issue_values lib s"
  define vals where "vals = List.map_filter li_value
    (filter (\<lambda>i. li_series_id i = sr_id s) (map lib_issue_of (lb_issues lib)))"
  have "u \<in> set vals"
    using u by (force simp: vals_def issue_values_def map_filter_def lib_issue_of_def)
  with assms show "u \<le> v" by (auto simp: lib_series_of_def Let_def vals_def split: if_splits)
qed

lemma try_name_match_Some:
  assumes "try_name_match decompose e (build_library_index decompose lib) = Inr (Some r)"
  shows "\<exists>s. watched decompose lib (matching_key decompose (pe_series_name e)) = [s] \<and>
    mr_matched_series_id r = Some (sr_id s) \<and> mr_match_type r = Match_name_seq \<and>
    (\<exists>v. entry_value e = Some v \<and> (\<forall>u \<in> issue_values lib s. u \<le> v)) \<and>
    (\<exists>start finish. week_date_range (pr_week e) = Inr (start, finish) \<and>
       start - 2 \<le> pe_release_date e \<and> pe_release_date e \<le> finish + 2) \<and>
    (\<forall>n. mr_matched_issue_id r = Some n \<longrightarrow>
      (\<exists>i \<in> set (lb_issues lib). ir_id i = n \<and> ir_series_id i = sr_id s \<and>
         li_value (lib_issue_of i) = entry_value e \<and>
         (\<forall>d. li_date (lib_issue_of i) = Some d \<longrightarrow> \<bar>d - pe_release_date e\<bar> \<le> 2)))"
proof -
  let ?ix = "build_library_index decompose lib"
  let ?of = "lib_series_of decompose (map lib_issue_of (lb_issues lib))"
  let ?w = "watched decompose lib (matching_key decompose (pe_series_name e))"
  obtain x where x: "series_matches_entry decompose e ?ix = [x]"
    using assms by (auto simp: try_name_match_def split: list.splits)
  then obtain s where s: "?w = [s]" "x = ?of s"
    by (auto simp: series_matches_entry_def series_by_key_watched)
  obtain v where v: "entry_value e = Some v"
    using assms by (cases "entry_value e") (auto simp: try_name_match_def x)
  obtain start finish where w: "week_date_range (pr_week e) = Inr (start, finish)"
    using assms by (cases "week_date_range (pr_week e)") (auto simp: try_name_match_def x v Let_def split: if_splits)
  have g: "start - 2 \<le> pe_release_date e" "pe_release_date e \<le> finish + 2"
    and r: "mr_matched_issue_id r = map_option li_issue_id (sx_by_value (?of s) v)"
      "mr_matched_series_id r = Some (sr_id s)" "mr_match_type r = Match_name_seq"
    using assms by (auto simp: try_name_match_def x v w s(2) Let_def DATE_WINDOW_DAYS_def split: if_splits)
  have d: "\<bar>d - pe_release_date e\<bar> \<le> 2" if "Option.bind (sx_by_value (?of s) v) li_date = Some d" for d
    using assms that by (auto simp: try_name_match_def x v w s(2) Let_def DATE_WINDOW_DAYS_def split: if_splits)
  have "\<exists>i \<in> set (lb_issues lib). ir_id i = n \<and> ir_series_id i = sr_id s \<and>
         li_value (lib_issue_of i) = entry_value e \<and>
         (\<forall>d. li_date (lib_issue_of i) = Some d \<longrightarrow> \<bar>d - pe_release_date e\<bar> \<le> 2)"
    if m: "mr_matched_issue_id r = Some n" for n
  proof -
    obtain li where li: "sx_by_value (?of s) v = Some li" "n = li_issue_id li" using m r(1) by auto
    then obtain i where "i \<in> set (lb_issues lib)" "ir_series_id i = sr_id s" "li = lib_issue_of i" "li_value li = Some v"
      using by_value_library by blast
    with li v d show ?thesis by (intro bexI [of _ i]) (auto simp: lib_issue_of_def)
  qed
  moreover have "\<forall>u \<in> issue_values lib s. u \<le> v"
    by (rule latest_value_upper)
      (use assms in \<open>auto simp: try_name_match_def x v w s(2) Let_def split: if_splits\<close>)
  ultimately show ?thesis using s(1) v w g r by auto
qed

text \<open>
  What a result claims of an entry and the library: the row of a monitored series that carries the
  entry's key, the issue of that very series, and the guards of the way it was found.
\<close>

definition sound_match :: "(string \<Rightarrow> string) \<Rightarrow> series_library \<Rightarrow> pull_row \<Rightarrow> match_result \<Rightarrow> bool" where
  "sound_match decompose lib e r \<longleftrightarrow>
     mr_entry_id r = pr_id e \<and>
     (case mr_match_type r of
        Match_id \<Rightarrow>
          (\<exists>s \<in> set (lb_series lib). \<exists>i \<in> set (lb_issues lib).
             sr_monitored s \<and> matching_key decompose (pe_series_name e) \<in> series_keys decompose s \<and>
             ir_series_id i = sr_id s \<and> pe_cv_issue_id e = Some (ir_cv_issue_id i) \<and>
             ir_issue_type i = entry_book_type e \<and>
             mr_matched_issue_id r = Some (ir_id i) \<and> mr_matched_series_id r = Some (sr_id s))
      | Match_name_seq \<Rightarrow>
          (\<exists>s v start finish. watched decompose lib (matching_key decompose (pe_series_name e)) = [s] \<and>
             mr_matched_series_id r = Some (sr_id s) \<and>
             entry_value e = Some v \<and> (\<forall>u \<in> issue_values lib s. u \<le> v) \<and>
             week_date_range (pr_week e) = Inr (start, finish) \<and>
             start - 2 \<le> pe_release_date e \<and> pe_release_date e \<le> finish + 2 \<and>
             (\<forall>n. mr_matched_issue_id r = Some n \<longrightarrow>
               (\<exists>i \<in> set (lb_issues lib). ir_id i = n \<and> ir_series_id i = sr_id s \<and> li_value (lib_issue_of i) = Some v \<and>
                  (\<forall>d. li_date (lib_issue_of i) = Some d \<longrightarrow> \<bar>d - pe_release_date e\<bar> \<le> 2))))
      | New_series \<Rightarrow>
          watched decompose lib (matching_key decompose (pe_series_name e)) = [] \<and>
          entry_value e \<in> {Some 0, Some 1} \<and> mr_matched_issue_id r = None \<and> mr_matched_series_id r = None
      | Unmatched \<Rightarrow> mr_matched_issue_id r = None \<and> mr_matched_series_id r = None)"

lemma match_entry_of: "match_entry decompose ix e = Inr r \<Longrightarrow> mr_entry_id r = pr_id e"
  by (auto simp: match_entry_def try_id_match_def try_name_match_def Let_def
      split: option.splits sum.splits list.splits if_splits)

lemma match_entry_sound:
  assumes "match_entry decompose (build_library_index decompose lib) e = Inr r"
  shows "sound_match decompose lib e r"
proof (cases "try_id_match decompose e (build_library_index decompose lib)")
  case (Some r')
  then have r: "r' = r" using assms by (simp add: match_entry_def)
  note id = try_id_match_Some [OF Some, unfolded r]
  then have "mr_match_type r = Match_id" by blast
  then show ?thesis
    using id match_entry_of [OF assms] by (simp add: sound_match_def watched_def) blast
next
  case None
  show ?thesis
  proof (cases "try_name_match decompose e (build_library_index decompose lib)")
    case (Inr q)
    show ?thesis
    proof (cases q)
      case (Some r')
      then have "try_name_match decompose e (build_library_index decompose lib) = Inr (Some r)"
        using assms None Inr by (simp add: match_entry_def)
      from try_name_match_Some [OF this] match_entry_of [OF assms] show ?thesis
        by (auto simp: sound_match_def)
    qed (use assms None Inr in \<open>auto simp: match_entry_def sound_match_def is_new_series_number_def
        series_matches_entry_def series_by_key_watched split: if_splits\<close>)
  qed (use assms None in \<open>simp add: match_entry_def\<close>)
qed

lemma match_all_sound:
  "match_all decompose (build_library_index decompose lib) es = Inr rs \<Longrightarrow> list_all2 (sound_match decompose lib) es rs"
  by (induction es arbitrary: rs) (auto split: sum.splits intro: match_entry_sound)

text \<open>What the write loop leaves in the table.\<close>

definition written :: "match_result \<Rightarrow> pull_row \<Rightarrow> bool" where
  "written r x \<longleftrightarrow>
     mr_entry_id r = pr_id x \<and> pr_match_type x = mr_match_type r \<and> pr_matched_issue_id x = mr_matched_issue_id r"

lemma update_match_row:
  assumes "update_match (mr_entry_id r) (mr_matched_issue_id r) (mr_match_type r) t = Inr t'" and "unique_key pr_id t"
  shows "unique_key pr_id t' \<and> (\<forall>x \<in> set t'. written r x \<or> pr_id x \<noteq> mr_entry_id r \<and> x \<in> set t)"
proof -
  let ?w = "\<lambda>q. q\<lparr>pr_matched_issue_id := mr_matched_issue_id r, pr_match_type := mr_match_type r\<rparr>"
  obtain q where q: "row_get pr_id (mr_entry_id r) t = Some q" and t': "t' = row_put pr_id (?w q) t"
    using assms(1) by (auto simp: update_match_def get_entry_def split: option.splits)
  have "pr_id q = mr_entry_id r" using row_get_SomeD [OF q] by simp
  then show ?thesis
    using assms(2) set_row_put [OF assms(2), of "?w q"] by (auto simp: t' unique_row_put written_def)
qed

lemma update_matches_row:
  "update_matches rs t = Inr t' \<Longrightarrow> unique_key pr_id t \<Longrightarrow>
   \<forall>x \<in> set t'. (\<exists>r \<in> set rs. written r x) \<or> pr_id x \<notin> mr_entry_id ` set rs \<and> x \<in> set t"
proof (induction rs t rule: update_matches.induct)
  case (2 r rs t)
  then obtain t1 where u: "update_match (mr_entry_id r) (mr_matched_issue_id r) (mr_match_type r) t = Inr t1"
    and rest: "update_matches rs t1 = Inr t'" by (auto split: sum.splits)
  note one = update_match_row [OF u 2(3)]
  with 2(1) [OF u rest] show ?case by fastforce
qed simp

text \<open>C36: A pull link never crosses series. When a week's entries are matched, every result is what
  the library says of its entry: an id match names an issue of a monitored series that carries
  the key of the entry's name, with the entry's id and book type; a name match names the only
  monitored series of that key, with a number none of its issues is past and a date within the
  week and two days, and if it names an issue, one of that series with that number and a date
  within two days; an entry without a match names neither, and one reported as a new series has
  no monitored series of its key. And the table says what the results say: a row either carries
  the kind and the link of a result for that row, or the matcher had no result for it and left it
  alone.\<close>

theorem pull_match_sound:
  assumes "match_week decompose lib rows t = Inr (t', rs)" and "unique_key pr_id t"
  shows "list_all2 (sound_match decompose lib) rows rs \<and>
    (\<forall>x \<in> set t'. (\<exists>r \<in> set rs. written r x) \<or> pr_id x \<notin> mr_entry_id ` set rs \<and> x \<in> set t)"
proof -
  have "match_all decompose (build_library_index decompose lib) rows = Inr rs" and "update_matches rs t = Inr t'"
    using assms(1) by (auto simp: match_week_def split: sum.splits)
  then show ?thesis using match_all_sound update_matches_row [OF _ assms(2)] by blast
qed

definition demo_issue_row :: issue_row where
  "demo_issue_row =
     \<lparr>ir_id = 40, ir_series_id = 7, ir_cv_issue_id = 9001, ir_issue_number = Some ''5'',
      ir_cover_date = None, ir_store_date = Some 739617, ir_issue_type = ''regular'', ir_monitored = True\<rparr>"

definition demo_library :: series_library where
  "demo_library =
     \<lparr>lb_series = [\<lparr>sr_id = 7, sr_title = ''Saga'', sr_matching_key = ''saga'', sr_publisher = None,
        sr_cv_volume_id = 500, sr_monitored = True, sr_aliases = [], sr_root_folder_id = 1\<rparr>],
      lb_issues = [demo_issue_row]\<rparr>"

definition demo_pull_row :: pull_row where
  "demo_pull_row =
     \<lparr>pe_series_name = ''The Saga'', pe_issue_number = ''5'', pe_release_date = 739615, pe_publisher = None,
      pe_cv_series_id = None, pe_cv_issue_id = None, pe_cover_url = None, pe_description = None,
      pe_upc = None, pe_creators = None, pe_characters = None, pr_id = 3, pr_week = ''2026-W01'',
      pr_entry_key = ''name:saga|5|'', pr_matched_issue_id = None, pr_match_type = Unmatched, pr_fetched_at = 0\<rparr>"

lemma demo_match:
  "match_entry id (build_library_index id demo_library) demo_pull_row =
     Inr \<lparr>mr_entry_id = 3, mr_match_type = Match_name_seq, mr_matched_issue_id = Some 40, mr_matched_series_id = Some 7\<rparr>"
  by code_simp

lemma demo_match_week:
  "match_week id demo_library [demo_pull_row] [demo_pull_row] =
     Inr ([demo_pull_row\<lparr>pr_matched_issue_id := Some 40, pr_match_type := Match_name_seq\<rparr>],
       [\<lparr>mr_entry_id = 3, mr_match_type = Match_name_seq, mr_matched_issue_id = Some 40, mr_matched_series_id = Some 7\<rparr>])"
  unfolding match_week_def match_all.simps demo_match
  by (simp add: update_match_def get_entry_def demo_pull_row_def)

theorem pull_match_sound_witness:
  "sound_match id demo_library demo_pull_row
     \<lparr>mr_entry_id = 3, mr_match_type = Match_name_seq, mr_matched_issue_id = Some 40, mr_matched_series_id = Some 7\<rparr>"
proof -
  have "unique_key pr_id [demo_pull_row]" by (simp add: unique_key_def)
  from pull_match_sound [OF demo_match_week this, THEN conjunct1] show ?thesis by (simp only: list_all2_Cons)
qed

end
