(* ===== verification/Covers.thy ===== *)
theory Covers
  imports Url Safe_Paths
begin

text \<open>
  The allow list of cover URLs (\<open>covers.py\<close>): which URLs may be stored or fetched, and their
  canonical form.

  Paths are peeled of percent escapes as lists of code points, since an escape can stand for any
  of them; \<open>utf8_step\<close> is the UTF-8 decoder of Python, with the length of the malformed prefix it
  skips. No bidirectional or invisible format character of the code's table is Latin-1.
\<close>

section \<open>Percent escapes\<close>

definition points :: "string \<Rightarrow> int list" where
  "points s = map of_char s"

definition is_hex :: "int \<Rightarrow> bool" where
  "is_hex n \<longleftrightarrow> 48 \<le> n \<and> n \<le> 57 \<or> 65 \<le> n \<and> n \<le> 70 \<or> 97 \<le> n \<and> n \<le> 102"

definition hex_value :: "int \<Rightarrow> int" where
  "hex_value n = (if n \<le> 57 then n - 48 else if n \<le> 70 then n - 55 else n - 87)"

fun unquote_bytes :: "int list \<Rightarrow> int list" where
  "unquote_bytes (c # a # b # r) =
     (if c = 37 \<and> is_hex a \<and> is_hex b then (16 * hex_value a + hex_value b) # unquote_bytes r
      else c # unquote_bytes (a # b # r))"
| "unquote_bytes s = s"

definition trail :: "int list \<Rightarrow> nat \<Rightarrow> bool" where
  "trail s i \<longleftrightarrow> i < length s \<and> 128 \<le> s ! i \<and> s ! i \<le> 191"

text \<open>One character of a byte string, \<open>None\<close> when malformed, and the bytes it takes.\<close>

definition utf8_step :: "int \<Rightarrow> int list \<Rightarrow> int option \<times> nat" where
  "utf8_step b r =
     (if b < 128 then (Some b, 1)
      else if 194 \<le> b \<and> b \<le> 223 then
        (if trail r 0 then (Some ((b - 192) * 64 + (r ! 0 - 128)), 2) else (None, 1))
      else if 224 \<le> b \<and> b \<le> 239 then
        (if \<not> trail r 0 \<or> b = 224 \<and> r ! 0 < 160 \<or> b = 237 \<and> 159 < r ! 0 then (None, 1)
         else if \<not> trail r 1 then (None, 2)
         else (Some ((b - 224) * 4096 + (r ! 0 - 128) * 64 + (r ! 1 - 128)), 3))
      else if 240 \<le> b \<and> b \<le> 244 then
        (if \<not> trail r 0 \<or> b = 240 \<and> r ! 0 < 144 \<or> b = 244 \<and> 143 < r ! 0 then (None, 1)
         else if \<not> trail r 1 then (None, 2)
         else if \<not> trail r 2 then (None, 3)
         else (Some ((b - 240) * 262144 + (r ! 0 - 128) * 4096 + (r ! 1 - 128) * 64 + (r ! 2 - 128)), 4))
      else (None, 1))"

function utf8_decode :: "int list \<Rightarrow> int option list" where
  "utf8_decode [] = []"
| "utf8_decode (b # r) = (case utf8_step b r of (c, n) \<Rightarrow> c # utf8_decode (drop (n - 1) r))"
  by pat_completeness auto
termination by (relation "measure length") auto

text \<open>\<open>urllib.parse.unquote\<close>: every run of ASCII is decoded by itself.\<close>

function unquote :: "int list \<Rightarrow> int option list" where
  "unquote [] = []"
| "unquote (c # s) =
     (if c < 128
      then utf8_decode (unquote_bytes (c # takeWhile (\<lambda>x. x < 128) s)) @ unquote (dropWhile (\<lambda>x. x < 128) s)
      else Some c # unquote s)"
  by pat_completeness auto
termination
  by (relation "measure length") (auto simp: le_imp_less_Suc length_dropWhile_le)

definition unquote_strict :: "int list \<Rightarrow> int list option" where
  "unquote_strict s = (if None \<in> set (unquote s) then None else Some (map the (unquote s)))"

definition unquote_replace :: "int list \<Rightarrow> int list" where
  "unquote_replace s = map (\<lambda>c. case c of None \<Rightarrow> 65533 | Some n \<Rightarrow> n) (unquote s)"

section \<open>Rules\<close>

record cover_rule =
  cr_host :: string
  cr_allow_subdomains :: bool
  cr_required_prefix :: "string option"

definition COVER_HOST_RULES :: "cover_rule list" where
  "COVER_HOST_RULES =
     [\<lparr>cr_host = ''comicvine.gamespot.com'', cr_allow_subdomains = True, cr_required_prefix = None\<rparr>,
      \<lparr>cr_host = ''comicvine.com'', cr_allow_subdomains = True, cr_required_prefix = None\<rparr>,
      \<lparr>cr_host = ''s3.amazonaws.com'', cr_allow_subdomains = False, cr_required_prefix = Some ''/comicgeeks/''\<rparr>]"

definition MAX_COVER_URL_LENGTH :: nat where "MAX_COVER_URL_LENGTH = 1024"

definition MAX_DECODE_PEELS :: nat where "MAX_DECODE_PEELS = 4"

fun segment_clean :: "nat \<Rightarrow> int list \<Rightarrow> bool" where
  "segment_clean 0 s = True"
| "segment_clean (Suc n) s =
     (if s = [46] \<or> take 2 s = [46, 46] \<or> 92 \<in> set s then False
      else case unquote_strict s of
             None \<Rightarrow> False
           | Some p \<Rightarrow> if p = s then True else segment_clean n p)"

definition path_is_clean :: "string \<Rightarrow> bool" where
  "path_is_clean path \<longleftrightarrow>
     list_all (\<lambda>c. \<not> is_control c) path \<and>
     list_all (\<lambda>s. segment_clean MAX_DECODE_PEELS (points s)) (split_on slash path)"

definition host_listed :: "cover_rule \<Rightarrow> string \<Rightarrow> bool" where
  "host_listed r h \<longleftrightarrow> h = cr_host r \<or> cr_allow_subdomains r \<and> endswith h (CHR ''.'' # cr_host r)"

definition prefix_met :: "cover_rule \<Rightarrow> int list \<Rightarrow> bool" where
  "prefix_met r decoded \<longleftrightarrow>
     (case cr_required_prefix r of None \<Rightarrow> True
      | Some p \<Rightarrow> take (length p) decoded = points p)"

definition target_allowed ::
  "string \<Rightarrow> string \<Rightarrow> string \<Rightarrow> bool \<Rightarrow> nat option \<Rightarrow> bool \<Rightarrow> bool" where
  "target_allowed scheme host path userinfo port ascii_host \<longleftrightarrow>
     (if scheme \<noteq> ''https'' \<or> host = [] \<or> userinfo \<or> \<not> ascii_host then False
      else if port \<notin> {None, Some 443} then False
      else let h = str_lower host;
               u = unquote_replace (points path);
               decoded = (if u = [] then [of_char slash] else u)
           in if hd decoded \<noteq> of_char slash \<or> \<not> path_is_clean path then False
              else list_ex (\<lambda>r. host_listed r h \<and> prefix_met r decoded) COVER_HOST_RULES)"

section \<open>Canonical form\<close>

record url_pieces =
  up_scheme :: string
  up_netloc :: string
  up_path :: string

definition split_url :: "(string \<Rightarrow> bool) \<Rightarrow> string \<Rightarrow> url_pieces option" where
  "split_url ip6 url =
     (case url_split ip6 url of
        Inl _ \<Rightarrow> None
      | Inr (scheme, netloc) \<Rightarrow>
          (case netloc_port netloc of
             Inl _ \<Rightarrow> None
           | Inr _ \<Rightarrow> Some \<lparr>up_scheme = scheme, up_netloc = netloc,
               up_path = url_path (snd (split_scheme (url_clean url)))\<rparr>))"

definition port_of :: "string \<Rightarrow> nat option" where
  "port_of netloc = (case netloc_port netloc of Inl _ \<Rightarrow> None | Inr p \<Rightarrow> p)"

definition allowed_parts :: "url_pieces \<Rightarrow> bool" where
  "allowed_parts u =
     (let host = netloc_host (up_netloc u)
      in target_allowed (up_scheme u) host (up_path u)
           (case url_userinfo (up_netloc u) of None \<Rightarrow> False | Some i \<Rightarrow> i \<notin> {[], '':''})
           (port_of (up_netloc u)) (is_ascii host))"

definition canonical_cover_url :: "(string \<Rightarrow> bool) \<Rightarrow> string \<Rightarrow> string option" where
  "canonical_cover_url ip6 url =
     (case split_url ip6 (strip url) of
        None \<Rightarrow> None
      | Some u \<Rightarrow>
          if \<not> allowed_parts u then None
          else (let canonical = ''https://'' @ str_lower (netloc_host (up_netloc u)) @ up_path u
                in if MAX_COVER_URL_LENGTH < length canonical then None else Some canonical))"

definition cover_url_allowed :: "(string \<Rightarrow> bool) \<Rightarrow> string \<Rightarrow> bool" where
  "cover_url_allowed ip6 url \<longleftrightarrow> canonical_cover_url ip6 url \<noteq> None"

text \<open>
  A redirect hop as the client hands it: its port is \<open>None\<close> when reading it fails, its wire form is
  the path and query as sent.
\<close>

record cover_hop =
  ch_scheme :: string
  ch_host :: string
  ch_raw_path :: "string option"
  ch_port :: "nat option option"
  ch_username :: string
  ch_password :: string

definition hop_path :: "cover_hop \<Rightarrow> string option" where
  "hop_path h =
     (case ch_raw_path h of
        None \<Rightarrow> None
      | Some raw \<Rightarrow> if raw = [] then None else Some (takeWhile (\<lambda>c. c \<noteq> CHR ''?'') raw))"

definition cover_hop_allowed :: "cover_hop \<Rightarrow> bool" where
  "cover_hop_allowed h =
     (case hop_path h of
        None \<Rightarrow> False
      | Some path \<Rightarrow>
          (case ch_port h of
             None \<Rightarrow> False
           | Some port \<Rightarrow>
               target_allowed (ch_scheme h) (ch_host h) path (ch_username h \<noteq> [] \<or> ch_password h \<noteq> [])
                 port (is_ascii (ch_host h))))"

section \<open>What an accepted cover URL is\<close>

fun peels :: "nat \<Rightarrow> int list \<Rightarrow> int list option" where
  "peels 0 s = Some s"
| "peels (Suc k) s = Option.bind (unquote_strict s) (peels k)"

definition traversal :: "int list \<Rightarrow> bool" where
  "traversal s \<longleftrightarrow> s = [46] \<or> take 2 s = [46, 46] \<or> 92 \<in> set s"

lemma peels_fixed: "unquote_strict s = Some s \<Longrightarrow> peels k s = Some s"
  by (induction k) simp_all

lemma segment_clean_peels:
  "segment_clean n s \<Longrightarrow> k < n \<Longrightarrow> peels k s = Some q \<Longrightarrow> \<not> traversal q"
proof (induction n arbitrary: s k)
  case (Suc n)
  then obtain p where ok: "\<not> traversal s" and p: "unquote_strict s = Some p" "p = s \<or> segment_clean n p"
    by (auto simp: traversal_def split: if_splits option.splits)
  show ?case
  proof (cases k)
    case 0
    then show ?thesis using ok Suc.prems(3) by simp
  next
    case (Suc j)
    with p Suc.prems(3) have q: "peels j p = Some q" by simp
    show ?thesis
    proof (cases "p = s")
      case True
      then show ?thesis using peels_fixed [of s j] p(1) q ok by simp
    next
      case False
      then show ?thesis using Suc.IH [of p j] p(2) q Suc.prems(2) Suc by simp
    qed
  qed
qed simp

lemma target_allowed_rule:
  assumes "target_allowed scheme host path userinfo port ascii"
  shows "scheme = ''https'' \<and> \<not> userinfo \<and> port \<in> {None, Some 443} \<and> ascii \<and> host \<noteq> [] \<and>
    path_is_clean path \<and>
    (\<exists>r \<in> set COVER_HOST_RULES. host_listed r (str_lower host) \<and>
       (cr_required_prefix r \<noteq> None \<longrightarrow> prefix_met r (unquote_replace (points path))))"
proof -
  have "prefix_met r (unquote_replace (points path))"
    if "r \<in> set COVER_HOST_RULES" "prefix_met r [of_char slash]" "cr_required_prefix r \<noteq> None" for r
  proof -
    have False using that by (auto simp: COVER_HOST_RULES_def prefix_met_def points_def slash_def)
    then show ?thesis ..
  qed
  then show ?thesis
    using assms unfolding target_allowed_def Let_def list_ex_iff by (metis (full_types))
qed

lemma target_allowed_lower:
  assumes "target_allowed scheme g path userinfo port ascii" and "h = str_lower g" and "str_lower h = h" and "h \<noteq> []"
  shows "target_allowed ''https'' h path False None True"
  using assms unfolding target_allowed_def Let_def by (simp split: if_splits)

lemma canonical_parts:
  assumes "canonical_cover_url ip6 url = Some c"
  shows "\<exists>u. split_url ip6 (strip url) = Some u \<and> allowed_parts u \<and>
    c = ''https://'' @ str_lower (netloc_host (up_netloc u)) @ up_path u \<and> length c \<le> MAX_COVER_URL_LENGTH"
  using assms by (auto simp: canonical_cover_url_def Let_def split: option.splits if_splits)

text \<open>What the allow list lets be stored or fetched: an HTTPS URL without user, port, query or
  fragment, of at most 1024 characters, on a listed host and below the prefix that host requires,
  whose path holds no control character and none of whose segments, peeled of up to three layers of
  percent escapes, is a dot segment, begins with two dots or holds a backslash.\<close>

theorem canonical_cover_is_listed:
  assumes "canonical_cover_url ip6 url = Some c"
  shows "\<exists>h path. c = ''https://'' @ h @ path \<and> length c \<le> 1024 \<and>
    (\<exists>r \<in> set COVER_HOST_RULES. host_listed r h \<and>
       (cr_required_prefix r \<noteq> None \<longrightarrow> prefix_met r (unquote_replace (points path)))) \<and>
    (\<forall>seg \<in> set (split_on slash path). \<forall>k < 4. \<forall>q. peels k (points seg) = Some q \<longrightarrow> \<not> traversal q) \<and>
    (\<forall>x \<in> set path. \<not> is_control x)"
proof -
  obtain u where u: "allowed_parts u" and c: "c = ''https://'' @ str_lower (netloc_host (up_netloc u)) @ up_path u"
    and l: "length c \<le> 1024"
    using canonical_parts [OF assms] by (auto simp: MAX_COVER_URL_LENGTH_def)
  have p: "path_is_clean (up_path u)"
    and r: "\<exists>r \<in> set COVER_HOST_RULES. host_listed r (str_lower (netloc_host (up_netloc u))) \<and>
       (cr_required_prefix r \<noteq> None \<longrightarrow> prefix_met r (unquote_replace (points (up_path u))))"
    using target_allowed_rule [OF u [unfolded allowed_parts_def Let_def]] by blast+
  have "\<not> traversal q"
    if "seg \<in> set (split_on slash (up_path u))" "k < 4" "peels k (points seg) = Some q" for seg k q
    using p that by (intro segment_clean_peels [of 4 "points seg" k])
      (auto simp: path_is_clean_def list_all_iff MAX_DECODE_PEELS_def)
  moreover have "\<forall>x \<in> set (up_path u). \<not> is_control x" using p by (simp add: path_is_clean_def list_all_iff)
  ultimately show ?thesis using c l r by blast
qed

lemma canonical_cover_is_listed_witness:
  "\<exists>h path. ''https://s3.amazonaws.com/comicgeeks/a.jpg'' = ''https://'' @ h @ path \<and>
    (\<forall>x \<in> set path. \<not> is_control x)"
proof -
  have "canonical_cover_url (\<lambda>_. False) '' https://S3.amazonaws.com/comicgeeks/a.jpg?v=2'' =
      Some ''https://s3.amazonaws.com/comicgeeks/a.jpg''"
    by code_simp
  from canonical_cover_is_listed [OF this] show ?thesis by blast
qed


section \<open>The canonical form is canonical\<close>

lemma str_lower_char: "d \<in> set (str_lower s) \<Longrightarrow> code d < 128 \<Longrightarrow> \<not> is_upper d \<and> (d \<in> set s \<or> is_lower d)"
  by (auto simp: str_lower_def is_upper_def is_lower_def split: if_splits)

lemma str_lower_id: "list_all (\<lambda>c. code c < 128 \<and> \<not> is_upper c) s \<Longrightarrow> str_lower s = s"
  by (induction s) (auto simp: str_lower_def)

lemma is_ascii_str_lower: "is_ascii s \<Longrightarrow> is_ascii (str_lower s)"
  by (auto simp: is_ascii_def str_lower_def list_all_iff is_upper_def)

lemma lower_host_id: "list_all (\<lambda>c. code c < 128 \<and> \<not> is_upper c) s \<Longrightarrow> lower_host s = s"
  unfolding lower_host_def by (subst str_lower_id) (auto simp: list_all_iff dest: set_takeWhileD)

lemma after_at_id: "CHR ''@'' \<notin> set s \<Longrightarrow> after_at s = s"
proof -
  assume "CHR ''@'' \<notin> set s"
  then have "takeWhile (\<lambda>c. c \<noteq> CHR ''@'') (rev s) = rev s" by (intro takeWhile_eq_all_conv [THEN iffD2]) auto
  then show ?thesis by (simp only: after_at_def rev_rev_ident)
qed

lemma after_at_no_at: "CHR ''@'' \<notin> set (after_at s)"
  by (auto simp: after_at_def dest: set_takeWhileD)

lemma after_at_subset: "set (after_at s) \<subseteq> set s"
  by (auto simp: after_at_def dest: set_takeWhileD)

definition plain_host :: "string \<Rightarrow> bool" where
  "plain_host h \<longleftrightarrow> list_all (\<lambda>c. code c < 128 \<and> \<not> is_upper c \<and>
     c \<notin> {slash, CHR ''?'', CHR ''#'', CHR ''@'', CHR '':'', CHR ''['', CHR '']''} \<and> code c \<notin> {9, 10, 13}) h"

lemma lower_ascii_keeps:
  assumes "d \<in> set (str_lower s)" and "is_ascii s" and "\<not> is_lower d"
  shows "d \<in> set s"
  using assms is_ascii_str_lower [OF assms(2)] str_lower_char [OF assms(1)] by (auto simp: is_ascii_def list_all_iff)

lemma plain_host_port: "plain_host h \<Longrightarrow> netloc_port h = Inr None"
proof -
  assume "plain_host h"
  then have nb: "CHR ''['' \<notin> set h" "CHR '']'' \<notin> set h" "CHR ''@'' \<notin> set h" "CHR '':'' \<notin> set h"
    by (auto simp: plain_host_def list_all_iff)
  have "dropWhile (\<lambda>c. c \<noteq> CHR '':'') h = []" using nb(4) by (auto simp: dropWhile_eq_Nil_conv)
  then show ?thesis
    unfolding netloc_port_def after_at_id [OF nb(3)] Let_def using nb(1) by (simp only: if_False drop_Nil simp_thms if_True)
qed

lemma split_canonical:
  assumes h: "plain_host h" and "h \<noteq> []" and p: "p = [] \<or> hd p = slash"
    and q: "\<forall>c \<in> set p. c \<notin> {CHR ''?'', CHR ''#''} \<and> \<not> is_control c"
  shows "split_url ip6 (''https://'' @ h @ p) = Some \<lparr>up_scheme = ''https'', up_netloc = h, up_path = p\<rparr>"
proof -
  let ?stop = "\<lambda>c. c \<notin> {slash, CHR ''?'', CHR ''#''}"
  have keep: "filter (\<lambda>c. code c \<notin> {9, 10, 13}) (h @ p) = h @ p"
  proof (rule filter_True, rule ballI)
    fix c assume "c \<in> set (h @ p)"
    then consider "c \<in> set h" | "c \<in> set p" by auto
    then show "code c \<notin> {9, 10, 13}"
    proof cases
      case 1
      then show ?thesis using h unfolding plain_host_def list_all_iff by blast
    next
      case 2
      then have "\<not> code c < 32" using q unfolding is_control_def by blast
      then show ?thesis by auto
    qed
  qed
  have "code (CHR ''h'') = 104" "code (CHR ''t'') = 116" "code (CHR ''p'') = 112" "code (CHR ''s'') = 115"
    "code (CHR '':'') = 58" "code (CHR ''/'') = 47"
    by code_simp+
  then have clean: "url_clean (''https://'' @ h @ p) = ''https://'' @ h @ p"
    using keep by (simp add: url_clean_def)
  have scheme: "split_scheme (''https://'' @ h @ p) = (''https'', ''//'' @ h @ p)"
  proof -
    have "takeWhile (\<lambda>c. c \<noteq> CHR '':'') (''https://'' @ h @ p) = ''https''" by simp
    moreover have "is_alpha (CHR ''h'')" "code (CHR ''h'') < 128" "list_all scheme_char ''https''"
      "str_lower ''https'' = ''https''"
      by code_simp+
    ultimately show ?thesis by (simp add: split_scheme_def Let_def)
  qed
  have "list_all ?stop h" using h by (auto simp: plain_host_def list_all_iff)
  then have tw: "takeWhile ?stop (h @ p) = h" and dw: "dropWhile ?stop (h @ p) = p"
    using p by (cases p; simp add: list_all_iff)+
  have slashes: "startswith (''//'' @ h @ p) [slash, slash]" "drop 2 (''//'' @ h @ p) = h @ p"
    by (simp_all add: startswith_def slash_def)
  have netloc: "url_netloc (''//'' @ h @ p) = h" using slashes tw by (simp add: url_netloc_def)
  have "takeWhile (\<lambda>c. c \<notin> {CHR ''?'', CHR ''#''}) p = p" using q by (simp add: takeWhile_eq_all_conv)
  then have path: "url_path (''//'' @ h @ p) = p" using slashes dw by (simp add: url_path_def)
  have nb: "CHR ''['' \<notin> set h" "CHR '']'' \<notin> set h" "CHR ''@'' \<notin> set h" "CHR '':'' \<notin> set h"
    using h by (auto simp: plain_host_def list_all_iff)
  have "netloc_port h = Inr None" using h by (rule plain_host_port)
  then show ?thesis
    unfolding split_url_def url_split_def clean scheme prod.case netloc path Let_def snd_conv using nb(1,2) by simp
qed


lemma url_clean_chars: "c \<in> set (url_clean s) \<Longrightarrow> code c \<notin> {9, 10, 13}"
  by (simp add: url_clean_def)

lemma split_scheme_rest: "set (snd (split_scheme s)) \<subseteq> set s"
  by (auto simp: split_scheme_def Let_def dest: in_set_dropD)

lemma split_url_parts:
  assumes "split_url ip6 url = Some u"
  defines "rest \<equiv> snd (split_scheme (url_clean url))"
  shows "up_netloc u = url_netloc rest \<and> up_path u = url_path rest \<and>
    (CHR ''['' \<in> set (up_netloc u) \<longleftrightarrow> CHR '']'' \<in> set (up_netloc u))"
  using assms(1) unfolding rest_def split_url_def url_split_def Let_def
  by (auto split: sum.splits prod.splits if_splits)

lemma netloc_path_form:
  assumes "url_netloc rest \<noteq> []"
  shows "(url_path rest = [] \<or> hd (url_path rest) = slash) \<and>
    (\<forall>c \<in> set (url_netloc rest). c \<in> set rest \<and> c \<notin> {slash, CHR ''?'', CHR ''#''}) \<and>
    (\<forall>c \<in> set (url_path rest). c \<notin> {CHR ''?'', CHR ''#''})"
proof -
  let ?stop = "\<lambda>c. c \<notin> {slash, CHR ''?'', CHR ''#''}"
  let ?tail = "dropWhile ?stop (drop 2 rest)"
  have s: "startswith rest [slash, slash]" using assms by (auto simp: url_netloc_def split: if_splits)
  then have n: "url_netloc rest = takeWhile ?stop (drop 2 rest)" and p: "url_path rest = takeWhile (\<lambda>c. c \<notin> {CHR ''?'', CHR ''#''}) ?tail"
    by (simp_all add: url_netloc_def url_path_def)
  have "url_path rest = [] \<or> hd (url_path rest) = slash"
  proof (cases ?tail)
    case Nil
    then show ?thesis unfolding p by (simp only: takeWhile.simps simp_thms)
  next
    case (Cons x xs)
    then have "\<not> ?stop x" by (rule dropWhile_hd)
    then show ?thesis using p Cons by (auto simp: slash_def)
  qed
  moreover have "c \<in> set rest \<and> ?stop c" if "c \<in> set (url_netloc rest)" for c
    using set_takeWhileD [OF that [unfolded n]] in_set_dropD [of c 2 rest] by metis
  moreover have "c \<notin> {CHR ''?'', CHR ''#''}" if "c \<in> set (url_path rest)" for c
    using set_takeWhileD [OF that [unfolded p]] by blast
  ultimately show ?thesis by blast
qed

lemma netloc_host_chars:
  assumes "CHR ''['' \<notin> set n" and "d \<in> set (netloc_host n)" and "\<not> is_lower d" and "is_ascii (netloc_host n)"
  shows "d \<in> set n \<and> d \<noteq> CHR ''@'' \<and> d \<noteq> CHR '':''"
proof -
  let ?h = "takeWhile (\<lambda>c. c \<noteq> CHR '':'') (after_at n)"
  have "CHR ''['' \<notin> set (after_at n)" using assms(1) after_at_subset by blast
  then have n: "netloc_host n = lower_host ?h" by (simp add: netloc_host_def)
  have "d \<in> set (str_lower (takeWhile (\<lambda>c. c \<noteq> CHR ''%'') ?h)) \<or> d \<in> set (dropWhile (\<lambda>c. c \<noteq> CHR ''%'') ?h)"
    using assms(2) unfolding n lower_host_def by simp
  moreover have "code d < 128" using assms(2,4) by (auto simp: is_ascii_def list_all_iff)
  ultimately have "d \<in> set (takeWhile (\<lambda>c. c \<noteq> CHR ''%'') ?h) \<or> d \<in> set (dropWhile (\<lambda>c. c \<noteq> CHR ''%'') ?h)"
    using str_lower_char [of d "takeWhile (\<lambda>c. c \<noteq> CHR ''%'') ?h"] assms(3) by blast
  then have "d \<in> set ?h" using takeWhile_dropWhile_id [of "\<lambda>c. c \<noteq> CHR ''%''" ?h] by (metis Un_iff set_append)
  then have "d \<in> set (after_at n) \<and> d \<noteq> CHR '':''" by (auto dest: set_takeWhileD)
  then show ?thesis using after_at_no_at [of n] after_at_subset [of n] by blast
qed

lemma is_lower_plain:
  "is_lower d \<Longrightarrow> d \<notin> {slash, CHR ''?'', CHR ''#'', CHR ''@'', CHR '':'', CHR ''['', CHR '']''} \<and> code d \<notin> {9, 10, 13}"
proof -
  assume d: "is_lower d"
  have "\<not> is_lower slash" "\<not> is_lower (CHR ''?'')" "\<not> is_lower (CHR ''#'')" "\<not> is_lower (CHR ''@'')"
    "\<not> is_lower (CHR '':'')" "\<not> is_lower (CHR ''['')" "\<not> is_lower (CHR '']'')"
    by code_simp+
  moreover have "code d \<notin> {9, 10, 13}" using d unfolding is_lower_def by force
  ultimately show ?thesis using d by blast
qed

lemma allowed_host_plain:
  assumes "split_url ip6 url = Some u" and "allowed_parts u" and "CHR ''['' \<notin> set url"
  defines "h \<equiv> str_lower (netloc_host (up_netloc u))"
  shows "plain_host h \<and> h \<noteq> [] \<and> netloc_host h = h \<and> (up_path u = [] \<or> hd (up_path u) = slash) \<and>
    (\<forall>c \<in> set (up_path u). c \<notin> {CHR ''?'', CHR ''#''} \<and> \<not> is_control c)"
proof -
  let ?n = "up_netloc u" let ?g = "netloc_host ?n"
  define rest where "rest = snd (split_scheme (url_clean url))"
  note parts = split_url_parts [OF assms(1), folded rest_def]
  note ok = target_allowed_rule [OF assms(2) [unfolded allowed_parts_def Let_def]]
  have "?g \<noteq> []" and ascii: "is_ascii ?g" and clean: "path_is_clean (up_path u)" using ok by blast+
  have "set rest \<subseteq> set (url_clean url)" unfolding rest_def by (rule split_scheme_rest)
  then have rest: "c \<in> set url \<and> code c \<notin> {9, 10, 13}" if "c \<in> set rest" for c
    using that url_clean_chars [of c url] by (auto simp: url_clean_def dest: set_dropWhileD)
  have "?n \<noteq> []"
  proof
    assume "?n = []"
    then have "?g = []" by (simp add: netloc_host_def after_at_def lower_host_def str_lower_def)
    with \<open>?g \<noteq> []\<close> show False ..
  qed
  then have "url_netloc rest \<noteq> []" using parts by simp
  note form = netloc_path_form [OF this]
  have n: "c \<notin> {slash, CHR ''?'', CHR ''#''} \<and> c \<in> set rest" if "c \<in> set ?n" for c
    using form that parts by simp
  have nb: "CHR ''['' \<notin> set ?n" using n rest assms(3) by blast
  then have nb2: "CHR '']'' \<notin> set ?n" using parts by blast
  have p: "plain_host h" unfolding plain_host_def list_all_iff
  proof
    fix d assume d: "d \<in> set h"
    have 128: "code d < 128" using d is_ascii_str_lower [OF ascii] by (auto simp: h_def is_ascii_def list_all_iff)
    have up: "\<not> is_upper d" using str_lower_char d 128 unfolding h_def by blast
    have "d \<notin> {slash, CHR ''?'', CHR ''#'', CHR ''@'', CHR '':'', CHR ''['', CHR '']''} \<and> code d \<notin> {9, 10, 13}"
    proof (cases "is_lower d")
      case True
      then show ?thesis by (rule is_lower_plain)
    next
      case False
      then have "d \<in> set ?g" using lower_ascii_keeps [OF d [unfolded h_def] ascii] by blast
      then have "d \<in> set ?n \<and> d \<noteq> CHR ''@'' \<and> d \<noteq> CHR '':''" using netloc_host_chars [OF nb _ False ascii] by blast
      then show ?thesis using n [of d] rest [of d] nb nb2 by blast
    qed
    with 128 up show "code d < 128 \<and> \<not> is_upper d \<and>
        d \<notin> {slash, CHR ''?'', CHR ''#'', CHR ''@'', CHR '':'', CHR ''['', CHR '']''} \<and> code d \<notin> {9, 10, 13}"
      by blast
  qed
  then have hh: "CHR ''['' \<notin> set h" "CHR ''@'' \<notin> set h" "\<forall>c \<in> set h. c \<noteq> CHR '':''"
    and lower: "list_all (\<lambda>c. code c < 128 \<and> \<not> is_upper c) h"
    by (auto simp: plain_host_def list_all_iff)
  have tw: "takeWhile (\<lambda>c. c \<noteq> CHR '':'') h = h" by (rule takeWhile_eq_all_conv [THEN iffD2]) (rule hh(3))
  have "netloc_host h = h"
    unfolding netloc_host_def Let_def after_at_id [OF hh(2)] tw using hh(1) lower_host_id [OF lower] by simp
  moreover have "h \<noteq> []" using \<open>?g \<noteq> []\<close> by (simp add: h_def str_lower_def)
  moreover have "up_path u = [] \<or> hd (up_path u) = slash" "\<forall>c \<in> set (up_path u). c \<notin> {CHR ''?'', CHR ''#''}"
    using form parts by simp_all
  moreover have "\<forall>c \<in> set (up_path u). \<not> is_control c" using clean by (simp add: path_is_clean_def list_all_iff)
  ultimately show ?thesis using p by blast
qed

text \<open>The canonical form of a cover URL is accepted and is its own canonical form, when the source
  has no bracketed authority and the canonical form does not end in white space.\<close>

theorem canonical_cover_idempotent:
  assumes "canonical_cover_url ip6 url = Some c" and "CHR ''['' \<notin> set url" and "\<not> is_space (last c)"
  shows "canonical_cover_url ip6 c = Some c"
proof -
  obtain u where u: "split_url ip6 (strip url) = Some u" "allowed_parts u"
    and c: "c = ''https://'' @ str_lower (netloc_host (up_netloc u)) @ up_path u" and l: "length c \<le> MAX_COVER_URL_LENGTH"
    using canonical_parts [OF assms(1)] by blast
  define h where "h = str_lower (netloc_host (up_netloc u))"
  have "CHR ''['' \<notin> set (strip url)"
    using assms(2) set_strip [of url] by blast
  note host = allowed_host_plain [OF u this, folded h_def]
  have c': "c = ''https://'' @ h @ up_path u" using c by (simp add: h_def)
  have "strip c = c"
  proof -
    have "\<not> is_space (CHR ''h'')" by code_simp
    then have "dropWhile is_space c = c" using c' by simp
    moreover have "dropWhile is_space (rev c) = rev c"
    proof -
      have "c \<noteq> []" using c' by simp
      then have r: "rev c = last c # rev (butlast c)" by (metis append_butlast_last_id rev_eq_Cons_iff rev_rev_ident)
      show ?thesis unfolding r using assms(3) by simp
    qed
    ultimately show ?thesis by (simp only: strip_def rev_rev_ident)
  qed
  moreover have "split_url ip6 c = Some \<lparr>up_scheme = ''https'', up_netloc = h, up_path = up_path u\<rparr>"
    unfolding c' by (rule split_canonical) (use host in blast)+
  moreover have "allowed_parts \<lparr>up_scheme = ''https'', up_netloc = h, up_path = up_path u\<rparr>"
  proof -
    note ok = u(2) [unfolded allowed_parts_def Let_def]
    have "plain_host h" "h \<noteq> []" "netloc_host h = h" using host by blast+
    then have "list_all (\<lambda>c. code c < 128 \<and> \<not> is_upper c) h" and at: "CHR ''@'' \<notin> set h"
      and colon: "CHR '':'' \<notin> set h" and ascii: "is_ascii h"
      by (auto simp: plain_host_def list_all_iff is_ascii_def)
    then have lower: "str_lower h = h" by (intro str_lower_id)
    have "url_userinfo h = None" using at by (simp add: url_userinfo_def)
    moreover have "port_of h = None" using plain_host_port \<open>plain_host h\<close> by (simp add: port_of_def)
    moreover have "target_allowed ''https'' h (up_path u) False None True"
      by (rule target_allowed_lower [OF ok h_def lower \<open>h \<noteq> []\<close>])
    ultimately show ?thesis
      unfolding allowed_parts_def Let_def using \<open>netloc_host h = h\<close> ascii by simp
  qed
  moreover have "''https://'' @ str_lower (netloc_host h) @ up_path u = c"
    using host c' str_lower_id [of h] by (simp add: plain_host_def list_all_iff)
  moreover have "\<not> MAX_COVER_URL_LENGTH < length c" using l by (simp only: linorder_not_less)
  ultimately show ?thesis
    by (simp only: canonical_cover_url_def option.case Let_def url_pieces.simps not_False_eq_True if_False simp_thms)
qed

theorem canonical_cover_idempotent_witness:
  "canonical_cover_url (\<lambda>_. False) ''https://s3.amazonaws.com/comicgeeks/a.jpg'' =
     Some ''https://s3.amazonaws.com/comicgeeks/a.jpg''"
proof -
  have "canonical_cover_url (\<lambda>_. False) ''https://S3.amazonaws.com/comicgeeks/a.jpg?v=2'' =
      Some ''https://s3.amazonaws.com/comicgeeks/a.jpg''"
    by code_simp
  moreover have "\<not> is_space (last ''https://s3.amazonaws.com/comicgeeks/a.jpg'')" by code_simp
  ultimately show ?thesis using canonical_cover_idempotent by simp
qed

text \<open>A bracketed authority, and a path that ends in a space, are the two exceptions.\<close>

lemma canonical_cover_not_idempotent:
  "canonical_cover_url (\<lambda>_. True) ''https://[v1.a:b.comicvine.com]/x'' = Some ''https://v1.a:b.comicvine.com/x''"
  "canonical_cover_url (\<lambda>_. True) ''https://v1.a:b.comicvine.com/x'' = None"
  "canonical_cover_url (\<lambda>_. True) ''https://comicvine.com/x ?y'' = Some ''https://comicvine.com/x ''"
  "canonical_cover_url (\<lambda>_. True) ''https://comicvine.com/x '' = Some ''https://comicvine.com/x''"
  by code_simp+

end
