(* ===== verification/Pull_Source.thy ===== *)
theory Pull_Source
  imports Pull_Store Covers
begin

text \<open>
  The client of the weekly release source (\<open>pull/source.py\<close>): the reading of its untrusted JSON into
  entries and the run over the requested weeks.

  \<open>json\<close> is a value as \<open>json.loads\<close> returns it, an object with the last of its duplicate keys; the body
  of a reply is \<open>None\<close> where \<open>json.loads\<close> raises. \<open>str\<close> of a float, list or object is the argument
  \<open>py_str\<close>. The lone surrogates and the bidirectional characters the code removes are not Latin-1.
\<close>

section \<open>Values\<close>

datatype json =
    J_null
  | J_bool bool
  | J_int int
  | J_float string
  | J_str string
  | J_list "json list"
  | J_object "(string \<times> json) list"

definition json_get :: "string \<Rightarrow> (string \<times> json) list \<Rightarrow> json" where
  "json_get k fs = (case map_of fs k of None \<Rightarrow> J_null | Some v \<Rightarrow> v)"

definition MAX_PULL_ENTRIES :: nat where "MAX_PULL_ENTRIES = 10000"
definition PULL_FIELD_LENGTH :: nat where "PULL_FIELD_LENGTH = 300"
definition MAX_DESCRIPTION_LENGTH :: nat where "MAX_DESCRIPTION_LENGTH = 4000"
definition MAX_UPC_LENGTH :: nat where "MAX_UPC_LENGTH = 64"
definition MAX_NAME_LENGTH :: nat where "MAX_NAME_LENGTH = 256"
definition MAX_ROLE_LENGTH :: nat where "MAX_ROLE_LENGTH = 64"
definition MAX_LIST_ENTRIES :: nat where "MAX_LIST_ENTRIES = 64"
definition MAX_CV_ID :: int where "MAX_CV_ID = 2000000000"

section \<open>Texts\<close>

text \<open>The length of an escape sequence behind its ESC, if the text goes on as one.\<close>

definition ansi_tail :: "string \<Rightarrow> nat option" where
  "ansi_tail s =
     (case s of
        [] \<Rightarrow> None
      | c # r \<Rightarrow>
          if c = CHR ''['' then
            (let param = takeWhile (\<lambda>x. is_digit x \<or> x \<in> {CHR '';'', CHR ''?''}) r;
                 r1 = drop (length param) r;
                 inter = takeWhile (\<lambda>x. 32 \<le> code x \<and> code x \<le> 47) r1;
                 r2 = drop (length inter) r1
             in if r2 \<noteq> [] \<and> 64 \<le> code (hd r2) \<and> code (hd r2) \<le> 126
                then Some (length param + length inter + 2) else None)
          else if 64 \<le> code c \<and> code c \<le> 90 \<or> 92 \<le> code c \<and> code c \<le> 95 then Some 1
          else None)"

function strip_ansi :: "string \<Rightarrow> string" where
  "strip_ansi [] = []"
| "strip_ansi (c # s) =
     (case if c = CHR 0x1B then ansi_tail s else None of
        None \<Rightarrow> c # strip_ansi s
      | Some n \<Rightarrow> strip_ansi (drop n s))"
  by pat_completeness auto
termination by (relation "measure length") auto

definition rstrip :: "string \<Rightarrow> string" where
  "rstrip s = rev (dropWhile is_space (rev s))"

definition clean_text :: "nat \<Rightarrow> string \<Rightarrow> string option" where
  "clean_text limit v =
     (let t = strip (sub_runs is_space (filter (\<lambda>c. \<not> is_control c) (strip_ansi v)));
          u = (if limit < length t then rstrip (take limit t) else t)
      in if u = [] then None else Some u)"

definition clean_str :: "(json \<Rightarrow> string) \<Rightarrow> nat \<Rightarrow> bool \<Rightarrow> json \<Rightarrow> string option" where
  "clean_str py_str limit strings_only v =
     (case v of
        J_null \<Rightarrow> None
      | J_str s \<Rightarrow> clean_text limit s
      | J_bool b \<Rightarrow> if strings_only then None else clean_text limit (if b then ''True'' else ''False'')
      | J_int i \<Rightarrow> if strings_only then None else clean_text limit (show_int i)
      | _ \<Rightarrow> if strings_only then None else clean_text limit (py_str v))"

section \<open>Ids and dates\<close>

definition bounded_id :: "int \<Rightarrow> int option" where
  "bounded_id n = (if n \<le> 0 \<or> MAX_CV_ID < n then None else Some n)"

definition coerce_cv_id :: "json \<Rightarrow> int option" where
  "coerce_cv_id v =
     (case v of
        J_int n \<Rightarrow> bounded_id n
      | J_str s \<Rightarrow>
          (if \<not> isdigit_text (strip s) then None
           else case digit_int (strip s) of Inl _ \<Rightarrow> None | Inr n \<Rightarrow> bounded_id (int n))
      | _ \<Rightarrow> None)"

text \<open>The constructor of a date; \<open>None\<close> is its \<open>ValueError\<close>.\<close>

definition make_date :: "int \<Rightarrow> int \<Rightarrow> int \<Rightarrow> date option" where
  "make_date y m d =
     (if 1 \<le> y \<and> y \<le> 9999 \<and> 1 \<le> m \<and> m \<le> 12 \<and> 1 \<le> d \<and> d \<le> month_lengths y ! nat (m - 1)
      then Some (jan1 y + sum_list (take (nat (m - 1)) (month_lengths y)) + d - 1) else None)"

definition number_at :: "nat \<Rightarrow> nat \<Rightarrow> string \<Rightarrow> int option" where
  "number_at i n s =
     (let t = take n (drop i s)
      in if length t = n \<and> list_all is_digit t then Some (int (base_value 10 t)) else None)"

text \<open>
  \<open>date.fromisoformat\<close>: a calendar or a week date, with or without its dashes. The length is checked
  first, on the UTF-8 bytes, and what follows a complete date is not looked at.
\<close>

definition fromisoformat :: "string \<Rightarrow> date option" where
  "fromisoformat s =
     (let n = utf8_len s;
          sep = s \<noteq> [] \<and> take 1 (drop 4 s) = ''-'';
          p = (if sep then 5 else 4)
      in if n \<notin> {7, 8, 10} then None
         else case number_at 0 4 s of None \<Rightarrow> None | Some y \<Rightarrow>
         if take 1 (drop p s) = ''W'' then
           (case number_at (p + 1) 2 s of None \<Rightarrow> None | Some w \<Rightarrow>
             (case if int (p + 3) < n
                   then (if sep \<and> take 1 (drop (p + 3) s) \<noteq> ''-'' then None
                         else number_at (if sep then p + 4 else p + 3) 1 s)
                   else Some 1 of
                None \<Rightarrow> None
              | Some d \<Rightarrow>
                  (case from_isocalendar y w of
                     None \<Rightarrow> None
                   | Some monday \<Rightarrow>
                       if 1 \<le> d \<and> d \<le> 7 \<and> monday + d - 1 \<le> date_max then Some (monday + d - 1) else None)))
         else
           (case number_at p 2 s of None \<Rightarrow> None | Some m \<Rightarrow>
             if sep \<and> take 1 (drop (p + 2) s) \<noteq> ''-'' then None
             else case number_at (if sep then p + 3 else p + 2) 2 s of
                    None \<Rightarrow> None | Some d \<Rightarrow> make_date y m d))"

definition parse_date :: "json \<Rightarrow> date option" where
  "parse_date v =
     (case v of J_str s \<Rightarrow> if strip s = [] then None else fromisoformat (take 10 (strip s)) | _ \<Rightarrow> None)"

section \<open>Entries\<close>

fun cover_loop :: "(string \<Rightarrow> bool) \<Rightarrow> string option \<Rightarrow> json list \<Rightarrow> string option" where
  "cover_loop ip6 fallback [] = fallback"
| "cover_loop ip6 fallback (J_object fs # vs) =
     (case json_get ''url'' fs of
        J_str url \<Rightarrow>
          (case canonical_cover_url ip6 url of
             None \<Rightarrow> cover_loop ip6 fallback vs
           | Some c \<Rightarrow>
               if json_get ''is_primary'' fs = J_bool True then Some c
               else cover_loop ip6 (if fallback = None then Some c else fallback) vs)
      | _ \<Rightarrow> cover_loop ip6 fallback vs)"
| "cover_loop ip6 fallback (_ # vs) = cover_loop ip6 fallback vs"

definition parse_cover :: "(string \<Rightarrow> bool) \<Rightarrow> json \<Rightarrow> string option" where
  "parse_cover ip6 v = (case v of J_list vs \<Rightarrow> cover_loop ip6 None (take MAX_LIST_ENTRIES vs) | _ \<Rightarrow> None)"

text \<open>\<open>json.dumps\<close> of a text that holds no control character.\<close>

definition json_text :: "string \<Rightarrow> string" where
  "json_text s =
     CHR 0x22 # concat (map (\<lambda>c. if c \<in> {CHR 0x22, CHR 0x5C} then [CHR 0x5C, c] else [c]) s) @ [CHR 0x22]"

definition person_text :: "bool \<Rightarrow> string option \<Rightarrow> string \<Rightarrow> string" where
  "person_text with_role role name =
     ''{'' @ (if with_role
              then json_text ''role'' @ '':'' @ (case role of None \<Rightarrow> ''null'' | Some r \<Rightarrow> json_text r) @ '',''
              else []) @ json_text ''name'' @ '':'' @ json_text name @ ''}''"

definition person_of :: "(json \<Rightarrow> string) \<Rightarrow> bool \<Rightarrow> json \<Rightarrow> string option" where
  "person_of py_str with_role v =
     (case v of
        J_object fs \<Rightarrow>
          map_option (person_text with_role (clean_str py_str MAX_ROLE_LENGTH True (json_get ''role'' fs)))
            (clean_str py_str MAX_NAME_LENGTH True (json_get ''name'' fs))
      | _ \<Rightarrow> None)"

definition parse_people :: "(json \<Rightarrow> string) \<Rightarrow> bool \<Rightarrow> json \<Rightarrow> string option" where
  "parse_people py_str with_role v =
     (case v of
        J_list vs \<Rightarrow>
          (let items = List.map_filter (person_of py_str with_role) (take MAX_LIST_ENTRIES vs)
           in if items = [] then None else Some (''['' @ str_join '','' items @ '']''))
      | _ \<Rightarrow> None)"

definition parse_entry :: "(string \<Rightarrow> bool) \<Rightarrow> (json \<Rightarrow> string) \<Rightarrow> json \<Rightarrow> parsed_entry option" where
  "parse_entry ip6 py_str v =
     (case v of
        J_object fs \<Rightarrow>
          (case (clean_str py_str PULL_FIELD_LENGTH False (json_get ''series'' fs),
                 clean_str py_str PULL_FIELD_LENGTH False (json_get ''issue'' fs),
                 parse_date (json_get ''shipdate'' fs)) of
             (Some series, Some issue, Some d) \<Rightarrow> Some
               \<lparr>pe_series_name = series, pe_issue_number = issue, pe_release_date = d,
                pe_publisher = clean_str py_str PULL_FIELD_LENGTH False (json_get ''publisher'' fs),
                pe_cv_series_id = coerce_cv_id (json_get ''comicid'' fs),
                pe_cv_issue_id = coerce_cv_id (json_get ''issueid'' fs),
                pe_cover_url = parse_cover ip6 (json_get ''covers'' fs),
                pe_description = clean_str py_str MAX_DESCRIPTION_LENGTH True (json_get ''description'' fs),
                pe_upc = clean_str py_str MAX_UPC_LENGTH True (json_get ''upc'' fs),
                pe_creators = parse_people py_str True (json_get ''creators'' fs),
                pe_characters = parse_people py_str False (json_get ''characters'' fs)\<rparr>
           | _ \<Rightarrow> None)
      | _ \<Rightarrow> None)"

fun collect_entries :: "(json \<Rightarrow> parsed_entry option) \<Rightarrow> nat \<Rightarrow> json list \<Rightarrow> parsed_entry list" where
  "collect_entries parse left [] = []"
| "collect_entries parse left (v # vs) =
     (if left = 0 then []
      else case parse v of
             None \<Rightarrow> collect_entries parse left vs
           | Some e \<Rightarrow> e # collect_entries parse (left - 1) vs)"

text \<open>\<open>None\<close> is the outage of a malformed body.\<close>

definition parse_pull_payload ::
  "(string \<Rightarrow> bool) \<Rightarrow> (json \<Rightarrow> string) \<Rightarrow> json option \<Rightarrow> parsed_entry list option" where
  "parse_pull_payload ip6 py_str body =
     (case body of
        Some (J_list vs) \<Rightarrow> Some (collect_entries (parse_entry ip6 py_str) MAX_PULL_ENTRIES vs)
      | _ \<Rightarrow> None)"

section \<open>What the reading lets through\<close>

definition printable :: "nat \<Rightarrow> string \<Rightarrow> bool" where
  "printable n s \<longleftrightarrow> s \<noteq> [] \<and> length s \<le> n \<and> list_all (\<lambda>c. \<not> is_control c) s \<and>
     \<not> is_space (hd s) \<and> \<not> is_space (last s)"

lemma rstrip_ends:
  assumes "s \<noteq> []" "\<not> is_space (hd s)"
  shows "rstrip s \<noteq> [] \<and> hd (rstrip s) = hd s \<and> \<not> is_space (last (rstrip s)) \<and>
    set (rstrip s) \<subseteq> set s \<and> length (rstrip s) \<le> length s"
proof -
  let ?v = "dropWhile is_space (rev s)"
  have v: "?v \<noteq> []"
    using assms by (metis dropWhile_eq_Nil_conv hd_in_set set_rev)
  have e: "s = rstrip s @ rev (takeWhile is_space (rev s))"
    unfolding rstrip_def by (metis rev_append rev_rev_ident takeWhile_dropWhile_id)
  have "hd s = hd (rstrip s)" using v e by (metis hd_append2 rev_is_Nil_conv rstrip_def)
  moreover have "\<not> is_space (last (rstrip s))" using hd_dropWhile [OF v] by (simp add: rstrip_def last_rev)
  moreover have "set (rstrip s) \<subseteq> set s \<and> length (rstrip s) \<le> length s"
    unfolding rstrip_def by (auto simp: length_dropWhile_le dest: set_dropWhileD intro: order_trans [OF length_dropWhile_le])
  ultimately show ?thesis using v by (simp add: rstrip_def)
qed

lemma strip_rstrip: "strip s = rstrip (dropWhile is_space s)"
  by (simp add: strip_def rstrip_def)

lemma strip_printable:
  assumes "strip s \<noteq> []"
  shows "\<not> is_space (hd (strip s)) \<and> \<not> is_space (last (strip s))"
proof -
  let ?u = "dropWhile is_space s"
  have "?u \<noteq> []" using assms by (auto simp: strip_def simp del: dropWhile_eq_Nil_conv)
  with hd_dropWhile [OF this] rstrip_ends [OF this] show ?thesis by (simp add: strip_rstrip)
qed

lemma clean_text_printable:
  assumes "clean_text n v = Some u" "0 < n"
  shows "printable n u"
proof -
  define t where "t = strip (sub_runs is_space (filter (\<lambda>c. \<not> is_control c) (strip_ansi v)))"
  have blank: "\<not> is_control (CHR '' '')" by code_simp
  have "\<not> is_control c" if "c \<in> set t" for c
    using that set_strip set_sub_runs blank unfolding t_def by fastforce
  then have ctl: "list_all (\<lambda>c. \<not> is_control c) t" by (simp add: list_all_iff)
  have u: "u = (if n < length t then rstrip (take n t) else t)" "u \<noteq> []"
    using assms(1) by (auto simp: clean_text_def Let_def t_def split: if_splits)
  then have "t \<noteq> []" by (auto simp: rstrip_def split: if_splits)
  then have ends: "\<not> is_space (hd t)" "\<not> is_space (last t)" using strip_printable unfolding t_def by blast+
  show ?thesis
  proof (cases "n < length t")
    case True
    have "take n t \<noteq> []" "hd (take n t) = hd t" using assms(2) \<open>t \<noteq> []\<close> by simp_all
    moreover from this have r: "rstrip (take n t) \<noteq> []" "hd (rstrip (take n t)) = hd t" "\<not> is_space (last (rstrip (take n t)))"
      "set (rstrip (take n t)) \<subseteq> set (take n t)" "length (rstrip (take n t)) \<le> length (take n t)"
      using rstrip_ends [of "take n t"] ends(1) by simp_all
    moreover have "set (take n t) \<subseteq> set t" by (rule set_take_subset)
    ultimately show ?thesis using u(1) True ctl ends by (auto simp: printable_def list_all_iff)
  next
    case False
    then show ?thesis using u ctl ends by (simp add: printable_def)
  qed
qed

lemma clean_str_printable: "clean_str py n only v = Some u \<Longrightarrow> 0 < n \<Longrightarrow> printable n u"
  by (auto simp: clean_str_def clean_text_printable split: json.splits if_splits)

lemma jan1_mono: "a \<le> b \<Longrightarrow> jan1 a \<le> jan1 b"
proof (induction b rule: int_ge_induct)
  case (step i)
  then show ?case by (simp add: jan1_step split: if_splits)
qed simp

lemma make_date_range:
  assumes "make_date y m d = Some x"
  shows "0 \<le> x \<and> x \<le> date_max"
proof -
  have y: "1 \<le> y" "y \<le> 9999" and m: "1 \<le> m" "m \<le> 12" and d: "1 \<le> d" "d \<le> month_lengths y ! nat (m - 1)"
    and x: "x = jan1 y + sum_list (take (nat (m - 1)) (month_lengths y)) + d - 1"
    using assms by (auto simp: make_date_def split: if_splits)
  have "m = 1 \<or> m = 2 \<or> m = 3 \<or> m = 4 \<or> m = 5 \<or> m = 6 \<or> m = 7 \<or> m = 8 \<or> m = 9 \<or> m = 10 \<or> m = 11 \<or> m = 12"
    using m by presburger
  then have s: "0 \<le> sum_list (take (nat (m - 1)) (month_lengths y)) \<and>
      sum_list (take (nat (m - 1)) (month_lengths y)) + month_lengths y ! nat (m - 1) \<le> (if is_leap y then 366 else 365)"
    by (elim disjE) (simp_all add: month_lengths_def)
  have "jan1 1 \<le> jan1 y" "jan1 (y + 1) \<le> jan1 10000" using y by (auto intro: jan1_mono)
  moreover have "jan1 1 = 0" "jan1 10000 = date_max + 1" by (simp_all add: jan1_def date_max_def)
  ultimately show ?thesis using x s d jan1_step [of y] by simp
qed

lemma iso_monday_one: "1 \<le> y \<Longrightarrow> 0 \<le> iso_monday y"
proof (induction y rule: int_ge_induct)
  case base
  show ?case by (simp add: iso_monday_def jan1_def)
next
  case (step y)
  then show ?case using iso_monday_step [of y] by (auto split: if_splits)
qed

lemma fromisoformat_range: "fromisoformat s = Some d \<Longrightarrow> 0 \<le> d \<and> d \<le> date_max"
  using iso_monday_one make_date_range
  by (fastforce simp: fromisoformat_def from_isocalendar_def week_exists_def Let_def split: if_splits option.splits)

lemma coerce_range: "coerce_cv_id v = Some n \<Longrightarrow> 0 < n \<and> n \<le> 2000000000"
  by (auto simp: coerce_cv_id_def bounded_id_def MAX_CV_ID_def split: json.splits if_splits sum.splits)

lemma cover_loop_canonical:
  "cover_loop ip6 f vs = Some c \<Longrightarrow> f = Some c \<or> (\<exists>url. canonical_cover_url ip6 url = Some c)"
  by (induction ip6 f vs rule: cover_loop.induct) (auto split: json.splits option.splits if_splits)

lemma parse_cover_canonical: "parse_cover ip6 v = Some c \<Longrightarrow> \<exists>url. canonical_cover_url ip6 url = Some c"
  using cover_loop_canonical by (fastforce simp: parse_cover_def split: json.splits)

definition entry_ok :: "(string \<Rightarrow> bool) \<Rightarrow> parsed_entry \<Rightarrow> bool" where
  "entry_ok ip6 e \<longleftrightarrow>
     printable 300 (pe_series_name e) \<and> printable 300 (pe_issue_number e) \<and>
     pred_option (printable 300) (pe_publisher e) \<and> pred_option (printable 4000) (pe_description e) \<and>
     pred_option (printable 64) (pe_upc e) \<and>
     0 \<le> pe_release_date e \<and> pe_release_date e \<le> date_max \<and>
     pred_option (\<lambda>n. 0 < n \<and> n \<le> 2000000000) (pe_cv_series_id e) \<and>
     pred_option (\<lambda>n. 0 < n \<and> n \<le> 2000000000) (pe_cv_issue_id e) \<and>
     pred_option (\<lambda>c. \<exists>url. canonical_cover_url ip6 url = Some c) (pe_cover_url e)"

lemma parse_date_range: "parse_date v = Some d \<Longrightarrow> 0 \<le> d \<and> d \<le> date_max"
  by (auto simp: parse_date_def dest: fromisoformat_range split: json.splits if_splits)

lemma parse_entry_ok:
  assumes "parse_entry ip6 py v = Some e"
  shows "entry_ok ip6 e"
proof -
  obtain fs series issue d where "clean_str py PULL_FIELD_LENGTH False (json_get ''series'' fs) = Some series"
      "clean_str py PULL_FIELD_LENGTH False (json_get ''issue'' fs) = Some issue"
      "parse_date (json_get ''shipdate'' fs) = Some d"
    and e: "e = \<lparr>pe_series_name = series, pe_issue_number = issue, pe_release_date = d,
                pe_publisher = clean_str py PULL_FIELD_LENGTH False (json_get ''publisher'' fs),
                pe_cv_series_id = coerce_cv_id (json_get ''comicid'' fs),
                pe_cv_issue_id = coerce_cv_id (json_get ''issueid'' fs),
                pe_cover_url = parse_cover ip6 (json_get ''covers'' fs),
                pe_description = clean_str py MAX_DESCRIPTION_LENGTH True (json_get ''description'' fs),
                pe_upc = clean_str py MAX_UPC_LENGTH True (json_get ''upc'' fs),
                pe_creators = parse_people py True (json_get ''creators'' fs),
                pe_characters = parse_people py False (json_get ''characters'' fs)\<rparr>"
    using assms by (auto simp: parse_entry_def split: json.splits option.splits)
  then show ?thesis
    using clean_str_printable [of py] coerce_range parse_cover_canonical [of ip6] parse_date_range
    by (auto simp: entry_ok_def pred_option_def PULL_FIELD_LENGTH_def MAX_DESCRIPTION_LENGTH_def MAX_UPC_LENGTH_def elem_set)
qed

lemma collect_entries_ok:
  "length (collect_entries parse n vs) \<le> n \<and> set (collect_entries parse n vs) \<subseteq> {e. \<exists>v \<in> set vs. parse v = Some e}"
  by (induction parse n vs rule: collect_entries.induct) (auto split: option.splits)

text \<open>Whatever the source sends, a payload is read into at most 10000 entries, each with printable
  texts of bounded length (no control character, so no forged log line), a release date of the
  calendar, ids of the accepted range, and a cover URL only in the canonical form the allow list
  returns.\<close>

theorem parsed_entries_bounded:
  assumes "parse_pull_payload ip6 py body = Some es"
  shows "length es \<le> 10000 \<and> list_all (entry_ok ip6) es"
proof -
  obtain vs where "es = collect_entries (parse_entry ip6 py) MAX_PULL_ENTRIES vs"
    using assms by (auto simp: parse_pull_payload_def split: option.splits json.splits)
  then show ?thesis
    using collect_entries_ok [of "parse_entry ip6 py" MAX_PULL_ENTRIES vs]
    by (auto simp: list_all_iff MAX_PULL_ENTRIES_def dest: parse_entry_ok)
qed

definition demo_payload :: json where
  "demo_payload = J_object
     [(''series'', J_str '' Saga ''), (''issue'', J_int 5), (''shipdate'', J_str ''2026-01-01''), (''issueid'', J_str ''12'')]"

lemma parsed_entries_bounded_witness:
  "\<exists>e. parse_pull_payload (\<lambda>_. False) (\<lambda>_. []) (Some (J_list [demo_payload, J_null])) = Some [e] \<and>
     pe_release_date e = 739616 \<and> entry_ok (\<lambda>_. False) e"
proof -
  define e where "e = the (parse_entry (\<lambda>_. False) (\<lambda>_. []) demo_payload)"
  have "parse_entry (\<lambda>_. False) (\<lambda>_. []) demo_payload \<noteq> None \<and> pe_release_date e = 739616"
    unfolding e_def by code_simp
  then have e: "parse_entry (\<lambda>_. False) (\<lambda>_. []) demo_payload = Some e" "pe_release_date e = 739616"
    by (auto simp: e_def)
  then have p: "parse_pull_payload (\<lambda>_. False) (\<lambda>_. []) (Some (J_list [demo_payload, J_null])) = Some [e]"
    by (simp add: parse_pull_payload_def parse_entry_def MAX_PULL_ENTRIES_def)
  then show ?thesis using parsed_entries_bounded [OF p] e(2) by simp
qed

end
