(* ===== verification/Pull_Refresh.thy ===== *)
theory Pull_Refresh
  imports Pull_Match Pull_Source Backoff
begin

text \<open>
  The weekly refresh (\<open>pull/commands.py\<close>): fetch over the back-off ladder, filing of the entries under
  the week of their release date, storage and matching in one transaction, and the series to
  refresh. The run over the weeks is \<open>PullSourceClient.fetch_weeks\<close> (\<open>pull/source.py\<close>).

  The network is the argument \<open>net\<close>, from a week and year to the outcome of the request. The ladder
  is written before and apart from the transaction, so it stays when the storage fails.
\<close>

section \<open>The run over the weeks\<close>

datatype pull_reply = Reply int "json option" | Egress_refused | Fetch_refused | Transport_failed

datatype week_reply = Week_entries "parsed_entry list" | Bad_date | Outage string bool

definition CODE_BAD_DATE :: int where "CODE_BAD_DATE = 619"
definition CODE_BACKEND_DOWN :: int where "CODE_BACKEND_DOWN = 522"
definition CODE_UPDATE_REQUIRED :: int where "CODE_UPDATE_REQUIRED = 666"

definition fetch_week :: "(string \<Rightarrow> bool) \<Rightarrow> (json \<Rightarrow> string) \<Rightarrow> pull_reply \<Rightarrow> week_reply" where
  "fetch_week ip6 py_str r =
     (case r of
        Egress_refused \<Rightarrow> Outage ''egress-refused'' False
      | Fetch_refused \<Rightarrow> Outage ''fetch-refused'' False
      | Transport_failed \<Rightarrow> Outage ''transport'' False
      | Reply status body \<Rightarrow>
          if status = 200 then
            (case parse_pull_payload ip6 py_str body of
               None \<Rightarrow> Outage ''malformed'' False | Some es \<Rightarrow> Week_entries es)
          else if status = CODE_BAD_DATE then Bad_date
          else if status = CODE_BACKEND_DOWN then Outage ''backend-down'' False
          else if status = CODE_UPDATE_REQUIRED then Outage ''update-required'' True
          else Outage (''http-'' @ show_int status) False)"

type_synonym week_pair = "int \<times> int"

record fetch_outcome =
  fo_weeks :: "(week_pair \<times> parsed_entry list) list"
  fo_skipped :: "week_pair list"
  fo_outage_reason :: "string option"
  fo_future_skipped :: "week_pair list"

definition no_outcome :: fetch_outcome where
  "no_outcome = \<lparr>fo_weeks = [], fo_skipped = [], fo_outage_reason = None, fo_future_skipped = []\<rparr>"

text \<open>The outcome, and the outage to record on the ladder.\<close>

fun fetch_run ::
  "(week_pair \<Rightarrow> week_reply) \<Rightarrow> week_pair option \<Rightarrow> week_pair list \<Rightarrow> fetch_outcome \<Rightarrow>
   fetch_outcome \<times> (string \<times> bool) option" where
  "fetch_run net future [] acc = (acc, None)"
| "fetch_run net future (w # ws) acc =
     (case net w of
        Week_entries es \<Rightarrow> fetch_run net future ws (acc\<lparr>fo_weeks := fo_weeks acc @ [(w, es)]\<rparr>)
      | Bad_date \<Rightarrow> fetch_run net future ws (acc\<lparr>fo_skipped := fo_skipped acc @ [w]\<rparr>)
      | Outage reason fast_forward \<Rightarrow>
          if future = Some w
          then fetch_run net future ws (acc\<lparr>fo_future_skipped := fo_future_skipped acc @ [w]\<rparr>)
          else (no_outcome\<lparr>fo_skipped := fo_skipped acc, fo_outage_reason := Some reason\<rparr>,
                Some (reason, fast_forward)))"

definition PROVIDER_PULL :: string where "PROVIDER_PULL = ''pull''"
definition PULL_PROVIDER_ID :: int where "PULL_PROVIDER_ID = 0"

definition fetch_weeks ::
  "(week_pair \<Rightarrow> week_reply) \<Rightarrow> datetime \<Rightarrow> week_pair option \<Rightarrow> week_pair list \<Rightarrow> backoff_row list \<Rightarrow>
   (backoff_row list \<times> fetch_outcome) result" where
  "fetch_weeks net now future weeks tbl =
     (case fetch_run net future weeks no_outcome of
        (outcome, Some (reason, fast_forward)) \<Rightarrow>
          result_bind (record_failure now PROVIDER_PULL PULL_PROVIDER_ID reason None fast_forward tbl)
            (\<lambda>(tbl', _). Inr (tbl', outcome))
      | (outcome, None) \<Rightarrow> Inr (record_success PROVIDER_PULL PULL_PROVIDER_ID tbl, outcome))"

section \<open>The weeks to ask for\<close>

record pull_settings =
  pl_enabled :: bool
  pl_source_url :: string
  pl_backfill_weeks :: int

definition PULL_BACKFILL_MAX_WEEKS :: int where "PULL_BACKFILL_MAX_WEEKS = 12"

definition requested_weeks :: "pull_settings \<Rightarrow> date \<Rightarrow> pull_row list \<Rightarrow> week_pair list" where
  "requested_weeks cfg today t =
     (let backfill = min (pl_backfill_weeks cfg) PULL_BACKFILL_MAX_WEEKS
      in if 0 < backfill \<and> \<not> any_week_stored t
         then fold (\<lambda>back. add_pair (iso_pair (today - 7 * back))) [2..backfill + 1] (fetch_window today)
         else fetch_window today)"

definition future_week :: "date \<Rightarrow> week_pair" where
  "future_week today = iso_pair (today + 7)"

section \<open>Filing, storage and matching\<close>

fun file_under :: "string \<Rightarrow> 'a \<Rightarrow> (string \<times> 'a list) list \<Rightarrow> (string \<times> 'a list) list" where
  "file_under k e [] = [(k, [e])]"
| "file_under k e ((k', es) # d) = (if k' = k then (k', es @ [e]) # d else (k', es) # file_under k e d)"

definition entry_week :: "'a parsed_entry_scheme \<Rightarrow> string" where
  "entry_week e = current_week (pe_release_date e)"

definition derive_weeks :: "fetch_outcome \<Rightarrow> (string \<times> parsed_entry list) list" where
  "derive_weeks out =
     foldl (\<lambda>d (w, es). foldl (\<lambda>d e. file_under (entry_week e) e d) d es) [] (fo_weeks out)"

text \<open>The empty payloads of the future week.\<close>

definition count_future_skips :: "string \<Rightarrow> fetch_outcome \<Rightarrow> nat" where
  "count_future_skips future_key out =
     length (filter (\<lambda>((w, y), es). es = [] \<and> week_key y w = future_key) (fo_weeks out))"

fun store_weeks ::
  "(string \<Rightarrow> string) \<Rightarrow> series_library \<Rightarrow> datetime \<Rightarrow> (string \<times> parsed_entry list) list \<Rightarrow> pull_row list \<Rightarrow>
   pull_error + pull_row list \<times> nat \<times> match_result list" where
  "store_weeks decompose lib stamp [] t = Inr (t, 0, [])"
| "store_weeks decompose lib stamp ((k, es) # ws) t =
     (case replace_week decompose k es stamp t of
        Inl err \<Rightarrow> Inl err
      | Inr (ta, rows) \<Rightarrow>
          (case match_week decompose lib rows ta of
             Inl err \<Rightarrow> Inl err
           | Inr (tb, rs) \<Rightarrow>
               (case store_weeks decompose lib stamp ws tb of
                  Inl err \<Rightarrow> Inl err
                | Inr (tc, n, rs') \<Rightarrow> Inr (tc, length rows + n, rs @ rs'))))"

text \<open>The series whose matched issue does not exist yet, each once, in the order met.\<close>

definition series_to_refresh :: "match_result list \<Rightarrow> int list" where
  "series_to_refresh rs =
     foldl (\<lambda>acc r. case mr_matched_series_id r of
         None \<Rightarrow> acc
       | Some s \<Rightarrow> if mr_matched_issue_id r \<noteq> None \<or> s \<in> set acc then acc else acc @ [s]) [] rs"

section \<open>The command\<close>

record pull_world =
  pw_entries :: "pull_row list"
  pw_backoff :: "backoff_row list"

datatype refresh_note =
    Pull_disabled
  | No_pull_source
  | Pull_backing_off
  | Pull_degraded string
  | Pull_refreshed fetch_outcome nat "int list" nat

datatype refresh_error = Ladder_error py_error | Store_error pull_error

definition pull_refresh ::
  "(string \<Rightarrow> string) \<Rightarrow> (week_pair \<Rightarrow> week_reply) \<Rightarrow> pull_settings \<Rightarrow> series_library \<Rightarrow> datetime \<Rightarrow> date \<Rightarrow>
   pull_world \<Rightarrow> pull_world \<times> (refresh_error + refresh_note)" where
  "pull_refresh decompose net cfg lib now today w =
     (if \<not> pl_enabled cfg then (w, Inr Pull_disabled)
      else if strip (pl_source_url cfg) = [] then (w, Inr No_pull_source)
      else if active (provider_status now PROVIDER_PULL PULL_PROVIDER_ID (pw_backoff w))
      then (w, Inr Pull_backing_off)
      else case fetch_weeks net now (Some (future_week today)) (requested_weeks cfg today (pw_entries w)) (pw_backoff w) of
             Inl err \<Rightarrow> (w, Inl (Ladder_error err))
           | Inr (tbl, out) \<Rightarrow>
               (let v = w\<lparr>pw_backoff := tbl\<rparr>
                in case fo_outage_reason out of
                     Some reason \<Rightarrow> (v, Inr (Pull_degraded reason))
                   | None \<Rightarrow>
                       (case store_weeks decompose lib now (sort_key fst (derive_weeks out)) (pw_entries w) of
                          Inl err \<Rightarrow> (v, Inl (Store_error err))
                        | Inr (t, n, rs) \<Rightarrow>
                            (v\<lparr>pw_entries := t\<rparr>,
                             Inr (Pull_refreshed out n (series_to_refresh rs)
                               (count_future_skips (case future_week today of (wk, y) \<Rightarrow> week_key y wk) out))))))"

section \<open>The stored rows\<close>

text \<open>A row without its match, and without what differs between two refreshes of the same payload.\<close>

definition fetched :: "pull_row \<Rightarrow> pull_row" where
  "fetched r = r\<lparr>pr_matched_issue_id := None, pr_match_type := Unmatched\<rparr>"

definition stored :: "pull_row \<Rightarrow> pull_row" where
  "stored r = r\<lparr>pr_id := 0, pr_fetched_at := 0\<rparr>"

definition pull_inv :: "pull_row list \<Rightarrow> bool" where
  "pull_inv t \<longleftrightarrow> distinct (map pr_id t) \<and> distinct (map (\<lambda>r. (pr_week r, pr_entry_key r)) t) \<and>
     list_all (\<lambda>r. pr_week r = entry_week r) t"

lemma fetched_sel [simp]:
  "pr_id (fetched r) = pr_id r" "pr_week (fetched r) = pr_week r" "pr_entry_key (fetched r) = pr_entry_key r"
  "entry_week (fetched r) = entry_week r"
  by (simp_all add: fetched_def entry_week_def)

lemma map_fetched_cong: "map fetched s = map fetched t \<Longrightarrow> (\<And>r. f (fetched r) = f r) \<Longrightarrow> map f s = map f t"
  by (metis (no_types, lifting) map_cong map_map comp_apply)

lemma pull_inv_fetched:
  assumes "map fetched s = map fetched t" "pull_inv t"
  shows "pull_inv s"
proof -
  note m = map_fetched_cong [OF assms(1)]
  have "map pr_id s = map pr_id t" "map (\<lambda>r. (pr_week r, pr_entry_key r)) s = map (\<lambda>r. (pr_week r, pr_entry_key r)) t"
    "map (\<lambda>r. pr_week r = entry_week r) s = map (\<lambda>r. pr_week r = entry_week r) t"
    by (rule m, simp)+
  moreover have "list_all P u = list_all id (map P u)" for P and u :: "pull_row list" by (simp add: list.pred_map comp_def)
  ultimately show ?thesis using assms(2) by (metis (no_types, lifting) pull_inv_def)
qed

lemma next_pull_id_fresh: "r \<in> set t \<Longrightarrow> pr_id r < next_pull_id t"
  by (force simp: next_pull_id_def intro: zle_add1_eq_le [THEN iffD2] Max_ge)

lemma bind_row_Some:
  assumes "bind_row week stamp i k e = Some r"
  shows "pr_id r = i \<and> pr_week r = week \<and> pr_entry_key r = k \<and> pe_release_date r = pe_release_date e \<and>
    fetched r = r"
  using assms by (auto simp: bind_row_def fetched_def split: option.splits)

lemma insert_rows_Inr:
  "insert_rows week stamp kes t = Inr (t', rs) \<Longrightarrow>
   t' = t @ rs \<and> map pr_entry_key rs = map fst kes \<and> list_all (\<lambda>r. pr_week r = week) rs \<and>
   map pe_release_date rs = map (\<lambda>(k, e). pe_release_date e) kes \<and>
   (distinct (map pr_id t) \<longrightarrow> distinct (map pr_id t'))"
proof (induction kes arbitrary: t t' rs)
  case (Cons ke kes)
  obtain k e where ke: "ke = (k, e)" by fastforce
  obtain r rest where r: "bind_row week stamp (next_pull_id t) k e = Some r"
    and i: "insert_rows week stamp kes (t @ [r]) = Inr (t', rest)" and rs: "rs = r # rest"
    using Cons.prems ke by (auto split: option.splits sum.splits)
  have "distinct (map pr_id t) \<longrightarrow> distinct (map pr_id (t @ [r]))"
    using next_pull_id_fresh [of _ t] bind_row_Some [OF r] by fastforce
  moreover have "t' = t @ rs" using Cons.IH [OF i] rs by simp
  moreover have "distinct (map pr_id (t @ [r])) \<longrightarrow> distinct (map pr_id t')" using Cons.IH [OF i] by blast
  ultimately show ?case using Cons.IH [OF i] bind_row_Some [OF r] unfolding rs ke by simp_all
qed simp

lemma collapse_entries_keys:
  "distinct (map fst (collapse_entries decompose es)) \<and> set (map snd (collapse_entries decompose es)) \<subseteq> set es"
proof -
  have "distinct (map fst (foldl (\<lambda>d e. let k = entry_key decompose e in if k \<in> fst ` set d then d else d @ [(k, e)]) d es)) \<and>
      set (map snd (foldl (\<lambda>d e. let k = entry_key decompose e in if k \<in> fst ` set d then d else d @ [(k, e)]) d es))
        \<subseteq> set (map snd d) \<union> set es"
    if "distinct (map fst d)" for d
    using that
  proof (induction es arbitrary: d)
    case (Cons e es)
    show ?case
    proof (cases "entry_key decompose e \<in> fst ` set d")
      case True
      with Cons.IH [OF Cons.prems] show ?thesis by (auto simp: Let_def)
    next
      case False
      with Cons.prems have "distinct (map fst (d @ [(entry_key decompose e, e)]))" by simp
      from Cons.IH [OF this] False show ?thesis by (simp add: Let_def)
    qed
  qed simp
  from this [of "[]"] show ?thesis by (simp add: collapse_entries_def)
qed

lemma replace_week_Inr:
  assumes "replace_week decompose week es stamp t = Inr (t', rs)"
  shows "t' = filter (\<lambda>r. pr_week r \<noteq> week) t @ rs \<and> list_all (\<lambda>r. pr_week r = week) rs \<and>
    distinct (map pr_entry_key rs) \<and> set (map pe_release_date rs) \<subseteq> pe_release_date ` set es \<and>
    (distinct (map pr_id t) \<longrightarrow> distinct (map pr_id t'))"
proof -
  let ?kes = "collapse_entries decompose es"
  note i = insert_rows_Inr [OF assms [unfolded replace_week_def]]
  have "set (map (\<lambda>(k, e). pe_release_date e) ?kes) \<subseteq> pe_release_date ` set es"
    using collapse_entries_keys [of decompose es] by (force simp: case_prod_unfold)
  moreover have "distinct (map pr_id t) \<Longrightarrow> distinct (map pr_id (filter (\<lambda>r. pr_week r \<noteq> week) t))"
    by (rule distinct_map_filter)
  ultimately have "distinct (map pr_id t) \<longrightarrow> distinct (map pr_id t')"
    and "set (map pe_release_date rs) \<subseteq> pe_release_date ` set es" using i by (blast, metis)
  moreover have "distinct (map pr_entry_key rs)" using i collapse_entries_keys [of decompose es] by metis
  ultimately show ?thesis using i by blast
qed

lemma row_put_fetched:
  "row_get pr_id (pr_id r) t = Some r \<Longrightarrow>
   map fetched (row_put pr_id (r\<lparr>pr_matched_issue_id := a, pr_match_type := b\<rparr>) t) = map fetched t"
  by (induction t) (simp_all add: fetched_def split: if_splits)

lemma update_match_fetched: "update_match i a b t = Inr t' \<Longrightarrow> map fetched t' = map fetched t"
proof -
  assume u: "update_match i a b t = Inr t'"
  obtain r where g: "row_get pr_id i t = Some r"
    and t: "t' = row_put pr_id (r\<lparr>pr_matched_issue_id := a, pr_match_type := b\<rparr>) t"
    using u by (auto simp: update_match_def get_entry_def split: option.splits)
  have "pr_id r = i" using row_get_SomeD [OF g] by simp
  with g t row_put_fetched show ?thesis by simp
qed

lemma update_matches_fetched: "update_matches rs t = Inr t' \<Longrightarrow> map fetched t' = map fetched t"
  by (induction rs t rule: update_matches.induct) (auto split: sum.splits dest: update_match_fetched)

lemma match_week_fetched: "match_week decompose lib rows t = Inr (t', rs) \<Longrightarrow> map fetched t' = map fetched t"
  by (auto simp: match_week_def split: sum.splits dest: update_matches_fetched)

lemma pull_inv_replace:
  assumes "replace_week decompose week es stamp t = Inr (t', rs)" and "pull_inv t"
    and "\<forall>e \<in> set es. entry_week e = week"
  shows "pull_inv t'"
proof -
  note r = replace_week_Inr [OF assms(1)]
  have e: "entry_week x = week" if "x \<in> set rs" for x
  proof -
    have "pe_release_date x \<in> pe_release_date ` set es" using r that by auto
    then show ?thesis using assms(3) by (auto simp: entry_week_def)
  qed
  have "distinct (map (\<lambda>r. (pr_week r, pr_entry_key r)) rs)"
    using r by (auto simp: distinct_map inj_on_def)
  moreover have "distinct (map (\<lambda>r. (pr_week r, pr_entry_key r)) (filter (\<lambda>r. pr_week r \<noteq> week) t))"
    using assms(2) by (simp add: pull_inv_def distinct_map_filter)
  ultimately have "distinct (map (\<lambda>r. (pr_week r, pr_entry_key r)) t')"
    using r by (auto simp: list_all_iff)
  moreover have "list_all (\<lambda>r. pr_week r = entry_week r) t'"
    using r e assms(2) by (auto simp: list_all_iff pull_inv_def)
  ultimately show ?thesis using r assms(2) unfolding pull_inv_def by blast
qed

text \<open>Filing.\<close>

definition filed :: "(string \<times> parsed_entry list) list \<Rightarrow> bool" where
  "filed d \<longleftrightarrow> distinct (map fst d) \<and> (\<forall>(k, es) \<in> set d. es \<noteq> [] \<and> (\<forall>e \<in> set es. entry_week e = k))"

lemma fst_file_under: "fst ` set (file_under k e d) = insert k (fst ` set d)"
  by (induction k e d rule: file_under.induct) auto

lemma filed_file_under: "filed d \<Longrightarrow> filed (file_under (entry_week e) e d)"
  unfolding filed_def by (induction "entry_week e" e d rule: file_under.induct) (auto simp: fst_file_under)

definition payload :: "('k \<times> parsed_entry list) list \<Rightarrow> parsed_entry set" where
  "payload d = \<Union> (set ` snd ` set d)"

lemma payload_file_under [simp]: "payload (file_under k e d) = insert e (payload d)"
  by (induction k e d rule: file_under.induct) (auto simp: payload_def)

lemma file_all:
  "filed d \<Longrightarrow> filed (foldl (\<lambda>d e. file_under (entry_week e) e d) d es) \<and>
   payload (foldl (\<lambda>d e. file_under (entry_week e) e d) d es) = payload d \<union> set es"
  by (induction es arbitrary: d) (simp_all add: filed_file_under)

lemma derive_weeks_filed: "filed (derive_weeks out) \<and> payload (derive_weeks out) = payload (fo_weeks out)"
proof -
  let ?f = "\<lambda>d (w :: week_pair, es). foldl (\<lambda>d e. file_under (entry_week e) e d) d es"
  have "filed (foldl ?f d ws) \<and> payload (foldl ?f d ws) = payload d \<union> payload ws" if "filed d" for d ws
    using that
  proof (induction ws arbitrary: d)
    case (Cons w ws)
    then show ?case using file_all [of d "snd w"] by (cases w) (auto simp: payload_def)
  qed (simp add: payload_def)
  from this [of "[]"] show ?thesis by (simp add: derive_weeks_def filed_def payload_def)
qed

lemma store_weeks_inv:
  "store_weeks decompose lib stamp ws t = Inr (t', n, rs) \<Longrightarrow> filed ws \<Longrightarrow> pull_inv t \<Longrightarrow> pull_inv t'"
proof (induction decompose lib stamp ws t arbitrary: t' n rs rule: store_weeks.induct)
  case (2 decompose lib stamp k es ws t)
  obtain ta rows tb r m r' where a: "replace_week decompose k es stamp t = Inr (ta, rows)"
    and b: "match_week decompose lib rows ta = Inr (tb, r)" and c: "store_weeks decompose lib stamp ws tb = Inr (t', m, r')"
    using 2(2) by (auto split: sum.splits)
  have "pull_inv ta" using pull_inv_replace [OF a "2.prems"(3)] "2.prems"(2) by (auto simp: filed_def)
  then have "pull_inv tb" using match_week_fetched [OF b] pull_inv_fetched by blast
  moreover have "filed ws" using "2.prems"(2) by (auto simp: filed_def)
  ultimately show ?case using "2.IH" [OF a refl b refl] c by blast
qed simp

definition in_week :: "string \<Rightarrow> pull_row list \<Rightarrow> pull_row list" where
  "in_week week t = filter (\<lambda>r. pr_week r = week) t"

lemma row_put_in_week:
  "row_get pr_id (pr_id r) t = Some r \<Longrightarrow> pr_week r \<noteq> week \<Longrightarrow>
   in_week week (row_put pr_id (r\<lparr>pr_matched_issue_id := a, pr_match_type := b\<rparr>) t) = in_week week t"
  by (induction t) (auto simp: in_week_def split: if_splits)

lemma update_match_in_week:
  assumes "update_match i a b t = Inr t'" and "i \<notin> pr_id ` set (in_week week t)"
  shows "in_week week t' = in_week week t"
proof -
  obtain r where g: "row_get pr_id i t = Some r"
    and t: "t' = row_put pr_id (r\<lparr>pr_matched_issue_id := a, pr_match_type := b\<rparr>) t"
    using assms(1) by (auto simp: update_match_def get_entry_def split: option.splits)
  have "r \<in> set t" "pr_id r = i" using row_get_SomeD [OF g] by simp_all
  moreover from this have "pr_week r \<noteq> week" using assms(2) by (auto simp: in_week_def)
  ultimately show ?thesis using g t row_put_in_week by simp
qed

lemma update_matches_in_week:
  "update_matches rs t = Inr t' \<Longrightarrow> \<forall>r \<in> set rs. mr_entry_id r \<notin> pr_id ` set (in_week week t) \<Longrightarrow>
   in_week week t' = in_week week t"
proof (induction rs t rule: update_matches.induct)
  case (2 r rs t)
  obtain ta where u: "update_match (mr_entry_id r) (mr_matched_issue_id r) (mr_match_type r) t = Inr ta"
    and r: "update_matches rs ta = Inr t'"
    using "2.prems"(1) by (auto split: sum.splits)
  have "in_week week ta = in_week week t" using update_match_in_week [OF u] "2.prems"(2) by simp
  then show ?case using "2.IH" [OF u r] "2.prems"(2) by simp
qed simp

lemma try_id_match_id: "try_id_match decompose e ix = Some r \<Longrightarrow> mr_entry_id r = pr_id e"
  by (auto simp: try_id_match_def split: option.split_asm if_split_asm)

lemma try_name_match_id:
  assumes "try_name_match decompose e ix = Inr (Some r)"
  shows "mr_entry_id r = pr_id e"
proof -
  obtain s where s: "series_matches_entry decompose e ix = [s]"
    using assms by (auto simp: try_name_match_def split: list.split_asm)
  obtain v where v: "entry_value e = Some v" using assms by (cases "entry_value e") (simp_all add: try_name_match_def s)
  obtain x where "week_date_range (pr_week e) = Inr x"
    using assms by (cases "week_date_range (pr_week e)") (simp_all add: try_name_match_def s v Let_def split: if_split_asm)
  then show ?thesis using assms by (cases x) (simp add: try_name_match_def s v Let_def split: if_split_asm, auto)
qed

lemma match_entry_id: "match_entry decompose ix e = Inr r \<Longrightarrow> mr_entry_id r = pr_id e"
  using try_id_match_id [of decompose e ix] try_name_match_id [of decompose e ix]
  by (auto simp: match_entry_def split: option.split_asm sum.split_asm)

lemma match_all_ids: "match_all decompose ix es = Inr rs \<Longrightarrow> map mr_entry_id rs = map pr_id es"
  by (induction es arbitrary: rs) (auto split: sum.splits dest: match_entry_id)

lemma match_week_in_week:
  assumes "match_week decompose lib rows t = Inr (t', rs)" and "pr_id ` set rows \<inter> pr_id ` set (in_week week t) = {}"
  shows "in_week week t' = in_week week t"
proof -
  have m: "match_all decompose (build_library_index decompose lib) rows = Inr rs" and u: "update_matches rs t = Inr t'"
    using assms(1) by (auto simp: match_week_def split: sum.splits)
  have "mr_entry_id ` set rs = pr_id ` set rows" using match_all_ids [OF m] by (metis list.set_map)
  then have "mr_entry_id r \<notin> pr_id ` set (in_week week t)" if "r \<in> set rs" for r
    using imageI [OF that, of mr_entry_id] assms(2) by (metis disjoint_iff)
  then show ?thesis by (intro update_matches_in_week [OF u] ballI)
qed

lemma replace_week_ids:
  assumes "replace_week decompose k es stamp t = Inr (t', rs)" and "distinct (map pr_id t)" and "week \<noteq> k"
  shows "in_week week t' = in_week week t \<and> pr_id ` set rs \<inter> pr_id ` set (in_week week t') = {}"
proof -
  note r = replace_week_Inr [OF assms(1)]
  have e: "filter (\<lambda>r. pr_week r = week) rs = []" using r assms(3) by (auto simp: list_all_iff filter_empty_conv)
  then have w: "in_week week t' = in_week week t"
    using r assms(3) by (auto simp: in_week_def intro!: filter_cong)
  have "set (in_week week t') \<subseteq> set (filter (\<lambda>r. pr_week r \<noteq> k) t)"
    unfolding w using assms(3) by (auto simp: in_week_def)
  moreover have "pr_id ` set (filter (\<lambda>r. pr_week r \<noteq> k) t) \<inter> pr_id ` set rs = {}"
    using r assms(2) by (metis distinct_append list.set_map map_append)
  ultimately show ?thesis using w by blast
qed

lemma store_weeks_other:
  "store_weeks decompose lib stamp ws t = Inr (t', n, rs) \<Longrightarrow> week \<notin> fst ` set ws \<Longrightarrow> distinct (map pr_id t) \<Longrightarrow>
   in_week week t' = in_week week t"
proof (induction decompose lib stamp ws t arbitrary: t' n rs rule: store_weeks.induct)
  case (2 decompose lib stamp k es ws t)
  obtain ta rows tb r m r' where a: "replace_week decompose k es stamp t = Inr (ta, rows)"
    and b: "match_week decompose lib rows ta = Inr (tb, r)" and c: "store_weeks decompose lib stamp ws tb = Inr (t', m, r')"
    using 2(2) by (auto split: sum.splits)
  have k: "week \<noteq> k" using "2.prems"(2) by auto
  note ids = replace_week_ids [OF a "2.prems"(3) k]
  have "distinct (map pr_id ta)" using replace_week_Inr [OF a] "2.prems"(3) by blast
  then have "distinct (map pr_id tb)" using map_fetched_cong [OF match_week_fetched [OF b], of pr_id] by simp
  then have "in_week week t' = in_week week tb" using "2.IH" [OF a refl b refl c] "2.prems"(2) by simp
  also have "\<dots> = in_week week ta" using match_week_in_week [OF b] ids by blast
  finally show ?case using ids by simp
qed simp

section \<open>The refresh as a whole\<close>

lemma fetch_run_weeks:
  "fetch_run net future ws acc = (out, None) \<Longrightarrow>
   set (fo_weeks out) \<subseteq> set (fo_weeks acc) \<union> {(p, es). p \<in> set ws \<and> net p = Week_entries es} \<and>
   fo_outage_reason out = fo_outage_reason acc \<and>
   (\<forall>p \<in> set ws. \<forall>reason ff. net p = Outage reason ff \<longrightarrow> future = Some p)"
  by (induction net future ws acc rule: fetch_run.induct) (auto split: week_reply.splits if_splits)

lemma fetch_run_outage: "fetch_run net future ws acc = (out, Some x) \<Longrightarrow> fo_outage_reason out \<noteq> None"
  by (induction net future ws acc rule: fetch_run.induct) (auto split: week_reply.splits if_splits)

text \<open>A refresh either keeps the entries or stores what the network delivered without an outage.\<close>

lemma pull_refresh_cases:
  assumes "pull_refresh decompose net cfg lib now today w = (w', res)"
  shows "pw_entries w' = pw_entries w \<or>
    (\<exists>out n rs. fetch_run net (Some (future_week today)) (requested_weeks cfg today (pw_entries w)) no_outcome = (out, None) \<and>
       store_weeks decompose lib now (sort_key fst (derive_weeks out)) (pw_entries w) = Inr (pw_entries w', n, rs))"
proof (cases "pw_entries w' = pw_entries w")
  case False
  obtain tbl out where f: "fetch_weeks net now (Some (future_week today)) (requested_weeks cfg today (pw_entries w)) (pw_backoff w)
      = Inr (tbl, out)" and o: "fo_outage_reason out = None"
    and s: "\<exists>n rs. store_weeks decompose lib now (sort_key fst (derive_weeks out)) (pw_entries w) = Inr (pw_entries w', n, rs)"
    using assms False by (auto simp: pull_refresh_def Let_def split: if_splits sum.splits option.splits)
  obtain x where r: "fetch_run net (Some (future_week today)) (requested_weeks cfg today (pw_entries w)) no_outcome = (out, x)"
    using f by (auto simp: fetch_weeks_def result_bind_eq_Inr split: prod.splits option.splits)
  then have "x = None" using fetch_run_outage o by (cases x) blast+
  with r s show ?thesis by blast
qed simp

lemma filed_sort: "filed d \<Longrightarrow> filed (sort_key fst d)"
  by (simp add: filed_def distinct_map inj_on_def)

text \<open>C37: After every refresh, whatever the source answers, the stored rows have distinct ids, no week
  holds two rows of one entry key, and every row is filed under the ISO week of its release date.\<close>

theorem pull_store_invariant:
  assumes "pull_inv (pw_entries w)"
  shows "pull_inv (pw_entries (fst (pull_refresh decompose net cfg lib now today w)))"
proof -
  obtain w' res where w: "pull_refresh decompose net cfg lib now today w = (w', res)" by fastforce
  from pull_refresh_cases [OF this] show ?thesis
  proof (elim disjE exE conjE)
    fix out n rs
    assume "store_weeks decompose lib now (sort_key fst (derive_weeks out)) (pw_entries w) = Inr (pw_entries w', n, rs)"
    then have "pull_inv (pw_entries w')"
      using store_weeks_inv assms filed_sort derive_weeks_filed by blast
    then show ?thesis using w by simp
  qed (use assms w in simp)
qed

text \<open>C38: A refresh changes the stored rows of a week only when a requested payload arrived that holds an
  entry dated in that week, and no request but the one for the future week ended in an outage; every
  other week keeps its rows, their matches included.\<close>

theorem refresh_keeps_undelivered_weeks:
  assumes "pull_inv (pw_entries w)"
    and "in_week week (pw_entries (fst (pull_refresh decompose net cfg lib now today w))) \<noteq> in_week week (pw_entries w)"
  shows "(\<exists>p \<in> set (requested_weeks cfg today (pw_entries w)). \<exists>es. net p = Week_entries es \<and> (\<exists>e \<in> set es. entry_week e = week)) \<and>
    (\<forall>p \<in> set (requested_weeks cfg today (pw_entries w)). \<forall>reason ff. net p = Outage reason ff \<longrightarrow> p = future_week today)"
proof -
  obtain w' res where w: "pull_refresh decompose net cfg lib now today w = (w', res)" by fastforce
  have ne: "in_week week (pw_entries w') \<noteq> in_week week (pw_entries w)" using assms(2) w by simp
  then obtain out n rs where f: "fetch_run net (Some (future_week today)) (requested_weeks cfg today (pw_entries w)) no_outcome = (out, None)"
    and s: "store_weeks decompose lib now (sort_key fst (derive_weeks out)) (pw_entries w) = Inr (pw_entries w', n, rs)"
    using pull_refresh_cases [OF w] by auto
  have d: "distinct (map pr_id (pw_entries w))" using assms(1) by (simp add: pull_inv_def)
  have "week \<in> fst ` set (derive_weeks out)" using store_weeks_other [OF s _ d] ne by force
  then obtain es e where "(week, es) \<in> set (derive_weeks out)" "e \<in> set es" "entry_week e = week"
    using derive_weeks_filed [of out] by (fastforce simp: filed_def neq_Nil_conv)
  then have "e \<in> payload (fo_weeks out)" using derive_weeks_filed [of out] by (force simp: payload_def)
  then obtain p ds where "(p, ds) \<in> set (fo_weeks out)" "e \<in> set ds" by (auto simp: payload_def)
  moreover note fetch_run_weeks [OF f]
  ultimately show ?thesis using \<open>entry_week e = week\<close> by (auto simp: no_outcome_def)
qed


definition demo_cfg :: pull_settings where
  "demo_cfg = \<lparr>pl_enabled = True, pl_source_url = ''https://x'', pl_backfill_weeks = 0\<rparr>"

definition demo_entry :: parsed_entry where
  "demo_entry =
     \<lparr>pe_series_name = ''Saga'', pe_issue_number = ''5'', pe_release_date = 739616, pe_publisher = None,
      pe_cv_series_id = None, pe_cv_issue_id = Some 3, pe_cover_url = None, pe_description = None,
      pe_upc = None, pe_creators = None, pe_characters = None\<rparr>"

definition demo_net :: "week_pair \<Rightarrow> week_reply" where
  "demo_net p = (if p = (1, 2026) then Week_entries [demo_entry] else Bad_date)"

definition empty_world :: pull_world where
  "empty_world = \<lparr>pw_entries = [], pw_backoff = []\<rparr>"

lemma pull_store_invariant_witness:
  "pull_inv (pw_entries (fst (pull_refresh id demo_net demo_cfg demo_library 0 739616 empty_world)))"
  by (rule pull_store_invariant) (simp add: pull_inv_def empty_world_def)

lemma demo_requested: "requested_weeks demo_cfg 739616 [] = [(1, 2026), (52, 2025), (2, 2026)]"
proof -
  have "fetch_window d = add_pair (iso_pair (d + 7)) (add_pair (iso_pair (d - 7)) [iso_pair d])" for d
    by (simp add: fetch_window_def add_pair_def)
  moreover have "add_pair (iso_pair (739616 + 7)) (add_pair (iso_pair (739616 - 7)) [iso_pair 739616]) =
      [(1, 2026), (52, 2025), (2, 2026)]"
    by code_simp
  ultimately show ?thesis by (simp add: requested_weeks_def demo_cfg_def)
qed

lemma demo_fetched:
  "case fetch_weeks demo_net 0 (Some (future_week 739616)) [(1, 2026), (52, 2025), (2, 2026)] [] of
     Inl _ \<Rightarrow> False
   | Inr (tbl, out) \<Rightarrow> fo_outage_reason out = None \<and> derive_weeks out = [(''2026-W01'', [demo_entry])]"
  by code_simp

lemma demo_week_stored:
  "case store_weeks id \<lparr>lb_series = [], lb_issues = []\<rparr> 0 [(''2026-W01'', [demo_entry])] [] of
     Inl _ \<Rightarrow> False
   | Inr (t, _) \<Rightarrow> map pr_week (in_week ''2026-W01'' t) = [''2026-W01'']"
  by code_simp

lemma demo_refreshed:
  "map pr_week (in_week ''2026-W01'' (pw_entries (fst (pull_refresh id demo_net demo_cfg
     \<lparr>lb_series = [], lb_issues = []\<rparr> 0 739616 empty_world)))) = [''2026-W01'']"
proof -
  have "pl_enabled demo_cfg" "strip (pl_source_url demo_cfg) \<noteq> []" "pw_entries empty_world = []" "pw_backoff empty_world = []"
    by (simp_all add: demo_cfg_def empty_world_def strip_def is_space_def code_def)
  moreover have "\<not> active (provider_status 0 PROVIDER_PULL PULL_PROVIDER_ID [])" by code_simp
  ultimately show ?thesis
    using demo_requested demo_fetched demo_week_stored
    by (auto simp: pull_refresh_def Let_def split: sum.splits prod.splits)
qed

lemma refresh_keeps_undelivered_weeks_witness:
  "\<exists>es. demo_net (1, 2026) = Week_entries es \<and> (\<exists>e \<in> set es. entry_week e = ''2026-W01'')"
proof -
  have i: "pull_inv (pw_entries empty_world)" by (simp add: pull_inv_def empty_world_def)
  have "in_week ''2026-W01'' (pw_entries empty_world) = []" by (simp add: empty_world_def in_week_def)
  then have "in_week ''2026-W01'' (pw_entries (fst (pull_refresh id demo_net demo_cfg
     \<lparr>lb_series = [], lb_issues = []\<rparr> 0 739616 empty_world))) \<noteq> in_week ''2026-W01'' (pw_entries empty_world)"
    using demo_refreshed by force
  from refresh_keeps_undelivered_weeks [OF i this] obtain p es where
    "demo_net p = Week_entries es" "\<exists>e \<in> set es. entry_week e = ''2026-W01''"
    by blast
  moreover from this have "p = (1, 2026)" by (auto simp: demo_net_def split: if_splits)
  ultimately show ?thesis by blast
qed

section \<open>Storing a payload again, and one that cannot be stored\<close>

lemma insert_rows_again:
  "insert_rows week s kes t = Inr (t', rs) \<Longrightarrow>
   \<exists>rs2. insert_rows week s2 kes t2 = Inr (t2 @ rs2, rs2) \<and> map stored rs2 = map stored rs"
proof (induction kes arbitrary: t t' rs t2)
  case (Cons ke kes)
  obtain k e where ke: "ke = (k, e)" by fastforce
  obtain r rest where r: "bind_row week s (next_pull_id t) k e = Some r"
    and i: "insert_rows week s kes (t @ [r]) = Inr (t', rest)" and rs: "rs = r # rest"
    using Cons.prems ke by (auto split: option.splits sum.splits)
  obtain x where x: "bind_row week s2 (next_pull_id t2) k e = Some x" "stored x = stored r"
    using r by (auto simp: bind_row_def stored_def split: option.splits)
  obtain rest2 where "insert_rows week s2 kes (t2 @ [x]) = Inr ((t2 @ [x]) @ rest2, rest2)" "map stored rest2 = map stored rest"
    using Cons.IH [OF i] by blast
  with x ke rs show ?case by simp
qed simp

text \<open>Replacing a week by the same payload again leaves the same table, but for the ids and the
  fetch times of its rows.\<close>

theorem replace_week_idempotent:
  assumes "replace_week decompose week es stamp t = Inr (t1, rs)"
  shows "\<exists>t2 rs2. replace_week decompose week es stamp2 t1 = Inr (t2, rs2) \<and>
    map stored rs2 = map stored rs \<and> map stored t2 = map stored t1"
proof -
  note r = replace_week_Inr [OF assms]
  have "filter (\<lambda>r. pr_week r \<noteq> week) rs = []" using r by (auto simp: list_all_iff filter_empty_conv)
  then have f: "filter (\<lambda>r. pr_week r \<noteq> week) t1 = filter (\<lambda>r. pr_week r \<noteq> week) t" using r by simp
  obtain rs2 where "replace_week decompose week es stamp2 t1 = Inr (filter (\<lambda>r. pr_week r \<noteq> week) t1 @ rs2, rs2)"
    and "map stored rs2 = map stored rs"
    using insert_rows_again [OF assms [unfolded replace_week_def]] unfolding replace_week_def by blast
  then show ?thesis using r f by simp
qed

definition demo_stored :: "pull_row list" where
  "demo_stored = (case replace_week id ''2026-W01'' [demo_entry] 5 [demo_pull_row] of Inl _ \<Rightarrow> [] | Inr (t, _) \<Rightarrow> t)"

lemma replace_week_idempotent_witness:
  "\<exists>t rs. replace_week id ''2026-W01'' [demo_entry] 9 demo_stored = Inr (t, rs) \<and> map stored t = map stored demo_stored"
proof -
  obtain t rs where "replace_week id ''2026-W01'' [demo_entry] 5 [demo_pull_row] = Inr (t, rs)"
    by (simp add: replace_week_def collapse_entries_def Let_def bind_row_def sentinel_free_def demo_entry_def
        SENTINEL_STRINGS_def strip_def is_space_def code_def)
  from replace_week_idempotent [OF this, of 9] this show ?thesis by (auto simp: demo_stored_def)
qed

text \<open>An entry that survives the collapse of its payload and whose series name is one of the
  sentinel texts makes the storage of its whole week fail, whatever else the payload holds.\<close>

theorem sentinel_name_fails_week:
  assumes "(k, e) \<in> set (collapse_entries decompose es)" and "strip (pe_series_name e) \<in> set SENTINEL_STRINGS"
  shows "replace_week decompose week es stamp t = Inl Integrity_error"
proof -
  have "insert_rows week stamp kes t = Inl Integrity_error" if "(k, e) \<in> set kes" for kes t
    using that
  proof (induction kes arbitrary: t)
    case (Cons ke kes)
    show ?case
    proof (cases "ke = (k, e)")
      case True
      then show ?thesis using assms(2) by (simp add: bind_row_def sentinel_free_def)
    next
      case False
      then show ?thesis using Cons by (cases ke) (auto split: option.splits)
    qed
  qed simp
  with assms(1) show ?thesis by (simp add: replace_week_def)
qed

lemma sentinel_name_fails_week_witness:
  "replace_week id ''2026-W01'' [demo_entry\<lparr>pe_series_name := ''None''\<rparr>] 0 [] = Inl Integrity_error"
proof (rule sentinel_name_fails_week)
  show "(''cv:3'', demo_entry\<lparr>pe_series_name := ''None''\<rparr>) \<in> set (collapse_entries id [demo_entry\<lparr>pe_series_name := ''None''\<rparr>])"
    by code_simp
qed code_simp

text \<open>An entry of a watched series dated in the last days of the calendar fails the matching.\<close>

lemma last_week_fails_matching:
  "match_entry id (build_library_index id demo_library)
     (demo_pull_row\<lparr>pe_release_date := 3652058, pr_week := ''9999-W52''\<rparr>) = Inl Week_overflow"
  by code_simp

end
