(* ===== verification/Pull_View.thy ===== *)
theory Pull_View
  imports Pull_Refresh Downloads
begin

text \<open>
  The weekly view (\<open>pull/projection.py\<close>): the issues of watched series dated in a week, merged with
  the stored entries of that week. Every state is computed from the library and the tracked
  downloads; nothing is stored. A query without an order reads its table in key order.
\<close>

section \<open>State\<close>

record root_folder =
  rf_id :: int
  rf_read_only :: bool

record view_db =
  vd_entries :: "pull_row list"
  vd_library :: series_library
  vd_roots :: "root_folder list"
  vd_issue_files :: "int list"
  vd_tracked :: "tracked_row list"

datatype issue_state = State_missing_wanted | State_downloading | State_downloaded | State_unmonitored | State_pending_refresh

record projected_entry =
  pj_pull_entry_id :: "int option"
  pj_week :: string
  pj_publisher :: "string option"
  pj_series_name :: string
  pj_issue_number :: "string option"
  pj_release_date :: "date option"
  pj_cv_series_id :: "int option"
  pj_cv_issue_id :: "int option"
  pj_match_type :: "match_type option"
  pj_matched_issue_id :: "int option"
  pj_series_id :: "int option"
  pj_state :: "issue_state option"
  pj_cover_url :: "string option"
  pj_description :: "string option"
  pj_upc :: "string option"
  pj_creators :: "string option"
  pj_characters :: "string option"

definition ACTIVE_DOWNLOAD_STATES :: "tracked_state set" where
  "ACTIVE_DOWNLOAD_STATES = {Downloading, Import_pending, Import_blocked, Importing}"

definition derive_issue_state :: "bool \<Rightarrow> bool \<Rightarrow> bool \<Rightarrow> tracked_state option \<Rightarrow> issue_state" where
  "derive_issue_state watched_series watched_issue has_file state =
     (if \<not> (watched_series \<and> watched_issue) then State_unmonitored
      else if has_file then State_downloaded
      else if (case state of None \<Rightarrow> False | Some s \<Rightarrow> s \<in> ACTIVE_DOWNLOAD_STATES) then State_downloading
      else State_missing_wanted)"

definition tracked_state_by_issue :: "tracked_row list \<Rightarrow> int set \<Rightarrow> int \<rightharpoonup> tracked_state" where
  "tracked_state_by_issue rows ids =
     foldl (\<lambda>m r. case tr_issue_id r of
         None \<Rightarrow> m
       | Some i \<Rightarrow>
           if i \<in> ids \<and> (m i = None \<or> tr_state r \<in> ACTIVE_DOWNLOAD_STATES) then m(i \<mapsto> tr_state r) else m)
       Map.empty rows"

definition issue_ids_with_file :: "int list \<Rightarrow> int set \<Rightarrow> int set" where
  "issue_ids_with_file files ids = set files \<inter> ids"

section \<open>The library half\<close>

text \<open>An issue on a read-only root, or without a series or a root, has no entry.\<close>

definition library_entry :: "view_db \<Rightarrow> string \<Rightarrow> int set \<Rightarrow> issue_row \<Rightarrow> projected_entry option" where
  "library_entry db week ids i =
     (case row_get sr_id (ir_series_id i) (lb_series (vd_library db)) of
        None \<Rightarrow> None
      | Some s \<Rightarrow>
          (case row_get rf_id (sr_root_folder_id s) (vd_roots db) of
             None \<Rightarrow> None
           | Some folder \<Rightarrow>
               if rf_read_only folder \<or> ir_id i \<notin> ids then None
               else Some
                 \<lparr>pj_pull_entry_id = None, pj_week = week, pj_publisher = sr_publisher s,
                  pj_series_name = sr_title s, pj_issue_number = ir_issue_number i,
                  pj_release_date = ir_store_date i, pj_cv_series_id = Some (sr_cv_volume_id s),
                  pj_cv_issue_id = Some (ir_cv_issue_id i), pj_match_type = None,
                  pj_matched_issue_id = Some (ir_id i), pj_series_id = Some (sr_id s),
                  pj_state = Some (derive_issue_state (sr_monitored s) (ir_monitored i)
                    (ir_id i \<in> issue_ids_with_file (vd_issue_files db) ids)
                    (tracked_state_by_issue (vd_tracked db) ids (ir_id i))),
                  pj_cover_url = None, pj_description = None, pj_upc = None, pj_creators = None,
                  pj_characters = None\<rparr>))"

definition entries_for_issue_ids :: "view_db \<Rightarrow> string \<Rightarrow> int set \<Rightarrow> (int, projected_entry) odict" where
  "entries_for_issue_ids db week ids =
     foldl (\<lambda>d i. case library_entry db week ids i of None \<Rightarrow> d | Some p \<Rightarrow> od_set (ir_id i) p d)
       [] (lb_issues (vd_library db))"

definition in_range_ids :: "view_db \<Rightarrow> date \<Rightarrow> date \<Rightarrow> int set" where
  "in_range_ids db start finish =
     set (map ir_id (filter (\<lambda>i.
       (case row_get sr_id (ir_series_id i) (lb_series (vd_library db)) of None \<Rightarrow> False | Some s \<Rightarrow> sr_monitored s) \<and>
       (case ir_store_date i of None \<Rightarrow> False | Some d \<Rightarrow> start \<le> d \<and> d \<le> finish)) (lb_issues (vd_library db))))"

definition library_primary_entries :: "view_db \<Rightarrow> string \<Rightarrow> date \<Rightarrow> date \<Rightarrow> (int, projected_entry) odict" where
  "library_primary_entries db week start finish = entries_for_issue_ids db week (in_range_ids db start finish)"

section \<open>The merge\<close>

definition pending_refresh :: "pull_row \<Rightarrow> bool" where
  "pending_refresh r \<longleftrightarrow> pr_match_type r \<in> {Match_id, Match_name_seq} \<and> pr_matched_issue_id r = None"

definition stored_entry :: "string \<Rightarrow> pull_row \<Rightarrow> int option \<Rightarrow> int option \<Rightarrow> issue_state option \<Rightarrow> projected_entry" where
  "stored_entry week r issue series state =
     \<lparr>pj_pull_entry_id = Some (pr_id r), pj_week = week, pj_publisher = pe_publisher r,
      pj_series_name = pe_series_name r, pj_issue_number = Some (pe_issue_number r),
      pj_release_date = Some (pe_release_date r), pj_cv_series_id = pe_cv_series_id r,
      pj_cv_issue_id = pe_cv_issue_id r, pj_match_type = Some (pr_match_type r),
      pj_matched_issue_id = issue, pj_series_id = series, pj_state = state,
      pj_cover_url = pe_cover_url r, pj_description = pe_description r, pj_upc = pe_upc r,
      pj_creators = pe_creators r, pj_characters = pe_characters r\<rparr>"

fun merge_stored ::
  "string \<Rightarrow> pull_row list \<Rightarrow> (int, projected_entry) odict \<Rightarrow> projected_entry list \<Rightarrow>
   (int, projected_entry) odict \<times> projected_entry list" where
  "merge_stored week [] d extra = (d, extra)"
| "merge_stored week (r # rs) d extra =
     (case pr_matched_issue_id r of
        None \<Rightarrow> merge_stored week rs d
          (extra @ [stored_entry week r None None (if pending_refresh r then Some State_pending_refresh else None)])
      | Some i \<Rightarrow>
          (case map_of d i of
             None \<Rightarrow> merge_stored week rs d extra
           | Some base \<Rightarrow>
               merge_stored week rs (od_set i (stored_entry week r (Some i) (pj_series_id base) (pj_state base)) d) extra))"

definition weekly_pull :: "view_db \<Rightarrow> string \<Rightarrow> week_error + projected_entry list" where
  "weekly_pull db week =
     (case week_date_range week of
        Inl err \<Rightarrow> Inl err
      | Inr (start, finish) \<Rightarrow>
          (let by_issue = library_primary_entries db week start finish;
               rows = list_week week (vd_entries db);
               linked = set (List.map_filter pr_matched_issue_id rows);
               missing = linked - fst ` set by_issue;
               by_issue = (if rows = [] \<or> missing = {} then by_issue
                           else foldl (\<lambda>d (i, p). od_set i p d) by_issue (entries_for_issue_ids db week missing));
               (d, extra) = merge_stored week rows by_issue []
           in Inr (map snd d @ extra)))"

section \<open>What the view shows\<close>

text \<open>The issue of a library row that may be shown, and the state the library gives it.\<close>

definition shown :: "view_db \<Rightarrow> int \<Rightarrow> int option \<Rightarrow> issue_state option \<Rightarrow> bool" where
  "shown db n series state \<longleftrightarrow>
     (\<exists>i \<in> set (lb_issues (vd_library db)). \<exists>s \<in> set (lb_series (vd_library db)). \<exists>folder \<in> set (vd_roots db).
        ir_id i = n \<and> sr_id s = ir_series_id i \<and> rf_id folder = sr_root_folder_id s \<and> \<not> rf_read_only folder \<and>
        series = Some (sr_id s) \<and>
        state = Some (derive_issue_state (sr_monitored s) (ir_monitored i) (n \<in> set (vd_issue_files db))
          (tracked_state_by_issue (vd_tracked db) UNIV n)))"

definition view_ok :: "view_db \<Rightarrow> (int, projected_entry) odict \<Rightarrow> bool" where
  "view_ok db d \<longleftrightarrow> distinct (map fst d) \<and>
     (\<forall>(i, p) \<in> set d. pj_matched_issue_id p = Some i \<and> shown db i (pj_series_id p) (pj_state p))"

lemma tracked_state_restrict: "i \<in> ids \<Longrightarrow> tracked_state_by_issue rows ids i = tracked_state_by_issue rows UNIV i"
  unfolding tracked_state_by_issue_def by (induction rows rule: rev_induct) (auto split: option.split)

lemma library_entry_shown:
  assumes "library_entry db week ids i = Some p" and "i \<in> set (lb_issues (vd_library db))"
  shows "pj_matched_issue_id p = Some (ir_id i) \<and> shown db (ir_id i) (pj_series_id p) (pj_state p)"
proof -
  obtain s folder where s: "row_get sr_id (ir_series_id i) (lb_series (vd_library db)) = Some s"
    and r: "row_get rf_id (sr_root_folder_id s) (vd_roots db) = Some folder" and ok: "\<not> rf_read_only folder" "ir_id i \<in> ids"
    and p: "pj_matched_issue_id p = Some (ir_id i)" "pj_series_id p = Some (sr_id s)"
      "pj_state p = Some (derive_issue_state (sr_monitored s) (ir_monitored i)
                    (ir_id i \<in> issue_ids_with_file (vd_issue_files db) ids)
                    (tracked_state_by_issue (vd_tracked db) ids (ir_id i)))"
    using assms(1) by (auto simp: library_entry_def split: option.split_asm if_split_asm)
  show ?thesis
    using row_get_SomeD [OF s] row_get_SomeD [OF r] ok p assms(2)
    unfolding shown_def by (auto simp: issue_ids_with_file_def tracked_state_restrict [OF ok(2)] intro!: bexI)
qed

lemma view_ok_set: "view_ok db d \<Longrightarrow> pj_matched_issue_id p = Some i \<Longrightarrow> shown db i (pj_series_id p) (pj_state p) \<Longrightarrow>
  view_ok db (od_set i p d)"
  unfolding view_ok_def by (induction i p d rule: od_set.induct) (auto simp: keys_od_set)

lemma view_ok_entries: "view_ok db (entries_for_issue_ids db week ids)"
proof -
  have "view_ok db (foldl (\<lambda>d i. case library_entry db week ids i of None \<Rightarrow> d | Some p \<Rightarrow> od_set (ir_id i) p d) d is)"
    if "view_ok db d" "set is \<subseteq> set (lb_issues (vd_library db))" for d "is"
    using that
  proof (induction "is" arbitrary: d)
    case (Cons i "is")
    then show ?case using library_entry_shown [of db week ids i] by (auto split: option.split intro!: Cons.IH view_ok_set)
  qed simp
  moreover have "view_ok db []" by (simp add: view_ok_def)
  ultimately show ?thesis by (simp add: entries_for_issue_ids_def)
qed

lemma view_ok_update: "view_ok db d \<Longrightarrow> view_ok db e \<Longrightarrow> view_ok db (foldl (\<lambda>d (i, p). od_set i p d) d e)"
proof (induction e arbitrary: d)
  case (Cons x e)
  obtain i p where x: "x = (i, p)" by fastforce
  have "view_ok db e" "pj_matched_issue_id p = Some i" "shown db i (pj_series_id p) (pj_state p)"
    using Cons.prems(2) x by (auto simp: view_ok_def)
  then show ?case using Cons.IH Cons.prems(1) view_ok_set x by simp
qed simp

definition loose :: "string \<Rightarrow> pull_row list \<Rightarrow> projected_entry \<Rightarrow> bool" where
  "loose week rows p \<longleftrightarrow> pj_matched_issue_id p = None \<and>
     (\<exists>r \<in> set rows. pr_matched_issue_id r = None \<and> pj_pull_entry_id p = Some (pr_id r) \<and>
        pj_state p = (if pending_refresh r then Some State_pending_refresh else None))"

lemma keys_od_set_same: "(i, b) \<in> set d \<Longrightarrow> map fst (od_set i p d) = map fst d"
  by (induction d) auto

lemma merge_stored_ok:
  "merge_stored week rs d extra = (d', extra') \<Longrightarrow> view_ok db d \<Longrightarrow> set rs \<subseteq> set rows \<Longrightarrow>
   list_all (loose week rows) extra \<Longrightarrow>
   view_ok db d' \<and> list_all (loose week rows) extra' \<and> map fst d' = map fst d"
proof (induction week rs d extra rule: merge_stored.induct)
  case (2 week r rs d extra)
  show ?case
  proof (cases "pr_matched_issue_id r")
    case None
    then have "loose week rows (stored_entry week r None None (if pending_refresh r then Some State_pending_refresh else None))"
      using "2.prems"(3) by (auto simp: loose_def stored_entry_def)
    with "2.IH"(1) [OF None] "2.prems" None show ?thesis by simp
  next
    case issue: (Some i)
    show ?thesis
    proof (cases "map_of d i")
      case None
      with "2.IH"(2) [OF issue None] "2.prems" issue show ?thesis by simp
    next
      case (Some base)
      have b: "(i, base) \<in> set d" using Some by (rule map_of_SomeD)
      let ?p = "stored_entry week r (Some i) (pj_series_id base) (pj_state base)"
      have "view_ok db (od_set i ?p d)"
        using "2.prems"(2) b by (intro view_ok_set) (auto simp: view_ok_def stored_entry_def)
      moreover have "map fst (od_set i ?p d) = map fst d" using b by (rule keys_od_set_same)
      ultimately show ?thesis using "2.IH"(3) [OF issue Some] "2.prems" issue Some by simp
    qed
  qed
qed simp

text \<open>C40: The weekly view shows an issue at most once, and only an issue of the library whose series is
  on a root that may be written; the state it shows is the one of that series, that issue, its files
  and its tracked downloads, whatever the pull entry merged into the row says. A row without an issue
  comes from an unlinked entry of the week and claims no state but a pending refresh.\<close>

theorem weekly_view_sound:
  assumes "weekly_pull db week = Inr ps"
  shows "distinct (List.map_filter pj_matched_issue_id ps) \<and>
    (\<forall>p \<in> set ps. case pj_matched_issue_id p of
        Some i \<Rightarrow> shown db i (pj_series_id p) (pj_state p)
      | None \<Rightarrow> loose week (list_week week (vd_entries db)) p)"
proof -
  let ?rows = "list_week week (vd_entries db)"
  obtain start finish where w: "week_date_range week = Inr (start, finish)"
    using assms by (cases "week_date_range week") (auto simp: weekly_pull_def)
  define base where "base = library_primary_entries db week start finish"
  define missing where "missing = set (List.map_filter pr_matched_issue_id ?rows) - fst ` set base"
  define by_issue where "by_issue = (if ?rows = [] \<or> missing = {} then base
    else foldl (\<lambda>d (i, p). od_set i p d) base (entries_for_issue_ids db week missing))"
  obtain d extra where m: "merge_stored week ?rows by_issue [] = (d, extra)" by fastforce
  have "weekly_pull db week = Inr (map snd d @ extra)"
    unfolding weekly_pull_def w Let_def using m
    by (simp only: sum.case prod.case by_issue_def missing_def base_def)
  then have ps: "ps = map snd d @ extra" using assms by simp
  have "view_ok db base" by (simp add: base_def library_primary_entries_def view_ok_entries)
  then have v: "view_ok db by_issue" by (simp add: by_issue_def view_ok_update view_ok_entries)
  have d: "view_ok db d" and l: "list_all (loose week ?rows) extra"
    using merge_stored_ok [OF m v, of ?rows] by simp_all
  have "List.map_filter pj_matched_issue_id (map snd d) = map fst d"
    using d unfolding view_ok_def by (induction d) (auto simp: map_filter_simps)
  moreover have "List.map_filter pj_matched_issue_id extra = []"
    using l by (induction extra) (auto simp: map_filter_simps loose_def)
  ultimately have "List.map_filter pj_matched_issue_id ps = map fst d"
    by (simp add: ps map_filter_def)
  moreover have "case pj_matched_issue_id p of Some i \<Rightarrow> shown db i (pj_series_id p) (pj_state p) | None \<Rightarrow> loose week ?rows p"
    if "p \<in> set ps" for p
  proof (cases "p \<in> set extra")
    case True
    then have "loose week ?rows p" using l by (simp add: list_all_iff)
    moreover from this have "pj_matched_issue_id p = None" by (simp add: loose_def)
    ultimately show ?thesis by simp
  next
    case False
    then have "p \<in> snd ` set d" using that by (auto simp: ps)
    then show ?thesis using d by (auto simp: view_ok_def)
  qed
  ultimately show ?thesis using d by (simp add: view_ok_def)
qed


definition demo_view :: view_db where
  "demo_view =
     \<lparr>vd_entries = [demo_pull_row\<lparr>pr_matched_issue_id := Some 40, pr_match_type := Match_name_seq\<rparr>],
      vd_library = demo_library, vd_roots = [\<lparr>rf_id = 1, rf_read_only = False\<rparr>], vd_issue_files = [],
      vd_tracked = []\<rparr>"

lemma demo_weekly:
  "map_option (map pj_matched_issue_id) (case weekly_pull demo_view ''2026-W01'' of Inl _ \<Rightarrow> None | Inr ps \<Rightarrow> Some ps)
     = Some [Some 40]"
  by code_simp

lemma weekly_view_sound_witness:
  "\<exists>p. weekly_pull demo_view ''2026-W01'' = Inr [p] \<and> shown demo_view 40 (pj_series_id p) (pj_state p)"
proof -
  obtain p where p: "weekly_pull demo_view ''2026-W01'' = Inr [p]" "pj_matched_issue_id p = Some 40"
    using demo_weekly by (cases "weekly_pull demo_view ''2026-W01''") auto
  with weekly_view_sound [OF p(1)] show ?thesis by simp
qed

end
