(* ===== verification/Import_Evidence.thy ===== *)
theory Import_Evidence
  imports Decision Imports
begin

text \<open>
  What the importer knows of a file before it looks into the library: the evidence merged from
  the names the file arrived with (\<open>importer/evidence.py\<close>) and the shared rules that match a
  parsed issue to the issues of a series (\<open>library/matching.py\<close>).

  The filename parser is an argument: it maps a mode, the reference year and a name to a parse
  result. The provenance of a field is an ordered dictionary from field names to layers.
\<close>

section \<open>Parses\<close>

datatype booktype = Bt_issue | Bt_tpb | Bt_gn | Bt_hc | Bt_one_shot

fun booktype_value :: "booktype \<Rightarrow> string" where
  "booktype_value Bt_issue = ''issue''"
| "booktype_value Bt_tpb = ''TPB''"
| "booktype_value Bt_gn = ''GN''"
| "booktype_value Bt_hc = ''HC''"
| "booktype_value Bt_one_shot = ''one-shot''"

datatype parse_mode = Filename_mode | Folder_mode

record issue_range =
  ir_start :: rat
  ir_end :: rat
  ir_display :: string

record name_parse = parse_result +
  np_range :: "issue_range option"
  np_booktype :: booktype
  np_group :: "string option"
  np_cv_issue_id :: "int option"

type_synonym name_parser = "parse_mode \<Rightarrow> int \<Rightarrow> string \<Rightarrow> name_parse"

section \<open>Layers\<close>

definition LAYER_GRAB :: string where "LAYER_GRAB = ''grab_record''"
definition LAYER_FILENAME :: string where "LAYER_FILENAME = ''file_name''"
definition LAYER_FOLDER :: string where "LAYER_FOLDER = ''folder_name''"
definition LAYER_CLIENT :: string where "LAYER_CLIENT = ''client_title''"
definition PROV_ISSUE_ID_TAG :: string where "PROV_ISSUE_ID_TAG = ''issue_id_tag''"
definition PROV_COMICINFO :: string where "PROV_COMICINFO = ''comicinfo''"
definition PROV_MANUAL_OVERRIDE :: string where "PROV_MANUAL_OVERRIDE = ''manual_override''"
definition PROV_COMICINFO_CONFLICT :: string where "PROV_COMICINFO_CONFLICT = ''comicinfo_conflict''"
definition PROV_ORDINAL_REFUSED :: string where "PROV_ORDINAL_REFUSED = ''ordinal_refused''"

definition LAYER_ORDER :: "string list" where
  "LAYER_ORDER = [LAYER_GRAB, LAYER_FILENAME, LAYER_FOLDER, LAYER_CLIENT]"

record evidence =
  e_key :: "string option"
  e_issue :: "issue_number option"
  e_range :: "issue_range option"
  e_year :: "int option"
  e_ordinal :: "int option"
  e_volume_year :: "int option"
  e_booktype :: booktype
  e_group :: "string option"
  e_fix :: "int option"
  e_issue_tag :: "string option"
  e_cv_issue_id :: "int option"
  e_prov :: "(string, string) odict"
  e_layers :: "string \<Rightarrow> name_parse option"

definition non_empty :: "string option \<Rightarrow> string option" where
  "non_empty s = (if s = Some [] then None else s)"

text \<open>The first value in the order of confidence, with the layer that gave it.\<close>

fun pick_in :: "string list \<Rightarrow> (string \<Rightarrow> name_parse option) \<Rightarrow> (name_parse \<Rightarrow> 'a option) \<Rightarrow> (string \<times> 'a) option" where
  "pick_in [] layers getter = None"
| "pick_in (l # ls) layers getter =
     (case Option.bind (layers l) getter of
        Some v \<Rightarrow> Some (l, v)
      | None \<Rightarrow> pick_in ls layers getter)"

definition pick :: "(string \<Rightarrow> name_parse option) \<Rightarrow> (name_parse \<Rightarrow> 'a option) \<Rightarrow> (string \<times> 'a) option" where
  "pick = pick_in LAYER_ORDER"

definition noted :: "string \<Rightarrow> (string \<times> 'a) option \<Rightarrow> (string, string) odict \<Rightarrow> (string, string) odict" where
  "noted fld picked prov = (case picked of None \<Rightarrow> prov | Some (l, _) \<Rightarrow> od_set fld l prov)"

definition parse_layers ::
  "name_parser \<Rightarrow> int \<Rightarrow> (string \<times> string option \<times> parse_mode) list \<Rightarrow> string \<Rightarrow> name_parse option" where
  "parse_layers parse year raw =
     map_of (List.map_filter (\<lambda>(name, v, mode).
         map_option (\<lambda>s. (name, parse mode year s)) (non_empty v)) raw)"

definition aggregate ::
  "name_parser \<Rightarrow> int \<Rightarrow> string option \<Rightarrow> string option \<Rightarrow> string option \<Rightarrow> string option \<Rightarrow> evidence" where
  "aggregate parse year grab_title file_name folder_name client_title =
     (let layers = parse_layers parse year
            [(LAYER_GRAB, grab_title, Filename_mode), (LAYER_FILENAME, file_name, Filename_mode),
             (LAYER_FOLDER, folder_name, Folder_mode), (LAYER_CLIENT, client_title, Filename_mode)];
          key = pick layers (\<lambda>r. non_empty (p_key r));
          iss = pick layers p_issue;
          rng = pick layers np_range;
          yr = pick layers p_year;
          ordinal = pick layers volume_ordinal;
          vyear = pick layers volume_year;
          group = pick layers (\<lambda>r. non_empty (np_group r));
          fix_rev = pick layers fix_revision;
          btype = pick layers (\<lambda>r. if np_booktype r = Bt_issue then None else Some (np_booktype r));
          tag = pick layers (\<lambda>r. non_empty (p_issue_tag r));
          cv = pick layers np_cv_issue_id
      in \<lparr>e_key = map_option snd key, e_issue = map_option snd iss, e_range = map_option snd rng,
          e_year = map_option snd yr, e_ordinal = map_option snd ordinal, e_volume_year = map_option snd vyear,
          e_booktype = (case btype of None \<Rightarrow> Bt_issue | Some (_, b) \<Rightarrow> b),
          e_group = map_option snd group, e_fix = map_option snd fix_rev,
          e_issue_tag = map_option snd tag, e_cv_issue_id = map_option snd cv,
          e_prov = noted ''issue_id'' (map_option (\<lambda>(_, v). (PROV_ISSUE_ID_TAG, v)) tag)
            (noted ''booktype'' btype (noted ''fix_revision'' fix_rev (noted ''release_group'' group
            (noted ''volume_year'' vyear (noted ''volume_ordinal'' ordinal (noted ''year'' yr
            (noted ''issue_range'' rng (noted ''issue'' iss (noted ''series'' key []))))))))),
          e_layers = layers\<rparr>)"

section \<open>Matching issues\<close>

definition series_title_matches :: "string option \<Rightarrow> string option \<Rightarrow> bool" where
  "series_title_matches parsed_key series_key =
     (case (non_empty parsed_key, non_empty series_key) of
        (Some p, Some s) \<Rightarrow> p = s \<or> set (pieces is_space p) \<subseteq> set (pieces is_space s)
      | _ \<Rightarrow> False)"

definition norm_name :: "string option \<Rightarrow> string option" where
  "norm_name s = map_option casefold (non_empty s)"

definition issue_equal :: "issue_number \<Rightarrow> issue_number \<Rightarrow> bool" where
  "issue_equal a b \<longleftrightarrow>
     in_value a = in_value b \<and> in_suffix a = in_suffix b \<and> in_infinity a = in_infinity b \<and>
     norm_name (in_name a) = norm_name (in_name b)"

definition match_issue_id :: "issue_number \<Rightarrow> (int \<times> issue_number) list \<Rightarrow> int option" where
  "match_issue_id i index = map_option fst (find (\<lambda>(_, p). issue_equal i p) index)"

section \<open>What the evidence rests on\<close>

lemma pick_in_SomeD:
  "pick_in ls layers getter = Some (l, v) \<Longrightarrow>
     \<exists>before after. ls = before @ l # after \<and> Option.bind (layers l) getter = Some v \<and>
        (\<forall>x \<in> set before. Option.bind (layers x) getter = None)"
proof (induction ls)
  case (Cons x ls)
  show ?case
  proof (cases "Option.bind (layers x) getter")
    case None
    with Cons.prems have "pick_in ls layers getter = Some (l, v)" by simp
    from Cons.IH [OF this] obtain before after where "ls = before @ l # after"
      "Option.bind (layers l) getter = Some v" "\<forall>x \<in> set before. Option.bind (layers x) getter = None"
      by blast
    with None show ?thesis by (intro exI [of _ "x # before"] exI [of _ after]) simp
  next
    case (Some w)
    with Cons.prems show ?thesis by (intro exI [of _ "[]"] exI [of _ ls]) simp
  qed
qed simp

lemma pick_in_None: "pick_in ls layers getter = None \<longleftrightarrow> (\<forall>l \<in> set ls. Option.bind (layers l) getter = None)"
  by (induction ls) (auto split: option.split)

lemma issue_equal_refl [simp]: "issue_equal a a"
  by (simp add: issue_equal_def)

lemma match_issue_id_SomeD:
  "match_issue_id i index = Some k \<Longrightarrow> \<exists>p. (k, p) \<in> set index \<and> issue_equal i p"
  by (auto simp: match_issue_id_def find_Some_iff) (metis nth_mem)

end
