(* ===== verification/Import_Reconcile.thy ===== *)
theory Import_Reconcile
  imports Import_Evidence "HOL-Library.Char_ord" "HOL-Library.List_Lexorder"
begin

text \<open>
  The reconciliation of a file with the library (\<open>reconcile\<close> and its helpers of
  \<open>importer/pipeline.py\<close>), over the library tables it reads (\<open>library/models.py\<close>).

  A lookup by an integer that SQLite cannot bind raises, so every lookup by a number that comes
  from a name or a request is a result. The provenance the code writes into the evidence is
  returned beside the result: it stays written when a later lookup raises. The per-run index
  cache of the import context is an argument; \<open>remember_index\<close> is its fill.
\<close>

section \<open>Library tables\<close>

record lib_series_row =
  sr_id :: int
  sr_title :: string
  sr_key :: string
  sr_booktype :: "string option"
  sr_path :: string
  sr_start_year :: "int option"
  sr_publisher :: "string option"
  sr_profile :: int
  sr_root :: int

record lib_issue_row =
  iw_id :: int
  iw_series :: int
  iw_cv :: int
  iw_number :: "string option"
  iw_order :: string
  iw_title :: "string option"
  iw_type :: string

record file_row =
  fr_id :: int
  fr_issue :: int
  fr_path :: string
  fr_size :: int
  fr_added_at :: datetime
  fr_fix :: "int option"
  fr_pages :: "int option"
  fr_edition :: "int option"

record store_match =
  sm_id :: int
  sm_series :: "int option"
  sm_via :: "string option"

record root_row =
  rf_id :: int
  rf_path :: string
  rf_read_only :: bool

text \<open>The payload of a history row, whose JSON text has its keys sorted.\<close>

record event_data =
  hd_prov :: "(string, string) odict"
  hd_kind :: string
  hd_reasons :: "string list option"
  hd_path :: "string option"
  hd_size :: "int option"
  hd_duplicate :: "string option"
  hd_error :: "string option"

record history_row =
  hi_id :: int
  hi_event :: string
  hi_series :: "int option"
  hi_issue :: "int option"
  hi_download :: "string option"
  hi_title :: string
  hi_source :: string
  hi_data :: event_data
  hi_quarantine :: "string option"
  hi_created_at :: datetime

record shelf =
  sh_series :: "lib_series_row list"
  sh_issues :: "lib_issue_row list"
  sh_files :: "file_row list"
  sh_matches :: "store_match list"
  sh_profiles :: "(int \<times> string list) list"
  sh_roots :: "root_row list"
  sh_history :: "history_row list"

definition MATCHED_VIA_OPERATOR :: string where "MATCHED_VIA_OPERATOR = ''operator''"
definition MATCHED_VIA_AUTO :: string where "MATCHED_VIA_AUTO = ''auto''"

definition bindable :: "int \<Rightarrow> bool" where
  "bindable k \<longleftrightarrow> - (2 ^ 63) \<le> k \<and> k < 2 ^ 63"

definition session_get :: "('r \<Rightarrow> int) \<Rightarrow> int \<Rightarrow> 'r list \<Rightarrow> 'r option result" where
  "session_get key k t = (if bindable k then Inr (row_get key k t) else Inl OverflowError)"

section \<open>Candidates\<close>

record manual_override =
  mo_series :: "int option"
  mo_issue :: "int option"
  mo_format :: "string option"

text \<open>
  The candidate of any intake: the drain's file with the kind of its source, its series scope and
  its override. An absent download id or container is the empty string.
\<close>

record import_candidate = import_file +
  ic_kind :: string
  ic_scope :: "int option"
  ic_override :: "manual_override option"

definition aggregate_candidate :: "name_parser \<Rightarrow> int \<Rightarrow> import_candidate \<Rightarrow> evidence" where
  "aggregate_candidate parse year c =
     aggregate parse year (if_grab_title c) (Some (if_file_name c)) (if_folder_name c) (if_client_title c)"

record embedded_metadata =
  em_present :: bool
  em_cv_issue_id :: "int option"
  em_parse_error :: "string option"

section \<open>The issues of a series\<close>

type_synonym issue_index = "(int \<times> issue_number) list"
type_synonym index_cache = "int \<Rightarrow> issue_index option"

definition list_issues_for_series :: "shelf \<Rightarrow> int \<Rightarrow> lib_issue_row list" where
  "list_issues_for_series sh s = sort_key iw_order (filter (\<lambda>i. iw_series i = s) (sh_issues sh))"

definition build_issue_index :: "lib_issue_row list \<Rightarrow> issue_index" where
  "build_issue_index is = map (\<lambda>i. (iw_id i, parse_issue_number (iw_number i) DEFAULT_OPTIONS)) is"

definition issue_index_for_series :: "index_cache \<Rightarrow> shelf \<Rightarrow> int \<Rightarrow> issue_index" where
  "issue_index_for_series cache sh s =
     (case cache s of Some index \<Rightarrow> index | None \<Rightarrow> build_issue_index (list_issues_for_series sh s))"

definition remember_index :: "shelf \<Rightarrow> int \<Rightarrow> index_cache \<Rightarrow> index_cache" where
  "remember_index sh s cache = cache(s \<mapsto> issue_index_for_series cache sh s)"

definition match_issue_in_series :: "index_cache \<Rightarrow> shelf \<Rightarrow> int \<Rightarrow> issue_number \<Rightarrow> int option" where
  "match_issue_in_series cache sh s i = match_issue_id i (issue_index_for_series cache sh s)"

definition issue_has_file :: "shelf \<Rightarrow> int \<Rightarrow> bool" where
  "issue_has_file sh i \<longleftrightarrow> list_ex (\<lambda>f. fr_issue f = i) (sh_files sh)"

section \<open>Store provenance and the ordinal fallback\<close>

record store_provenance =
  sp_entitlement :: int
  sp_series :: int
  sp_operator :: bool
  sp_auto :: bool

definition store_provenance_of :: "shelf \<Rightarrow> import_candidate \<Rightarrow> store_provenance option result" where
  "store_provenance_of sh c =
     (case if_store_entitlement_id c of
        None \<Rightarrow> Inr None
      | Some e \<Rightarrow>
          result_bind (session_get sm_id e (sh_matches sh)) (\<lambda>m. Inr (case m of
            None \<Rightarrow> None
          | Some r \<Rightarrow>
              (case sm_series r of
                 None \<Rightarrow> None
               | Some s \<Rightarrow>
                   (case row_get sr_id s (sh_series sh) of
                      None \<Rightarrow> None
                    | Some _ \<Rightarrow> Some \<lparr>sp_entitlement = sm_id r, sp_series = s,
                        sp_operator = (sm_via r = Some MATCHED_VIA_OPERATOR),
                        sp_auto = (sm_via r = Some MATCHED_VIA_AUTO)\<rparr>)))))"

definition ORDINAL_REFUSED_TRADE :: string where "ORDINAL_REFUSED_TRADE = ''trade-into-singles''"
definition ORDINAL_REFUSED_EXISTING_FILE :: string where "ORDINAL_REFUSED_EXISTING_FILE = ''issue-has-file''"
definition ORDINAL_REFUSED_AUTO_MATCH :: string where "ORDINAL_REFUSED_AUTO_MATCH = ''auto-matched-series''"
definition ORDINAL_REFUSED_UNPROVEN_MATCH :: string where "ORDINAL_REFUSED_UNPROVEN_MATCH = ''unproven-match''"

definition canonical_booktype :: "booktype \<Rightarrow> string" where
  "canonical_booktype b = map (\<lambda>c. if c = CHR ''-'' then CHR ''_'' else c) (str_lower (booktype_value b))"

definition COLLECTED_BOOKTYPES :: "string list" where
  "COLLECTED_BOOKTYPES = map canonical_booktype [Bt_tpb, Bt_gn, Bt_hc, Bt_one_shot]"

definition COLLECTED_BOOKTYPE_EVIDENCE :: "booktype list" where
  "COLLECTED_BOOKTYPE_EVIDENCE = [Bt_tpb, Bt_gn, Bt_hc]"

definition is_collected_series :: "shelf \<Rightarrow> int \<Rightarrow> bool" where
  "is_collected_series sh s \<longleftrightarrow>
     (case row_get sr_id s (sh_series sh) of
        None \<Rightarrow> False
      | Some r \<Rightarrow> (case sr_booktype r of None \<Rightarrow> False | Some b \<Rightarrow> b \<in> set COLLECTED_BOOKTYPES))"

definition ordinal_guards_refuse :: "shelf \<Rightarrow> int \<Rightarrow> evidence \<Rightarrow> store_provenance option \<Rightarrow> string option" where
  "ordinal_guards_refuse sh s ev store =
     (let trade = (if e_booktype ev \<in> set COLLECTED_BOOKTYPE_EVIDENCE \<and> \<not> is_collected_series sh s
                   then Some ORDINAL_REFUSED_TRADE else None)
      in case store of
           None \<Rightarrow> trade
         | Some st \<Rightarrow>
             if sp_operator st then trade
             else if sp_auto st then Some ORDINAL_REFUSED_AUTO_MATCH else Some ORDINAL_REFUSED_UNPROVEN_MATCH)"

definition ordinal_issue :: "int \<Rightarrow> issue_number" where
  "ordinal_issue n = plain_issue (Some (of_int n)) (show_int n)"

definition derive_issue_in_series ::
  "index_cache \<Rightarrow> shelf \<Rightarrow> int \<Rightarrow> evidence \<Rightarrow> store_provenance option \<Rightarrow> int option \<times> string option" where
  "derive_issue_in_series cache sh s ev store =
     (case e_issue ev of
        Some i \<Rightarrow> (match_issue_in_series cache sh s i, None)
      | None \<Rightarrow>
          (case e_ordinal ev of
             None \<Rightarrow> (None, None)
           | Some n \<Rightarrow>
               (case ordinal_guards_refuse sh s ev store of
                  Some refusal \<Rightarrow> (None, Some refusal)
                | None \<Rightarrow>
                    (case match_issue_in_series cache sh s (ordinal_issue n) of
                       None \<Rightarrow> (None, None)
                     | Some i \<Rightarrow>
                         if issue_has_file sh i then (None, Some ORDINAL_REFUSED_EXISTING_FILE)
                         else (Some i, None)))))"

section \<open>Overrides and embedded ids\<close>

definition in_scope :: "import_candidate \<Rightarrow> int \<Rightarrow> bool" where
  "in_scope c s \<longleftrightarrow> (case ic_scope c of None \<Rightarrow> True | Some t \<Rightarrow> s = t)"

definition resolve_override :: "shelf \<Rightarrow> import_candidate \<Rightarrow> manual_override \<Rightarrow> (int \<times> int) option result" where
  "resolve_override sh c ov =
     (case mo_issue ov of
        None \<Rightarrow> Inr None
      | Some k \<Rightarrow>
          result_bind (session_get iw_id k (sh_issues sh)) (\<lambda>i. Inr (case i of
            None \<Rightarrow> None
          | Some r \<Rightarrow>
              if (case mo_series ov of None \<Rightarrow> False | Some s \<Rightarrow> iw_series r \<noteq> s) then None
              else if \<not> in_scope c (iw_series r) then None
              else Some (iw_series r, iw_id r))))"

definition resolve_series_override :: "shelf \<Rightarrow> import_candidate \<Rightarrow> manual_override \<Rightarrow> int option result" where
  "resolve_series_override sh c ov =
     (case (mo_series ov, mo_issue ov) of
        (Some s, None) \<Rightarrow>
          result_bind (session_get sr_id s (sh_series sh)) (\<lambda>x. Inr (case x of
            None \<Rightarrow> None
          | Some r \<Rightarrow> if in_scope c (sr_id r) then Some (sr_id r) else None))
      | _ \<Rightarrow> Inr None)"

definition embedded_issue :: "shelf \<Rightarrow> embedded_metadata option \<Rightarrow> lib_issue_row option result" where
  "embedded_issue sh em =
     (case em of
        None \<Rightarrow> Inr None
      | Some m \<Rightarrow>
          if non_empty (em_parse_error m) \<noteq> None then Inr None
          else (case em_cv_issue_id m of
                  None \<Rightarrow> Inr None
                | Some cv \<Rightarrow> session_get iw_cv cv (sh_issues sh)))"

definition filename_series_match :: "shelf \<Rightarrow> import_candidate \<Rightarrow> evidence \<Rightarrow> int option" where
  "filename_series_match sh c ev =
     (case ic_scope c of
        Some s \<Rightarrow>
          (case row_get sr_id s (sh_series sh) of
             None \<Rightarrow> None
           | Some r \<Rightarrow> if series_title_matches (e_key ev) (Some (sr_key r)) then Some (sr_id r) else None)
      | None \<Rightarrow>
          (case e_key ev of
             None \<Rightarrow> None
           | Some key \<Rightarrow> map_option sr_id (find (\<lambda>r. sr_key r = key) (sh_series sh))))"

definition tag_disagrees_with_filename :: "shelf \<Rightarrow> lib_issue_row \<Rightarrow> evidence \<Rightarrow> bool" where
  "tag_disagrees_with_filename sh tagged ev =
     (case e_layers ev LAYER_FILENAME of
        None \<Rightarrow> False
      | Some f \<Rightarrow>
          (case p_issue f of
             None \<Rightarrow> False
           | Some i \<Rightarrow>
               non_empty (iw_number tagged) \<noteq> None \<and> match_issue_id i (build_issue_index [tagged]) = None \<or>
               p_key f \<noteq> None \<and> p_key f \<noteq> map_option sr_key (row_get sr_id (iw_series tagged) (sh_series sh))))"

section \<open>Reconciliation\<close>

datatype base_source = Base_tag | Base_grab | Base_filename | Base_grab_series

type_synonym base_mapping = "int option \<times> int option \<times> base_source option"

definition tag_target :: "shelf \<Rightarrow> import_candidate \<Rightarrow> evidence \<Rightarrow> lib_issue_row option result" where
  "tag_target sh c ev =
     (case non_empty (e_issue_tag ev) of
        None \<Rightarrow> Inr None
      | Some tag \<Rightarrow>
          (case py_int tag of
             None \<Rightarrow> Inr None
           | Some k \<Rightarrow>
               result_bind (session_get iw_id k (sh_issues sh)) (\<lambda>i. Inr (case i of
                 None \<Rightarrow> None
               | Some r \<Rightarrow>
                   if in_scope c (iw_series r) \<and> \<not> tag_disagrees_with_filename sh r ev then Some r else None))))"

definition heuristic_base ::
  "index_cache \<Rightarrow> shelf \<Rightarrow> import_candidate \<Rightarrow> evidence \<Rightarrow> (string, string) odict \<Rightarrow>
   (string, string) odict \<times> base_mapping" where
  "heuristic_base cache sh c ev prov =
     (case ic_scope c of
        Some s \<Rightarrow>
          (case row_get sr_id s (sh_series sh) of
             None \<Rightarrow> (prov, (None, None, None))
           | Some r \<Rightarrow>
               if \<not> series_title_matches (e_key ev) (Some (sr_key r)) then (prov, (None, None, None))
               else (case derive_issue_in_series cache sh (sr_id r) ev None of
                       (_, Some refusal) \<Rightarrow>
                         (od_set PROV_ORDINAL_REFUSED refusal prov, (Some (sr_id r), None, Some Base_filename))
                     | (Some i, None) \<Rightarrow> (prov, (Some (sr_id r), Some i, Some Base_filename))
                     | (None, None) \<Rightarrow> (prov, (None, None, None))))
      | None \<Rightarrow>
          (case (e_issue ev, e_key ev) of
             (Some i, Some key) \<Rightarrow>
               (case find (\<lambda>r. sr_key r = key) (sh_series sh) of
                  None \<Rightarrow> (prov, (None, None, None))
                | Some r \<Rightarrow>
                    (case match_issue_in_series cache sh (sr_id r) i of
                       None \<Rightarrow> (prov, (None, None, None))
                     | Some k \<Rightarrow> (prov, (Some (sr_id r), Some k, Some Base_filename))))
           | _ \<Rightarrow> (prov, (None, None, None))))"

definition reconcile_base ::
  "index_cache \<Rightarrow> shelf \<Rightarrow> import_candidate \<Rightarrow> evidence \<Rightarrow> (string, string) odict \<Rightarrow>
   (string, string) odict \<times> base_mapping result" where
  "reconcile_base cache sh c ev prov =
     (case tag_target sh c ev of
        Inl e \<Rightarrow> (prov, Inl e)
      | Inr (Some r) \<Rightarrow> (prov, Inr (Some (iw_series r), Some (iw_id r), Some Base_tag))
      | Inr None \<Rightarrow>
          (case (if_grab_series_id c, if_grab_issue_id c) of
             (Some s, Some i) \<Rightarrow> (prov, Inr (Some s, Some i, Some Base_grab))
           | _ \<Rightarrow>
               (case store_provenance_of sh c of
                  Inl e \<Rightarrow> (prov, Inl e)
                | Inr (Some st) \<Rightarrow>
                    (case derive_issue_in_series cache sh (sp_series st) ev (Some st) of
                       (i, refusal) \<Rightarrow>
                         ((case refusal of None \<Rightarrow> prov | Some x \<Rightarrow> od_set PROV_ORDINAL_REFUSED x prov),
                          Inr (Some (sp_series st), i, Some Base_grab_series)))
                | Inr None \<Rightarrow>
                    (case heuristic_base cache sh c ev prov of (prov', m) \<Rightarrow> (prov', Inr m)))))"

text \<open>The layer of the embedded id, for a file that neither a tag nor a grab has settled.\<close>

definition embedded_layer ::
  "shelf \<Rightarrow> import_candidate \<Rightarrow> evidence \<Rightarrow> embedded_metadata option \<Rightarrow> base_mapping \<Rightarrow>
   (string, string) odict \<Rightarrow> (string, string) odict \<times> (int option \<times> int option) result" where
  "embedded_layer sh c ev em base prov =
     (case base of (base_series, base_issue, source) \<Rightarrow>
        if source = Some Base_tag \<or> source = Some Base_grab then (prov, Inr (base_series, base_issue))
        else (case embedded_issue sh em of
                Inl e \<Rightarrow> (prov, Inl e)
              | Inr None \<Rightarrow> (prov, Inr (base_series, base_issue))
              | Inr (Some r) \<Rightarrow>
                  (let provenance_series = (if source = Some Base_grab_series then base_series else None);
                       scope = (case ic_scope c of Some s \<Rightarrow> Some s | None \<Rightarrow> provenance_series);
                       scope_ok = (case scope of None \<Rightarrow> True | Some s \<Rightarrow> iw_series r = s);
                       filename_conflict = (provenance_series = None \<and>
                         (case filename_series_match sh c ev of None \<Rightarrow> False | Some s \<Rightarrow> s \<noteq> iw_series r))
                   in if scope_ok \<and> \<not> filename_conflict
                      then (od_set ''issue'' PROV_COMICINFO (od_set ''series'' PROV_COMICINFO prov),
                            Inr (Some (iw_series r), Some (iw_id r)))
                      else (od_set PROV_COMICINFO_CONFLICT (show_int (iw_cv r)) prov,
                            Inr (base_series, base_issue)))))"

definition reconcile_below ::
  "index_cache \<Rightarrow> shelf \<Rightarrow> import_candidate \<Rightarrow> evidence \<Rightarrow> embedded_metadata option \<Rightarrow>
   (string, string) odict \<Rightarrow> (string, string) odict \<times> (int option \<times> int option) result" where
  "reconcile_below cache sh c ev em prov =
     (case reconcile_base cache sh c ev prov of
        (prov', Inl e) \<Rightarrow> (prov', Inl e)
      | (prov', Inr base) \<Rightarrow> embedded_layer sh c ev em base prov')"

text \<open>A series-only override: the series is pinned, the issue comes from the embedded id or the name.\<close>

definition pinned_layer ::
  "index_cache \<Rightarrow> shelf \<Rightarrow> import_candidate \<Rightarrow> evidence \<Rightarrow> embedded_metadata option \<Rightarrow> int \<Rightarrow>
   (string, string) odict \<Rightarrow> (string, string) odict \<times> (int option \<times> int option) result" where
  "pinned_layer cache sh c ev em s prov =
     (case embedded_issue sh em of
        Inl e \<Rightarrow> (prov, Inl e)
      | Inr found \<Rightarrow>
          (if map_option iw_series found = Some s
           then (od_set ''issue'' PROV_COMICINFO (od_set ''series'' PROV_MANUAL_OVERRIDE prov),
                 Inr (Some s, map_option iw_id found))
           else (let prov' = (case found of None \<Rightarrow> prov
                              | Some r \<Rightarrow> od_set PROV_COMICINFO_CONFLICT (show_int (iw_cv r)) prov)
                 in case Option.bind (e_issue ev) (match_issue_in_series cache sh s) of
                      Some i \<Rightarrow> (od_set ''series'' PROV_MANUAL_OVERRIDE prov', Inr (Some s, Some i))
                    | None \<Rightarrow> reconcile_below cache sh c ev em prov')))"

definition reconcile ::
  "index_cache \<Rightarrow> shelf \<Rightarrow> import_candidate \<Rightarrow> evidence \<Rightarrow> embedded_metadata option \<Rightarrow>
   (string, string) odict \<times> (int option \<times> int option) result" where
  "reconcile cache sh c ev em =
     (case ic_override c of
        None \<Rightarrow> reconcile_below cache sh c ev em (e_prov ev)
      | Some ov \<Rightarrow>
          (case resolve_override sh c ov of
             Inl e \<Rightarrow> (e_prov ev, Inl e)
           | Inr (Some (s, i)) \<Rightarrow>
               (od_set ''issue'' PROV_MANUAL_OVERRIDE (od_set ''series'' PROV_MANUAL_OVERRIDE (e_prov ev)),
                Inr (Some s, Some i))
           | Inr None \<Rightarrow>
               (case resolve_series_override sh c ov of
                  Inl e \<Rightarrow> (e_prov ev, Inl e)
                | Inr (Some s) \<Rightarrow> pinned_layer cache sh c ev em s (e_prov ev)
                | Inr None \<Rightarrow> reconcile_below cache sh c ev em (e_prov ev))))"

section \<open>The index cache\<close>

definition cache_ok :: "shelf \<Rightarrow> index_cache \<Rightarrow> bool" where
  "cache_ok sh cache \<longleftrightarrow>
     (\<forall>s index. cache s = Some index \<longrightarrow> index = build_issue_index (list_issues_for_series sh s))"

lemma cache_ok_empty [simp]: "cache_ok sh (\<lambda>_. None)"
  by (simp add: cache_ok_def)

lemma index_is_fresh:
  "cache_ok sh cache \<Longrightarrow> issue_index_for_series cache sh s = build_issue_index (list_issues_for_series sh s)"
  by (auto simp: cache_ok_def issue_index_for_series_def split: option.splits)

lemma cache_ok_remember: "cache_ok sh cache \<Longrightarrow> cache_ok sh (remember_index sh s cache)"
  by (simp add: cache_ok_def remember_index_def index_is_fresh)

lemma match_in_series_row:
  assumes "cache_ok sh cache" and "match_issue_in_series cache sh s i = Some k"
  shows "\<exists>r \<in> set (sh_issues sh). iw_id r = k \<and> iw_series r = s \<and>
    issue_equal i (parse_issue_number (iw_number r) DEFAULT_OPTIONS)"
  using match_issue_id_SomeD [of i _ k] assms
  by (fastforce simp: match_issue_in_series_def index_is_fresh build_issue_index_def list_issues_for_series_def)

section \<open>Where a mapping can point\<close>

text \<open>An issue is mapped together with its own series, and a scoped file maps into its scope.\<close>

definition mapping_sound :: "shelf \<Rightarrow> import_candidate \<Rightarrow> int option \<times> int option \<Rightarrow> bool" where
  "mapping_sound sh c m \<longleftrightarrow>
     (\<forall>k. snd m = Some k \<longrightarrow> (\<exists>r \<in> set (sh_issues sh). iw_id r = k \<and> fst m = Some (iw_series r))) \<and>
     (if_store_entitlement_id c = None \<longrightarrow> (\<forall>s. fst m = Some s \<longrightarrow> in_scope c s))"

definition blind_grab :: "import_candidate \<Rightarrow> bool" where
  "blind_grab c \<longleftrightarrow> if_grab_series_id c \<noteq> None \<and> if_grab_issue_id c \<noteq> None"

lemma mapping_sound_nothing [simp]: "mapping_sound sh c (None, None)"
  by (simp add: mapping_sound_def)

lemma mapping_sound_series: "in_scope c s \<Longrightarrow> mapping_sound sh c (Some s, None)"
  by (simp add: mapping_sound_def)

lemma mapping_sound_issue:
  "r \<in> set (sh_issues sh) \<Longrightarrow> iw_id r = k \<Longrightarrow> iw_series r = s \<Longrightarrow> in_scope c s \<Longrightarrow>
     mapping_sound sh c (Some s, Some k)"
  by (auto simp: mapping_sound_def)

lemma session_get_SomeD: "session_get key k t = Inr (Some r) \<Longrightarrow> r \<in> set t \<and> key r = k"
  by (auto simp: session_get_def dest: row_get_SomeD split: if_splits)

lemma tag_target_row: "tag_target sh c ev = Inr (Some r) \<Longrightarrow> r \<in> set (sh_issues sh) \<and> in_scope c (iw_series r)"
  by (auto simp: tag_target_def result_bind_eq_Inr dest!: session_get_SomeD split: option.splits if_splits)

lemma embedded_issue_row: "embedded_issue sh em = Inr (Some r) \<Longrightarrow> r \<in> set (sh_issues sh)"
  by (auto simp: embedded_issue_def dest: session_get_SomeD split: option.splits if_splits)

lemma resolve_override_sound:
  assumes "resolve_override sh c ov = Inr (Some (s, i))"
  shows "mapping_sound sh c (Some s, Some i)"
proof -
  from assms obtain k found where "session_get iw_id k (sh_issues sh) = Inr found" and
    "(case found of None \<Rightarrow> None
      | Some r \<Rightarrow> if (case mo_series ov of None \<Rightarrow> False | Some s \<Rightarrow> iw_series r \<noteq> s) then None
          else if \<not> in_scope c (iw_series r) then None else Some (iw_series r, iw_id r)) = Some (s, i)"
    by (cases "mo_issue ov") (auto simp only: resolve_override_def result_bind_eq_Inr option.case sum.inject)
  then show ?thesis
    by (auto simp: mapping_sound_def dest!: session_get_SomeD split: option.split_asm if_split_asm)
qed

lemma resolve_series_override_sound:
  "resolve_series_override sh c ov = Inr (Some s) \<Longrightarrow> in_scope c s"
  by (auto simp: resolve_series_override_def result_bind_eq_Inr split: option.splits if_splits)

lemma derived_issue_row:
  assumes "cache_ok sh cache" and "derive_issue_in_series cache sh s ev store = (Some k, x)"
  shows "\<exists>r \<in> set (sh_issues sh). iw_id r = k \<and> iw_series r = s"
proof -
  from assms(2) obtain i where "match_issue_in_series cache sh s i = Some k"
    by (auto simp: derive_issue_in_series_def split: option.splits if_splits)
  from match_in_series_row [OF assms(1) this] show ?thesis by blast
qed

lemma heuristic_base_sound:
  assumes "cache_ok sh cache" and "heuristic_base cache sh c ev prov = (prov', (s, i, src))"
  shows "mapping_sound sh c (s, i) \<and> src \<noteq> Some Base_tag \<and> src \<noteq> Some Base_grab"
proof (cases "ic_scope c")
  case None
  with assms(2) show ?thesis
    by (auto simp: heuristic_base_def in_scope_def mapping_sound_def
        dest!: match_in_series_row [OF assms(1)] split: option.splits)
next
  case (Some t)
  have id: "sr_id r = t" if "row_get sr_id t (sh_series sh) = Some r" for r
    using row_get_SomeD [OF that] by simp
  show ?thesis
    using assms(2) Some
    by (auto simp: heuristic_base_def in_scope_def mapping_sound_def dest!: id derived_issue_row [OF assms(1)]
        split: option.splits if_splits prod.splits)
qed

lemma store_provenance_none:
  "store_provenance_of sh c = Inr (Some st) \<Longrightarrow> if_store_entitlement_id c \<noteq> None"
  by (cases "if_store_entitlement_id c") (auto simp: store_provenance_of_def)

lemma reconcile_base_sound:
  assumes cache: "cache_ok sh cache" and "\<not> blind_grab c"
    and eq: "reconcile_base cache sh c ev prov = (prov', Inr (s, i, src))"
  shows "mapping_sound sh c (s, i)"
proof (cases "tag_target sh c ev")
  case (Inl e)
  with eq show ?thesis by (simp add: reconcile_base_def)
next
  case (Inr found)
  show ?thesis
  proof (cases found)
    case (Some r)
    from tag_target_row [OF Inr [unfolded Some]] eq Inr Some show ?thesis
      by (auto simp: reconcile_base_def intro: mapping_sound_issue)
  next
    case None
    from assms(2) have grab: "if_grab_series_id c = None \<or> if_grab_issue_id c = None"
      by (simp add: blind_grab_def)
    show ?thesis
    proof (cases "store_provenance_of sh c")
      case (Inl e)
      with eq Inr None grab show ?thesis by (auto simp: reconcile_base_def split: option.splits)
    next
      case store: (Inr st)
      show ?thesis
      proof (cases st)
        case None
        with eq Inr \<open>found = None\<close> grab store
        have "heuristic_base cache sh c ev prov = (prov', (s, i, src))"
          by (auto simp: reconcile_base_def split: option.splits prod.splits)
        from heuristic_base_sound [OF cache this] show ?thesis by simp
      next
        case (Some p)
        with eq Inr None grab store obtain x where
          d: "derive_issue_in_series cache sh (sp_series p) ev (Some p) = (i, x)" and s: "s = Some (sp_series p)"
          by (auto simp: reconcile_base_def split: option.splits prod.splits)
        have "\<exists>r \<in> set (sh_issues sh). iw_id r = k \<and> s = Some (iw_series r)" if "i = Some k" for k
          using derived_issue_row [OF cache d [unfolded that]] s by auto
        then show ?thesis
          using store_provenance_none [of sh c p] store Some by (auto simp: mapping_sound_def)
      qed
    qed
  qed
qed

lemma embedded_layer_sound:
  assumes "mapping_sound sh c (s, i)"
    and "embedded_layer sh c ev em (s, i, src) prov = (prov', Inr m)"
  shows "mapping_sound sh c m"
proof (cases "embedded_issue sh em")
  case (Inl e)
  with assms show ?thesis by (auto simp: embedded_layer_def split: if_splits)
next
  case (Inr found)
  show ?thesis
  proof (cases found)
    case None
    with assms Inr show ?thesis by (auto simp: embedded_layer_def split: if_splits)
  next
    case (Some r)
    from embedded_issue_row [OF Inr [unfolded Some]] have r: "r \<in> set (sh_issues sh)" .
    have "m = (s, i) \<or> m = (Some (iw_series r), Some (iw_id r)) \<and>
        (ic_scope c \<noteq> None \<longrightarrow> ic_scope c = Some (iw_series r))"
      using assms(2) Inr Some
      by (auto simp: embedded_layer_def Let_def split: if_splits option.split_asm)
    then show ?thesis
      using assms(1) r by (auto simp: in_scope_def intro!: mapping_sound_issue split: option.split)
  qed
qed

lemma reconcile_below_sound:
  assumes "cache_ok sh cache" and "\<not> blind_grab c"
    and eq: "reconcile_below cache sh c ev em prov = (prov', Inr m)"
  shows "mapping_sound sh c m"
proof -
  obtain q b where b: "reconcile_base cache sh c ev prov = (q, b)" by force
  with eq obtain s i src where src: "b = Inr (s, i, src)"
    by (cases b) (auto simp: reconcile_below_def)
  from eq have layer: "embedded_layer sh c ev em (s, i, src) q = (prov', Inr m)"
    unfolding reconcile_below_def b src prod.case sum.case .
  from embedded_layer_sound [OF reconcile_base_sound [OF assms(1,2) b [unfolded src]] layer]
  show ?thesis .
qed

lemma pinned_layer_sound:
  assumes "cache_ok sh cache" and "\<not> blind_grab c" and scope: "in_scope c s"
    and eq: "pinned_layer cache sh c ev em s prov = (prov', Inr m)"
  shows "mapping_sound sh c m"
proof (cases "embedded_issue sh em")
  case (Inl e)
  with eq show ?thesis by (simp add: pinned_layer_def)
next
  case (Inr found)
  show ?thesis
  proof (cases "map_option iw_series found = Some s")
    case True
    then obtain r where "found = Some r" "iw_series r = s" by auto
    with eq Inr embedded_issue_row [of sh em r] scope show ?thesis
      by (auto simp: pinned_layer_def intro: mapping_sound_issue)
  next
    case outside: False
    show ?thesis
    proof (cases "Option.bind (e_issue ev) (match_issue_in_series cache sh s)")
      case None
      from eq have "reconcile_below cache sh c ev em (case found of None \<Rightarrow> prov
          | Some r \<Rightarrow> od_set PROV_COMICINFO_CONFLICT (show_int (iw_cv r)) prov) = (prov', Inr m)"
        unfolding pinned_layer_def Inr Let_def sum.case if_not_P [OF outside] None option.case .
      from reconcile_below_sound [OF assms(1,2) this] show ?thesis .
    next
      case (Some k)
      then obtain i where "match_issue_in_series cache sh s i = Some k" by (auto simp: bind_eq_Some_conv)
      from match_in_series_row [OF assms(1) this] obtain r where
        r: "r \<in> set (sh_issues sh)" "iw_id r = k" "iw_series r = s" by blast
      have "m = (Some s, Some k)"
        using eq unfolding pinned_layer_def Inr Let_def sum.case if_not_P [OF outside] Some option.case
        by (simp only: prod.inject sum.inject)
      with mapping_sound_issue [OF r scope] show ?thesis by simp
    qed
  qed
qed

text \<open>C6: Whatever the override, the tag in the name, the store match, the embedded ComicVine id and
  the filename say, a file that no complete grab record speaks for maps to an issue of the library
  only together with that issue's own series; and a file scoped to a series, unless a store match
  names another, maps to nothing outside it. The cached index of a series changes nothing as long
  as it was built from the tables.\<close>

theorem mapped_issue_in_its_series:
  assumes "cache_ok sh cache" and "\<not> blind_grab c"
    and eq: "reconcile cache sh c ev em = (prov, Inr (series, issue))"
  shows "(\<forall>k. issue = Some k \<longrightarrow>
      (\<exists>r \<in> set (sh_issues sh). iw_id r = k \<and> series = Some (iw_series r))) \<and>
    (if_store_entitlement_id c = None \<longrightarrow> (\<forall>s. series = Some s \<longrightarrow> in_scope c s))"
proof -
  note below = reconcile_below_sound [OF assms(1,2)]
  have "mapping_sound sh c (series, issue)"
  proof (cases "ic_override c")
    case None
    with eq show ?thesis by (auto simp: reconcile_def intro: below)
  next
    case (Some ov)
    show ?thesis
    proof (cases "resolve_override sh c ov")
      case (Inl e)
      with eq Some show ?thesis by (simp add: reconcile_def)
    next
      case full: (Inr m)
      show ?thesis
      proof (cases m)
        case None
        show ?thesis
        proof (cases "resolve_series_override sh c ov")
          case (Inl e)
          with eq Some full None show ?thesis by (simp add: reconcile_def)
        next
          case pin: (Inr p)
          show ?thesis
          proof (cases p)
            case None
            with eq Some full \<open>m = None\<close> pin show ?thesis by (auto simp: reconcile_def intro: below)
          next
            case (Some s)
            with pinned_layer_sound [OF assms(1,2) resolve_series_override_sound] eq full \<open>m = None\<close> pin
              \<open>ic_override c = Some ov\<close>
            show ?thesis by (auto simp: reconcile_def)
          qed
        qed
      next
        case (Some q)
        with eq full \<open>ic_override c = Some ov\<close> resolve_override_sound show ?thesis
          by (cases q) (auto simp: reconcile_def)
      qed
    qed
  qed
  then show ?thesis by (simp add: mapping_sound_def)
qed

text \<open>C8: A volume number stands in for an issue number only as a guess that cannot do harm: when a
  file names no issue and carries no tag, override, complete grab or embedded id, an issue it maps to
  has the volume's number in the series, holds no file yet, is not a single issue taken for a
  collected edition, and, for a store download, belongs to a series an operator matched.\<close>

theorem volume_guess_never_replaces:
  assumes cache: "cache_ok sh cache" and plain: "ic_override c = None" "e_issue ev = None" "e_issue_tag ev = None"
    "\<not> blind_grab c"
    and eq: "reconcile cache sh c ev None = (prov, Inr (Some s, Some k))"
  shows "\<not> issue_has_file sh k \<and>
    (\<exists>n. e_ordinal ev = Some n \<and> (\<exists>r \<in> set (sh_issues sh). iw_id r = k \<and> iw_series r = s \<and>
       issue_equal (ordinal_issue n) (parse_issue_number (iw_number r) DEFAULT_OPTIONS))) \<and>
    (e_booktype ev \<in> {Bt_tpb, Bt_gn, Bt_hc} \<longrightarrow> is_collected_series sh s) \<and>
    (\<forall>st. store_provenance_of sh c = Inr (Some st) \<longrightarrow> sp_operator st)"
proof -
  have grab: "if_grab_series_id c = None \<or> if_grab_issue_id c = None"
    using plain(4) by (simp add: blind_grab_def)
  have tag: "tag_target sh c ev = Inr None"
    using plain(3) by (simp add: tag_target_def non_empty_def)
  have "reconcile_below cache sh c ev None (e_prov ev) = (prov, Inr (Some s, Some k))"
    using eq plain(1) by (simp add: reconcile_def)
  then obtain q src where base: "reconcile_base cache sh c ev (e_prov ev) = (q, Inr (Some s, Some k, src))"
    by (auto simp: reconcile_below_def embedded_layer_def embedded_issue_def
        split: prod.split_asm sum.split_asm if_split_asm)
  obtain store where store: "store_provenance_of sh c = Inr store"
    using base tag grab by (cases "store_provenance_of sh c") (auto simp: reconcile_base_def split: option.splits)
  have "\<exists>x. derive_issue_in_series cache sh s ev store = (Some k, x)"
  proof (cases store)
    case None
    then have "heuristic_base cache sh c ev (e_prov ev) = (q, (Some s, Some k, src))"
      using base tag grab store by (auto simp: reconcile_base_def split: option.splits prod.splits)
    then show ?thesis
      using plain(2) None by (auto simp: heuristic_base_def split: option.splits if_splits prod.splits)
  next
    case (Some st)
    then show ?thesis
      using base tag grab store by (auto simp: reconcile_base_def split: option.splits prod.splits)
  qed
  then obtain n where n: "e_ordinal ev = Some n" "ordinal_guards_refuse sh s ev store = None"
    "match_issue_in_series cache sh s (ordinal_issue n) = Some k" "\<not> issue_has_file sh k"
    using plain(2) by (auto simp: derive_issue_in_series_def split: option.splits if_splits)
  from match_in_series_row [OF cache n(3)] n(1,2,4) store show ?thesis
    by (auto simp: ordinal_guards_refuse_def COLLECTED_BOOKTYPE_EVIDENCE_def Let_def
        split: option.splits if_splits)
qed

section \<open>Paths around the checks\<close>

text \<open>
  A complete grab record is believed without a look at the library, and a tag whose number SQLite
  cannot bind raises instead of being ignored.
\<close>

lemma grab_pair_unchecked:
  assumes "ic_override c = None" and "e_issue_tag ev = None"
    and "if_grab_series_id c = Some s" and "if_grab_issue_id c = Some i"
  shows "reconcile cache sh c ev em = (e_prov ev, Inr (Some s, Some i))"
  using assms by (simp add: reconcile_def reconcile_below_def reconcile_base_def tag_target_def
      embedded_layer_def non_empty_def)

lemma oversized_tag_raises:
  assumes "ic_override c = None" and "e_issue_tag ev = Some tag" and "tag \<noteq> []"
    and "py_int tag = Some k" and "\<not> bindable k"
  shows "reconcile cache sh c ev em = (e_prov ev, Inl OverflowError)"
  using assms by (simp add: reconcile_def reconcile_below_def reconcile_base_def tag_target_def
      session_get_def non_empty_def)

section \<open>Witnesses\<close>

definition demo_series_row :: "int \<Rightarrow> string \<Rightarrow> string \<Rightarrow> string \<Rightarrow> lib_series_row" where
  "demo_series_row k ttl key path =
     \<lparr>sr_id = k, sr_title = ttl, sr_key = key, sr_booktype = None, sr_path = path, sr_start_year = Some 2012,
      sr_publisher = None, sr_profile = 1, sr_root = 1\<rparr>"

definition demo_lib_issue :: "int \<Rightarrow> int \<Rightarrow> string \<Rightarrow> lib_issue_row" where
  "demo_lib_issue k s number =
     \<lparr>iw_id = k, iw_series = s, iw_cv = k, iw_number = Some number, iw_order = number, iw_title = None,
      iw_type = ''regular''\<rparr>"

definition demo_shelf :: shelf where
  "demo_shelf =
     \<lparr>sh_series = [demo_series_row 5 ''Saga'' ''saga'' ''/lib/Saga'', demo_series_row 7 ''Batman'' ''batman'' ''/lib/Batman''],
      sh_issues = [demo_lib_issue 40 5 ''1'', demo_lib_issue 41 5 ''2'', demo_lib_issue 70 7 ''3''],
      sh_files = [], sh_matches = [], sh_profiles = [(1, [''cbr'', ''cbz''])],
      sh_roots = [\<lparr>rf_id = 1, rf_path = ''/lib'', rf_read_only = False\<rparr>], sh_history = []\<rparr>"

definition demo_import :: "string \<Rightarrow> int option \<Rightarrow> manual_override option \<Rightarrow> import_candidate" where
  "demo_import name scope ov =
     \<lparr>if_local_path = ''/dl/'' @ name, if_size = 900, if_file_name = name, if_folder_name = Some ''dl'',
      if_container_root = ''/dl'', if_download_id = ''d1'', if_client_title = None, if_grab_title = None,
      if_grab_series_id = None, if_grab_issue_id = None, if_store_entitlement_id = None,
      if_mapping_warning = None, ic_kind = ''download'', ic_scope = scope, ic_override = ov\<rparr>"

definition demo_evidence :: "string \<Rightarrow> issue_number option \<Rightarrow> int option \<Rightarrow> evidence" where
  "demo_evidence key iss ordinal =
     \<lparr>e_key = Some key, e_issue = iss, e_range = None, e_year = None, e_ordinal = ordinal, e_volume_year = None,
      e_booktype = Bt_issue, e_group = None, e_fix = None, e_issue_tag = None, e_cv_issue_id = None,
      e_prov = [(''series'', LAYER_FILENAME)], e_layers = (\<lambda>_. None)\<rparr>"

lemma demo_heuristic:
  "snd (reconcile (\<lambda>_. None) demo_shelf (demo_import ''saga 1.cbz'' None None)
      (demo_evidence ''saga'' (Some (plain_issue (Some 1) ''1'')) None) None) = Inr (Some 5, Some 40)"
  by code_simp

lemma mapped_issue_in_its_series_witness:
  "\<exists>r \<in> set (sh_issues demo_shelf). iw_id r = 40 \<and> iw_series r = 5"
proof -
  obtain prov where "reconcile (\<lambda>_. None) demo_shelf (demo_import ''saga 1.cbz'' None None)
      (demo_evidence ''saga'' (Some (plain_issue (Some 1) ''1'')) None) None = (prov, Inr (Some 5, Some 40))"
    using demo_heuristic by (metis prod.collapse)
  from mapped_issue_in_its_series [OF cache_ok_empty _ this] show ?thesis
    by (auto simp: blind_grab_def demo_import_def)
qed

lemma demo_ordinal:
  "snd (reconcile (\<lambda>_. None) demo_shelf (demo_import ''saga v2.cbz'' (Some 5) None)
      (demo_evidence ''saga'' None (Some 2)) None) = Inr (Some 5, Some 41)"
  by code_simp

lemma volume_guess_never_replaces_witness:
  "\<not> issue_has_file demo_shelf 41"
proof -
  obtain prov where "reconcile (\<lambda>_. None) demo_shelf (demo_import ''saga v2.cbz'' (Some 5) None)
      (demo_evidence ''saga'' None (Some 2)) None = (prov, Inr (Some 5, Some 41))"
    using demo_ordinal by (metis prod.collapse)
  from volume_guess_never_replaces [OF cache_ok_empty _ _ _ _ this] show ?thesis
    by (simp add: blind_grab_def demo_import_def demo_evidence_def)
qed

text \<open>
  A series-only override that matches no issue of its series is left behind: the filename maps the
  file to another series.
\<close>

lemma pinned_series_can_be_left:
  "snd (reconcile (\<lambda>_. None) demo_shelf
      (demo_import ''batman 3.cbz'' None (Some \<lparr>mo_series = Some 5, mo_issue = None, mo_format = None\<rparr>))
      (demo_evidence ''batman'' (Some (plain_issue (Some 3) ''3'')) None) None) = Inr (Some 7, Some 70)"
  by code_simp

end
