(* ===== verification/Import_Decide.thy ===== *)
theory Import_Decide
  imports Import_Reconcile
begin

text \<open>
  The decision on a file (\<open>importer/decisions.py\<close>): ten specifications read the facts gathered
  once about a candidate, all of them run, and every rejection is kept with its reason. A rejection
  parks the file for review or, for a bad archive, sends the release to failure handling.
\<close>

section \<open>Facts\<close>

record archive_facts =
  af_ok :: bool
  af_kind :: string
  af_reason :: "string option"
  af_image_count :: int
  af_listed :: bool
  af_safe_to_extract :: bool

record import_evaluation =
  iv_evidence :: evidence
  iv_size :: int
  iv_series_id :: "int option"
  iv_issue_id :: "int option"
  iv_series_title :: "string option"
  iv_archive :: "archive_facts option"
  iv_existing_path :: "string option"
  iv_existing_format :: "string option"
  iv_new_format :: "string option"
  iv_ladder :: "string list"
  iv_free :: int
  iv_needed :: int
  iv_margin :: int
  iv_already_imported :: bool
  iv_junk_floor :: int
  iv_mapping_warning :: "string option"
  iv_comic_info_present :: bool
  iv_embedded_cv :: "int option"
  iv_embedded_verified :: bool
  iv_conflict :: bool
  iv_existing_size :: "int option"
  iv_existing_fix :: "int option"
  iv_new_fix :: "int option"
  iv_constraint :: string
  iv_ordinal_refusal :: "string option"

datatype rejection_kind = Blocked_kind | Failed_kind

record import_rejection =
  rj_reason :: string
  rj_spec :: string
  rj_kind :: rejection_kind

type_synonym import_spec = "import_evaluation \<Rightarrow> import_rejection option"

definition blocked_by :: "string \<Rightarrow> string \<Rightarrow> import_rejection option" where
  "blocked_by name why = Some \<lparr>rj_reason = why, rj_spec = name, rj_kind = Blocked_kind\<rparr>"

definition CONSTRAINT_LARGER_SIZE :: string where "CONSTRAINT_LARGER_SIZE = ''larger-size''"
definition CONSTRAINT_PREFERRED_FORMAT :: string where "CONSTRAINT_PREFERRED_FORMAT = ''preferred-format''"

section \<open>Specifications\<close>

definition double_quoted :: "string \<Rightarrow> string" where
  "double_quoted s = CHR 0x22 # s @ [CHR 0x22]"

definition remote_path_mapped_spec :: import_spec where
  "remote_path_mapped_spec ev =
     (if iv_mapping_warning ev = None then None
      else blocked_by ''remote-path-mapped''
        (''the download client'' @ APOSTROPHE @ ''s completed path is not reachable locally; '' @
         ''add a remote-path mapping for this client to make it importable''))"

definition series_label :: "import_evaluation \<Rightarrow> int \<Rightarrow> string" where
  "series_label ev s =
     (case non_empty (iv_series_title ev) of Some t \<Rightarrow> double_quoted t | None \<Rightarrow> ''#'' @ show_int s)"

definition mapped_to_issue_spec :: import_spec where
  "mapped_to_issue_spec ev =
     (if iv_mapping_warning ev \<noteq> None then None
      else if iv_series_id ev \<noteq> None \<and> iv_issue_id ev \<noteq> None then None
      else if iv_ordinal_refusal ev \<noteq> None then None
      else (case iv_series_id ev of
              Some s \<Rightarrow> blocked_by ''mapped-to-issue''
                (''matched this file to series '' @ series_label ev s @ '' but could not derive '' @
                 ''an issue number from its name; use manual import to set the issue'')
            | None \<Rightarrow> blocked_by ''mapped-to-issue'' ''could not match this file to a known series and issue''))"

definition refusal_detail :: "import_evaluation \<Rightarrow> string \<Rightarrow> string" where
  "refusal_detail ev refusal =
     (let series = (case non_empty (iv_series_title ev) of Some t \<Rightarrow> double_quoted t | None \<Rightarrow> ''the target series'')
      in if refusal = ORDINAL_REFUSED_TRADE then
           ''this file looks like a collected edition ('' @ booktype_value (e_booktype (iv_evidence ev)) @ '') but '' @
           series @ '' is a single-issue line, so its volume number was not read as an issue number '' @ EM_DASH @
           '' import it to the collected-edition series, or set the issue explicitly with manual import''
         else if refusal = ORDINAL_REFUSED_EXISTING_FILE then
           ''this file'' @ APOSTROPHE @ ''s volume number points at an issue of '' @ series @
           '' that already has a file; a volume-number guess never replaces an existing file '' @ EM_DASH @
           '' confirm the issue with manual import if it is really a better copy''
         else if refusal = ORDINAL_REFUSED_AUTO_MATCH then
           series @ '' was matched to this download automatically, not by you, so this file'' @ APOSTROPHE @
           ''s volume number was not read as an issue number '' @ EM_DASH @
           '' confirm the match (or the issue) to import it''
         else if refusal = ORDINAL_REFUSED_UNPROVEN_MATCH then
           ''how '' @ series @ '' came to be matched to this download was not recorded (the match predates '' @
           ''match tracking), so this file'' @ APOSTROPHE @ ''s volume number was not read as an issue number '' @
           EM_DASH @ '' re-match the item, or set the issue with manual import''
         else
           ''a volume-number issue mapping into '' @ series @ '' was refused by a safety guard; use manual '' @
           ''import to set the issue'')"

definition ordinal_fallback_spec :: import_spec where
  "ordinal_fallback_spec ev =
     (if iv_mapping_warning ev \<noteq> None then None
      else (case iv_ordinal_refusal ev of
              None \<Rightarrow> None
            | Some refusal \<Rightarrow> blocked_by ''ordinal-fallback-guard'' (refusal_detail ev refusal)))"

definition shown_int :: "int option \<Rightarrow> string" where
  "shown_int x = (case x of None \<Rightarrow> ''None'' | Some n \<Rightarrow> show_int n)"

definition embedded_id_conflict_spec :: import_spec where
  "embedded_id_conflict_spec ev =
     (if iv_mapping_warning ev \<noteq> None \<or> \<not> iv_conflict ev then None
      else blocked_by ''embedded-id-conflict''
        (''the embedded ComicInfo ComicVine id ('' @ shown_int (iv_embedded_cv ev) @
         '') conflicts with the filename match; confirm the correct issue before importing''))"

definition archive_valid_spec :: import_spec where
  "archive_valid_spec ev =
     (case iv_archive ev of
        None \<Rightarrow> None
      | Some a \<Rightarrow>
          if iv_mapping_warning ev \<noteq> None \<or> af_ok a then None
          else Some \<lparr>rj_reason = str_or (af_reason a) ''archive failed validation'', rj_spec = ''archive-valid'',
                 rj_kind = Failed_kind\<rparr>)"

definition junk_filter_spec :: import_spec where
  "junk_filter_spec ev =
     (if iv_mapping_warning ev \<noteq> None \<or> iv_junk_floor ev \<le> iv_size ev then None
      else blocked_by ''not-a-sample''
        (''file is only '' @ show_int (iv_size ev) @ '' bytes, below the '' @ show_int (iv_junk_floor ev) @
         ''-byte floor '' @ EM_DASH @ '' treated as a sample/junk file''))"

definition import_free_space_spec :: import_spec where
  "import_free_space_spec ev =
     (if iv_mapping_warning ev \<noteq> None \<or> iv_needed ev + iv_margin ev \<le> iv_free ev then None
      else blocked_by ''free-space''
        (''not enough free space: need '' @ show_int (iv_needed ev) @ '' bytes + '' @ show_int (iv_margin ev) @
         '' margin, have '' @ show_int (iv_free ev)))"

definition already_imported_spec :: import_spec where
  "already_imported_spec ev =
     (if \<not> iv_already_imported ev then None
      else blocked_by ''not-already-imported'' ''this download has already been imported for this issue'')"

definition ladder_rank :: "string option \<Rightarrow> string list \<Rightarrow> int" where
  "ladder_rank fmt ladder =
     (case fmt of None \<Rightarrow> -1
      | Some f \<Rightarrow> (case index_of (str_lower f) ladder of None \<Rightarrow> -1 | Some i \<Rightarrow> int i))"

definition same_rung :: "import_evaluation \<Rightarrow> bool" where
  "same_rung ev \<longleftrightarrow>
     iv_existing_path ev \<noteq> None \<and> 0 \<le> ladder_rank (iv_new_format ev) (iv_ladder ev) \<and>
     ladder_rank (iv_new_format ev) (iv_ladder ev) = ladder_rank (iv_existing_format ev) (iv_ladder ev)"

definition import_upgrade_spec :: import_spec where
  "import_upgrade_spec ev =
     (if iv_mapping_warning ev \<noteq> None \<or> iv_existing_path ev = None then None
      else if same_rung ev then None
      else if ladder_rank (iv_new_format ev) (iv_ladder ev) > ladder_rank (iv_existing_format ev) (iv_ladder ev) then None
      else blocked_by ''upgrade-allowed''
        (''an existing file ('' @ str_or (iv_existing_format ev) ''unknown'' @ '' format) is already present and this '' @
         str_or (iv_new_format ev) ''unknown'' @ '' file is not an upgrade over it''))"

definition fix_of :: "int option \<Rightarrow> int" where
  "fix_of x = (case x of None \<Rightarrow> 0 | Some n \<Rightarrow> n)"

definition duplicate_constraint_spec :: import_spec where
  "duplicate_constraint_spec ev =
     (if iv_mapping_warning ev \<noteq> None \<or> iv_existing_path ev = None then None
      else if \<not> same_rung ev then None
      else
        (let new_fix = fix_of (iv_new_fix ev); old_fix = fix_of (iv_existing_fix ev)
         in if new_fix > old_fix then None
            else if new_fix < old_fix then
              blocked_by ''duplicate-constraint''
                (''the existing file is a newer fixed release (f'' @ show_int old_fix @ '') than this '' @
                 (if new_fix \<noteq> 0 then ''(f'' @ show_int new_fix @ '') file'' else ''unfixed file'') @
                 '' '' @ EM_DASH @ '' fixed releases always win the duplicate tie'')
            else if iv_constraint ev = CONSTRAINT_PREFERRED_FORMAT then
              blocked_by ''duplicate-constraint''
                (''an existing file ('' @ str_or (iv_existing_format ev) ''unknown'' @
                 '' format) already satisfies the format preference at the same rung '' @ EM_DASH @
                 '' duplicate constraint '' @ quoted ''preferred-format'' @ '' keeps the existing file'')
            else (case iv_existing_size ev of
                    Some old \<Rightarrow>
                      if iv_size ev > old then None
                      else blocked_by ''duplicate-constraint''
                        (''an existing file of the same format rung is already present and this file ('' @
                         show_int (iv_size ev) @ '' bytes) is not larger than it ('' @ show_int old @ '' bytes) '' @
                         EM_DASH @ '' duplicate constraint '' @ quoted ''larger-size'')
                  | None \<Rightarrow> blocked_by ''duplicate-constraint''
                        (''an existing file of the same format rung is already present and this file ('' @
                         show_int (iv_size ev) @ '' bytes) is not larger than it (unknown size) '' @
                         EM_DASH @ '' duplicate constraint '' @ quoted ''larger-size''))))"

definition duplicate_win_reason :: "import_evaluation \<Rightarrow> string" where
  "duplicate_win_reason ev =
     (let new_fix = fix_of (iv_new_fix ev); old_fix = fix_of (iv_existing_fix ev)
      in if new_fix > old_fix then
           ''duplicate tie won by fixed-release marker: f'' @ show_int new_fix @ '' beats '' @
           (if old_fix \<noteq> 0 then ''f'' @ show_int old_fix else ''the unfixed existing file'')
         else
           ''duplicate tie won under the '' @ quoted ''larger-size'' @ '' constraint: '' @ show_int (iv_size ev) @
           '' bytes replaces '' @ shown_int (iv_existing_size ev) @ '' bytes'')"

definition import_specs :: "import_spec list" where
  "import_specs = [remote_path_mapped_spec, mapped_to_issue_spec, ordinal_fallback_spec, embedded_id_conflict_spec,
     archive_valid_spec, junk_filter_spec, import_free_space_spec, already_imported_spec, import_upgrade_spec,
     duplicate_constraint_spec]"

section \<open>Decisions\<close>

record import_decision =
  id_rejections :: "import_rejection list"
  id_series :: "int option"
  id_issue :: "int option"

definition import_approved :: "import_decision \<Rightarrow> bool" where
  "import_approved d \<longleftrightarrow> id_rejections d = []"

definition import_failed :: "import_decision \<Rightarrow> bool" where
  "import_failed d \<longleftrightarrow> list_ex (\<lambda>r. rj_kind r = Failed_kind) (id_rejections d)"

definition rejection_reasons :: "import_decision \<Rightarrow> string list" where
  "rejection_reasons d = map rj_reason (id_rejections d)"

definition decide_with :: "import_spec list \<Rightarrow> import_evaluation \<Rightarrow> import_decision" where
  "decide_with specs ev =
     \<lparr>id_rejections = List.map_filter (\<lambda>spec. spec ev) specs, id_series = iv_series_id ev, id_issue = iv_issue_id ev\<rparr>"

definition decide :: "import_evaluation \<Rightarrow> import_decision" where
  "decide = decide_with import_specs"

section \<open>The policy\<close>

text \<open>When a file may take the place of the one its issue already has.\<close>

definition may_replace :: "import_evaluation \<Rightarrow> bool" where
  "may_replace ev \<longleftrightarrow>
     iv_existing_path ev = None \<or>
     ladder_rank (iv_new_format ev) (iv_ladder ev) > ladder_rank (iv_existing_format ev) (iv_ladder ev) \<or>
     0 \<le> ladder_rank (iv_new_format ev) (iv_ladder ev) \<and>
       ladder_rank (iv_new_format ev) (iv_ladder ev) = ladder_rank (iv_existing_format ev) (iv_ladder ev) \<and>
       (fix_of (iv_new_fix ev) > fix_of (iv_existing_fix ev) \<or>
        fix_of (iv_new_fix ev) = fix_of (iv_existing_fix ev) \<and> iv_constraint ev \<noteq> CONSTRAINT_PREFERRED_FORMAT \<and>
        (\<exists>old. iv_existing_size ev = Some old \<and> iv_size ev > old))"

definition import_policy :: "import_evaluation \<Rightarrow> bool" where
  "import_policy ev \<longleftrightarrow>
     iv_mapping_warning ev = None \<and> iv_series_id ev \<noteq> None \<and> iv_issue_id ev \<noteq> None \<and>
     iv_ordinal_refusal ev = None \<and> \<not> iv_conflict ev \<and>
     (case iv_archive ev of None \<Rightarrow> True | Some a \<Rightarrow> af_ok a) \<and>
     iv_junk_floor ev \<le> iv_size ev \<and> iv_needed ev + iv_margin ev \<le> iv_free ev \<and>
     \<not> iv_already_imported ev \<and> may_replace ev"

text \<open>The text of a reason is never rewritten while a verdict is computed.\<close>

lemma blocked_by_cong [cong]: "blocked_by name why = blocked_by name why"
  by (rule refl)

lemma blocked_by_simps [simp]:
  "blocked_by name why \<noteq> None" "None \<noteq> blocked_by name why"
  "blocked_by name why = Some r \<longleftrightarrow> r = \<lparr>rj_reason = why, rj_spec = name, rj_kind = Blocked_kind\<rparr>"
  by (auto simp: blocked_by_def)

lemma rungs_partition:
  "(import_upgrade_spec ev = None \<or> duplicate_constraint_spec ev = None) \<and>
   (iv_mapping_warning ev = None \<longrightarrow>
     (import_upgrade_spec ev = None \<and> duplicate_constraint_spec ev = None \<longleftrightarrow> may_replace ev))"
proof (cases "same_rung ev")
  case True
  then show ?thesis
    by (auto simp: import_upgrade_spec_def duplicate_constraint_spec_def may_replace_def same_rung_def Let_def
        split: option.split)
next
  case False
  then show ?thesis
    by (auto simp: import_upgrade_spec_def duplicate_constraint_spec_def may_replace_def same_rung_def)
qed

lemma map_filter_Nil: "List.map_filter f xs = [] \<longleftrightarrow> (\<forall>x \<in> set xs. f x = None)"
  by (auto simp: map_filter_def filter_empty_conv)

lemma decide_approved: "import_approved (decide ev) \<longleftrightarrow> (\<forall>spec \<in> set import_specs. spec ev = None)"
  by (simp add: import_approved_def decide_def decide_with_def map_filter_Nil)

lemma mapping_specs:
  assumes "iv_mapping_warning ev = None"
  shows "mapped_to_issue_spec ev = None \<and> ordinal_fallback_spec ev = None \<longleftrightarrow>
    iv_series_id ev \<noteq> None \<and> iv_issue_id ev \<noteq> None \<and> iv_ordinal_refusal ev = None"
  using assms by (auto simp: mapped_to_issue_spec_def ordinal_fallback_spec_def split: option.split)

text \<open>C23: The ten import specifications together are the import policy: a file is approved exactly when
  its path was mapped, its series and issue are known, its issue is not a refused guess from the volume
  number, no id embedded in the file contradicts them, its archive (if one was inspected) is good,
  it is neither a sample nor already imported, it fits on the disk, and it may replace what the
  issue has, by a better format, or at the same rung by a newer fixed release or, if the constraint
  asks for it, by being strictly larger. It counts as failed exactly when its path was mapped and its
  archive was inspected and is bad, and the two rules about an existing file never speak both.\<close>

theorem import_specs_are_the_policy:
  "(import_approved (decide ev) \<longleftrightarrow> import_policy ev) \<and>
   (import_failed (decide ev) \<longleftrightarrow>
     iv_mapping_warning ev = None \<and> (case iv_archive ev of None \<Rightarrow> False | Some a \<Rightarrow> \<not> af_ok a)) \<and>
   (import_upgrade_spec ev = None \<or> duplicate_constraint_spec ev = None)"
proof (intro conjI)
  show "import_upgrade_spec ev = None \<or> duplicate_constraint_spec ev = None"
    using rungs_partition [of ev] by (rule conjunct1)
  show "import_approved (decide ev) \<longleftrightarrow> import_policy ev"
  proof (cases "iv_mapping_warning ev")
    case (Some w)
    then show ?thesis by (simp add: decide_approved import_specs_def remote_path_mapped_spec_def import_policy_def)
  next
    case None
    have rest: "remote_path_mapped_spec ev = None"
      "embedded_id_conflict_spec ev = None \<longleftrightarrow> \<not> iv_conflict ev"
      "archive_valid_spec ev = None \<longleftrightarrow> (case iv_archive ev of None \<Rightarrow> True | Some a \<Rightarrow> af_ok a)"
      "junk_filter_spec ev = None \<longleftrightarrow> iv_junk_floor ev \<le> iv_size ev"
      "import_free_space_spec ev = None \<longleftrightarrow> iv_needed ev + iv_margin ev \<le> iv_free ev"
      "already_imported_spec ev = None \<longleftrightarrow> \<not> iv_already_imported ev"
      using None by (auto simp: remote_path_mapped_spec_def embedded_id_conflict_spec_def archive_valid_spec_def
          junk_filter_spec_def import_free_space_spec_def already_imported_spec_def split: option.split)
    show ?thesis
      unfolding decide_approved import_policy_def
      using None rest mapping_specs [OF None] rungs_partition [of ev] by (simp add: import_specs_def) blast
  qed
  have blocked: "rj_kind r = Blocked_kind" if "spec \<in> set import_specs" "spec \<noteq> archive_valid_spec" "spec ev = Some r" for spec r
    using that
    by (auto simp: import_specs_def remote_path_mapped_spec_def mapped_to_issue_spec_def ordinal_fallback_spec_def
        embedded_id_conflict_spec_def junk_filter_spec_def import_free_space_spec_def already_imported_spec_def
        import_upgrade_spec_def duplicate_constraint_spec_def Let_def
        split: if_splits option.splits)
  have "import_failed (decide ev) \<longleftrightarrow> (\<exists>spec r. spec \<in> set import_specs \<and> spec ev = Some r \<and> rj_kind r = Failed_kind)"
    by (auto simp: import_failed_def decide_def decide_with_def map_filter_def list_ex_iff)
  also have "\<dots> \<longleftrightarrow> (\<exists>r. archive_valid_spec ev = Some r \<and> rj_kind r = Failed_kind)"
    using blocked by (metis (no_types, lifting) import_specs_def list.set_intros rejection_kind.distinct(1))
  also have "\<dots> \<longleftrightarrow> iv_mapping_warning ev = None \<and> (case iv_archive ev of None \<Rightarrow> False | Some a \<Rightarrow> \<not> af_ok a)"
    by (auto simp: archive_valid_spec_def split: option.split)
  finally show "import_failed (decide ev) \<longleftrightarrow>
      iv_mapping_warning ev = None \<and> (case iv_archive ev of None \<Rightarrow> False | Some a \<Rightarrow> \<not> af_ok a)" .
qed

section \<open>Search and import agree\<close>

lemma ladder_rank_is_rung: "ladder_rank fmt (formats prof) = rung prof fmt"
  by (simp add: ladder_rank_def rung_def)


definition demo_evaluation :: import_evaluation where
  "demo_evaluation =
     \<lparr>iv_evidence = demo_evidence ''saga'' None None, iv_size = 900, iv_series_id = Some 5, iv_issue_id = Some 40,
      iv_series_title = Some ''Saga'', iv_archive = None, iv_existing_path = Some ''/lib/Saga/1.cbr'',
      iv_existing_format = Some ''cbr'', iv_new_format = Some ''cbz'', iv_ladder = [''cbr'', ''cbz''],
      iv_free = 5000, iv_needed = 900, iv_margin = 100, iv_already_imported = False, iv_junk_floor = 100,
      iv_mapping_warning = None, iv_comic_info_present = False, iv_embedded_cv = None, iv_embedded_verified = False,
      iv_conflict = False, iv_existing_size = Some 2000, iv_existing_fix = Some 2, iv_new_fix = None,
      iv_constraint = CONSTRAINT_LARGER_SIZE, iv_ordinal_refusal = None\<rparr>"


end
