(* ===== verification/Import_Files.thy ===== *)
theory Import_Files
  imports Safe_Paths Calendar
begin

text \<open>
  The file operations of an import (\<open>importer/fileops.py\<close>) over a volume with hard links: a table
  from resolved paths to inodes, the bodies of the inodes, and the directories.

  A path is resolved by the argument \<open>io_real\<close> before the volume is asked, so a symbolic link is read
  as the file it leads to. Every system call can fail: the errors of a rename, a link, a removal and
  the outcome of a copy are arguments. The temporary file of a copy has a name that no other file
  has, and is not in the table; creating a directory and listing one succeed.
\<close>

section \<open>Volumes\<close>

record body =
  bd_size :: int
  bd_data :: string

record volume =
  v_files :: "(string, nat) odict"
  v_bodies :: "nat \<Rightarrow> body"
  v_next :: nat
  v_dirs :: "string list"

definition file_at :: "volume \<Rightarrow> string \<Rightarrow> nat option" where
  "file_at v p = map_of (v_files v) p"

definition body_at :: "volume \<Rightarrow> string \<Rightarrow> body option" where
  "body_at v p = map_option (v_bodies v) (file_at v p)"

definition is_directory :: "volume \<Rightarrow> string \<Rightarrow> bool" where
  "is_directory v p \<longleftrightarrow> p \<in> set (v_dirs v)"

definition path_exists :: "volume \<Rightarrow> string \<Rightarrow> bool" where
  "path_exists v p \<longleftrightarrow> file_at v p \<noteq> None \<or> is_directory v p"

definition unlink_name :: "string \<Rightarrow> volume \<Rightarrow> volume" where
  "unlink_name p v = v\<lparr>v_files := od_pop p (v_files v)\<rparr>"

definition link_name :: "string \<Rightarrow> nat \<Rightarrow> volume \<Rightarrow> volume" where
  "link_name p i v = v\<lparr>v_files := od_set p i (v_files v)\<rparr>"

definition new_file :: "string \<Rightarrow> body \<Rightarrow> volume \<Rightarrow> volume" where
  "new_file p b v =
     v\<lparr>v_files := od_set p (v_next v) (v_files v), v_bodies := (v_bodies v)(v_next v := b), v_next := Suc (v_next v)\<rparr>"

text \<open>\<open>mkdir(parents=True, exist_ok=True)\<close>.\<close>

fun ancestors :: "nat \<Rightarrow> string \<Rightarrow> string list" where
  "ancestors 0 p = []"
| "ancestors (Suc n) p = p # (if path_parent p = p then [] else ancestors n (path_parent p))"

definition make_dirs :: "string \<Rightarrow> volume \<Rightarrow> volume" where
  "make_dirs p v =
     v\<lparr>v_dirs := v_dirs v @ filter (\<lambda>d. d \<notin> set (v_dirs v)) (rev (ancestors (Suc (length (path_parts p))) p))\<rparr>"

definition volume_ok :: "volume \<Rightarrow> bool" where
  "volume_ok v \<longleftrightarrow> distinct (map fst (v_files v)) \<and> (\<forall>(p, i) \<in> set (v_files v). i < v_next v)"

section \<open>System calls\<close>

datatype os_error =
    Enoent
  | Eexist
  | Exdev
  | Eisdir
  | Eperm
  | Emlink
  | Os_error string
  | Not_enough_space
  | Transfer_error
  | No_free_name

record io =
  io_real :: "string \<Rightarrow> string"
  io_free :: "string \<Rightarrow> int"
  io_rename :: "string \<Rightarrow> string \<Rightarrow> os_error option"
  io_link :: "string \<Rightarrow> string \<Rightarrow> os_error option"
  io_copy :: "string \<Rightarrow> body \<Rightarrow> os_error + body"
  io_promote :: "string \<Rightarrow> os_error option"
  io_unlink :: "string \<Rightarrow> os_error option"

definition os_replace :: "io \<Rightarrow> string \<Rightarrow> string \<Rightarrow> volume \<Rightarrow> volume \<times> os_error option" where
  "os_replace e src dst v =
     (case file_at v src of
        None \<Rightarrow> (v, Some Enoent)
      | Some i \<Rightarrow>
          if file_at v dst = Some i then (v, None)
          else if is_directory v dst then (v, Some Eisdir)
          else (case io_rename e src dst of
                  Some err \<Rightarrow> (v, Some err)
                | None \<Rightarrow> (link_name dst i (unlink_name src v), None)))"

definition os_link :: "io \<Rightarrow> string \<Rightarrow> string \<Rightarrow> volume \<Rightarrow> volume \<times> os_error option" where
  "os_link e src dst v =
     (case file_at v src of
        None \<Rightarrow> (v, Some Enoent)
      | Some i \<Rightarrow>
          if path_exists v dst then (v, Some Eexist)
          else (case io_link e src dst of
                  Some err \<Rightarrow> (v, Some err)
                | None \<Rightarrow> (link_name dst i v, None)))"

definition os_unlink :: "io \<Rightarrow> string \<Rightarrow> volume \<Rightarrow> volume \<times> os_error option" where
  "os_unlink e p v =
     (case file_at v p of
        None \<Rightarrow> (v, Some Enoent)
      | Some _ \<Rightarrow> (case io_unlink e p of Some err \<Rightarrow> (v, Some err) | None \<Rightarrow> (unlink_name p v, None)))"

text \<open>\<open>_suppress_missing\<close>: only a missing file is forgiven.\<close>

definition suppress_missing :: "volume \<times> os_error option \<Rightarrow> volume \<times> os_error option" where
  "suppress_missing r = (case r of (v, Some Enoent) \<Rightarrow> (v, None) | _ \<Rightarrow> r)"

section \<open>Placing a file\<close>

datatype transfer_mode = Move | Copy | Hardlink

definition copy_verify_delete :: "io \<Rightarrow> string \<Rightarrow> string \<Rightarrow> bool \<Rightarrow> volume \<Rightarrow> volume \<times> os_error option" where
  "copy_verify_delete e src dst delete_source v =
     (case body_at v src of
        None \<Rightarrow> (v, Some Enoent)
      | Some b \<Rightarrow>
          (case io_copy e src b of
             Inl err \<Rightarrow> (v, Some err)
           | Inr copied \<Rightarrow>
               if bd_size copied \<noteq> bd_size b then (v, Some Transfer_error)
               else (case if is_directory v dst then Some Eisdir else io_promote e dst of
                       Some err \<Rightarrow> (v, Some err)
                     | None \<Rightarrow>
                         (let placed = new_file dst copied v
                          in if delete_source then suppress_missing (os_unlink e src placed)
                             else (placed, None)))))"

definition free_space_ok :: "io \<Rightarrow> string \<Rightarrow> int \<Rightarrow> int \<Rightarrow> bool" where
  "free_space_ok e dir needed margin \<longleftrightarrow> needed + margin \<le> io_free e dir"

definition move_file :: "io \<Rightarrow> string \<Rightarrow> string \<Rightarrow> volume \<Rightarrow> volume \<times> os_error option" where
  "move_file e src dst v =
     (case os_replace e src dst v of
        (v', Some Exdev) \<Rightarrow> copy_verify_delete e src dst True v'
      | r \<Rightarrow> r)"

definition hardlink_file :: "io \<Rightarrow> string \<Rightarrow> string \<Rightarrow> volume \<Rightarrow> volume \<times> os_error option" where
  "hardlink_file e src dst v =
     (case os_link e src dst v of
        (v', None) \<Rightarrow> (v', None)
      | (v', Some err) \<Rightarrow>
          if err \<in> {Exdev, Eperm, Emlink} then copy_verify_delete e src dst False v' else (v', Some err))"

definition place_file :: "io \<Rightarrow> transfer_mode \<Rightarrow> int \<Rightarrow> string \<Rightarrow> string \<Rightarrow> volume \<Rightarrow> volume \<times> os_error option" where
  "place_file e mode margin src dst v =
     (let v = make_dirs (path_parent dst) v
      in case body_at v src of
           None \<Rightarrow> (v, Some Enoent)
         | Some b \<Rightarrow>
             if \<not> free_space_ok e (path_parent dst) (bd_size b) margin then (v, Some Not_enough_space)
             else (case mode of
                     Hardlink \<Rightarrow> hardlink_file e src dst v
                   | Copy \<Rightarrow> copy_verify_delete e src dst False v
                   | Move \<Rightarrow> move_file e src dst v))"

section \<open>Disposal\<close>

text \<open>\<open>Path(name).suffix\<close> and \<open>Path(name).stem\<close>.\<close>

definition name_suffix :: "string \<Rightarrow> string" where
  "name_suffix n =
     (let ext = rev (takeWhile (\<lambda>c. c \<noteq> CHR ''.'') (rev n))
      in if ext \<noteq> [] \<and> length ext + 1 < length n then CHR ''.'' # ext else [])"

definition name_stem :: "string \<Rightarrow> string" where
  "name_stem n = take (length n - length (name_suffix n)) n"

text \<open>\<open>date.isoformat()\<close>.\<close>

fun month_day :: "int \<Rightarrow> int list \<Rightarrow> int \<Rightarrow> int \<times> int" where
  "month_day m [] d = (m, d + 1)"
| "month_day m (l # ls) d = (if d < l then (m, d + 1) else month_day (m + 1) ls (d - l))"

definition iso_date :: "date \<Rightarrow> string" where
  "iso_date d =
     (let y = year_of_date d; (m, dd) = month_day 1 (month_lengths y) (d - jan1 y)
      in zfill 4 (show_int y) @ ''-'' @ zfill 2 (show_int m) @ ''-'' @ zfill 2 (show_int dd))"

definition RECYCLE_BIN_MARKER :: string where "RECYCLE_BIN_MARKER = ''.foragerr-recycle-bin''"

text \<open>The names tried for a file in its dated folder: the plain one, then with a counter.\<close>

definition slot_name :: "string \<Rightarrow> nat \<Rightarrow> string" where
  "slot_name name n = (if n = 0 then name else name_stem name @ ''.'' @ show_nat n @ name_suffix name)"

fun first_slot :: "nat \<Rightarrow> (nat \<Rightarrow> confinement_error + string) \<Rightarrow> (string \<Rightarrow> bool) \<Rightarrow> nat \<Rightarrow> (confinement_error + string) option" where
  "first_slot 0 slot taken n = None"
| "first_slot (Suc fuel) slot taken n =
     (case slot n of
        Inl err \<Rightarrow> Some (Inl err)
      | Inr p \<Rightarrow> if taken p then first_slot fuel slot taken (Suc n) else Some (Inr p))"

datatype file_error = Os os_error | Confined confinement_error

definition move_into_dated_dir ::
  "io \<Rightarrow> string \<Rightarrow> string \<Rightarrow> date \<Rightarrow> volume \<Rightarrow> volume \<times> (file_error + string)" where
  "move_into_dated_dir e src dir today v =
     (let slot = (\<lambda>n. safe_join (io_real e) dir [iso_date today, slot_name (path_name src) n]);
          v1 = (case slot 0 of Inl _ \<Rightarrow> v | Inr p \<Rightarrow> make_dirs (path_parent (io_real e p)) v)
      in case first_slot (Suc (Suc (length (v_files v1) + length (v_dirs v1)))) slot
             (\<lambda>p. path_exists v1 (io_real e p)) 0 of
           None \<Rightarrow> (v1, Inl (Os No_free_name))
         | Some (Inl err) \<Rightarrow> (v1, Inl (Confined err))
         | Some (Inr p) \<Rightarrow>
             (case move_file e (io_real e src) (io_real e p) v1 of
                (v', Some err) \<Rightarrow> (v', Inl (Os err))
              | (v', None) \<Rightarrow> (v', Inr p)))"

definition mark_recycle_bin :: "io \<Rightarrow> string \<Rightarrow> volume \<Rightarrow> volume" where
  "mark_recycle_bin e dir v =
     (let v = make_dirs (io_real e dir) v; marker = io_real e (path_join dir RECYCLE_BIN_MARKER)
      in if path_exists v marker then v else new_file marker \<lparr>bd_size = 0, bd_data = []\<rparr> v)"

definition recycle_file :: "io \<Rightarrow> string \<Rightarrow> string \<Rightarrow> date \<Rightarrow> volume \<Rightarrow> volume \<times> (file_error + string)" where
  "recycle_file e src dir today v = move_into_dated_dir e src dir today (mark_recycle_bin e dir v)"

definition dump_file :: "io \<Rightarrow> string \<Rightarrow> string \<Rightarrow> date \<Rightarrow> volume \<Rightarrow> volume \<times> (file_error + string)" where
  "dump_file = move_into_dated_dir"

section \<open>Emptied directories\<close>

definition DEFAULT_JUNK_NAMES :: "string list" where
  "DEFAULT_JUNK_NAMES = [''.ds_store'', ''thumbs.db'', ''desktop.ini'', ''.directory'']"

definition files_in :: "volume \<Rightarrow> string \<Rightarrow> string list" where
  "files_in v d = filter (\<lambda>p. path_parent p = d \<and> p \<noteq> d) (map fst (v_files v))"

definition dirs_in :: "volume \<Rightarrow> string \<Rightarrow> string list" where
  "dirs_in v d = filter (\<lambda>p. path_parent p = d \<and> p \<noteq> d) (v_dirs v)"

fun unlink_all :: "io \<Rightarrow> string list \<Rightarrow> volume \<Rightarrow> volume \<times> os_error option" where
  "unlink_all e [] v = (v, None)"
| "unlink_all e (p # ps) v =
     (case suppress_missing (os_unlink e p v) of
        (v', None) \<Rightarrow> unlink_all e ps v'
      | (v', Some err) \<Rightarrow> (v', Some err))"

text \<open>
  The walk upwards ends at the stop directory, at a directory that still holds something, or at the
  top; a path has no more ancestors than parts, which bounds it.
\<close>

fun cleanup_walk :: "nat \<Rightarrow> io \<Rightarrow> string \<Rightarrow> string \<Rightarrow> volume \<Rightarrow> volume \<times> os_error option" where
  "cleanup_walk 0 e cur stop v = (v, None)"
| "cleanup_walk (Suc fuel) e cur stop v =
     (if cur = stop \<or> stop \<notin> set (tl (ancestors (Suc (length (path_parts cur))) cur)) then (v, None)
      else if \<not> is_directory v cur then cleanup_walk fuel e (path_parent cur) stop v
      else if dirs_in v cur \<noteq> [] \<or>
          list_ex (\<lambda>p. str_lower (path_name p) \<notin> set DEFAULT_JUNK_NAMES) (files_in v cur) then (v, None)
      else (case unlink_all e (files_in v cur) v of
              (v', Some err) \<Rightarrow> (v', Some err)
            | (v', None) \<Rightarrow>
                cleanup_walk fuel e (path_parent cur) stop (v'\<lparr>v_dirs := filter (\<lambda>d. d \<noteq> cur) (v_dirs v')\<rparr>)))"

definition cleanup_empty_dirs :: "io \<Rightarrow> string \<Rightarrow> string \<Rightarrow> volume \<Rightarrow> volume \<times> os_error option" where
  "cleanup_empty_dirs e start_dir stop_root v =
     (let cur = io_real e start_dir in cleanup_walk (Suc (length (path_parts cur))) e cur (io_real e stop_root) v)"

section \<open>What survives\<close>

text \<open>
  \<open>keeps D v v'\<close>: the volume is still well formed, and every body that had a name outside \<open>D\<close> still
  has a name.
\<close>

definition keeps :: "string set \<Rightarrow> volume \<Rightarrow> volume \<Rightarrow> bool" where
  "keeps D v v' \<longleftrightarrow> volume_ok v' \<and>
     (\<forall>p b. p \<notin> D \<longrightarrow> body_at v p = Some b \<longrightarrow> (\<exists>q. q \<notin> D \<and> body_at v' q = Some b))"

definition faithful_copies :: "io \<Rightarrow> bool" where
  "faithful_copies e \<longleftrightarrow> (\<forall>src b b'. io_copy e src b = Inr b' \<longrightarrow> bd_size b' = bd_size b \<longrightarrow> b' = b)"

text \<open>An honest file system also reports a missing file only for one that is missing.\<close>

definition honest_io :: "io \<Rightarrow> bool" where
  "honest_io e \<longleftrightarrow> faithful_copies e \<and> (\<forall>p. io_unlink e p \<noteq> Some Enoent)"

lemma file_at_simps [simp]:
  "file_at (unlink_name p v) q = (if q = p then None else file_at v q)"
  "file_at (link_name p i v) q = (if q = p then Some i else file_at v q)"
  "file_at (new_file p b v) q = (if q = p then Some (v_next v) else file_at v q)"
  "file_at (make_dirs d v) q = file_at v q"
  by (simp_all add: file_at_def unlink_name_def link_name_def new_file_def make_dirs_def od_lookup)

lemma v_bodies_simps [simp]:
  "v_bodies (unlink_name p v) = v_bodies v"
  "v_bodies (link_name p i v) = v_bodies v"
  "v_bodies (new_file p b v) = (v_bodies v)(v_next v := b)"
  "v_bodies (make_dirs d v) = v_bodies v"
  by (simp_all add: unlink_name_def link_name_def new_file_def make_dirs_def)

lemma file_at_fresh: "volume_ok v \<Longrightarrow> file_at v p = Some i \<Longrightarrow> i < v_next v"
  by (auto simp: volume_ok_def file_at_def dest!: map_of_SomeD)

lemma body_at_new_file [simp]:
  assumes "volume_ok v"
  shows "body_at (new_file p b v) q = (if q = p then Some b else body_at v q)"
proof (cases "file_at v q")
  case (Some i)
  with file_at_fresh [OF assms Some] show ?thesis by (simp add: body_at_def)
qed (simp add: body_at_def)

lemma body_at_make_dirs [simp]: "body_at (make_dirs d v) q = body_at v q"
  by (simp add: body_at_def)

lemma in_od_set: "y \<in> set (od_set k x d) \<Longrightarrow> y = (k, x) \<or> y \<in> set d"
proof (induction d)
  case (Cons z d)
  then show ?case by (cases z) (auto split: if_splits)
qed simp

lemma volume_ok_dirs [simp]: "volume_ok (v\<lparr>v_dirs := ds\<rparr>) = volume_ok v"
  by (simp add: volume_ok_def)

lemma volume_ok_make_dirs [simp]: "volume_ok (make_dirs d v) = volume_ok v"
  by (simp add: make_dirs_def)

lemma volume_ok_unlink [simp]: "volume_ok v \<Longrightarrow> volume_ok (unlink_name p v)"
  by (auto simp: volume_ok_def unlink_name_def od_distinct set_od_pop)

lemma volume_ok_link [simp]: "volume_ok v \<Longrightarrow> i < v_next v \<Longrightarrow> volume_ok (link_name p i v)"
  by (auto simp: volume_ok_def link_name_def od_distinct dest!: in_od_set)

lemma volume_ok_new_file [simp]: "volume_ok v \<Longrightarrow> volume_ok (new_file p b v)"
  by (auto simp: volume_ok_def new_file_def od_distinct less_Suc_eq dest!: in_od_set)

lemma keeps_same: "volume_ok v' \<Longrightarrow> (\<And>p. p \<notin> D \<Longrightarrow> body_at v' p = body_at v p) \<Longrightarrow> keeps D v v'"
  by (metis keeps_def)

lemma keeps_refl [simp]: "volume_ok v \<Longrightarrow> keeps D v v"
  by (rule keeps_same) simp_all

lemma keeps_trans: "keeps D v v' \<Longrightarrow> keeps D v' v'' \<Longrightarrow> keeps D v v''"
  unfolding keeps_def by metis

lemma keeps_ok: "keeps D v v' \<Longrightarrow> volume_ok v'"
  by (simp add: keeps_def)

lemma keeps_dirs [simp]: "volume_ok v \<Longrightarrow> keeps D v (make_dirs d v)"
  by (rule keeps_same) simp_all

lemma keeps_new_file:
  assumes "volume_ok v" and "body_at v p = None \<or> body_at v p = Some b"
  shows "keeps D v (new_file p b v)"
  unfolding keeps_def
proof (intro conjI allI impI)
  show "volume_ok (new_file p b v)" using assms(1) by simp
  fix x c assume x: "x \<notin> D" "body_at v x = Some c"
  with assms have "body_at (new_file p b v) x = Some c" by auto
  with x(1) show "\<exists>q. q \<notin> D \<and> body_at (new_file p b v) q = Some c" by blast
qed

lemma body_at_unlink [simp]: "body_at (unlink_name p v) q = (if q = p then None else body_at v q)"
  by (simp add: body_at_def)

lemma body_at_link [simp]:
  "body_at (link_name p i v) q = (if q = p then Some (v_bodies v i) else body_at v q)"
  by (simp add: body_at_def)

text \<open>Once a file stands at a path, giving up another name of it loses nothing.\<close>

lemma keeps_unlink_copy:
  assumes "volume_ok v" and "body_at v q = body_at v p" and "q \<noteq> p" and "q \<notin> D"
  shows "keeps D v (unlink_name p v)"
  unfolding keeps_def
proof (intro conjI allI impI)
  show "volume_ok (unlink_name p v)" using assms(1) by simp
  fix x b assume x: "x \<notin> D" "body_at v x = Some b"
  then have "body_at (unlink_name p v) (if x = p then q else x) = Some b" using assms(2,3) by auto
  with x(1) assms(4) show "\<exists>y. y \<notin> D \<and> body_at (unlink_name p v) y = Some b"
    by (intro exI [of _ "if x = p then q else x"]) simp
qed

lemma keeps_unlink_in: "volume_ok v \<Longrightarrow> p \<in> D \<Longrightarrow> keeps D v (unlink_name p v)"
  by (rule keeps_same) auto

lemma keeps_link:
  assumes "volume_ok v" and "file_at v q = Some i" and "body_at v p = None \<or> body_at v p = body_at v q"
  shows "keeps D v (link_name p i v)"
  unfolding keeps_def
proof (intro conjI allI impI)
  show "volume_ok (link_name p i v)" using assms(1,2) by (simp add: file_at_fresh)
  fix x c assume x: "x \<notin> D" "body_at v x = Some c"
  have "body_at v q = Some (v_bodies v i)" using assms(2) by (simp add: body_at_def)
  with x assms(3) have "body_at (link_name p i v) x = Some c" by auto
  with x(1) show "\<exists>y. y \<notin> D \<and> body_at (link_name p i v) y = Some c" by blast
qed

text \<open>A destination is free for a body when it holds nothing or already that body.\<close>

definition has_room :: "volume \<Rightarrow> string \<Rightarrow> string \<Rightarrow> bool" where
  "has_room v src dst \<longleftrightarrow> body_at v dst = None \<or> body_at v dst = body_at v src"

lemma os_replace_keeps:
  assumes "volume_ok v" and "has_room v src dst" and "dst \<notin> D"
  shows "keeps D v (fst (os_replace e src dst v))"
proof (cases "file_at v src")
  case (Some i)
  have src: "body_at v src = Some (v_bodies v i)" using Some by (simp add: body_at_def)
  have moved: "keeps D v (link_name dst i (unlink_name src v))" if "dst \<noteq> src"
    unfolding keeps_def
  proof (intro conjI allI impI)
    show "volume_ok (link_name dst i (unlink_name src v))"
      using assms(1) file_at_fresh [OF assms(1) Some] by (simp add: unlink_name_def [of _ v] volume_ok_def
          link_name_def od_distinct split_beta set_od_pop) (auto dest!: in_od_set simp: set_od_pop)
    fix x c assume x: "x \<notin> D" "body_at v x = Some c"
    then have "body_at (link_name dst i (unlink_name src v)) (if x = src then dst else x) = Some c"
      using src that assms(2) by (auto simp: has_room_def)
    with x(1) assms(3) show "\<exists>y. y \<notin> D \<and> body_at (link_name dst i (unlink_name src v)) y = Some c"
      by (intro exI [of _ "if x = src then dst else x"]) simp
  qed
  have "dst \<noteq> src" if "file_at v dst \<noteq> Some i" using that Some by auto
  with Some moved assms(1) show ?thesis by (auto simp: os_replace_def split: option.split)
qed (use assms(1) in \<open>simp add: os_replace_def\<close>)

lemma suppress_missing_fst [simp]: "fst (suppress_missing r) = fst r"
  by (cases r) (auto simp: suppress_missing_def split: option.split os_error.split)

lemma os_unlink_keeps:
  assumes "volume_ok v" and "p \<in> D \<or> q \<noteq> p \<and> q \<notin> D \<and> body_at v q = body_at v p"
  shows "keeps D v (fst (os_unlink e p v))"
  using assms keeps_unlink_in keeps_unlink_copy
  by (auto simp: os_unlink_def split: option.split)

lemma copy_keeps:
  assumes "volume_ok v" and "faithful_copies e" and "has_room v src dst" and "dst \<notin> D"
    and "delete_source \<Longrightarrow> src \<noteq> dst"
  shows "keeps D v (fst (copy_verify_delete e src dst delete_source v))"
proof (cases "\<exists>b c. body_at v src = Some b \<and> io_copy e src b = Inr c \<and> bd_size c = bd_size b \<and> io_promote e dst = None \<and>
    \<not> is_directory v dst")
  case False
  then have "fst (copy_verify_delete e src dst delete_source v) = v"
    by (auto simp: copy_verify_delete_def split: option.split sum.split)
  with assms(1) show ?thesis by simp
next
  case True
  then obtain b where b: "body_at v src = Some b" "io_copy e src b = Inr b" "io_promote e dst = None" "\<not> is_directory v dst"
    using assms(2) unfolding faithful_copies_def by metis
  have placed: "keeps D v (new_file dst b v)"
    using assms(1,3) b(1) by (auto simp: has_room_def intro: keeps_new_file)
  have "keeps D (new_file dst b v) (fst (os_unlink e src (new_file dst b v)))" if delete_source
    using assms(1,4) assms(5) [OF that] b(1) by (intro os_unlink_keeps [where q = dst]) auto
  with keeps_trans [OF placed this] placed b show ?thesis
    by (simp add: copy_verify_delete_def Let_def)
qed

lemma move_keeps:
  assumes "volume_ok v" and "faithful_copies e" and "has_room v src dst" and "dst \<notin> D"
  shows "keeps D v (fst (move_file e src dst v))"
proof (cases "os_replace e src dst v")
  case (Pair v' r)
  show ?thesis
  proof (cases "r = Some Exdev")
    case True
    with Pair have "v' = v" "src \<noteq> dst"
      by (auto simp: os_replace_def split: option.splits if_splits)
    with Pair True copy_keeps [OF assms] show ?thesis by (simp add: move_file_def)
  next
    case False
    with Pair os_replace_keeps [OF assms(1,3,4), of e] show ?thesis
      by (auto simp: move_file_def split: option.split os_error.split)
  qed
qed

lemma os_link_keeps:
  assumes "volume_ok v"
  shows "keeps D v (fst (os_link e src dst v))"
  using assms by (auto simp: os_link_def path_exists_def body_at_def split: option.split intro!: keeps_link [where q = src])

lemma hardlink_keeps:
  assumes "volume_ok v" and "faithful_copies e" and "has_room v src dst" and "dst \<notin> D"
  shows "keeps D v (fst (hardlink_file e src dst v))"
proof -
  obtain v' r where r: "os_link e src dst v = (v', r)" by force
  show ?thesis
  proof (cases r)
    case None
    with r os_link_keeps [OF assms(1), of D e src dst] show ?thesis by (simp add: hardlink_file_def)
  next
    case (Some err)
    with r have "v' = v" by (auto simp: os_link_def split: option.splits if_splits)
    with r Some copy_keeps [OF assms, of False] assms(1) show ?thesis by (simp add: hardlink_file_def)
  qed
qed

lemma place_keeps:
  assumes "volume_ok v" and "faithful_copies e" and "has_room v src dst" and "dst \<notin> D"
  shows "keeps D v (fst (place_file e mode margin src dst v))"
proof -
  let ?v = "make_dirs (path_parent dst) v"
  have ok: "volume_ok ?v" and room: "has_room ?v src dst" using assms(1,3) by (simp_all add: has_room_def)
  have "keeps D ?v (fst (place_file e mode margin src dst v))"
    using hardlink_keeps [OF ok assms(2) room assms(4)] copy_keeps [OF ok assms(2) room assms(4), of False]
      move_keeps [OF ok assms(2) room assms(4)] ok
    by (cases mode) (simp_all add: place_file_def Let_def split: option.split)
  with keeps_trans [OF keeps_dirs [OF assms(1)]] show ?thesis by blast
qed

lemma move_clears_source:
  assumes "move_file e src dst v = (v', None)" and "file_at v dst = None" and "io_unlink e src \<noteq> Some Enoent"
  shows "body_at v' src = None"
proof -
  obtain u r where r: "os_replace e src dst v = (u, r)" by force
  show ?thesis
  proof (cases "r = Some Exdev")
    case True
    with r have "u = v" by (auto simp: os_replace_def split: option.splits if_splits)
    with assms r True have c: "copy_verify_delete e src dst True v = (v', None)" by (simp add: move_file_def)
    then obtain w where "suppress_missing (os_unlink e src w) = (v', None)"
      by (auto simp: copy_verify_delete_def Let_def split: option.splits sum.splits if_splits)
    with assms(3) show ?thesis
      by (auto simp: suppress_missing_def os_unlink_def body_at_def split: option.splits os_error.splits prod.splits)
  next
    case False
    with assms(1) r have "os_replace e src dst v = (v', None)"
      by (cases r) (auto simp: move_file_def split: os_error.splits)
    with assms(2) show ?thesis
      by (auto simp: os_replace_def body_at_def split: option.splits if_splits)
  qed
qed

lemma first_slot_free:
  "first_slot fuel slot taken n = Some (Inr p) \<Longrightarrow> \<not> taken p \<and> (\<exists>m. slot m = Inr p)"
  by (induction fuel slot taken n rule: first_slot.induct) (auto split: sum.split_asm if_split_asm)

text \<open>The paths a disposal may write: inside the folder it is given.\<close>

definition shut_out :: "io \<Rightarrow> string \<Rightarrow> string set \<Rightarrow> bool" where
  "shut_out e dir D \<longleftrightarrow> (\<forall>p. is_within (io_real e dir) (io_real e p) \<longrightarrow> io_real e p \<notin> D)"

lemma slot_within: "safe_join rp dir parts = Inr p \<Longrightarrow> is_within (rp dir) (rp p)"
  by (auto simp: safe_join_def Let_def split: if_splits)

lemma dated_dir_keeps:
  assumes "volume_ok v" and "faithful_copies e" and "shut_out e dir D"
  shows "keeps D v (fst (move_into_dated_dir e src dir today v))"
proof -
  let ?slot = "\<lambda>n. safe_join (io_real e) dir [iso_date today, slot_name (path_name src) n]"
  let ?v = "case ?slot 0 of Inl _ \<Rightarrow> v | Inr p \<Rightarrow> make_dirs (path_parent (io_real e p)) v"
  let ?first = "first_slot (Suc (Suc (length (v_files ?v) + length (v_dirs ?v)))) ?slot
             (\<lambda>p. path_exists ?v (io_real e p)) 0"
  have ok: "volume_ok ?v" and kept: "keeps D v ?v" using assms(1) by (simp_all split: sum.split)
  have "keeps D ?v (fst (move_file e (io_real e src) (io_real e p) ?v))" if "?first = Some (Inr p)" for p
  proof (rule move_keeps [OF ok assms(2)])
    from first_slot_free [OF that] obtain m where m: "\<not> path_exists ?v (io_real e p)" "?slot m = Inr p" by blast
    then show "has_room ?v (io_real e src) (io_real e p)" by (simp add: has_room_def path_exists_def body_at_def)
    from slot_within [OF m(2)] assms(3) show "io_real e p \<notin> D" by (simp add: shut_out_def)
  qed
  note moved = keeps_trans [OF kept this]
  have "fst (move_into_dated_dir e src dir today v) = ?v \<or>
      (\<exists>p. ?first = Some (Inr p) \<and>
        fst (move_into_dated_dir e src dir today v) = fst (move_file e (io_real e src) (io_real e p) ?v))"
    unfolding move_into_dated_dir_def Let_def by (auto split: option.split sum.split prod.split)
  with moved kept show ?thesis by metis
qed

lemma dated_dir_clears:
  assumes "move_into_dated_dir e src dir today v = (v', Inr p)" and "\<forall>x. io_unlink e x \<noteq> Some Enoent"
  shows "body_at v' (io_real e src) = None"
proof -
  let ?slot = "\<lambda>n. safe_join (io_real e) dir [iso_date today, slot_name (path_name src) n]"
  let ?v = "case ?slot 0 of Inl _ \<Rightarrow> v | Inr p \<Rightarrow> make_dirs (path_parent (io_real e p)) v"
  from assms(1) have
    "first_slot (Suc (Suc (length (v_files ?v) + length (v_dirs ?v)))) ?slot (\<lambda>p. path_exists ?v (io_real e p)) 0 = Some (Inr p)"
    and m: "move_file e (io_real e src) (io_real e p) ?v = (v', None)"
    unfolding move_into_dated_dir_def Let_def by (auto split: option.splits sum.splits prod.splits)
  from first_slot_free [OF this(1)] have "file_at ?v (io_real e p) = None" by (simp add: path_exists_def)
  from move_clears_source [OF m this] assms(2) show ?thesis by blast
qed

lemma mark_keeps: "volume_ok v \<Longrightarrow> keeps D v (mark_recycle_bin e dir v)"
  by (auto simp: mark_recycle_bin_def Let_def path_exists_def body_at_def
      intro: keeps_trans [OF keeps_dirs keeps_new_file])

lemma recycle_keeps:
  assumes "volume_ok v" and "faithful_copies e" and "shut_out e dir D"
  shows "keeps D v (fst (recycle_file e src dir today v))"
  using mark_keeps [OF assms(1), of D e dir] dated_dir_keeps [OF _ assms(2,3)]
  by (metis keeps_ok keeps_trans recycle_file_def)

section \<open>What is never touched\<close>

text \<open>\<open>spares S v v'\<close>: the volume is still well formed, and the paths of \<open>S\<close> hold what they held.\<close>

definition spares :: "string set \<Rightarrow> volume \<Rightarrow> volume \<Rightarrow> bool" where
  "spares S v v' \<longleftrightarrow> volume_ok v' \<and> (\<forall>p \<in> S. body_at v' p = body_at v p)"

lemma spares_refl [simp]: "volume_ok v \<Longrightarrow> spares S v v"
  by (simp add: spares_def)

lemma spares_trans: "spares S v v' \<Longrightarrow> spares S v' v'' \<Longrightarrow> spares S v v''"
  by (simp add: spares_def)

lemma spares_ok: "spares S v v' \<Longrightarrow> volume_ok v'"
  by (simp add: spares_def)

lemma spares_dirs [simp]: "volume_ok v \<Longrightarrow> spares S v (make_dirs d v)"
  by (simp add: spares_def)

lemma spares_new_file: "volume_ok v \<Longrightarrow> p \<notin> S \<Longrightarrow> spares S v (new_file p b v)"
  by (auto simp: spares_def)

lemma spares_unlink: "volume_ok v \<Longrightarrow> p \<notin> S \<Longrightarrow> spares S v (fst (os_unlink e p v))"
  by (auto simp: spares_def os_unlink_def split: option.split)

lemma spares_link: "volume_ok v \<Longrightarrow> file_at v q = Some i \<Longrightarrow> p \<notin> S \<Longrightarrow> spares S v (link_name p i v)"
  by (auto simp: spares_def file_at_fresh)

lemma spares_replace:
  assumes "volume_ok v" and "src \<notin> S" and "dst \<notin> S"
  shows "spares S v (fst (os_replace e src dst v))"
proof (cases "file_at v src")
  case (Some i)
  have "volume_ok (link_name dst i (unlink_name src v))"
    using assms(1) file_at_fresh [OF assms(1) Some] by (simp add: unlink_name_def [of _ v] volume_ok_def
        link_name_def od_distinct split_beta set_od_pop) (auto dest!: in_od_set simp: set_od_pop)
  with Some assms show ?thesis by (auto simp: os_replace_def spares_def split: option.split)
qed (use assms(1) in \<open>simp add: os_replace_def\<close>)

lemma spares_copy:
  assumes "volume_ok v" and "delete_source \<Longrightarrow> src \<notin> S" and "dst \<notin> S"
  shows "spares S v (fst (copy_verify_delete e src dst delete_source v))"
proof -
  have "spares S v (fst (os_unlink e src (new_file dst b v)))" if delete_source for b
    using spares_trans [OF spares_new_file [OF assms(1,3)] spares_unlink [OF _ assms(2) [OF that]]] assms(1) by simp
  with spares_new_file [OF assms(1,3)] assms(1) show ?thesis
    by (auto simp: copy_verify_delete_def Let_def split: option.split sum.split)
qed

lemma spares_move:
  assumes "volume_ok v" and "src \<notin> S" and "dst \<notin> S"
  shows "spares S v (fst (move_file e src dst v))"
proof -
  obtain u r where r: "os_replace e src dst v = (u, r)" by force
  with spares_replace [OF assms, of e] have u: "spares S v u" by simp
  from spares_trans [OF u spares_copy [OF spares_ok [OF u] assms(2,3)]] u r show ?thesis
    by (auto simp: move_file_def split: option.split os_error.split)
qed

lemma spares_place:
  assumes "volume_ok v" and "mode = Move \<Longrightarrow> src \<notin> S" and "dst \<notin> S"
  shows "spares S v (fst (place_file e mode margin src dst v))"
proof -
  let ?v = "make_dirs (path_parent dst) v"
  have ok: "volume_ok ?v" using assms(1) by simp
  have hard: "spares S ?v (fst (hardlink_file e src dst ?v))"
  proof -
    obtain u r where r: "os_link e src dst ?v = (u, r)" by force
    have u: "spares S ?v u"
      using r ok assms(3) by (auto simp: os_link_def split: option.splits if_splits intro: spares_link)
    from spares_trans [OF u spares_copy [OF spares_ok [OF u] _ assms(3)]] u r show ?thesis
      by (auto simp: hardlink_file_def split: option.split)
  qed
  have "spares S ?v (fst (place_file e mode margin src dst v))"
    using hard spares_copy [OF ok _ assms(3), of False] spares_move [OF ok assms(2) assms(3)] ok
    by (cases mode) (simp_all add: place_file_def Let_def split: option.split)
  with spares_trans [OF spares_dirs [OF assms(1)]] show ?thesis by blast
qed

lemma spares_dated_dir:
  assumes "volume_ok v" and "shut_out e dir S" and "io_real e src \<notin> S"
  shows "spares S v (fst (move_into_dated_dir e src dir today v))"
proof -
  let ?slot = "\<lambda>n. safe_join (io_real e) dir [iso_date today, slot_name (path_name src) n]"
  let ?v = "case ?slot 0 of Inl _ \<Rightarrow> v | Inr p \<Rightarrow> make_dirs (path_parent (io_real e p)) v"
  let ?first = "first_slot (Suc (Suc (length (v_files ?v) + length (v_dirs ?v)))) ?slot
             (\<lambda>p. path_exists ?v (io_real e p)) 0"
  have ok: "volume_ok ?v" and kept: "spares S v ?v" using assms(1) by (simp_all split: sum.split)
  have "spares S ?v (fst (move_file e (io_real e src) (io_real e p) ?v))" if "?first = Some (Inr p)" for p
  proof -
    from first_slot_free [OF that] obtain m where "?slot m = Inr p" by blast
    from slot_within [OF this] assms(2) have "io_real e p \<notin> S" by (simp add: shut_out_def)
    from spares_move [OF ok assms(3) this] show ?thesis .
  qed
  note moved = spares_trans [OF kept this]
  have "fst (move_into_dated_dir e src dir today v) = ?v \<or>
      (\<exists>p. ?first = Some (Inr p) \<and>
        fst (move_into_dated_dir e src dir today v) = fst (move_file e (io_real e src) (io_real e p) ?v))"
    unfolding move_into_dated_dir_def Let_def by (auto split: option.split sum.split prod.split)
  with moved kept show ?thesis by metis
qed

lemma spares_recycle:
  assumes "volume_ok v" and "shut_out e dir S" and "io_real e src \<notin> S"
    and "io_real e (path_join dir RECYCLE_BIN_MARKER) \<notin> S"
  shows "spares S v (fst (recycle_file e src dir today v))"
proof -
  have m: "spares S v (mark_recycle_bin e dir v)"
    using assms(1,4) by (auto simp: mark_recycle_bin_def Let_def intro: spares_trans [OF spares_dirs spares_new_file])
  from spares_trans [OF m spares_dated_dir [OF spares_ok [OF m] assms(2,3)]] show ?thesis
    by (simp add: recycle_file_def)
qed

section \<open>What a cleanup removes\<close>

text \<open>Files that never keep a directory alive, in the directories below the stop root.\<close>

definition junk_below :: "string \<Rightarrow> string set" where
  "junk_below stop = {p. str_lower (path_name p) \<in> set DEFAULT_JUNK_NAMES \<and>
     (\<exists>n. stop \<in> set (ancestors n p))}"

lemma spares_unlink_all:
  "volume_ok v \<Longrightarrow> set ps \<inter> S = {} \<Longrightarrow> spares S v (fst (unlink_all e ps v))"
proof (induction ps arbitrary: v)
  case (Cons p ps)
  obtain v' r where r: "suppress_missing (os_unlink e p v) = (v', r)" by force
  have "p \<notin> S" "set ps \<inter> S = {}" using Cons.prems(2) by auto
  then have u: "spares S v v'" using spares_unlink [OF Cons.prems(1), of p S e] r by (metis fst_conv suppress_missing_fst)
  from Cons.IH [OF spares_ok [OF u] \<open>set ps \<inter> S = {}\<close>] spares_trans [OF u] u r show ?case
    by (auto split: option.split)
qed simp

lemma ancestors_up:
  "path_parent p = cur \<Longrightarrow> p \<noteq> cur \<Longrightarrow> stop \<in> set (ancestors n cur) \<Longrightarrow> stop \<in> set (ancestors (Suc n) p)"
  by auto

lemma set_tl_ancestors: "stop \<in> set (tl (ancestors n p)) \<Longrightarrow> stop \<in> set (ancestors n p)"
  by (cases "ancestors n p") auto

lemma spares_cleanup_walk:
  "volume_ok v \<Longrightarrow> spares (- junk_below stop) v (fst (cleanup_walk fuel e cur stop v))"
proof (induction fuel e cur stop v rule: cleanup_walk.induct)
  case (2 fuel e cur stop v)
  let ?junk = "\<lambda>p. str_lower (path_name p) \<in> set DEFAULT_JUNK_NAMES"
  show ?case
  proof (cases "cur = stop \<or> stop \<notin> set (tl (ancestors (Suc (length (path_parts cur))) cur))")
    case True
    with 2 show ?thesis by simp
  next
    case below: False
    show ?thesis
    proof (cases "is_directory v cur")
      case False
      with 2(1) [OF below False 2(3)] below show ?thesis by simp
    next
      case dir: True
      let ?hold = "dirs_in v cur \<noteq> [] \<or> list_ex (\<lambda>p. \<not> ?junk p) (files_in v cur)"
      show ?thesis
      proof (cases ?hold)
        case True
        with below dir 2(3) show ?thesis by simp
      next
        case empty: False
        obtain v' r where r: "unlink_all e (files_in v cur) v = (v', r)" by force
        have "set (files_in v cur) \<subseteq> junk_below stop"
        proof
          fix p assume p: "p \<in> set (files_in v cur)"
          then have "path_parent p = cur" "p \<noteq> cur" by (auto simp: files_in_def)
          moreover have "stop \<in> set (ancestors (Suc (length (path_parts cur))) cur)"
            using below set_tl_ancestors by blast
          ultimately have "stop \<in> set (ancestors (Suc (Suc (length (path_parts cur)))) p)" by (rule ancestors_up)
          moreover have "?junk p" using empty p by (auto simp: list_ex_iff)
          ultimately show "p \<in> junk_below stop" unfolding junk_below_def by blast
        qed
        then have "set (files_in v cur) \<inter> - junk_below stop = {}" by blast
        from spares_unlink_all [OF 2(3) this, of e] r have u: "spares (- junk_below stop) v v'" by simp
        show ?thesis
        proof (cases r)
          case (Some err)
          with below dir empty r u show ?thesis by simp
        next
          case None
          let ?w = "v'\<lparr>v_dirs := filter (\<lambda>d. d \<noteq> cur) (v_dirs v')\<rparr>"
          have same: "spares (- junk_below stop) v' ?w"
            using spares_ok [OF u] by (simp add: spares_def body_at_def file_at_def)
          have "spares (- junk_below stop) ?w (fst (cleanup_walk fuel e (path_parent cur) stop ?w))"
            using 2(2) [OF below] dir empty r None spares_ok [OF same] by simp
          from spares_trans [OF spares_trans [OF u same] this] below dir empty r None show ?thesis by simp
        qed
      qed
    qed
  qed
qed simp

lemma spares_cleanup:
  "volume_ok v \<Longrightarrow> spares (- junk_below (io_real e stop)) v (fst (cleanup_empty_dirs e start stop v))"
  by (simp add: cleanup_empty_dirs_def Let_def spares_cleanup_walk del: cleanup_walk.simps)

lemma spares_subset: "spares S v v' \<Longrightarrow> S' \<subseteq> S \<Longrightarrow> spares S' v v'"
  by (auto simp: spares_def)

lemma cleanup_keeps: "volume_ok v \<Longrightarrow> keeps (junk_below (io_real e stop)) v (fst (cleanup_empty_dirs e start stop v))"
  using spares_cleanup [of v e stop start] by (auto simp: spares_def intro: keeps_same)

section \<open>Whole or not at all\<close>

definition whole :: "volume \<Rightarrow> string \<Rightarrow> string \<Rightarrow> volume \<times> os_error option \<Rightarrow> bool" where
  "whole v src dst r \<longleftrightarrow>
     (case r of
        (v', None) \<Rightarrow> body_at v' dst = body_at v src
      | (v', Some _) \<Rightarrow> body_at v' src = body_at v src \<and> body_at v' dst \<in> {body_at v dst, body_at v src})"

lemma whole_failed [simp]: "whole v src dst (v, Some err)"
  by (simp add: whole_def)

lemma copy_whole:
  assumes "volume_ok v" and "faithful_copies e" and "delete_source \<Longrightarrow> src \<noteq> dst"
  shows "whole v src dst (copy_verify_delete e src dst delete_source v)"
proof (cases "\<exists>b c. body_at v src = Some b \<and> io_copy e src b = Inr c \<and> bd_size c = bd_size b \<and> io_promote e dst = None \<and>
    \<not> is_directory v dst")
  case False
  then show ?thesis
    by (auto simp: copy_verify_delete_def split: option.split sum.split)
next
  case True
  then obtain b where b: "body_at v src = Some b" "io_copy e src b = Inr b" "io_promote e dst = None" "\<not> is_directory v dst"
    using assms(2) unfolding faithful_copies_def by metis
  have "file_at v src \<noteq> None" using b(1) by (auto simp: body_at_def)
  then have "whole v src dst (suppress_missing (os_unlink e src (new_file dst b v)))" if delete_source
    using assms(1) assms(3) [OF that] b(1)
    by (auto simp: os_unlink_def whole_def suppress_missing_def split: option.split os_error.split)
  with b assms(1) show ?thesis
    by (auto simp: copy_verify_delete_def Let_def whole_def)
qed

lemma os_replace_whole:
  "os_replace e src dst v = (v', r) \<Longrightarrow>
     whole v src dst (v', r) \<and> (r \<noteq> None \<longrightarrow> v' = v) \<and> (r = Some Exdev \<longrightarrow> src \<noteq> dst)"
  by (auto simp: os_replace_def whole_def body_at_def split: option.splits if_splits)

lemma move_whole:
  assumes "volume_ok v" and "faithful_copies e"
  shows "whole v src dst (move_file e src dst v)"
proof -
  obtain v' r where r: "os_replace e src dst v = (v', r)" by force
  from os_replace_whole [OF r] have w: "whole v src dst (v', r)" "r \<noteq> None \<Longrightarrow> v' = v" "r = Some Exdev \<Longrightarrow> src \<noteq> dst"
    by blast+
  show ?thesis
  proof (cases "r = Some Exdev")
    case True
    with r w copy_whole [OF assms, of True] show ?thesis by (simp add: move_file_def)
  next
    case False
    with r w show ?thesis by (auto simp: move_file_def split: option.split os_error.split)
  qed
qed

lemma hardlink_whole:
  assumes "volume_ok v" and "faithful_copies e"
  shows "whole v src dst (hardlink_file e src dst v)"
proof -
  obtain v' r where r: "os_link e src dst v = (v', r)" by force
  have w: "whole v src dst (v', r) \<and> (r \<noteq> None \<longrightarrow> v' = v)"
    using r by (auto simp: os_link_def whole_def body_at_def split: option.splits if_splits)
  show ?thesis
  proof (cases r)
    case (Some err)
    with r w copy_whole [OF assms, of False] show ?thesis by (simp add: hardlink_file_def)
  qed (use r w in \<open>simp add: hardlink_file_def\<close>)
qed

text \<open>C24: Placing a file is all or nothing in every transfer mode and under every failure of a rename,
  link, copy, promotion or removal: after a success the destination holds the source's whole body;
  after a failure the source still has it, and the destination holds what it held before or the whole
  body, never a part.\<close>

theorem placed_whole_or_not_at_all:
  assumes "volume_ok v" and "faithful_copies e" and "place_file e mode margin src dst v = (v', r)"
  shows "if r = None then body_at v' dst = body_at v src
    else body_at v' src = body_at v src \<and> body_at v' dst \<in> {body_at v dst, body_at v src}"
proof -
  let ?v = "make_dirs (path_parent dst) v"
  have ok: "volume_ok ?v" using assms(1) by simp
  have "whole ?v src dst (place_file e mode margin src dst v)"
    using hardlink_whole [OF ok assms(2)] copy_whole [OF ok assms(2), of False] move_whole [OF ok assms(2)]
    by (cases mode) (simp_all add: place_file_def Let_def split: option.split)
  with assms(3) show ?thesis by (auto simp: whole_def split: option.splits)
qed

definition demo_io :: io where
  "demo_io = \<lparr>io_real = (\<lambda>p. p), io_free = (\<lambda>_. 1000), io_rename = (\<lambda>_ _. None), io_link = (\<lambda>_ _. None),
     io_copy = (\<lambda>_ b. Inr b), io_promote = (\<lambda>_. None), io_unlink = (\<lambda>_. None)\<rparr>"

definition demo_volume :: "(string \<times> string) list \<Rightarrow> volume" where
  "demo_volume fs = fold (\<lambda>(p, d). new_file p \<lparr>bd_size = int (length d), bd_data = d\<rparr>) fs
     \<lparr>v_files = [], v_bodies = (\<lambda>_. \<lparr>bd_size = 0, bd_data = []\<rparr>), v_next = 0, v_dirs = [''/'', ''/lib'', ''/dl'']\<rparr>"

lemma faithful_demo [simp]: "faithful_copies demo_io"
  by (simp add: faithful_copies_def demo_io_def)

lemma demo_volume_ok: "volume_ok (demo_volume fs)"
proof -
  have "volume_ok (fold (\<lambda>(p, d). new_file p \<lparr>bd_size = int (length d), bd_data = d\<rparr>) fs v)" if "volume_ok v" for v
    using that by (induction fs arbitrary: v) auto
  then show ?thesis by (simp add: demo_volume_def volume_ok_def)
qed

text \<open>The rename crosses a file system and the original cannot be removed after the copy.\<close>

definition stuck_io :: io where
  "stuck_io = demo_io\<lparr>io_rename := (\<lambda>_ _. Some Exdev), io_unlink := (\<lambda>_. Some Eperm)\<rparr>"

lemma placed_whole_or_not_at_all_witness:
  "body_at (fst (place_file stuck_io Move 10 ''/dl/a.cbz'' ''/lib/a.cbz'' (demo_volume [(''/dl/a.cbz'', ''pages'')]))) ''/dl/a.cbz''
     = body_at (demo_volume [(''/dl/a.cbz'', ''pages'')]) ''/dl/a.cbz''"
proof -
  let ?v = "demo_volume [(''/dl/a.cbz'', ''pages'')]"
  have r: "snd (place_file stuck_io Move 10 ''/dl/a.cbz'' ''/lib/a.cbz'' ?v) = Some Eperm" by code_simp
  have f: "faithful_copies stuck_io" by (simp add: faithful_copies_def stuck_io_def demo_io_def)
  from placed_whole_or_not_at_all [OF demo_volume_ok f prod.collapse [symmetric]] r show ?thesis by auto
qed

end
