(* ===== verification/Import_Execute.thy ===== *)
theory Import_Execute
  imports Import_Decide Import_Files Naming Url
begin

text \<open>
  The shared import pipeline (\<open>importer/pipeline.py\<close>): the evaluation of a candidate, its placement
  with the disposal of the file it replaces, and the whole run of one candidate inside its savepoint,
  with the read-only boundary (\<open>library/read_only.py\<close>) and the history (\<open>importer/history.py\<close>).

  The services of the pipeline are arguments: the filename parser, the inspection of an archive, the
  read and the rewrite of its ComicInfo member, the conversion of a CBR (its gate is modelled), the
  system calls, and the text of an exception. The tables of a failed candidate are rolled back to the
  savepoint, the disk is not.
\<close>

section \<open>Settings and services\<close>

record import_settings =
  ip_library_root :: string
  ip_reference_year :: int
  ip_margin :: int
  ip_junk_floor :: int
  ip_rename :: bool
  ip_file_template :: string
  ip_transfer :: transfer_mode
  ip_library_mode :: string
  ip_recycle :: string
  ip_constraint :: string
  ip_dump :: string
  ip_tag :: bool
  ip_convert :: bool
  ip_now :: datetime

record import_world =
  wd_volume :: volume
  wd_shelf :: shelf

datatype exec_error =
    Exec_assert
  | Exec_io os_error
  | Exec_confined
  | Exec_read_only string
  | Exec_integrity
  | Exec_py py_error

record import_services =
  sv_parse :: name_parser
  sv_inspect :: "body \<Rightarrow> archive_facts"
  sv_embedded :: "body \<Rightarrow> archive_facts \<Rightarrow> embedded_metadata option"
  sv_tag :: "lib_series_row \<Rightarrow> lib_issue_row \<Rightarrow> body \<Rightarrow> string + body"
  sv_convert :: "int \<Rightarrow> string \<Rightarrow> import_world \<Rightarrow> import_world"
  sv_text :: "exec_error \<Rightarrow> string"
  sv_io :: io

definition EVENT_IMPORTED :: string where "EVENT_IMPORTED = ''imported''"
definition EVENT_IMPORT_FAILED :: string where "EVENT_IMPORT_FAILED = ''import_failed''"
definition EVENT_IMPORT_BLOCKED :: string where "EVENT_IMPORT_BLOCKED = ''import_blocked''"
definition EVENT_UPGRADE_REPLACED :: string where "EVENT_UPGRADE_REPLACED = ''upgrade_replaced''"
definition EVENT_COMICINFO_TAG_FAILED :: string where "EVENT_COMICINFO_TAG_FAILED = ''comicinfo_tag_failed''"

definition SOURCE_DOWNLOAD :: string where "SOURCE_DOWNLOAD = ''download''"
definition SOURCE_RESCAN :: string where "SOURCE_RESCAN = ''rescan''"
definition SOURCE_MANUAL :: string where "SOURCE_MANUAL = ''manual''"
definition SOURCE_LIBRARY :: string where "SOURCE_LIBRARY = ''library-import''"

section \<open>Evaluation\<close>

definition ext_of :: "string \<Rightarrow> string option" where
  "ext_of name = non_empty (Some (str_lower (lstrip_dots (name_suffix (path_name name)))))"

definition already_imported :: "shelf \<Rightarrow> string \<Rightarrow> int option \<Rightarrow> bool" where
  "already_imported sh download_id issue =
     (case issue of
        None \<Rightarrow> False
      | Some i \<Rightarrow> download_id \<noteq> [] \<and>
          list_ex (\<lambda>h. hi_download h = Some download_id \<and> hi_issue h = Some i \<and>
              hi_event h \<in> {EVENT_IMPORTED, EVENT_UPGRADE_REPLACED}) (sh_history sh))"

text \<open>A ComicVine id in the name stands in for one the archive does not have.\<close>

definition with_name_id :: "int option \<Rightarrow> embedded_metadata option \<Rightarrow> embedded_metadata option" where
  "with_name_id cv em =
     (case cv of
        None \<Rightarrow> em
      | Some k \<Rightarrow>
          (case em of
             None \<Rightarrow> Some \<lparr>em_present = False, em_cv_issue_id = Some k, em_parse_error = None\<rparr>
           | Some m \<Rightarrow>
               if em_parse_error m = None \<and> em_cv_issue_id m = None then Some (m\<lparr>em_cv_issue_id := Some k\<rparr>)
               else em))"

definition existing_file_of :: "shelf \<Rightarrow> int \<Rightarrow> file_row option" where
  "existing_file_of sh i =
     (case sort_key fr_id (filter (\<lambda>f. fr_issue f = i) (sh_files sh)) of [] \<Rightarrow> None | f # _ \<Rightarrow> Some f)"

definition unmapped_evaluation :: "import_settings \<Rightarrow> import_candidate \<Rightarrow> evidence \<Rightarrow> string \<Rightarrow> import_evaluation" where
  "unmapped_evaluation ctx c ev warning =
     \<lparr>iv_evidence = ev, iv_size = if_size c, iv_series_id = None, iv_issue_id = None, iv_series_title = None,
      iv_archive = None, iv_existing_path = None, iv_existing_format = None, iv_new_format = None, iv_ladder = [],
      iv_free = 0, iv_needed = 0, iv_margin = 0, iv_already_imported = False, iv_junk_floor = ip_junk_floor ctx,
      iv_mapping_warning = Some warning, iv_comic_info_present = False, iv_embedded_cv = None,
      iv_embedded_verified = False, iv_conflict = False, iv_existing_size = None, iv_existing_fix = None,
      iv_new_fix = None, iv_constraint = CONSTRAINT_LARGER_SIZE, iv_ordinal_refusal = None\<rparr>"

definition mapped_evaluation ::
  "import_services \<Rightarrow> import_settings \<Rightarrow> import_world \<Rightarrow> import_candidate \<Rightarrow> evidence \<Rightarrow>
   archive_facts option \<Rightarrow> embedded_metadata option \<Rightarrow> int option \<Rightarrow> int option \<Rightarrow> import_evaluation" where
  "mapped_evaluation sv ctx w c ev archive em sid iid =
     (let sh = wd_shelf w;
          refusal = (if iid = None then map_of (e_prov ev) PROV_ORDINAL_REFUSED else None);
          prov = (if iid = None then e_prov ev else od_pop PROV_ORDINAL_REFUSED (e_prov ev));
          series = Option.bind sid (\<lambda>s. row_get sr_id s (sh_series sh));
          existing = Option.bind iid (existing_file_of sh);
          dest_dir = (case series of None \<Rightarrow> ip_library_root ctx | Some r \<Rightarrow> sr_path r)
      in \<lparr>iv_evidence = ev\<lparr>e_prov := prov\<rparr>, iv_size = if_size c, iv_series_id = sid, iv_issue_id = iid,
          iv_series_title = map_option sr_title series, iv_archive = archive,
          iv_existing_path = map_option fr_path existing,
          iv_existing_format = Option.bind existing (\<lambda>f. ext_of (fr_path f)),
          iv_new_format = (case non_empty (Option.bind (ic_override c) mo_format) of
             Some f \<Rightarrow> Some f | None \<Rightarrow> ext_of (if_file_name c)),
          iv_ladder = (case Option.bind series (\<lambda>r. map_of (sh_profiles sh) (sr_profile r)) of
             None \<Rightarrow> [] | Some l \<Rightarrow> l),
          iv_free = io_free (sv_io sv) (if dest_dir = [] then ip_library_root ctx else dest_dir),
          iv_needed = if_size c, iv_margin = ip_margin ctx,
          iv_already_imported = already_imported sh (if_download_id c) iid,
          iv_junk_floor = ip_junk_floor ctx, iv_mapping_warning = None,
          iv_comic_info_present = (case em of None \<Rightarrow> False | Some m \<Rightarrow> em_present m),
          iv_embedded_cv = Option.bind em em_cv_issue_id,
          iv_embedded_verified = (map_of prov ''issue'' = Some PROV_COMICINFO),
          iv_conflict = (map_of prov PROV_COMICINFO_CONFLICT \<noteq> None),
          iv_existing_size = map_option fr_size existing,
          iv_existing_fix = Option.bind existing (\<lambda>f. case fr_fix f of
             Some n \<Rightarrow> Some n
           | None \<Rightarrow> fix_revision (sv_parse sv Filename_mode (ip_reference_year ctx) (path_name (fr_path f)))),
          iv_new_fix = e_fix ev, iv_constraint = ip_constraint ctx, iv_ordinal_refusal = refusal\<rparr>)"

definition inspect_candidate ::
  "import_services \<Rightarrow> import_world \<Rightarrow> import_candidate \<Rightarrow> archive_facts option \<times> embedded_metadata option" where
  "inspect_candidate sv w c =
     (case body_at (wd_volume w) (io_real (sv_io sv) (if_local_path c)) of
        None \<Rightarrow> (None, None)
      | Some b \<Rightarrow> (let facts = sv_inspect sv b in (Some facts, sv_embedded sv b facts)))"

text \<open>The provenance is returned on its own, because the code keeps it when a lookup raises.\<close>

definition build_evaluation ::
  "import_services \<Rightarrow> import_settings \<Rightarrow> index_cache \<Rightarrow> import_world \<Rightarrow> import_candidate \<Rightarrow> evidence \<Rightarrow>
   (string, string) odict \<times> import_evaluation result" where
  "build_evaluation sv ctx cache w c ev =
     (case if_mapping_warning c of
        Some warning \<Rightarrow> (e_prov ev, Inr (unmapped_evaluation ctx c ev warning))
      | None \<Rightarrow>
          (let (archive, embedded) = inspect_candidate sv w c;
               em = with_name_id (e_cv_issue_id ev) embedded
           in case reconcile cache (wd_shelf w) c ev em of
                (prov, Inl e) \<Rightarrow> (prov, Inl e)
              | (prov, Inr (sid, iid)) \<Rightarrow>
                  (let iv = mapped_evaluation sv ctx w c (ev\<lparr>e_prov := prov\<rparr>) archive em sid iid
                   in (e_prov (iv_evidence iv), Inr iv))))"

section \<open>The read-only boundary\<close>

definition read_only_root_paths :: "shelf \<Rightarrow> string list" where
  "read_only_root_paths sh = map rf_path (filter rf_read_only (sh_roots sh))"

definition path_is_read_only :: "io \<Rightarrow> shelf \<Rightarrow> string \<Rightarrow> bool" where
  "path_is_read_only e sh p =
     (case validate_under_root (io_real e) p (read_only_root_paths sh) of Inl _ \<Rightarrow> False | Inr _ \<Rightarrow> True)"

definition root_flag :: "shelf \<Rightarrow> int \<Rightarrow> bool" where
  "root_flag sh s =
     (case row_get sr_id s (sh_series sh) of
        None \<Rightarrow> False
      | Some r \<Rightarrow> (case row_get rf_id (sr_root r) (sh_roots sh) of None \<Rightarrow> False | Some f \<Rightarrow> rf_read_only f))"

definition series_is_read_only :: "io \<Rightarrow> shelf \<Rightarrow> int \<Rightarrow> bool" where
  "series_is_read_only e sh s \<longleftrightarrow> root_flag sh s \<or>
     (case row_get sr_id s (sh_series sh) of None \<Rightarrow> False | Some r \<Rightarrow> path_is_read_only e sh (sr_path r))"

definition refuse_read_only_disposal :: "io \<Rightarrow> shelf \<Rightarrow> string \<Rightarrow> string \<Rightarrow> exec_error option" where
  "refuse_read_only_disposal e sh p setting =
     (if p = [] \<or> \<not> path_is_read_only e sh p then None
      else Some (Exec_read_only
        (''the configured '' @ setting @ '' ('' @ p @ '') is inside a read-only reference library, so disposing of '' @
         ''files there would write to the operator'' @ APOSTROPHE @ ''s originals; point '' @ setting @
         '' outside the read-only root'')))"

section \<open>Names\<close>

definition capitalize :: "string \<Rightarrow> string" where
  "capitalize s = (case s of [] \<Rightarrow> [] | c # cs \<Rightarrow> str_upper [c] @ str_lower cs)"

definition classification_label :: "lib_issue_row \<Rightarrow> evidence \<Rightarrow> string option" where
  "classification_label i ev =
     (if iw_type i \<noteq> [] \<and> iw_type i \<noteq> ''regular'' then Some (capitalize (iw_type i))
      else case e_issue ev of
             Some n \<Rightarrow> if in_class n \<noteq> Regular then Some (capitalize (class_value (in_class n))) else None
           | None \<Rightarrow> None)"

definition build_fields :: "lib_series_row \<Rightarrow> lib_issue_row \<Rightarrow> evidence \<Rightarrow> rename_fields" where
  "build_fields s i ev =
     \<lparr>rf_series_title = Some (sr_title s), rf_series_cleantitle = Some (sr_key s),
      rf_volume = (case e_ordinal ev of None \<Rightarrow> None | Some n \<Rightarrow> if n = 0 then None else Some (show_int n)),
      rf_year = map_option show_int (sr_start_year s), rf_issue = iw_number i, rf_issue_title = iw_title i,
      rf_classification = classification_label i ev,
      rf_booktype = (if e_booktype ev = Bt_issue then None else Some (booktype_value (e_booktype ev))),
      rf_release_group = e_group ev, rf_issue_id = Some (show_int (iw_id i)),
      rf_cv_issue_id = Some (show_int (iw_cv i)), rf_publisher = sr_publisher s\<rparr>"

section \<open>Execution\<close>

record execute_result =
  xr_path :: string
  xr_file_id :: int
  xr_size :: int
  xr_quarantine :: "string option"
  xr_upgraded :: bool
  xr_duplicate :: "string option"

definition same_physical_file :: "io \<Rightarrow> volume \<Rightarrow> string \<Rightarrow> string \<Rightarrow> bool" where
  "same_physical_file e v a b \<longleftrightarrow>
     (if path_exists v (io_real e a) \<and> path_exists v (io_real e b)
      then io_real e a = io_real e b \<or>
        file_at v (io_real e a) \<noteq> None \<and> file_at v (io_real e a) = file_at v (io_real e b)
      else io_real e a = io_real e b)"

definition register_in_place ::
  "io \<Rightarrow> import_settings \<Rightarrow> import_candidate \<Rightarrow> lib_series_row \<Rightarrow> string \<Rightarrow> bool" where
  "register_in_place e ctx c s dest \<longleftrightarrow>
     ic_kind c = SOURCE_LIBRARY \<and> ip_library_mode ctx = ''in_place'' \<and>
     (io_real e (if_local_path c) = io_real e dest \<or>
      \<not> ip_rename ctx \<and> prefix (abs_parts (io_real e (sr_path s))) (abs_parts (io_real e (if_local_path c))))"

definition disposal_target :: "import_settings \<Rightarrow> bool \<Rightarrow> string \<times> string" where
  "disposal_target ctx duplicate =
     (if duplicate \<and> ip_dump ctx \<noteq> [] then (ip_dump ctx, ''duplicate_dump_path'')
      else (ip_recycle ctx, ''recycle_bin_path''))"

definition today_of :: "import_settings \<Rightarrow> date" where
  "today_of ctx = ip_now ctx div us_per_day"

definition file_error_of :: "file_error \<Rightarrow> exec_error" where
  "file_error_of err = (case err of Os e \<Rightarrow> Exec_io e | Confined _ \<Rightarrow> Exec_confined)"

definition dispose_existing ::
  "io \<Rightarrow> import_settings \<Rightarrow> shelf \<Rightarrow> bool \<Rightarrow> string \<Rightarrow> volume \<Rightarrow> volume \<times> (exec_error + string option)" where
  "dispose_existing e ctx sh duplicate existing v =
     (case refuse_read_only_disposal e sh (fst (disposal_target ctx duplicate)) (snd (disposal_target ctx duplicate)) of
        Some err \<Rightarrow> (v, Inl err)
      | None \<Rightarrow>
          if duplicate \<and> ip_dump ctx \<noteq> [] then
            (case dump_file e existing (ip_dump ctx) (today_of ctx) v of
               (v', Inl err) \<Rightarrow> (v', Inl (file_error_of err))
             | (v', Inr p) \<Rightarrow> (v', Inr (Some p)))
          else if ip_recycle ctx \<noteq> [] then
            (case recycle_file e existing (ip_recycle ctx) (today_of ctx) v of
               (v', Inl err) \<Rightarrow> (v', Inl (file_error_of err))
             | (v', Inr p) \<Rightarrow> (v', Inr (Some p)))
          else
            (case os_unlink e (io_real e existing) v of
               (v', Some err) \<Rightarrow> (v', Inl (Exec_io err))
             | (v', None) \<Rightarrow> (v', Inr None)))"

text \<open>What is known before anything moves.\<close>

record replacement =
  rp_existing :: "string option"
  rp_present :: bool
  rp_in_place :: bool
  rp_source_is_existing :: bool
  rp_dest_is_existing :: bool
  rp_duplicate :: bool

definition replacement_of ::
  "io \<Rightarrow> import_settings \<Rightarrow> import_candidate \<Rightarrow> import_evaluation \<Rightarrow> lib_series_row \<Rightarrow> string \<Rightarrow> volume \<Rightarrow> replacement" where
  "replacement_of e ctx c iv s dest v =
     (let present = (case iv_existing_path iv of None \<Rightarrow> False | Some p \<Rightarrow> path_exists v (io_real e p));
          p = (case iv_existing_path iv of None \<Rightarrow> [] | Some p \<Rightarrow> p);
          in_place = register_in_place e ctx c s dest
      in \<lparr>rp_existing = iv_existing_path iv, rp_present = present, rp_in_place = in_place,
          rp_source_is_existing = (present \<and> same_physical_file e v p (if_local_path c)),
          rp_dest_is_existing = (present \<and> \<not> in_place \<and> same_physical_file e v p dest),
          rp_duplicate = (present \<and> same_rung iv)\<rparr>)"

definition disposes_a_file :: "replacement \<Rightarrow> bool" where
  "disposes_a_file r \<longleftrightarrow> rp_present r \<and> \<not> rp_source_is_existing r"

definition write_boundary ::
  "io \<Rightarrow> import_settings \<Rightarrow> shelf \<Rightarrow> import_candidate \<Rightarrow> lib_series_row \<Rightarrow> replacement \<Rightarrow> exec_error option" where
  "write_boundary e ctx sh c s r =
     (if \<not> rp_in_place r \<or> disposes_a_file r then
        (if series_is_read_only e sh (sr_id s) then
           Some (Exec_read_only
             (''series '' @ show_int (sr_id s) @ '' is on a read-only reference library (browse and serve only); '' @
              ''importing '' @ if_file_name c @ '' would '' @
              (if rp_in_place r then ''replace an indexed file in'' else ''place a file under'') @
              '' it, which is not available for it''))
         else if \<not> rp_in_place r \<and> ip_transfer ctx = Move \<and> path_is_read_only e sh (if_local_path c) then
           Some (Exec_read_only
             (if_local_path c @ '' is inside a read-only reference library (browse and serve only); moving it out '' @
              ''of that library is not available for it''))
         else None)
      else None)"

text \<open>The disk half: dispose and place in the order that never lets a placement overwrite the loser.\<close>

definition disposed ::
  "io \<Rightarrow> import_settings \<Rightarrow> shelf \<Rightarrow> replacement \<Rightarrow> bool \<Rightarrow> volume \<Rightarrow> volume \<times> (exec_error + string option)" where
  "disposed e ctx sh r wanted v =
     (case rp_existing r of
        Some p \<Rightarrow> if wanted then dispose_existing e ctx sh (rp_duplicate r) p v else (v, Inr None)
      | None \<Rightarrow> (v, Inr None))"

definition place_and_dispose ::
  "io \<Rightarrow> import_settings \<Rightarrow> shelf \<Rightarrow> import_candidate \<Rightarrow> replacement \<Rightarrow> string \<Rightarrow> volume \<Rightarrow>
   volume \<times> (exec_error + string \<times> string option)" where
  "place_and_dispose e ctx sh c r dest v =
     (if rp_in_place r then
        (case disposed e ctx sh r (disposes_a_file r) v of
           (v', Inl err) \<Rightarrow> (v', Inl err)
         | (v', Inr q) \<Rightarrow> (v', Inr (path_str (if_local_path c), q)))
      else
        (case disposed e ctx sh r (rp_dest_is_existing r \<and> \<not> rp_source_is_existing r) v of
           (v1, Inl err) \<Rightarrow> (v1, Inl err)
         | (v1, Inr q1) \<Rightarrow>
             (case place_file e (ip_transfer ctx) (ip_margin ctx) (io_real e (if_local_path c)) (io_real e dest) v1 of
                (v2, Some err) \<Rightarrow> (v2, Inl (Exec_io err))
              | (v2, None) \<Rightarrow>
                  (case disposed e ctx sh r (disposes_a_file r \<and> \<not> rp_dest_is_existing r) v2 of
                     (v3, Inl err) \<Rightarrow> (v3, Inl err)
                   | (v3, Inr q2) \<Rightarrow> (v3, Inr (dest, if q1 = None then q2 else q1))))))"

definition cleanup_source ::
  "io \<Rightarrow> import_settings \<Rightarrow> import_candidate \<Rightarrow> volume \<Rightarrow> volume \<times> os_error option" where
  "cleanup_source e ctx c v =
     (if ip_transfer ctx = Move \<and> if_container_root c \<noteq> [] \<and> ic_kind c = SOURCE_DOWNLOAD \<and>
         path_parent (if_local_path c) \<noteq> if_container_root c
      then cleanup_empty_dirs e (path_parent (if_local_path c)) (if_container_root c) v
      else (v, None))"

section \<open>The rows\<close>

definition drop_stale_row :: "string option \<Rightarrow> bool \<Rightarrow> string \<Rightarrow> file_row list \<Rightarrow> file_row list" where
  "drop_stale_row existing upgraded placed rows =
     (case existing of
        Some p \<Rightarrow>
          if upgraded \<or> p = placed
          then (case find (\<lambda>f. fr_path f = p) rows of None \<Rightarrow> rows | Some f \<Rightarrow> row_del fr_id (fr_id f) rows)
          else rows
      | None \<Rightarrow> rows)"

definition next_file_id :: "file_row list \<Rightarrow> int" where
  "next_file_id rows = fold (\<lambda>f m. max (fr_id f) m) rows 0 + 1"

definition page_count_of :: "archive_facts option \<Rightarrow> int option" where
  "page_count_of a =
     (case a of
        None \<Rightarrow> None
      | Some f \<Rightarrow> if af_kind f = ''zip'' \<and> af_listed f then Some (af_image_count f) else None)"

definition add_issue_file :: "file_row \<Rightarrow> file_row list \<Rightarrow> exec_error + file_row list" where
  "add_issue_file row rows =
     (if fr_edition row = None \<and> list_ex (\<lambda>f. fr_edition f = None \<and> fr_path f = fr_path row) rows
      then Inl Exec_integrity else Inr (rows @ [row]))"

text \<open>The rows of a file that stands on the disk, and the directories its move has emptied.\<close>

definition register_file ::
  "import_services \<Rightarrow> import_settings \<Rightarrow> shelf \<Rightarrow> import_candidate \<Rightarrow> import_evaluation \<Rightarrow> lib_issue_row \<Rightarrow> replacement \<Rightarrow>
   string \<Rightarrow> string option \<Rightarrow> volume \<Rightarrow> import_world \<times> (exec_error + execute_result)" where
  "register_file sv ctx sh c iv i r placed quarantine v =
     (case body_at v (io_real (sv_io sv) placed) of
        None \<Rightarrow> (\<lparr>wd_volume = v, wd_shelf = sh\<rparr>, Inl (Exec_io Enoent))
      | Some b \<Rightarrow>
          (let rows = drop_stale_row (rp_existing r) (rp_present r) placed (sh_files sh);
               row = \<lparr>fr_id = next_file_id rows, fr_issue = iw_id i, fr_path = placed, fr_size = bd_size b,
                  fr_added_at = ip_now ctx, fr_fix = iv_new_fix iv, fr_pages = page_count_of (iv_archive iv),
                  fr_edition = None\<rparr>
           in case cleanup_source (sv_io sv) ctx c v of
                (v', Some err) \<Rightarrow> (\<lparr>wd_volume = v', wd_shelf = sh\<rparr>, Inl (Exec_io err))
              | (v', None) \<Rightarrow>
                  (case add_issue_file row rows of
                     Inl err \<Rightarrow> (\<lparr>wd_volume = v', wd_shelf = sh\<rparr>, Inl err)
                   | Inr rows' \<Rightarrow>
                       (\<lparr>wd_volume = v', wd_shelf = sh\<lparr>sh_files := rows'\<rparr>\<rparr>,
                        Inr \<lparr>xr_path = placed, xr_file_id = fr_id row, xr_size = bd_size b,
                           xr_quarantine = quarantine, xr_upgraded = rp_present r,
                           xr_duplicate = (if rp_duplicate r then Some (duplicate_win_reason iv) else None)\<rparr>))))"

definition execution_boundary ::
  "io \<Rightarrow> import_settings \<Rightarrow> shelf \<Rightarrow> import_candidate \<Rightarrow> lib_series_row \<Rightarrow> replacement \<Rightarrow> exec_error option" where
  "execution_boundary e ctx sh c s r =
     (case write_boundary e ctx sh c s r of
        Some err \<Rightarrow> Some err
      | None \<Rightarrow>
          if disposes_a_file r
          then refuse_read_only_disposal e sh (fst (disposal_target ctx (rp_duplicate r)))
                 (snd (disposal_target ctx (rp_duplicate r)))
          else None)"

definition destination ::
  "import_services \<Rightarrow> import_settings \<Rightarrow> import_candidate \<Rightarrow> import_evaluation \<Rightarrow> lib_series_row \<Rightarrow> lib_issue_row \<Rightarrow>
   exec_error + string" where
  "destination sv ctx c iv s i =
     (case render_filename (build_fields s i (iv_evidence iv)) (ip_file_template ctx)
         (Some (name_suffix (path_name (if_file_name c)))) (ip_rename ctx) (Some (if_file_name c))
         DEFAULT_MAX_FILENAME_BYTES True of
        Inl err \<Rightarrow> Inl (Exec_py err)
      | Inr new_name \<Rightarrow>
          (case safe_join (io_real (sv_io sv)) (sr_path s) [new_name] of
             Inl _ \<Rightarrow> Inl Exec_confined
           | Inr dest \<Rightarrow> Inr dest))"

definition execution_rows :: "shelf \<Rightarrow> import_evaluation \<Rightarrow> (lib_series_row \<times> lib_issue_row) option" where
  "execution_rows sh iv =
     (case (Option.bind (iv_series_id iv) (\<lambda>k. row_get sr_id k (sh_series sh)),
            Option.bind (iv_issue_id iv) (\<lambda>k. row_get iw_id k (sh_issues sh))) of
        (Some s, Some i) \<Rightarrow> Some (s, i)
      | _ \<Rightarrow> None)"

definition execute_import ::
  "import_services \<Rightarrow> import_settings \<Rightarrow> import_world \<Rightarrow> import_candidate \<Rightarrow> import_evaluation \<Rightarrow>
   import_world \<times> (exec_error + execute_result)" where
  "execute_import sv ctx w c iv =
     (case execution_rows (wd_shelf w) iv of
        None \<Rightarrow> (w, Inl Exec_assert)
      | Some (s, i) \<Rightarrow>
          (case destination sv ctx c iv s i of
             Inl err \<Rightarrow> (w, Inl err)
           | Inr dest \<Rightarrow>
               (let r = replacement_of (sv_io sv) ctx c iv s dest (wd_volume w)
                in case execution_boundary (sv_io sv) ctx (wd_shelf w) c s r of
                     Some err \<Rightarrow> (w, Inl err)
                   | None \<Rightarrow>
                       (case place_and_dispose (sv_io sv) ctx (wd_shelf w) c r dest (wd_volume w) of
                          (v, Inl err) \<Rightarrow> (\<lparr>wd_volume = v, wd_shelf = wd_shelf w\<rparr>, Inl err)
                        | (v, Inr (placed, quarantine)) \<Rightarrow>
                            register_file sv ctx (wd_shelf w) c iv i r placed quarantine v))))"

section \<open>History\<close>

definition next_history_id :: "history_row list \<Rightarrow> int" where
  "next_history_id rows = fold (\<lambda>h m. max (hi_id h) m) rows 0 + 1"

definition record_event ::
  "string \<Rightarrow> int option \<Rightarrow> int option \<Rightarrow> string option \<Rightarrow> string \<Rightarrow> string \<Rightarrow> event_data \<Rightarrow> string option \<Rightarrow> datetime \<Rightarrow>
   shelf \<Rightarrow> shelf" where
  "record_event event series issue download ttl source payload quarantine now sh =
     sh\<lparr>sh_history := sh_history sh @
       [\<lparr>hi_id = next_history_id (sh_history sh), hi_event = event, hi_series = series, hi_issue = issue,
         hi_download = download, hi_title = ttl, hi_source = source, hi_data = payload, hi_quarantine = quarantine,
         hi_created_at = now\<rparr>]\<rparr>"

definition DEDUPED_EVENT_TYPES :: "string list" where
  "DEDUPED_EVENT_TYPES = [EVENT_IMPORT_BLOCKED, EVENT_IMPORT_FAILED]"

definition canonical_data :: "event_data \<Rightarrow> event_data" where
  "canonical_data d = d\<lparr>hd_prov := sort_key fst (hd_prov d)\<rparr>"

definition later_event :: "history_row \<Rightarrow> history_row \<Rightarrow> history_row" where
  "later_event a b =
     (if hi_created_at a < hi_created_at b \<or> hi_created_at a = hi_created_at b \<and> hi_id a \<le> hi_id b then b else a)"

definition newest_event :: "string \<Rightarrow> history_row list \<Rightarrow> history_row option" where
  "newest_event download rows =
     (case filter (\<lambda>h. hi_download h = Some download) rows of
        [] \<Rightarrow> None
      | h # hs \<Rightarrow> Some (foldl later_event h hs))"

definition repeats_newest :: "string \<Rightarrow> string option \<Rightarrow> event_data \<Rightarrow> shelf \<Rightarrow> bool" where
  "repeats_newest event download payload sh \<longleftrightarrow>
     event \<in> set DEDUPED_EVENT_TYPES \<and>
     (case Option.bind download (\<lambda>d. newest_event d (sh_history sh)) of
        None \<Rightarrow> False
      | Some h \<Rightarrow> hi_event h = event \<and> canonical_data (hi_data h) = canonical_data payload)"

definition record_event_deduped ::
  "string \<Rightarrow> int option \<Rightarrow> int option \<Rightarrow> string option \<Rightarrow> string \<Rightarrow> string \<Rightarrow> event_data \<Rightarrow> string option \<Rightarrow> datetime \<Rightarrow>
   shelf \<Rightarrow> shelf" where
  "record_event_deduped event series issue download ttl source payload quarantine now sh =
     (if repeats_newest event download payload sh then sh
      else record_event event series issue download ttl source payload quarantine now sh)"

section \<open>One candidate\<close>

record candidate_outcome =
  co_status :: import_status
  co_reasons :: "string list"
  co_series :: "int option"
  co_issue :: "int option"
  co_file_id :: "int option"
  co_path :: "string option"
  co_quarantine :: "string option"
  co_upgraded :: bool

definition source_provenance :: "import_candidate \<Rightarrow> string" where
  "source_provenance c =
     (if ic_kind c \<in> {SOURCE_DOWNLOAD, SOURCE_RESCAN, SOURCE_MANUAL, SOURCE_LIBRARY} then ic_kind c
      else SOURCE_DOWNLOAD)"

definition source_title :: "import_candidate \<Rightarrow> string" where
  "source_title c = str_or (if_grab_title c) (str_or (if_client_title c) (if_file_name c))"

definition download_of :: "import_candidate \<Rightarrow> string option" where
  "download_of c = non_empty (Some (if_download_id c))"

definition base_data :: "(string, string) odict \<Rightarrow> import_candidate \<Rightarrow> event_data" where
  "base_data prov c =
     \<lparr>hd_prov = prov, hd_kind = ic_kind c, hd_reasons = None, hd_path = None, hd_size = None, hd_duplicate = None,
      hd_error = None\<rparr>"

definition rewrite_forbidden :: "io \<Rightarrow> shelf \<Rightarrow> import_evaluation \<Rightarrow> string \<Rightarrow> bool" where
  "rewrite_forbidden e sh iv imported_path \<longleftrightarrow>
     (case iv_series_id iv of None \<Rightarrow> False | Some s \<Rightarrow> series_is_read_only e sh s) \<or> path_is_read_only e sh imported_path"

definition tag_comicinfo ::
  "import_services \<Rightarrow> import_settings \<Rightarrow> import_candidate \<Rightarrow> import_evaluation \<Rightarrow> execute_result \<Rightarrow> import_world \<Rightarrow> import_world" where
  "tag_comicinfo sv ctx c iv x w =
     (let e = sv_io sv; sh = wd_shelf w; p = io_real e (xr_path x)
      in if \<not> (ip_tag ctx \<and> (case iv_archive iv of None \<Rightarrow> False | Some a \<Rightarrow> af_safe_to_extract a) \<and>
               endswith (str_lower (xr_path x)) ''.cbz'') \<or> rewrite_forbidden e sh iv (xr_path x) then w
         else (case (execution_rows sh iv, body_at (wd_volume w) p) of
                 (Some (s, i), Some b) \<Rightarrow>
                   (case sv_tag sv s i b of
                      Inr b' \<Rightarrow> w\<lparr>wd_volume := new_file p b' (wd_volume w)\<rparr>
                    | Inl err \<Rightarrow>
                        w\<lparr>wd_shelf := record_event EVENT_COMICINFO_TAG_FAILED (iv_series_id iv) (iv_issue_id iv)
                            (download_of c) (source_title c) (source_provenance c)
                            ((base_data (e_prov (iv_evidence iv)) c)\<lparr>hd_path := Some (xr_path x), hd_error := Some err\<rparr>)
                            None (ip_now ctx) sh\<rparr>)
               | _ \<Rightarrow> w))"

definition convert_placed_cbr ::
  "import_services \<Rightarrow> import_settings \<Rightarrow> import_evaluation \<Rightarrow> execute_result \<Rightarrow> import_world \<Rightarrow> import_world" where
  "convert_placed_cbr sv ctx iv x w =
     (if ip_convert ctx \<and> (case iv_archive iv of None \<Rightarrow> False | Some a \<Rightarrow> af_kind a = ''rar'' \<and> af_safe_to_extract a) \<and>
         \<not> rewrite_forbidden (sv_io sv) (wd_shelf w) iv (xr_path x)
      then sv_convert sv (xr_file_id x) (xr_path x) w else w)"

definition PLACING_FAILED :: string where
  "PLACING_FAILED = ''import failed placing the file on disk: ''"

definition failure_reason_of :: "import_services \<Rightarrow> exec_error \<Rightarrow> string" where
  "failure_reason_of sv err =
     (case err of Exec_read_only why \<Rightarrow> why | Exec_assert \<Rightarrow> PLACING_FAILED | _ \<Rightarrow> PLACING_FAILED @ sv_text sv err)"

definition error_text :: "import_services \<Rightarrow> exec_error \<Rightarrow> string" where
  "error_text sv err = (case err of Exec_read_only why \<Rightarrow> why | Exec_assert \<Rightarrow> [] | _ \<Rightarrow> sv_text sv err)"

text \<open>An exception: the tables are those of the savepoint, the disk is the one it left.\<close>

definition block_on_error ::
  "import_services \<Rightarrow> import_settings \<Rightarrow> import_candidate \<Rightarrow> (string, string) odict \<Rightarrow> exec_error \<Rightarrow> shelf \<Rightarrow> volume \<Rightarrow>
   import_world \<times> candidate_outcome" where
  "block_on_error sv ctx c prov err sh v =
     (let why = failure_reason_of sv err
      in (\<lparr>wd_volume = v, wd_shelf = record_event_deduped EVENT_IMPORT_BLOCKED None None (download_of c) (source_title c)
             (source_provenance c) ((base_data prov c)\<lparr>hd_reasons := Some [why], hd_error := Some (error_text sv err)\<rparr>)
             None (ip_now ctx) sh\<rparr>,
          \<lparr>co_status = File_blocked, co_reasons = [why], co_series = None, co_issue = None, co_file_id = None,
           co_path = None, co_quarantine = None, co_upgraded = False\<rparr>))"

definition reject_candidate ::
  "import_settings \<Rightarrow> import_candidate \<Rightarrow> (string, string) odict \<Rightarrow> import_decision \<Rightarrow> import_world \<Rightarrow>
   import_world \<times> candidate_outcome" where
  "reject_candidate ctx c prov d w =
     (let failed = import_failed d; reasons = rejection_reasons d
      in (w\<lparr>wd_shelf := record_event_deduped (if failed then EVENT_IMPORT_FAILED else EVENT_IMPORT_BLOCKED)
              (id_series d) (id_issue d) (download_of c) (source_title c) (source_provenance c)
              ((base_data prov c)\<lparr>hd_reasons := Some reasons\<rparr>) None (ip_now ctx) (wd_shelf w)\<rparr>,
          \<lparr>co_status = (if failed then File_failed else File_blocked), co_reasons = reasons, co_series = id_series d,
           co_issue = id_issue d, co_file_id = None, co_path = None, co_quarantine = None, co_upgraded = False\<rparr>))"

definition finish_import ::
  "import_services \<Rightarrow> import_settings \<Rightarrow> import_candidate \<Rightarrow> (string, string) odict \<Rightarrow> import_evaluation \<Rightarrow> execute_result \<Rightarrow>
   import_world \<Rightarrow> import_world \<times> candidate_outcome" where
  "finish_import sv ctx c prov iv x w =
     (let payload = (base_data prov c)\<lparr>hd_path := Some (xr_path x), hd_size := Some (xr_size x), hd_duplicate := xr_duplicate x\<rparr>;
          w1 = w\<lparr>wd_shelf := record_event (if xr_upgraded x then EVENT_UPGRADE_REPLACED else EVENT_IMPORTED)
             (iv_series_id iv) (iv_issue_id iv) (download_of c) (source_title c) (source_provenance c) payload
             (xr_quarantine x) (ip_now ctx) (wd_shelf w)\<rparr>;
          w2 = tag_comicinfo sv ctx c iv x w1
      in (convert_placed_cbr sv ctx iv x w2,
          \<lparr>co_status = File_imported, co_reasons = [], co_series = iv_series_id iv, co_issue = iv_issue_id iv,
           co_file_id = Some (xr_file_id x), co_path = Some (xr_path x), co_quarantine = xr_quarantine x,
           co_upgraded = xr_upgraded x\<rparr>))"

definition import_one_candidate ::
  "import_services \<Rightarrow> import_settings \<Rightarrow> index_cache \<Rightarrow> import_candidate \<Rightarrow> import_world \<Rightarrow> import_world \<times> candidate_outcome" where
  "import_one_candidate sv ctx cache c w =
     (let ev = aggregate_candidate (sv_parse sv) (ip_reference_year ctx) c
      in case build_evaluation sv ctx cache w c ev of
           (prov, Inl err) \<Rightarrow> block_on_error sv ctx c prov (Exec_py err) (wd_shelf w) (wd_volume w)
         | (prov, Inr iv) \<Rightarrow>
             (if \<not> import_approved (decide iv) then reject_candidate ctx c prov (decide iv) w
              else (case execute_import sv ctx w c iv of
                      (w', Inl err) \<Rightarrow> block_on_error sv ctx c prov err (wd_shelf w) (wd_volume w')
                    | (w', Inr x) \<Rightarrow> finish_import sv ctx c prov iv x w')))"

section \<open>No body is lost\<close>

text \<open>The configured bins lie outside the set of paths.\<close>

definition bins_apart :: "io \<Rightarrow> import_settings \<Rightarrow> string set \<Rightarrow> bool" where
  "bins_apart e ctx D \<longleftrightarrow> shut_out e (ip_recycle ctx) D \<and> (ip_dump ctx \<noteq> [] \<longrightarrow> shut_out e (ip_dump ctx) D)"

lemma dispose_keeps:
  assumes "volume_ok v" and "honest_io e" and "ip_recycle ctx \<noteq> []" and "bins_apart e ctx D"
  shows "keeps D v (fst (dispose_existing e ctx sh duplicate p v))"
  using recycle_keeps [OF assms(1), of e "ip_recycle ctx" D p "today_of ctx"]
    dated_dir_keeps [OF assms(1), of e "ip_dump ctx" D p "today_of ctx"] assms
  by (auto simp: dispose_existing_def honest_io_def bins_apart_def dump_file_def split: option.split prod.split sum.split)

lemma dispose_clears:
  assumes "dispose_existing e ctx sh duplicate p v = (v', Inr q)" and "honest_io e" and "ip_recycle ctx \<noteq> []"
  shows "body_at v' (io_real e p) = None"
  using assms dated_dir_clears
  by (fastforce simp: dispose_existing_def honest_io_def dump_file_def recycle_file_def
      split: option.splits prod.splits sum.splits if_splits)

lemma disposed_keeps:
  assumes "volume_ok v" and "honest_io e" and "ip_recycle ctx \<noteq> []" and "bins_apart e ctx D"
  shows "keeps D v (fst (disposed e ctx sh r wanted v))"
  using dispose_keeps [OF assms] assms(1) by (simp add: disposed_def split: option.split)

lemma cleanup_source_keeps:
  "volume_ok v \<Longrightarrow> keeps (junk_below (io_real e (if_container_root c))) v (fst (cleanup_source e ctx c v))"
  by (simp add: cleanup_source_def cleanup_keeps)

text \<open>
  The destination of a placement has room: it holds nothing, or the file the import replaces under
  that very path.
\<close>

definition destination_free :: "io \<Rightarrow> volume \<Rightarrow> import_evaluation \<Rightarrow> string \<Rightarrow> bool" where
  "destination_free e v iv dest \<longleftrightarrow>
     file_at v (io_real e dest) = None \<or> map_option (io_real e) (iv_existing_path iv) = Some (io_real e dest)"

lemma place_and_dispose_keeps:
  assumes ok: "volume_ok v" and io: "honest_io e" and bin: "ip_recycle ctx \<noteq> []"
    and out: "bins_apart e ctx D" "io_real e dest \<notin> D"
    and free: "destination_free e v iv dest"
    and r: "r = replacement_of e ctx c iv s dest v"
  shows "keeps D v (fst (place_and_dispose e ctx sh c r dest v))"
proof (cases "rp_in_place r")
  case True
  with disposed_keeps [OF ok io bin out(1), of sh r "disposes_a_file r"] show ?thesis
    by (auto simp: place_and_dispose_def split: prod.split sum.split)
next
  case out_of_place: False
  note keep_d = disposed_keeps [OF _ io bin out(1)]
  let ?early = "rp_dest_is_existing r \<and> \<not> rp_source_is_existing r"
  obtain v1 q1 where d1: "disposed e ctx sh r ?early v = (v1, q1)" by force
  have k1: "keeps D v v1" using keep_d [OF ok, of sh r ?early] d1 by simp
  show ?thesis
  proof (cases q1)
    case (Inl err)
    with out_of_place d1 k1 show ?thesis by (simp add: place_and_dispose_def)
  next
    case (Inr q)
    have room: "has_room v1 (io_real e (if_local_path c)) (io_real e dest)"
    proof (cases ?early)
      case True
      then obtain p where p: "iv_existing_path iv = Some p"
        by (auto simp: r replacement_of_def Let_def split: option.splits)
      have "io_real e p = io_real e dest"
        using True free p by (auto simp: r replacement_of_def Let_def same_physical_file_def destination_free_def
            split: if_splits)
      moreover have "body_at v1 (io_real e p) = None"
        using d1 True Inr p dispose_clears [OF _ io bin] by (auto simp: disposed_def r replacement_of_def Let_def)
      ultimately show ?thesis by (simp add: has_room_def)
    next
      case late: False
      with d1 have v1: "v1 = v" by (auto simp: disposed_def split: option.splits)
      show ?thesis
      proof (cases "file_at v (io_real e dest)")
        case None
        with v1 show ?thesis by (simp add: has_room_def body_at_def)
      next
        case (Some k)
        with free obtain p where p: "iv_existing_path iv = Some p" "io_real e p = io_real e dest"
          by (auto simp: destination_free_def)
        then have "rp_dest_is_existing r"
          using Some out_of_place
          by (auto simp: r replacement_of_def Let_def same_physical_file_def path_exists_def)
        with late have "same_physical_file e v p (if_local_path c)"
          using p by (auto simp: r replacement_of_def Let_def)
        then have "file_at v (io_real e (if_local_path c)) = file_at v (io_real e dest)"
          using p Some by (auto simp: same_physical_file_def split: if_splits)
        with v1 show ?thesis by (simp add: has_room_def body_at_def)
      qed
    qed
    let ?place = "place_file e (ip_transfer ctx) (ip_margin ctx) (io_real e (if_local_path c)) (io_real e dest) v1"
    obtain v2 r2 where p2: "?place = (v2, r2)" by force
    have k2: "keeps D v v2"
      using place_keeps [OF keeps_ok [OF k1] _ room out(2), of e "ip_transfer ctx" "ip_margin ctx"] io p2 keeps_trans [OF k1]
      by (simp add: honest_io_def)
    obtain v3 q3 where d3: "disposed e ctx sh r (disposes_a_file r \<and> \<not> rp_dest_is_existing r) v2 = (v3, q3)" by force
    have "keeps D v v3"
      using keeps_trans [OF k2] keep_d [OF keeps_ok [OF k2], of sh r "disposes_a_file r \<and> \<not> rp_dest_is_existing r"] d3 by simp
    with k2 d1 Inr p2 d3 out_of_place show ?thesis
      by (auto simp: place_and_dispose_def split: option.split sum.split)
  qed
qed

lemma register_file_keeps:
  assumes "volume_ok v"
  shows "keeps (junk_below (io_real (sv_io sv) (if_container_root c))) v
    (wd_volume (fst (register_file sv ctx sh c iv i r placed q v)))"
  using cleanup_source_keeps [OF assms, of "sv_io sv" c ctx] assms
  by (auto simp: register_file_def Let_def split: option.split prod.split sum.split)

text \<open>C4: With a recycle bin configured, importing a file loses none: whatever system call fails and
  wherever the run stops, every file that was on the disk, the one replaced included, is still there
  under some path afterwards. The exceptions are the junk files the clean-up of the download folder
  deletes, and a destination that holds a file other than the one being replaced.\<close>

theorem import_loses_no_file:
  assumes "volume_ok (wd_volume w)" and "honest_io (sv_io sv)" and "ip_recycle ctx \<noteq> []"
    and "bins_apart (sv_io sv) ctx (junk_below (io_real (sv_io sv) (if_container_root c)))"
    and free: "\<And>s i dest. execution_rows (wd_shelf w) iv = Some (s, i) \<Longrightarrow> destination sv ctx c iv s i = Inr dest \<Longrightarrow>
      destination_free (sv_io sv) (wd_volume w) iv dest \<and>
      io_real (sv_io sv) dest \<notin> junk_below (io_real (sv_io sv) (if_container_root c))"
    and b: "body_at (wd_volume w) p = Some b" "p \<notin> junk_below (io_real (sv_io sv) (if_container_root c))"
  shows "\<exists>q. body_at (wd_volume (fst (execute_import sv ctx w c iv))) q = Some b"
proof -
  let ?D = "junk_below (io_real (sv_io sv) (if_container_root c))"
  have refl: "keeps ?D (wd_volume w) (wd_volume w)" using assms(1) by simp
  have "keeps ?D (wd_volume w) (wd_volume (fst (execute_import sv ctx w c iv)))"
  proof (cases "execution_rows (wd_shelf w) iv")
    case None
    with refl show ?thesis by (simp add: execute_import_def)
  next
    case (Some si)
    obtain s i where si: "si = (s, i)" by force
    show ?thesis
    proof (cases "destination sv ctx c iv s i")
      case (Inl err)
      with refl Some si show ?thesis by (simp add: execute_import_def)
    next
      case (Inr dest)
      define r where "r = replacement_of (sv_io sv) ctx c iv s dest (wd_volume w)"
      from free [OF Some [unfolded si] Inr] have f: "destination_free (sv_io sv) (wd_volume w) iv dest"
        "io_real (sv_io sv) dest \<notin> ?D" by simp_all
      obtain v x where v: "place_and_dispose (sv_io sv) ctx (wd_shelf w) c r dest (wd_volume w) = (v, x)" by force
      have k: "keeps ?D (wd_volume w) v"
        using place_and_dispose_keeps [OF assms(1-4) f(2,1) r_def, of "wd_shelf w"] v by simp
      show ?thesis
        using refl k keeps_trans [OF k register_file_keeps [OF keeps_ok [OF k]]] Some si Inr v
        by (auto simp: execute_import_def Let_def r_def [symmetric] split: option.split sum.split)
    qed
  qed
  with b show ?thesis unfolding keeps_def by blast
qed

section \<open>Witnesses\<close>

lemma pieces_non_empty: "x \<in> set (pieces cls s) \<Longrightarrow> x \<noteq> []"
  by (induction cls s rule: pieces.induct) (auto split: if_splits)

lemma path_parent_non_empty: "path_parent p \<noteq> []"
proof -
  have "join_parts xs \<noteq> []" if "xs \<noteq> []" "\<forall>x \<in> set xs. x \<noteq> []" for xs
    using that by (induction xs rule: join_parts.induct) auto
  moreover have "\<forall>x \<in> set (butlast (path_parts p)). x \<noteq> []"
    by (auto simp: path_parts_def dest!: in_set_butlastD pieces_non_empty)
  ultimately show ?thesis by (simp add: path_parent_def path_render_def)
qed

text \<open>A candidate without a container has no clean-up.\<close>

lemma junk_below_nowhere: "junk_below [] = {}"
proof -
  have empty: "[] \<in> set (ancestors n p) \<Longrightarrow> p = []" for n p
    by (induction n p rule: ancestors.induct) (auto simp: path_parent_non_empty split: if_splits)
  have "str_lower (path_name []) \<notin> set DEFAULT_JUNK_NAMES" by code_simp
  with empty have "p \<notin> junk_below []" for p unfolding junk_below_def by blast
  then show ?thesis by blast
qed

definition empty_parse :: name_parse where
  "empty_parse = \<lparr>series_name = None, p_key = None, p_issue = None, volume_ordinal = None, volume_year = None,
     p_year = None, fix_revision = None, p_issue_tag = None, p_type = None, failure = None, np_range = None,
     np_booktype = Bt_issue, np_group = None, np_cv_issue_id = None\<rparr>"

definition demo_services :: import_services where
  "demo_services =
     \<lparr>sv_parse = (\<lambda>_ _ _. empty_parse),
      sv_inspect = (\<lambda>_. \<lparr>af_ok = True, af_kind = ''zip'', af_reason = None, af_image_count = 20, af_listed = True,
        af_safe_to_extract = True\<rparr>),
      sv_embedded = (\<lambda>_ _. None), sv_tag = (\<lambda>_ _ b. Inr b), sv_convert = (\<lambda>_ _ w. w), sv_text = (\<lambda>_. []),
      sv_io = demo_io\<rparr>"

definition demo_settings :: "string \<Rightarrow> import_settings" where
  "demo_settings bin =
     \<lparr>ip_library_root = ''/lib'', ip_reference_year = 2025, ip_margin = 10, ip_junk_floor = 1, ip_rename = False,
      ip_file_template = DEFAULT_FILE_TEMPLATE, ip_transfer = Move, ip_library_mode = ''in_place'', ip_recycle = bin,
      ip_constraint = CONSTRAINT_LARGER_SIZE, ip_dump = [], ip_tag = False, ip_convert = False, ip_now = 0\<rparr>"

definition demo_file_row :: "int \<Rightarrow> int \<Rightarrow> string \<Rightarrow> int \<Rightarrow> int option \<Rightarrow> file_row" where
  "demo_file_row k i path sz edition =
     \<lparr>fr_id = k, fr_issue = i, fr_path = path, fr_size = sz, fr_added_at = 0, fr_fix = None, fr_pages = None,
      fr_edition = edition\<rparr>"

definition demo_world :: "file_row list \<Rightarrow> (string \<times> string) list \<Rightarrow> import_world" where
  "demo_world rows fs = \<lparr>wd_volume = demo_volume fs, wd_shelf = demo_shelf\<lparr>sh_files := rows\<rparr>\<rparr>"

definition old_and_new :: import_world where
  "old_and_new = demo_world [demo_file_row 1 40 ''/lib/Saga/old.cbr'' 3 None]
     [(''/lib/Saga/old.cbr'', ''old''), (''/dl/1.cbz'', ''new'')]"

definition loose_import :: import_candidate where
  "loose_import = demo_import ''1.cbz'' None None\<lparr>if_container_root := []\<rparr>"

definition upgrade_evaluation :: import_evaluation where
  "upgrade_evaluation = demo_evaluation\<lparr>iv_existing_path := Some ''/lib/Saga/old.cbr''\<rparr>"

lemma execute_step:
  assumes "execution_rows (wd_shelf w) iv = Some (s, i)" and "destination sv ctx c iv s i = Inr dest"
    and "r = replacement_of (sv_io sv) ctx c iv s dest (wd_volume w)"
    and "execution_boundary (sv_io sv) ctx (wd_shelf w) c s r = None"
    and "snd (place_and_dispose (sv_io sv) ctx (wd_shelf w) c r dest (wd_volume w)) = Inr (placed, q)"
  shows "execute_import sv ctx w c iv = register_file sv ctx (wd_shelf w) c iv i r placed q
    (fst (place_and_dispose (sv_io sv) ctx (wd_shelf w) c r dest (wd_volume w)))"
  using assms by (cases "place_and_dispose (sv_io sv) ctx (wd_shelf w) c r dest (wd_volume w)")
    (simp add: execute_import_def Let_def)

text \<open>Without renaming the destination is the file's own name in the series folder.\<close>

lemma kept_name_destination:
  "\<not> ip_rename ctx \<Longrightarrow> destination sv ctx c iv s i =
     (case safe_join (io_real (sv_io sv)) (sr_path s) [if_file_name c] of Inl _ \<Rightarrow> Inl Exec_confined | Inr dest \<Rightarrow> Inr dest)"
  by (simp add: destination_def render_filename_def)

lemma demo_join: "safe_join (\<lambda>p. p) ''/lib/Saga'' [''1.cbz''] = Inr ''/lib/Saga/1.cbz''"
  by code_simp

abbreviation saga_row :: lib_series_row where
  "saga_row \<equiv> demo_series_row 5 ''Saga'' ''saga'' ''/lib/Saga''"

lemma demo_destination:
  "if_file_name c = ''1.cbz'' \<Longrightarrow>
     destination demo_services (demo_settings bin) c iv saga_row i = Inr ''/lib/Saga/1.cbz''"
  by (simp add: kept_name_destination demo_settings_def demo_services_def demo_io_def demo_series_row_def demo_join)

lemma demo_rows:
  "execution_rows (wd_shelf (demo_world rows fs)) (demo_evaluation\<lparr>iv_existing_path := e\<rparr>)
     = Some (saga_row, demo_lib_issue 40 5 ''1'')"
  by (simp add: execution_rows_def demo_world_def demo_shelf_def demo_evaluation_def demo_series_row_def demo_lib_issue_def)

lemma old_file:
  "file_at (wd_volume old_and_new) ''/lib/Saga/1.cbz'' = None"
  "body_at (wd_volume old_and_new) ''/lib/Saga/old.cbr'' = Some \<lparr>bd_size = 3, bd_data = ''old''\<rparr>"
  by code_simp+

lemma import_loses_no_file_witness:
  "\<exists>q. body_at (wd_volume (fst (execute_import demo_services (demo_settings ''/bin'') old_and_new loose_import upgrade_evaluation))) q
     = Some \<lparr>bd_size = 3, bd_data = ''old''\<rparr>"
proof (rule import_loses_no_file)
  have none: "junk_below (io_real (sv_io demo_services) (if_container_root loose_import)) = {}"
    by (simp add: loose_import_def demo_services_def demo_io_def junk_below_nowhere)
  show "volume_ok (wd_volume old_and_new)" by (simp add: old_and_new_def demo_world_def demo_volume_ok)
  show "honest_io (sv_io demo_services)" by (simp add: honest_io_def demo_services_def) (simp add: demo_io_def)
  show "ip_recycle (demo_settings ''/bin'') \<noteq> []" by (simp add: demo_settings_def)
  show "bins_apart (sv_io demo_services) (demo_settings ''/bin'')
      (junk_below (io_real (sv_io demo_services) (if_container_root loose_import)))"
    unfolding none by (simp add: bins_apart_def shut_out_def)
  show "body_at (wd_volume old_and_new) ''/lib/Saga/old.cbr'' = Some \<lparr>bd_size = 3, bd_data = ''old''\<rparr>"
    by (rule old_file)
  show "''/lib/Saga/old.cbr'' \<notin> junk_below (io_real (sv_io demo_services) (if_container_root loose_import))"
    unfolding none by simp
  fix s i dest
  assume "execution_rows (wd_shelf old_and_new) upgrade_evaluation = Some (s, i)"
    "destination demo_services (demo_settings ''/bin'') loose_import upgrade_evaluation s i = Inr dest"
  then have "dest = ''/lib/Saga/1.cbz''"
    by (auto simp: demo_rows demo_destination old_and_new_def upgrade_evaluation_def loose_import_def demo_import_def)
  then show "destination_free (sv_io demo_services) (wd_volume old_and_new) upgrade_evaluation dest \<and>
      io_real (sv_io demo_services) dest \<notin> junk_below (io_real (sv_io demo_services) (if_container_root loose_import))"
    unfolding none by (simp add: destination_free_def demo_services_def demo_io_def old_file)
qed

section \<open>Where files are lost\<close>

definition somewhere :: "volume \<Rightarrow> string \<Rightarrow> bool" where
  "somewhere v d \<longleftrightarrow> list_ex (\<lambda>(p, _). map_option bd_data (body_at v p) = Some d) (v_files v)"

text \<open>
  A destination that holds the file of another issue is overwritten by the move, and only then does
  the unique path reject the row: the candidate is blocked, the other file is gone, a bin or not.
\<close>

definition occupied_world :: import_world where
  "occupied_world = demo_world [demo_file_row 1 41 ''/lib/Saga/1.cbz'' 5 None]
     [(''/lib/Saga/1.cbz'', ''other''), (''/dl/1.cbz'', ''new'')]"

lemma occupied_destination_is_overwritten:
  defines "iv \<equiv> demo_evaluation\<lparr>iv_existing_path := None\<rparr>" and "ctx \<equiv> demo_settings ''/bin''"
  shows "somewhere (wd_volume occupied_world) ''other''"
    and "snd (execute_import demo_services ctx occupied_world loose_import iv) = Inl Exec_integrity"
    and "\<not> somewhere (wd_volume (fst (execute_import demo_services ctx occupied_world loose_import iv))) ''other''"
proof -
  let ?sh = "wd_shelf occupied_world" and ?v = "wd_volume occupied_world" and ?e = "sv_io demo_services"
  let ?r = "replacement_of ?e ctx loose_import iv saga_row ''/lib/Saga/1.cbz'' ?v"
  let ?placed = "place_and_dispose ?e ctx ?sh loose_import ?r ''/lib/Saga/1.cbz'' ?v"
  let ?done = "register_file demo_services ctx ?sh loose_import iv (demo_lib_issue 40 5 ''1'') ?r ''/lib/Saga/1.cbz'' None (fst ?placed)"
  show "somewhere ?v ''other''" by code_simp
  have "execute_import demo_services ctx occupied_world loose_import iv = ?done"
  proof (rule execute_step [OF _ _ refl])
    show "execution_rows ?sh iv = Some (saga_row, demo_lib_issue 40 5 ''1'')"
      by (simp add: iv_def occupied_world_def demo_rows)
    show "destination demo_services ctx loose_import iv saga_row (demo_lib_issue 40 5 ''1'') = Inr ''/lib/Saga/1.cbz''"
      by (simp add: ctx_def demo_destination loose_import_def demo_import_def)
    show "execution_boundary ?e ctx ?sh loose_import saga_row ?r = None"
      unfolding ctx_def iv_def by code_simp
    show "snd ?placed = Inr (''/lib/Saga/1.cbz'', None)"
      unfolding ctx_def iv_def by code_simp
  qed
  moreover have "snd ?done = Inl Exec_integrity" "\<not> somewhere (wd_volume (fst ?done)) ''other''"
    unfolding ctx_def iv_def by code_simp+
  ultimately show "snd (execute_import demo_services ctx occupied_world loose_import iv) = Inl Exec_integrity"
    "\<not> somewhere (wd_volume (fst (execute_import demo_services ctx occupied_world loose_import iv))) ''other''"
    by simp_all
qed

text \<open>
  An issue owned through a collected edition has a row of size zero at the path of the edition's file.
  The first single that arrives for it is larger and replaces it: the edition's file is deleted, here
  inside a read-only reference library.
\<close>

definition grabbed_import :: "int \<Rightarrow> import_candidate" where
  "grabbed_import i = loose_import\<lparr>if_grab_series_id := Some 5, if_grab_issue_id := Some i\<rparr>"

definition edition_world :: import_world where
  "edition_world =
     (let w = demo_world [demo_file_row 1 40 ''/ref/v1.cbz'' 0 (Some 70), demo_file_row 2 70 ''/ref/v1.cbz'' 5 None]
            [(''/ref/v1.cbz'', ''trade''), (''/dl/1.cbz'', ''new'')]
      in w\<lparr>wd_shelf := (wd_shelf w)\<lparr>sh_roots := [\<lparr>rf_id = 1, rf_path = ''/lib'', rf_read_only = False\<rparr>,
           \<lparr>rf_id = 2, rf_path = ''/ref'', rf_read_only = True\<rparr>]\<rparr>\<rparr>)"

definition edition_evaluation :: import_evaluation where
  "edition_evaluation = (case snd (build_evaluation demo_services (demo_settings []) (\<lambda>_. None) edition_world (grabbed_import 40)
     (aggregate_candidate (sv_parse demo_services) 2025 (grabbed_import 40))) of Inr iv \<Rightarrow> iv | Inl _ \<Rightarrow> demo_evaluation)"

lemma edition_file_is_discarded:
  defines "ctx \<equiv> demo_settings []"
  shows "path_is_read_only demo_io (wd_shelf edition_world) ''/ref/v1.cbz''"
    and "somewhere (wd_volume edition_world) ''trade''"
    and "import_approved (decide edition_evaluation)"
    and "isl (snd (execute_import demo_services ctx edition_world (grabbed_import 40) edition_evaluation)) = False"
    and "\<not> somewhere (wd_volume (fst (execute_import demo_services ctx edition_world (grabbed_import 40) edition_evaluation))) ''trade''"
proof -
  let ?sh = "wd_shelf edition_world" and ?v = "wd_volume edition_world" and ?e = "sv_io demo_services"
    and ?c = "grabbed_import 40" and ?iv = edition_evaluation
  let ?r = "replacement_of ?e ctx ?c ?iv saga_row ''/lib/Saga/1.cbz'' ?v"
  let ?placed = "place_and_dispose ?e ctx ?sh ?c ?r ''/lib/Saga/1.cbz'' ?v"
  let ?done = "register_file demo_services ctx ?sh ?c ?iv (demo_lib_issue 40 5 ''1'') ?r ''/lib/Saga/1.cbz'' None (fst ?placed)"
  show "path_is_read_only demo_io ?sh ''/ref/v1.cbz''" "somewhere ?v ''trade''" "import_approved (decide ?iv)"
    by code_simp+
  have "execute_import demo_services ctx edition_world ?c ?iv = ?done"
  proof (rule execute_step [OF _ _ refl])
    show "execution_rows ?sh ?iv = Some (saga_row, demo_lib_issue 40 5 ''1'')" by code_simp
    show "destination demo_services ctx ?c ?iv saga_row (demo_lib_issue 40 5 ''1'') = Inr ''/lib/Saga/1.cbz''"
      by (simp add: ctx_def demo_destination grabbed_import_def loose_import_def demo_import_def)
    show "execution_boundary ?e ctx ?sh ?c saga_row ?r = None" unfolding ctx_def by code_simp
    show "snd ?placed = Inr (''/lib/Saga/1.cbz'', None)" unfolding ctx_def by code_simp
  qed
  moreover have "isl (snd ?done) = False" "\<not> somewhere (wd_volume (fst ?done)) ''trade''"
    unfolding ctx_def by code_simp+
  ultimately show "isl (snd (execute_import demo_services ctx edition_world ?c ?iv)) = False"
    "\<not> somewhere (wd_volume (fst (execute_import demo_services ctx edition_world ?c ?iv))) ''trade''"
    by simp_all
qed

text \<open>
  An approved file whose series or issue has left the library, as a stale grab record can name one, is
  stopped by an assertion: it is blocked for a reason that says nothing.
\<close>

lemma vanished_issue_blocks_without_reason:
  assumes "build_evaluation sv ctx cache w c (aggregate_candidate (sv_parse sv) (ip_reference_year ctx) c) = (prov, Inr iv)"
    and "import_approved (decide iv)" and "execution_rows (wd_shelf w) iv = None"
  shows "co_status (snd (import_one_candidate sv ctx cache c w)) = File_blocked \<and>
    co_reasons (snd (import_one_candidate sv ctx cache c w)) = [PLACING_FAILED]"
  using assms by (simp add: import_one_candidate_def execute_import_def block_on_error_def failure_reason_of_def Let_def)

end
