(* ===== verification/Spec2Isabelle.thy ===== *)
theory Spec2Isabelle
  imports Backoff Scheduler CV_Gate Acquisition Ddl_Queue Accounts Reader_Cache Naming Pull_View Import_Execute
begin

text \<open>
  A model of the core of foragerr, a manager of a comic library (\<open>backend/src/foragerr/\<close>, all paths
  below are under it). The program watches series, finds missing issues on indexers and a
  direct-download site, hands them to download clients, imports what completes, keeps the weekly
  release list, and serves all of this behind one login.

  \<^bold>\<open>Parts and theories.\<close>

  \<^item> \<open>Prelude\<close>, \<open>Window\<close>, \<open>Text\<close>: Python's errors as values, its numbers, tables as lists of rows with
    the locale \<open>keyed_store\<close>, ordered dictionaries; the sliding windows shared by the login throttle
    and the ComicVine gate; text folding and the matching key (\<open>parser/normalize.py\<close>,
    \<open>search/titles.py\<close>).
  \<^item> \<open>Command_Queue\<close>, \<open>Scheduler\<close> (\<open>commands/service.py\<close>, \<open>registry.py\<close>, \<open>scheduler.py\<close>): the persistent
    queue with its worker pools, exclusivity groups and orphan recovery, and the interval tasks that
    feed it.
  \<^item> \<open>Backoff\<close> (\<open>providers/backoff.py\<close>) and \<open>CV_Gate\<close> (\<open>metadata/ratelimit.py\<close>): the back-off ladder of
    every provider, and the hourly budget of ComicVine requests.
  \<^item> \<open>Issue_Order\<close>, \<open>Decision\<close>, \<open>Ranking\<close> (\<open>library/ordering.py\<close>, \<open>parser/\<close>, \<open>search/\<close>): issue numbers and
    their order, the verdict on a release, the choice among releases.
  \<^item> \<open>Grab\<close>, \<open>Downloads\<close>, \<open>Path_Map\<close>, \<open>Imports\<close>, \<open>Acquisition\<close> (\<open>downloads/\<close>, \<open>sources/\<close>, \<open>api/\<close>): the hand-off
    to a client, the life of a tracked download, the paths of a remote client, the import drain and
    the loop from a failure back to the search.
  \<^item> \<open>Import_Evidence\<close>, \<open>Import_Reconcile\<close>, \<open>Import_Decide\<close>, \<open>Import_Files\<close>, \<open>Import_Execute\<close> (\<open>importer/\<close>,
    \<open>library/matching.py\<close>, \<open>library/read_only.py\<close>): what the importer knows of a file, the issue it maps the
    file to, the ten specifications that approve it, the placement and disposal of files on a disk of
    names and inodes, and the run of one candidate with its rows and its history.
  \<^item> \<open>Egress\<close>, \<open>Http_Client\<close>, \<open>Url\<close>, \<open>Covers\<close>, \<open>Safe_Paths\<close> (\<open>http/\<close>, \<open>covers.py\<close>, \<open>security/paths.py\<close>): which
    hosts, URLs and paths may be reached.
  \<^item> \<open>Ddl_Links\<close>, \<open>Ddl_Adapter\<close>, \<open>Ddl_Fetch\<close>, \<open>Ddl_Queue\<close> (\<open>ddl/\<close>): the direct-download site, the resumable
    transfer and the queue worker with its host fail-over.
  \<^item> \<open>Auth_Limit\<close>, \<open>Sessions\<close>, \<open>Credentials\<close>, \<open>Perimeter\<close>, \<open>Reader_Cache\<close>, \<open>Accounts\<close> (\<open>auth/\<close>):
    throttle, sessions, password hashes, the gate in front of every request, its caches, and the
    account operations.
  \<^item> \<open>Naming\<close> (\<open>naming.py\<close>, \<open>importer/renamer.py\<close>): filename and folder templates.
  \<^item> \<open>Calendar\<close>, \<open>Pull_Store\<close>, \<open>Pull_Match\<close>, \<open>Pull_Source\<close>, \<open>Pull_Refresh\<close>, \<open>Pull_View\<close> (\<open>pull/\<close>): ISO weeks, the stored weekly list, its
    matching to the library, the reading of the source, the refresh command and the merged view.

  \<^bold>\<open>How the code is modelled.\<close> A class or table is a record, an enum a datatype with the source's
  cases, an operation one definition over an explicit state; a database transaction is one atomic
  step, whose exception leaves the tables as they were. An exception is the left of a sum. The
  interleaving of workers and requests is an inductive step relation (\<open>sys_step\<close>, \<open>ddl_system\<close>,
  \<open>gate_step\<close>, \<open>session_step\<close>, \<open>download_step\<close>, \<open>reader_step\<close>), one rule per stretch between two
  sessions or waits: the drain of a download (\<open>process_one\<close>) is claim, intake, recovery, probe, commit
  and side effects, each a step of its own, and \<open>drain_is_a_run\<close> says that a drain left alone is a run
  of them. One attempt of the site's worker on a link is one step. Clocks, digests, password hashing,
  base64, pydantic validation, DNS, \<open>realpath\<close>, the listing of an archive, the network and the site's HTML
  tokens, the filename parser, the inspection and the rewrite of an archive are arguments of the
  definitions that use them. A system call may fail by an argument of the file operations, which keep
  what a failed call leaves on the disk. Datetimes are integer microseconds, dates
  integer days, floats reals or exact rationals; text is Latin-1, bytes are characters.

  \<^bold>\<open>What the lemmas show.\<close> Each theory proves the well-formedness of its state and that every
  operation keeps it, then what the operations do on each branch. Refinements relate the throttle to
  the list of recent failures, the ladder to a counter, the tasks to a timetable, the engine to its
  policy, the import specifications to theirs and the stored ordering key to the reading order. The
  properties that span components are in \<open>Acquisition\<close>, \<open>Ddl_Queue\<close>, \<open>Reader_Cache\<close>, \<open>Pull_Refresh\<close>,
  \<open>Pull_View\<close>, \<open>Import_Decide\<close> (an upgrade the search approves is not turned away at import) and
  \<open>Import_Execute\<close> (an import loses no file, over the whole of placement, disposal, rows and clean-up).

  \<^bold>\<open>Bounds and fuel.\<close> A redirect walk takes the source's \<open>MAX_REDIRECTS\<close> as its fuel and fails beyond it,
  as the source does; a queue worker ends within 39 steps, because every failed host is one of a
  fixed list; the search for a free name in a disposal folder tries one name more than the disk has
  paths, and the clean-up of emptied directories climbs at most the parts of its path; other loops
  recur on their data or on a measure.

  \<^bold>\<open>Not modelled.\<close> The parse of a whole filename, the conversion of archives, the intake of rescans and
  manual imports, the rename and recycle commands, the store sources, the ComicVine client and indexer
  protocols, the health page, the OPDS feed, most REST routes and the database engine: long sequences of
  queries, file-system effects and external formats around the decisions modelled here. The manifest
  lists each with its reason.
\<close>

end
